(* ===== verification/ChainPrelude.thy ===== *)
theory ChainPrelude
  imports Main
    "HOL-Library.Word"
    "HOL-Library.Finite_Map"
    "HOL-Library.List_Lexorder"
    "HOL-Library.Char_ord"
begin

text \<open>
  Shared vocabulary of the development: the machine integers of the Go sources, Go's maps as
  finite maps, the result type of fallible operations, and the generic lemmas on sums over
  finite maps that the conservation proofs of the state machine use.

  \<^item> \<open>uint8\<close>, \<open>uint32\<close>, \<open>uint64\<close> are words of that width, so \<open>+\<close>, \<open>-\<close> and \<open>*\<close> wrap as they
    do in Go; \<open>int64\<close> is also a 64-bit word, read with \<open>sint\<close> where the source compares signed
    values.
  \<^item> A Go string is a sequence of bytes, modelled as a \<open>string\<close> (each \<open>char\<close> is one byte).
  \<^item> A fallible operation returns \<open>'e + 'a\<close>, \<open>Inl\<close> for the error; \<open>rbind\<close> is the early return
    \<open>if err != nil { return err }\<close>.
\<close>

unbundle bit_operations_syntax

type_synonym u8 = "8 word"
type_synonym u32 = "32 word"
type_synonym u64 = "64 word"
type_synonym i64 = "64 word"
type_synonym bytes = "8 word list"

named_theorems codec_simps \<open>how each reader acts on what the matching writer wrote\<close>

subsection \<open>Fallible operations\<close>

definition rbind :: "'e + 'a \<Rightarrow> ('a \<Rightarrow> 'e + 'b) \<Rightarrow> 'e + 'b" where
  "rbind m f = (case m of Inl e \<Rightarrow> Inl e | Inr x \<Rightarrow> f x)"

lemma rbind_Inl [simp]: "rbind (Inl e) f = Inl e"
  and rbind_Inr [simp]: "rbind (Inr x) f = f x"
  by (simp_all add: rbind_def)

lemma rbind_eq_Inr: "rbind m f = Inr y \<longleftrightarrow> (\<exists>x. m = Inr x \<and> f x = Inr y)"
  by (cases m) auto

lemma rbind_eq_Inl: "rbind m f = Inl e \<longleftrightarrow> m = Inl e \<or> (\<exists>x. m = Inr x \<and> f x = Inl e)"
  by (cases m) auto

lemma rbind_InrE:
  assumes "rbind m f = Inr y"
  obtains x where "m = Inr x" and "f x = Inr y"
  using assms by (auto simp: rbind_eq_Inr)

text \<open>A guard: \<open>if !cond { return err }\<close>.\<close>

definition guard_err :: "bool \<Rightarrow> 'e \<Rightarrow> 'e + unit" where
  "guard_err b e = (if b then Inr () else Inl e)"

lemma guard_err_Inr [simp]: "guard_err b e = Inr u \<longleftrightarrow> b"
  by (simp add: guard_err_def)

lemma guard_err_Inl [simp]: "guard_err b e = Inl e' \<longleftrightarrow> \<not> b \<and> e' = e"
  by (auto simp: guard_err_def)

subsection \<open>Signed readings of 64-bit words\<close>

definition i64_le :: "i64 \<Rightarrow> i64 \<Rightarrow> bool" where
  "i64_le a b \<longleftrightarrow> sint a \<le> sint b"

definition i64_less :: "i64 \<Rightarrow> i64 \<Rightarrow> bool" where
  "i64_less a b \<longleftrightarrow> sint a < sint b"

subsection \<open>Bytes of a string\<close>

definition str_bytes :: "string \<Rightarrow> bytes" where
  "str_bytes s = map (\<lambda>c. word_of_nat (of_char c)) s"

definition bytes_str :: "bytes \<Rightarrow> string" where
  "bytes_str bs = map (\<lambda>b. char_of (unat b)) bs"

lemma length_str_bytes [simp]: "length (str_bytes s) = length s"
  by (simp add: str_bytes_def)

lemma length_bytes_str [simp]: "length (bytes_str bs) = length bs"
  by (simp add: bytes_str_def)

lemma unat_of_char [simp]: "unat (word_of_nat (of_char c) :: u8) = of_char c"
proof -
  have "(of_char c :: nat) < 256"
    by (rule nat_of_char_less_256)
  then show ?thesis
    by (simp add: unat_of_nat)
qed

lemma bytes_str_bytes [simp]: "bytes_str (str_bytes s) = s"
  by (induction s) (simp_all add: str_bytes_def bytes_str_def)

lemma str_bytes_inject [simp]: "str_bytes s = str_bytes t \<longleftrightarrow> s = t"
  by (metis bytes_str_bytes)

subsection \<open>Sums over finite maps\<close>

text \<open>
  \<open>fmsum f m\<close> adds \<open>f v\<close> over the values of a Go map; every update of a map changes the sum by
  the difference of the new and the old value.
\<close>

definition fmsum :: "('v \<Rightarrow> 'a::ab_group_add) \<Rightarrow> ('k, 'v) fmap \<Rightarrow> 'a" where
  "fmsum f m = (\<Sum>k\<in>fset (fmdom m). f (the (fmlookup m k)))"

definition fmval :: "('v \<Rightarrow> 'a::ab_group_add) \<Rightarrow> 'v option \<Rightarrow> 'a" where
  "fmval f x = (case x of None \<Rightarrow> 0 | Some v \<Rightarrow> f v)"

lemma fmval_simps [simp]: "fmval f None = 0" "fmval f (Some v) = f v"
  by (simp_all add: fmval_def)

lemma fmsum_empty [simp]: "fmsum f fmempty = 0"
  by (simp add: fmsum_def)

lemma fmsum_remove: "fmsum f m = fmval f (fmlookup m k) + (\<Sum>j\<in>fset (fmdom m) - {k}. f (the (fmlookup m j)))"
proof (cases "k \<in> fset (fmdom m)")
  case True
  then obtain v where v: "fmlookup m k = Some v"
    by (auto simp: fmlookup_dom_iff)
  with True show ?thesis
    by (simp add: fmsum_def sum.remove [where x = k])
next
  case False
  then show ?thesis
    by (simp add: fmsum_def fmdom_notD)
qed

lemma fmsum_upd:
  "fmsum f (fmupd k v m) = fmsum f m - fmval f (fmlookup m k) + f v"
proof -
  have "(\<Sum>j\<in>fset (fmdom (fmupd k v m)) - {k}. f (the (fmlookup (fmupd k v m) j)))
      = (\<Sum>j\<in>fset (fmdom m) - {k}. f (the (fmlookup m j)))"
    by (rule sum.cong) auto
  then show ?thesis
    using fmsum_remove [of f "fmupd k v m" k] fmsum_remove [of f m k]
    by (simp add: algebra_simps)
qed

lemma fmsum_drop:
  "fmsum f (fmdrop k m) = fmsum f m - fmval f (fmlookup m k)"
proof -
  have "(\<Sum>j\<in>fset (fmdom (fmdrop k m)). f (the (fmlookup (fmdrop k m) j)))
      = (\<Sum>j\<in>fset (fmdom m) - {k}. f (the (fmlookup m j)))"
    by (rule sum.cong) auto
  then show ?thesis
    using fmsum_remove [of f m k] by (simp add: fmsum_def)
qed

lemma fmsum_add: "fmsum (\<lambda>v. f v + g v) m = fmsum f m + fmsum g m"
  by (simp add: fmsum_def sum.distrib)

lemma fmsum_cong:
  assumes "\<And>k v. fmlookup m k = Some v \<Longrightarrow> f v = g v"
  shows "fmsum f m = fmsum g m"
  unfolding fmsum_def
  by (rule sum.cong) (auto simp: fmlookup_dom_iff assms)

lemma fmsum_zero: "(\<And>k v. fmlookup m k = Some v \<Longrightarrow> f v = 0) \<Longrightarrow> fmsum f m = 0"
  unfolding fmsum_def by (rule sum.neutral) (auto simp: fmlookup_dom_iff)

text \<open>Reading and adding to an entry of a \<open>map[string]uint64\<close>: a missing key reads as 0.\<close>

definition mget :: "(string, u64) fmap \<Rightarrow> string \<Rightarrow> u64" where
  "mget m k = (case fmlookup m k of None \<Rightarrow> 0 | Some v \<Rightarrow> v)"

definition madd :: "(string, u64) fmap \<Rightarrow> string \<Rightarrow> u64 \<Rightarrow> (string, u64) fmap" where
  "madd m k x = fmupd k (mget m k + x) m"

definition msub :: "(string, u64) fmap \<Rightarrow> string \<Rightarrow> u64 \<Rightarrow> (string, u64) fmap" where
  "msub m k x = fmupd k (mget m k - x) m"

lemma mget_empty [simp]: "mget fmempty k = 0"
  by (simp add: mget_def)

lemma mget_upd [simp]: "mget (fmupd j v m) k = (if j = k then v else mget m k)"
  by (simp add: mget_def)

lemma mget_drop [simp]: "mget (fmdrop j m) k = (if j = k then 0 else mget m k)"
  by (simp add: mget_def)

lemma mget_madd [simp]: "mget (madd m k x) j = (if j = k then mget m k + x else mget m j)"
  by (simp add: madd_def)

lemma mget_msub [simp]: "mget (msub m k x) j = (if j = k then mget m k - x else mget m j)"
  by (simp add: msub_def)

lemma fmval_id_mget: "fmval (\<lambda>v. v) (fmlookup m k) = mget m k"
  by (simp add: fmval_def mget_def)

lemma fmsum_id_upd: "fmsum (\<lambda>v. v) (fmupd k v m) = fmsum (\<lambda>v. v) m - mget m k + v"
  by (simp add: fmsum_upd fmval_id_mget)

lemma fmsum_madd [simp]: "fmsum (\<lambda>v. v) (madd m k x) = fmsum (\<lambda>v. v) m + x"
  by (simp add: madd_def fmsum_id_upd)

lemma fmsum_msub [simp]: "fmsum (\<lambda>v. v) (msub m k x) = fmsum (\<lambda>v. v) m - x"
  by (simp add: msub_def fmsum_id_upd)

text \<open>\<open>sort.Strings\<close> over the keys of a map.\<close>

definition sorted_keys :: "(string, 'v) fmap \<Rightarrow> string list" where
  "sorted_keys m = sorted_list_of_fset (fmdom m)"

lemma set_sorted_keys [simp]: "set (sorted_keys m) = fset (fmdom m)"
  by (simp add: sorted_keys_def sorted_list_of_fset.rep_eq)

lemma distinct_sorted_keys [simp]: "distinct (sorted_keys m)"
  by (simp add: sorted_keys_def sorted_list_of_fset.rep_eq)

lemma sorted_sorted_keys [simp]: "sorted (sorted_keys m)"
  by (simp add: sorted_keys_def sorted_list_of_fset.rep_eq)

lemma fmsum_sorted_keys:
  "fmsum f m = (\<Sum>k\<leftarrow>sorted_keys m. f (the (fmlookup m k)))"
  by (simp add: fmsum_def sum_list_distinct_conv_sum_set)

end
