(* ===== verification/Codec.thy ===== *)
theory Codec
  imports ChainPrelude
begin

text \<open>
  The binary codec of \<^verbatim>\<open>internal/codec/codec.go\<close>: the encoder appends to a byte buffer, the decoder
  is a buffer and a read position. Go's \<^verbatim>\<open>encoding/binary\<close> varints are translated from the
  standard library's loops. The locales \<open>field_codec\<close> (a writer and a reader that undo each
  other) and \<open>safe_reader\<close> (a reader stays inside the buffer and moves forward) are the contracts
  the record codecs of the transaction and block formats rely on; both are interpreted here on
  the primitives of the source.
\<close>

datatype codec_err = ErrTruncated | ErrOverflow | ErrTooLarge | ErrInvalidTag | ErrTrailing
  | ErrMissingVote

definition MaxBytesLen :: nat where
  "MaxBytesLen = 32 * 1024 * 1024"

lemma MaxBytesLen_less: "MaxBytesLen < 2 ^ 64"
  by (simp add: MaxBytesLen_def)

subsection \<open>Varints of encoding/binary\<close>

lemma unat_drop_bit_7: "unat (drop_bit 7 (x :: u64)) = unat x div 128"
  unfolding unat_drop_bit_eq by (simp add: drop_bit_eq_div)

function put_uvarint :: "u64 \<Rightarrow> bytes" where
  "put_uvarint x = (if x < 0x80 then [ucast x] else (ucast x OR 0x80) # put_uvarint (drop_bit 7 x))"
  by pat_completeness auto

termination
proof (relation "measure unat")
  fix x :: u64
  assume "\<not> x < 0x80"
  then have "128 \<le> unat x"
    by (simp add: word_less_nat_alt)
  then show "(drop_bit 7 x, x) \<in> measure unat"
    by (simp add: unat_drop_bit_7)
qed simp

declare put_uvarint.simps [simp del]

fun uvarint_loop :: "bytes \<Rightarrow> nat \<Rightarrow> nat \<Rightarrow> u64 \<Rightarrow> u64 \<times> int" where
  "uvarint_loop [] i s x = (0, 0)"
| "uvarint_loop (b # bs) i s x =
     (if i = 10 then (0, - (int i + 1))
      else if b < 0x80 then
        (if i = 9 \<and> 1 < b then (0, - (int i + 1)) else (x OR push_bit s (ucast b), int i + 1))
      else uvarint_loop bs (Suc i) (s + 7) (x OR push_bit s (ucast (b AND 0x7f))))"

definition uvarint :: "bytes \<Rightarrow> u64 \<times> int" where
  "uvarint bs = uvarint_loop bs 0 0 0"

definition zigzag :: "i64 \<Rightarrow> u64" where
  "zigzag x = (let ux = push_bit 1 x in if sint x < 0 then NOT ux else ux)"

definition unzigzag :: "u64 \<Rightarrow> i64" where
  "unzigzag ux = (let x = drop_bit 1 ux in if ux AND 1 \<noteq> 0 then NOT x else x)"

definition put_varint :: "i64 \<Rightarrow> bytes" where
  "put_varint x = put_uvarint (zigzag x)"

definition varint :: "bytes \<Rightarrow> i64 \<times> int" where
  "varint bs = (case uvarint bs of (ux, n) \<Rightarrow> (unzigzag ux, n))"

subsection \<open>The encoder\<close>

type_synonym encoder = bytes

definition write_uvarint :: "encoder \<Rightarrow> u64 \<Rightarrow> encoder" where
  "write_uvarint e v = e @ put_uvarint v"

definition write_varint :: "encoder \<Rightarrow> i64 \<Rightarrow> encoder" where
  "write_varint e v = e @ put_varint v"

definition write_u8 :: "encoder \<Rightarrow> u8 \<Rightarrow> encoder" where
  "write_u8 e b = e @ [b]"

definition write_bool :: "encoder \<Rightarrow> bool \<Rightarrow> encoder" where
  "write_bool e b = (if b then e @ [1] else e @ [0])"

definition write_bytes :: "encoder \<Rightarrow> bytes \<Rightarrow> encoder" where
  "write_bytes e b = write_uvarint e (of_nat (length b)) @ b"

definition write_string :: "encoder \<Rightarrow> string \<Rightarrow> encoder" where
  "write_string e s = write_uvarint e (of_nat (length s)) @ str_bytes s"

subsection \<open>The decoder\<close>

record decoder =
  d_buf :: bytes
  d_pos :: nat

definition new_decoder :: "bytes \<Rightarrow> decoder" where
  "new_decoder b = \<lparr>d_buf = b, d_pos = 0\<rparr>"

definition remaining :: "decoder \<Rightarrow> nat" where
  "remaining d = length (d_buf d) - d_pos d"

definition dec_empty :: "decoder \<Rightarrow> bool" where
  "dec_empty d \<longleftrightarrow> length (d_buf d) \<le> d_pos d"

type_synonym 'a reader = "decoder \<Rightarrow> codec_err + 'a \<times> decoder"

definition advance :: "nat \<Rightarrow> decoder \<Rightarrow> decoder" where
  "advance n d = d\<lparr>d_pos := d_pos d + n\<rparr>"

definition read_uvarint :: "u64 reader" where
  "read_uvarint d =
     (case uvarint (drop (d_pos d) (d_buf d)) of
        (v, n) \<Rightarrow> if n = 0 then Inl ErrTruncated
                  else if n < 0 then Inl ErrOverflow
                  else Inr (v, advance (nat n) d))"

definition read_len :: "nat reader" where
  "read_len d = rbind (read_uvarint d) (\<lambda>(n, d).
     if remaining d < unat n then Inl ErrTruncated else Inr (unat n, d))"

definition read_varint :: "i64 reader" where
  "read_varint d =
     (case varint (drop (d_pos d) (d_buf d)) of
        (v, n) \<Rightarrow> if n = 0 then Inl ErrTruncated
                  else if n < 0 then Inl ErrOverflow
                  else Inr (v, advance (nat n) d))"

definition read_u8 :: "u8 reader" where
  "read_u8 d = (if length (d_buf d) \<le> d_pos d then Inl ErrTruncated
                else Inr (d_buf d ! d_pos d, advance 1 d))"

definition read_bool :: "bool reader" where
  "read_bool d = rbind (read_u8 d) (\<lambda>(b, d).
     if b = 0 then Inr (False, d) else if b = 1 then Inr (True, d) else Inl ErrInvalidTag)"

definition read_bytes :: "bytes reader" where
  "read_bytes d = rbind (read_uvarint d) (\<lambda>(n, d).
     if n = 0 then Inr ([], d)
     else if MaxBytesLen < unat n then Inl ErrTooLarge
     else if remaining d < unat n then Inl ErrTruncated
     else Inr (take (unat n) (drop (d_pos d) (d_buf d)), advance (unat n) d))"

definition read_string :: "string reader" where
  "read_string d = rbind (read_uvarint d) (\<lambda>(n, d).
     if n = 0 then Inr ('''', d)
     else if MaxBytesLen < unat n then Inl ErrTooLarge
     else if remaining d < unat n then Inl ErrTruncated
     else Inr (bytes_str (take (unat n) (drop (d_pos d) (d_buf d))), advance (unat n) d))"

definition must_finish :: "decoder \<Rightarrow> codec_err + unit" where
  "must_finish d = (if dec_empty d then Inr () else Inl ErrTrailing)"

text \<open>
  The loop \<^verbatim>\<open>for i := range xs { xs[i], err = read() }\<close> the record formats use for slices, and its
  writer.
\<close>

fun read_n :: "'a reader \<Rightarrow> nat \<Rightarrow> 'a list reader" where
  "read_n rd 0 d = Inr ([], d)"
| "read_n rd (Suc n) d = rbind (rd d) (\<lambda>(x, d). rbind (read_n rd n d) (\<lambda>(xs, d). Inr (x # xs, d)))"

definition write_slice :: "('a \<Rightarrow> encoder \<Rightarrow> encoder) \<Rightarrow> 'a list \<Rightarrow> encoder \<Rightarrow> encoder" where
  "write_slice wr xs e = fold wr xs (write_uvarint e (of_nat (length xs)))"

definition read_slice :: "'a reader \<Rightarrow> 'a list reader" where
  "read_slice rd d = rbind (read_len d) (\<lambda>(n, d). read_n rd n d)"


subsection \<open>Varint lemmas\<close>

lemma put_uvarint_small: "x < 0x80 \<Longrightarrow> put_uvarint x = [ucast x]"
  by (simp add: put_uvarint.simps)

lemma put_uvarint_big: "\<not> x < 0x80 \<Longrightarrow> put_uvarint x = (ucast x OR 0x80) # put_uvarint (drop_bit 7 x)"
  by (subst put_uvarint.simps) simp

lemma put_uvarint_nonempty [simp]: "put_uvarint x \<noteq> []"
  by (subst put_uvarint.simps) simp

lemma length_put_uvarint_pos [simp]: "0 < length (put_uvarint x)"
  by simp

lemma length_put_uvarint_le: "unat x < 2 ^ (7 * k) \<Longrightarrow> 0 < k \<Longrightarrow> length (put_uvarint x) \<le> k"
proof (induction x arbitrary: k rule: put_uvarint.induct)
  case (1 x)
  show ?case
  proof (cases "x < 0x80")
    case True
    with 1 show ?thesis by (simp add: put_uvarint_small)
  next
    case False
    have big: "128 \<le> unat x"
      using False by (simp add: word_less_nat_alt)
    obtain j where j: "k = Suc j" using "1.prems" by (cases k) auto
    with big "1.prems" have j0: "0 < j" by (cases j) auto
    have "unat x < 128 * 2 ^ (7 * j)"
      using "1.prems"(1) by (simp add: j power_add)
    then have "unat (drop_bit 7 x) < 2 ^ (7 * j)"
      by (simp add: unat_drop_bit_7 less_mult_imp_div_less mult.commute)
    with "1.IH" False j0 have "length (put_uvarint (drop_bit 7 x)) \<le> j" by blast
    with False j show ?thesis by (simp add: put_uvarint_big)
  qed
qed

lemma length_put_uvarint_10: "length (put_uvarint x) \<le> 10"
proof (rule length_put_uvarint_le)
  have "unat x < 2 ^ 64" using unsigned_less [of x] by simp
  then show "unat x < 2 ^ (7 * 10)" by simp
qed simp

lemma or_7bit_split:
  "(acc OR push_bit s (ucast ((ucast x OR 0x80 :: u8) AND 0x7f))) OR push_bit (s + 7) (drop_bit 7 x)
     = acc OR push_bit s (x :: u64)"
proof -
  have low: "ucast ((ucast x OR 0x80 :: u8) AND 0x7f) = (x AND mask 7)"
    by (rule bit_word_eqI) (auto simp: bit_simps numeral_eq_Suc less_Suc_eq)
  have "push_bit s (x AND mask 7) OR push_bit (s + 7) (drop_bit 7 x) = push_bit s x"
  proof (rule bit_word_eqI)
    fix n
    assume n: "n < LENGTH(64)"
    have "s \<le> n \<Longrightarrow> \<not> n - s < 7 \<Longrightarrow> 7 + (n - (s + 7)) = n - s" by simp
    then show "bit (push_bit s (x AND mask 7) OR push_bit (s + 7) (drop_bit 7 x)) n = bit (push_bit s x) n"
      using n by (cases "n - s < 7") (auto simp: bit_simps)
  qed
  then show ?thesis
    by (simp add: low or.assoc)
qed

lemma uvarint_loop_put:
  assumes "s = 7 * i" and "i \<le> 9" and "unat v < 2 ^ (64 - s)"
  shows "uvarint_loop (put_uvarint v @ r) i s acc
           = (acc OR push_bit s v, int i + int (length (put_uvarint v)))"
  using assms
proof (induction v arbitrary: i s acc rule: put_uvarint.induct)
  case (1 v)
  show ?case
  proof (cases "v < 0x80")
    case True
    have u: "unat v < 128" using True by (simp add: word_less_nat_alt)
    have uu: "unat (ucast v :: u8) = unat v" using u by (simp add: unsigned_ucast_eq take_bit_nat_eq_self)
    have ub: "(ucast v :: u8) < 0x80" using u by (simp add: word_less_nat_alt uu)
    have uc: "ucast (ucast v :: u8) = v"
      using u by (simp add: word_unat_eq_iff unsigned_ucast_eq) (simp add: unsigned_take_bit_eq take_bit_nat_eq_self)
    have "i = 9 \<Longrightarrow> \<not> 1 < (ucast v :: u8)"
      using "1.prems" by (simp add: word_less_nat_alt uu)
    with True ub uc "1.prems" show ?thesis by (auto simp: put_uvarint_small)
  next
    case False
    have big: "128 \<le> unat v" using False by (simp add: word_less_nat_alt)
    have i9: "i \<noteq> 9" using "1.prems" big by auto
    have hb: "\<not> (ucast v OR 0x80 :: u8) < 0x80"
    proof -
      have "(0x80 :: u8) \<le> ucast v OR 0x80"
        using le_word_or2 [of "0x80 :: u8" "ucast v"] by (simp add: or.commute)
      then show ?thesis by simp
    qed
    have "unat (drop_bit 7 v) < 2 ^ (64 - (s + 7))"
    proof -
      define k where "k = 64 - (s + 7)"
      have k: "64 - s = 7 + k" using "1.prems"(1,2) i9 by (simp add: k_def)
      have "unat v < 128 * 2 ^ k"
        using "1.prems"(3) unfolding k power_add by simp
      then show ?thesis
        unfolding k_def [symmetric] by (simp add: unat_drop_bit_7 less_mult_imp_div_less mult.commute)
    qed
    then have IH: "uvarint_loop (put_uvarint (drop_bit 7 v) @ r) (Suc i) (s + 7) acc'
        = (acc' OR push_bit (s + 7) (drop_bit 7 v), int (Suc i) + int (length (put_uvarint (drop_bit 7 v))))"
      for acc'
      using "1.prems" i9 by (intro "1.IH" [OF False]) simp_all
    have i10: "(i = 10) = False" using "1.prems" by simp
    show ?thesis
      by (simp only: put_uvarint_big [OF False] append_Cons uvarint_loop.simps hb i10 if_False IH
            or_7bit_split) simp
  qed
qed

lemma uvarint_put: "uvarint (put_uvarint v @ r) = (v, int (length (put_uvarint v)))"
proof -
  have "unat v < 2 ^ (64 - 0)" using unsigned_less [of v] by simp
  from uvarint_loop_put [OF _ _ this, of 0 r 0] show ?thesis
    by (simp add: uvarint_def)
qed

lemma bit_shift1: "bit (push_bit 1 (x :: u64)) n \<longleftrightarrow> n < 64 \<and> 0 < n \<and> bit x (n - 1)"
  unfolding bit_push_bit_iff by (simp add: Suc_le_eq) (auto simp: possible_bit_word)

lemma bit_unshift1: "bit (drop_bit 1 (x :: u64)) n \<longleftrightarrow> bit x (Suc n)"
  by (simp only: bit_drop_bit_eq comp_def) simp

lemma unzigzag_zigzag [simp]: "unzigzag (zigzag x) = x"
proof -
  define y where "y = push_bit 1 x"
  have y: "bit y n \<longleftrightarrow> n < 64 \<and> 0 < n \<and> bit x (n - 1)" for n
    by (simp only: y_def bit_shift1)
  have z: "bit (drop_bit 1 w) n = bit w (Suc n)" for n and w :: u64
    by (rule bit_unshift1)
  have sb: "sint x < 0 \<longleftrightarrow> bit x 63"
    using bit_last_iff [of x] by simp
  have cases63: "n < 64 \<Longrightarrow> n = 63 \<or> Suc n < 64" for n :: nat
    by auto
  have neg: "NOT (drop_bit 1 (NOT y)) = x" if "bit x 63"
  proof (rule bit_word_eqI)
    fix n
    assume n: "n < LENGTH(64)"
    with cases63 [of n] that show "bit (NOT (drop_bit 1 (NOT y))) n = bit x n"
      by (auto simp only: bit_not_iff z y) auto
  qed
  have pos: "drop_bit 1 y = x" if "\<not> bit x 63"
  proof (rule bit_word_eqI)
    fix n
    assume n: "n < LENGTH(64)"
    with cases63 [of n] that show "bit (drop_bit 1 y) n = bit x n"
      by (auto simp only: z y) auto
  qed
  have o2: "y AND 1 = 0"
    by (rule bit_word_eqI) (auto simp: bit_and_iff y bit_1_iff)
  have o1: "NOT y AND 1 = 1"
    by (rule bit_word_eqI) (auto simp: bit_and_iff bit_not_iff y bit_1_iff)
  show ?thesis
    unfolding zigzag_def unzigzag_def Let_def y_def [symmetric]
    using neg pos by (auto simp: sb o1 o2)
qed

subsection \<open>What a writer appends\<close>

definition enc_bool :: "bool \<Rightarrow> bytes" where
  "enc_bool b = (if b then [1] else [0])"

definition enc_bytes :: "bytes \<Rightarrow> bytes" where
  "enc_bytes b = put_uvarint (of_nat (length b)) @ b"

definition enc_string :: "string \<Rightarrow> bytes" where
  "enc_string s = put_uvarint (of_nat (length s)) @ str_bytes s"

definition enc_slice :: "('a \<Rightarrow> bytes) \<Rightarrow> 'a list \<Rightarrow> bytes" where
  "enc_slice enc xs = put_uvarint (of_nat (length xs)) @ concat (map enc xs)"

lemma write_enc [codec_simps]:
  "write_uvarint e v = e @ put_uvarint v"
  "write_varint e i = e @ put_varint i"
  "write_u8 e w = e @ [w]"
  "write_bool e b = e @ enc_bool b"
  "write_bytes e bs = e @ enc_bytes bs"
  "write_string e s = e @ enc_string s"
  by (simp_all add: write_uvarint_def write_varint_def write_u8_def write_bool_def enc_bool_def
      write_bytes_def enc_bytes_def write_string_def enc_string_def)

lemma write_slice_enc:
  assumes "\<And>x e. wr x e = e @ enc x"
  shows "write_slice wr xs e = e @ enc_slice enc xs"
proof -
  have "fold wr xs e' = e' @ concat (map enc xs)" for e'
    by (induction xs arbitrary: e') (simp_all add: assms)
  then show ?thesis
    by (simp add: write_slice_def write_uvarint_def enc_slice_def)
qed

lemma enc_nonempty [simp]:
  "put_varint i \<noteq> []" "enc_bool b \<noteq> []" "enc_bytes bs \<noteq> []" "enc_string s \<noteq> []" "enc_slice enc xs \<noteq> []"
  by (simp_all add: put_varint_def enc_bool_def enc_bytes_def enc_string_def enc_slice_def)

subsection \<open>Readers on what a writer wrote\<close>

text \<open>A decoder that has consumed \<open>pre\<close> and has \<open>suf\<close> left.\<close>

definition mkdec :: "bytes \<Rightarrow> bytes \<Rightarrow> decoder" where
  "mkdec pre suf = \<lparr>d_buf = pre @ suf, d_pos = length pre\<rparr>"

lemma new_decoder_mkdec: "new_decoder b = mkdec [] b"
  by (simp add: new_decoder_def mkdec_def)

lemma mkdec_sel [simp]: "d_buf (mkdec pre suf) = pre @ suf" "d_pos (mkdec pre suf) = length pre"
  by (simp_all add: mkdec_def)

lemma remaining_mkdec [simp]: "remaining (mkdec pre suf) = length suf"
  by (simp add: remaining_def)

lemma must_finish_mkdec [simp]:
  "must_finish (mkdec pre suf) = (if suf = [] then Inr () else Inl ErrTrailing)"
  by (simp add: must_finish_def dec_empty_def)

lemma advance_mkdec: "n = length a \<Longrightarrow> advance n (mkdec pre (a @ r)) = mkdec (pre @ a) r"
  by (simp add: advance_def mkdec_def)

locale field_codec =
  fixes enc :: "'a \<Rightarrow> bytes" and rd :: "'a reader" and ok :: "'a \<Rightarrow> bool"
  assumes rd_enc: "ok x \<Longrightarrow> rd (mkdec pre (enc x @ r)) = Inr (x, mkdec (pre @ enc x) r)"
    and nonempty: "enc x \<noteq> []"
begin

lemma rd_enc_end: "ok x \<Longrightarrow> rd (mkdec pre (enc x)) = Inr (x, mkdec (pre @ enc x) [])"
  using rd_enc [of x pre "[]"] by simp

lemma read_n_enc:
  "list_all ok xs \<Longrightarrow> read_n rd (length xs) (mkdec pre (concat (map enc xs) @ r))
     = Inr (xs, mkdec (pre @ concat (map enc xs)) r)"
  by (induction xs arbitrary: pre) (simp_all add: rd_enc)

lemma length_le_concat: "length xs \<le> length (concat (map enc xs))"
proof (induction xs)
  case (Cons x xs)
  show ?case using nonempty [of x] Cons.IH by (cases "enc x") simp_all
qed simp

end

lemma read_uvarint_put [codec_simps]:
  "read_uvarint (mkdec pre (put_uvarint v @ r)) = Inr (v, mkdec (pre @ put_uvarint v) r)"
  by (simp add: read_uvarint_def uvarint_put advance_mkdec)

lemma read_varint_put [codec_simps]:
  "read_varint (mkdec pre (put_varint i @ r)) = Inr (i, mkdec (pre @ put_varint i) r)"
  by (simp add: read_varint_def varint_def put_varint_def uvarint_put advance_mkdec)

lemma read_u8_put [codec_simps]: "read_u8 (mkdec pre (w # r)) = Inr (w, mkdec (pre @ [w]) r)"
  by (simp add: read_u8_def advance_def mkdec_def)

lemma read_bool_put [codec_simps]:
  "read_bool (mkdec pre (enc_bool b @ r)) = Inr (b, mkdec (pre @ enc_bool b) r)"
  by (simp add: read_bool_def enc_bool_def read_u8_put)

lemma unat_of_nat64: "n < 2 ^ 64 \<Longrightarrow> unat (of_nat n :: u64) = n"
  by (simp add: unat_of_nat)

lemma unat_of_small: "n \<le> MaxBytesLen \<Longrightarrow> unat (of_nat n :: u64) = n"
  by (rule unat_of_nat64) (rule le_less_trans [OF _ MaxBytesLen_less])

lemma of_small_eq_0:
  assumes "n \<le> MaxBytesLen"
  shows "(of_nat n :: u64) = 0 \<longleftrightarrow> n = 0"
  using unat_of_small [OF assms] by (auto simp: word_unat_eq_iff)

lemma read_bytes_put [codec_simps]:
  "length bs \<le> MaxBytesLen \<Longrightarrow>
   read_bytes (mkdec pre (enc_bytes bs @ r)) = Inr (bs, mkdec (pre @ enc_bytes bs) r)"
  by (simp add: read_bytes_def enc_bytes_def read_uvarint_put unat_of_small of_small_eq_0
      advance_mkdec)

lemma read_string_put [codec_simps]:
  "length s \<le> MaxBytesLen \<Longrightarrow>
   read_string (mkdec pre (enc_string s @ r)) = Inr (s, mkdec (pre @ enc_string s) r)"
  by (simp add: read_string_def enc_string_def read_uvarint_put unat_of_small of_small_eq_0
      advance_mkdec)

lemma read_len_put [codec_simps]:
  "n \<le> length r \<Longrightarrow> n < 2 ^ 64 \<Longrightarrow>
   read_len (mkdec pre (put_uvarint (of_nat n) @ r)) = Inr (n, mkdec (pre @ put_uvarint (of_nat n)) r)"
  by (simp add: read_len_def read_uvarint_put unat_of_nat64)

interpretation uvarint_codec: field_codec put_uvarint read_uvarint "\<lambda>_. True"
  by unfold_locales (simp_all add: codec_simps)

interpretation varint_codec: field_codec put_varint read_varint "\<lambda>_. True"
  by unfold_locales (simp_all add: codec_simps)

interpretation u8_codec: field_codec "\<lambda>w. [w]" read_u8 "\<lambda>_. True"
  by unfold_locales (simp_all add: codec_simps)

interpretation bool_codec: field_codec enc_bool read_bool "\<lambda>_. True"
  by unfold_locales (simp_all add: codec_simps)

interpretation bytes_codec: field_codec enc_bytes read_bytes "\<lambda>b. length b \<le> MaxBytesLen"
  by unfold_locales (simp_all add: codec_simps)

interpretation string_codec: field_codec enc_string read_string "\<lambda>s. length s \<le> MaxBytesLen"
  by unfold_locales (simp_all add: codec_simps)

lemmas codec_end [codec_simps] =
  uvarint_codec.rd_enc_end [OF TrueI] varint_codec.rd_enc_end [OF TrueI]
  bool_codec.rd_enc_end [OF TrueI] bytes_codec.rd_enc_end string_codec.rd_enc_end

context field_codec begin

lemma read_slice_enc:
  assumes "list_all ok xs" and "length xs < 2 ^ 64"
  shows "read_slice rd (mkdec pre (enc_slice enc xs @ r)) = Inr (xs, mkdec (pre @ enc_slice enc xs) r)"
  using assms length_le_concat [of xs]
  by (simp add: read_slice_def enc_slice_def read_len_put read_n_enc)

end

text \<open>
  A record written with \<^verbatim>\<open>e.WriteBytes(x.MarshalBinary())\<close> and read with \<^verbatim>\<open>d.ReadBytes()\<close> followed
  by \<^verbatim>\<open>x.UnmarshalBinary(raw)\<close>.
\<close>

definition read_frame :: "(bytes \<Rightarrow> codec_err + 'a) \<Rightarrow> 'a reader" where
  "read_frame un d = rbind (read_bytes d) (\<lambda>(raw, d). rbind (un raw) (\<lambda>x. Inr (x, d)))"

locale frame_codec =
  fixes marshal :: "'a \<Rightarrow> bytes" and unmarshal :: "bytes \<Rightarrow> codec_err + 'a" and ok :: "'a \<Rightarrow> bool"
  assumes unmarshal_marshal: "ok x \<Longrightarrow> unmarshal (marshal x) = Inr x"
begin

sublocale framed: field_codec "\<lambda>x. enc_bytes (marshal x)" "read_frame unmarshal"
  "\<lambda>x. ok x \<and> length (marshal x) \<le> MaxBytesLen"
  by unfold_locales (simp_all add: read_frame_def codec_simps unmarshal_marshal)

end

subsection \<open>Readers stay inside the buffer\<close>

definition wf_dec :: "decoder \<Rightarrow> bool" where
  "wf_dec d \<longleftrightarrow> d_pos d \<le> length (d_buf d)"

text \<open>\<open>d'\<close> is \<open>d\<close> after at least \<open>n\<close> more bytes were read.\<close>

definition moved :: "nat \<Rightarrow> decoder \<Rightarrow> decoder \<Rightarrow> bool" where
  "moved n d d' \<longleftrightarrow> wf_dec d' \<and> d_buf d' = d_buf d \<and> d_pos d + n \<le> d_pos d'"

locale safe_reader =
  fixes rd :: "'a reader"
  assumes step: "wf_dec d \<Longrightarrow> rd d = Inr (x, d') \<Longrightarrow> moved 1 d d'"
begin

lemma read_n_moved: "wf_dec d \<Longrightarrow> read_n rd n d = Inr (xs, d') \<Longrightarrow> moved n d d' \<and> length xs = n"
proof (induction n arbitrary: d xs)
  case 0
  then show ?case by (simp add: moved_def)
next
  case (Suc n)
  then obtain x d1 ys where d1: "rd d = Inr (x, d1)" and rest: "read_n rd n d1 = Inr (ys, d')"
    and xs: "xs = x # ys"
    by (auto simp: rbind_eq_Inr)
  from step [OF Suc.prems(1) d1] have m: "moved 1 d d1" .
  then have "wf_dec d1" by (simp add: moved_def)
  with Suc.IH rest have "moved n d1 d' \<and> length ys = n" by blast
  with m xs show ?case by (auto simp: moved_def)
qed

end

lemma uvarint_loop_consumed:
  "uvarint_loop bs i s x = (v, n) \<Longrightarrow> 0 < n \<Longrightarrow> int i < n \<and> n \<le> int i + int (length bs)"
proof (induction bs i s x rule: uvarint_loop.induct)
  case (2 b bs i s x)
  then show ?case by (auto split: if_splits)
qed simp

lemma uvarint_consumed: "uvarint bs = (v, n) \<Longrightarrow> 0 < n \<Longrightarrow> 1 \<le> nat n \<and> nat n \<le> length bs"
  using uvarint_loop_consumed [of bs 0 0 0 v n] by (auto simp: uvarint_def)

lemma advance_moved:
  assumes "wf_dec d" and "uvarint (drop (d_pos d) (d_buf d)) = (v, n)" and "0 < n"
  shows "moved 1 d (advance (nat n) d)"
  using uvarint_consumed [OF assms(2,3)] assms(1)
  by (simp add: moved_def advance_def wf_dec_def) linarith

lemma read_uvarint_moved: "wf_dec d \<Longrightarrow> read_uvarint d = Inr (v, d') \<Longrightarrow> moved 1 d d'"
  using advance_moved [of d]
  by (cases "uvarint (drop (d_pos d) (d_buf d))") (auto simp: read_uvarint_def split: if_splits)

lemma read_varint_moved: "wf_dec d \<Longrightarrow> read_varint d = Inr (v, d') \<Longrightarrow> moved 1 d d'"
  using advance_moved [of d]
  by (cases "uvarint (drop (d_pos d) (d_buf d))")
    (auto simp: read_varint_def varint_def split: if_splits)

lemma moved_more: "moved n d d' \<Longrightarrow> k \<le> remaining d' \<Longrightarrow> moved n d (advance k d')"
  by (auto simp: moved_def advance_def remaining_def wf_dec_def)

lemma read_uvarint_advance:
  assumes "wf_dec d" and "read_uvarint d = Inr (v, d1)" and "k \<le> remaining d1"
  shows "moved 1 d (advance k d1)"
  using read_uvarint_moved [OF assms(1,2)] assms(3) by (rule moved_more)

interpretation uvarint_safe: safe_reader read_uvarint
  by unfold_locales (rule read_uvarint_moved)

interpretation varint_safe: safe_reader read_varint
  by unfold_locales (rule read_varint_moved)

interpretation u8_safe: safe_reader read_u8
  by unfold_locales (auto simp: read_u8_def moved_def advance_def wf_dec_def split: if_splits)

interpretation bytes_safe: safe_reader read_bytes
  by unfold_locales
    (auto simp: read_bytes_def rbind_eq_Inr simp del: One_nat_def split: if_splits
      intro: read_uvarint_moved read_uvarint_advance)

interpretation string_safe: safe_reader read_string
  by unfold_locales
    (auto simp: read_string_def rbind_eq_Inr simp del: One_nat_def split: if_splits
      intro: read_uvarint_moved read_uvarint_advance)

lemma read_slice_bounded:
  assumes "safe_reader rd" and "wf_dec d" and "read_slice rd d = Inr (xs, d')"
  shows "moved (Suc (length xs)) d d' \<and> length xs \<le> remaining d"
proof -
  from assms(3) obtain n d1 where l: "read_len d = Inr (n, d1)" and r: "read_n rd n d1 = Inr (xs, d')"
    by (auto simp: read_slice_def rbind_eq_Inr)
  then have m: "moved 1 d d1"
    using assms(2) by (auto simp: read_len_def rbind_eq_Inr split: if_splits dest: read_uvarint_moved)
  then have "wf_dec d1" by (simp add: moved_def)
  from safe_reader.read_n_moved [OF assms(1) this r] m show ?thesis
    by (auto simp: moved_def remaining_def wf_dec_def)
qed

end
