(* ===== verification/ChainTypes.thy ===== *)
theory ChainTypes
  imports ChainPrelude
begin

text \<open>
  The data model of \<^verbatim>\<open>internal/types\<close>: chain parameters and fee arithmetic (\<^verbatim>\<open>params.go\<close>),
  transactions and their stateless validation (\<^verbatim>\<open>tx.go\<close>), votes, double-sign evidence, blocks and
  their Merkle roots (\<^verbatim>\<open>vote.go\<close>, \<^verbatim>\<open>evidence.go\<close>, \<^verbatim>\<open>block.go\<close>), and the address format of
  \<^verbatim>\<open>internal/crypto\<close>.

  The record \<open>ext\<close> holds the code outside the repository as parameters: SHA3-256, the ML-DSA-65
  signature scheme, and the canonical JSON bytes of the signed structures.
\<close>

subsection \<open>Parameters of the chain\<close>

record params =
  p_BlockIntervalMs :: i64
  p_MaxBlockTxs :: u64
  p_InflationRateBps :: u64
  p_MinBaseFee :: u64
  p_TargetBlockTxs :: u64
  p_BaseFeeChangeDenom :: u64
  p_PrivacyFeeMult :: u64
  p_TokenCreateFee :: u64
  p_MinValidatorStake :: u64
  p_UnbondingSeconds :: i64
  p_MinDelegation :: u64
  p_DelegationCommissionBps :: u64
  p_ContractCreateFee :: u64
  p_SlashDoubleSignBps :: u64
  p_DowntimeJailThreshold :: u64
  p_SlashDowntimeBps :: u64
  p_JailSeconds :: i64
  p_WasmEnabled :: bool
  p_WasmDeployFee :: u64
  p_WasmCallFee :: u64
  p_WasmMaxCodeLen :: u64
  p_WasmGasLimit :: u64
  p_PrivacyEnabled :: bool
  p_ShieldFee :: u64
  p_SparseMerkleRoot :: bool

definition Unit :: u64 where
  "Unit = 1000000000"

definition default_params :: params where
  "default_params = \<lparr>
     p_BlockIntervalMs = 500, p_MaxBlockTxs = 2000, p_InflationRateBps = 300,
     p_MinBaseFee = 100000, p_TargetBlockTxs = 1000, p_BaseFeeChangeDenom = 8,
     p_PrivacyFeeMult = 2, p_TokenCreateFee = 10 * Unit, p_MinValidatorStake = 10000 * Unit,
     p_UnbondingSeconds = 21 * 24 * 3600, p_MinDelegation = 1 * Unit,
     p_DelegationCommissionBps = 1000, p_ContractCreateFee = 1 * Unit,
     p_SlashDoubleSignBps = 500, p_DowntimeJailThreshold = 50, p_SlashDowntimeBps = 10,
     p_JailSeconds = 600, p_WasmEnabled = False, p_WasmDeployFee = 5 * Unit,
     p_WasmCallFee = 1 * Unit, p_WasmMaxCodeLen = 256 * 1024, p_WasmGasLimit = 100000000,
     p_PrivacyEnabled = False, p_ShieldFee = 1 * Unit, p_SparseMerkleRoot = False\<rparr>"

text \<open>
  \<^verbatim>\<open>big.Int.Uint64\<close> returns the low 64 bits of the magnitude; \<^verbatim>\<open>big.Int.Div\<close> with a positive
  divisor is Euclidean division, which is Isabelle's \<open>div\<close> on \<open>int\<close>.
\<close>

definition big_uint64 :: "int \<Rightarrow> u64" where
  "big_uint64 x = word_of_int \<bar>x\<bar>"

definition mul_div :: "u64 \<Rightarrow> u64 \<Rightarrow> u64 \<Rightarrow> u64" where
  "mul_div a b c = (if c = 0 then 0 else big_uint64 ((uint a * uint b) div uint c))"

definition msPerYear :: int where
  "msPerYear = 365 * 24 * 3600 * 1000"

definition reward_per_block :: "u64 \<Rightarrow> params \<Rightarrow> u64" where
  "reward_per_block total_staked p =
     big_uint64 (uint total_staked * uint (p_InflationRateBps p) * sint (p_BlockIntervalMs p) div 10000
       div msPerYear)"

text \<open>\<open>None\<close> is the division-by-zero panic of \<^verbatim>\<open>big.Int.Div\<close>.\<close>

definition next_base_fee :: "u64 \<Rightarrow> nat \<Rightarrow> params \<Rightarrow> u64 option" where
  "next_base_fee current block_txs p =
     (if p_TargetBlockTxs p = 0 then Some current
      else if p_BaseFeeChangeDenom p = 0 then None
      else
        let delta = uint current * sint (of_nat block_txs - p_TargetBlockTxs p)
              div uint (p_TargetBlockTxs p) div uint (p_BaseFeeChangeDenom p);
            next = uint current + delta
        in if next < uint (p_MinBaseFee p) then Some (p_MinBaseFee p) else Some (big_uint64 next))"

subsection \<open>Transactions\<close>

definition TxTransfer :: string where "TxTransfer = ''transfer''"
definition TxCreateToken :: string where "TxCreateToken = ''create_token''"
definition TxMint :: string where "TxMint = ''mint''"
definition TxStake :: string where "TxStake = ''stake''"
definition TxUnstake :: string where "TxUnstake = ''unstake''"
definition TxDelegate :: string where "TxDelegate = ''delegate''"
definition TxUndelegate :: string where "TxUndelegate = ''undelegate''"
definition TxUnjail :: string where "TxUnjail = ''unjail''"
definition TxContractCreate :: string where "TxContractCreate = ''contract_create''"
definition TxContractExec :: string where "TxContractExec = ''contract_exec''"
definition TxWasmDeploy :: string where "TxWasmDeploy = ''wasm_deploy''"
definition TxWasmCall :: string where "TxWasmCall = ''wasm_call''"
definition TxShield :: string where "TxShield = ''shield''"
definition TxShieldedTransfer :: string where "TxShieldedTransfer = ''shielded_transfer''"
definition TxUnshield :: string where "TxUnshield = ''unshield''"
definition TxValidatorProfile :: string where "TxValidatorProfile = ''validator_profile''"

lemmas tx_type_defs = TxTransfer_def TxCreateToken_def TxMint_def TxStake_def TxUnstake_def
  TxDelegate_def TxUndelegate_def TxUnjail_def TxContractCreate_def TxContractExec_def
  TxWasmDeploy_def TxWasmCall_def TxShield_def TxShieldedTransfer_def TxUnshield_def
  TxValidatorProfile_def

lemma tx_types_distinct:
  "distinct [TxTransfer, TxCreateToken, TxMint, TxStake, TxUnstake, TxDelegate, TxUndelegate,
     TxUnjail, TxContractCreate, TxContractExec, TxWasmDeploy, TxWasmCall, TxShield,
     TxShieldedTransfer, TxUnshield, TxValidatorProfile]"
  by (simp add: tx_type_defs)

definition TemplateVesting :: string where "TemplateVesting = ''vesting''"
definition TemplateEscrow :: string where "TemplateEscrow = ''escrow''"
definition TemplateMultisig :: string where "TemplateMultisig = ''multisig''"
definition TemplateDAO :: string where "TemplateDAO = ''dao''"

definition ActionClaim :: string where "ActionClaim = ''claim''"
definition ActionRelease :: string where "ActionRelease = ''release''"
definition ActionRefund :: string where "ActionRefund = ''refund''"
definition ActionPropose :: string where "ActionPropose = ''propose''"
definition ActionApprove :: string where "ActionApprove = ''approve''"
definition ActionReject :: string where "ActionReject = ''reject''"

lemmas contract_defs = TemplateVesting_def TemplateEscrow_def TemplateMultisig_def TemplateDAO_def
  ActionClaim_def ActionRelease_def ActionRefund_def ActionPropose_def ActionApprove_def
  ActionReject_def

lemma templates_distinct:
  "distinct [TemplateVesting, TemplateEscrow, TemplateMultisig, TemplateDAO]"
  by (simp add: contract_defs)

lemma actions_distinct:
  "distinct [ActionClaim, ActionRelease, ActionRefund, ActionPropose, ActionApprove, ActionReject]"
  by (simp add: contract_defs)

definition NativeToken :: string where "NativeToken = ''CGO''"

record contract_params =
  cp_Template :: string
  cp_TokenID :: string
  cp_Amount :: u64
  cp_Beneficiary :: string
  cp_StartMs :: i64
  cp_EndMs :: i64
  cp_Seller :: string
  cp_Arbiter :: string
  cp_Signers :: "string list"
  cp_Threshold :: u64

record token_params =
  tp_Symbol :: string
  tp_Name :: string
  tp_Decimals :: u8
  tp_Supply :: u64
  tp_Mintable :: bool

record transaction =
  tx_ChainID :: string
  tx_Type :: string
  tx_From :: string
  tx_FromPubKey :: bytes
  tx_To :: string
  tx_TokenID :: string
  tx_Amount :: u64
  tx_Nonce :: u64
  tx_MaxBaseFee :: u64
  tx_Tip :: u64
  tx_Private :: bool
  tx_Memo :: string
  tx_Token :: "token_params option"
  tx_Contract :: "contract_params option"
  tx_ContractID :: string
  tx_Action :: string
  tx_Proposal :: u64
  tx_Code :: bytes
  tx_Args :: "u64 list"
  tx_Gas :: u64
  tx_ShieldCommitment :: bytes
  tx_ShieldNote :: bytes
  tx_SpendProof :: bytes
  tx_SpendPublic :: bytes
  tx_Timestamp :: i64
  tx_Signature :: bytes

subsection \<open>Votes, evidence, blocks\<close>

definition PrecommitKind :: string where "PrecommitKind = ''precommit''"
definition PrevoteKind :: string where "PrevoteKind = ''prevote''"

record vote =
  v_ChainID :: string
  v_Height :: u64
  v_Round :: u32
  v_Kind :: string
  v_BlockHash :: string
  v_Voter :: string
  v_VoterPub :: bytes
  v_Signature :: bytes

record evidence =
  ev_Height :: u64
  ev_Voter :: string
  ev_VoteA :: "vote option"
  ev_VoteB :: "vote option"

record block_header =
  h_Height :: u64
  h_PrevHash :: string
  h_Timestamp :: i64
  h_Proposer :: string
  h_Round :: u32
  h_TxRoot :: string
  h_EvidenceRoot :: string
  h_LastCommitRoot :: string
  h_StateRoot :: string

record block =
  b_Header :: block_header
  b_Txs :: "transaction list"
  b_Evidence :: "evidence list"
  b_LastCommit :: "vote list"
  b_Hash :: string
  b_ProposerPubKey :: bytes
  b_ProposerSignature :: bytes

subsection \<open>External cryptography and encodings\<close>

record ext =
  x_sha3 :: "bytes \<Rightarrow> bytes"
  x_pub_ok :: "bytes \<Rightarrow> bool"
  x_verify :: "bytes \<Rightarrow> bytes \<Rightarrow> bytes \<Rightarrow> bool"
  x_tx_json :: "transaction \<Rightarrow> bytes"
  x_vote_json :: "vote \<Rightarrow> bytes"
  x_evidence_json :: "evidence \<Rightarrow> bytes"
  x_header_json :: "block_header \<Rightarrow> bytes"

definition hex_digit :: "nat \<Rightarrow> char" where
  "hex_digit n = ''0123456789abcdef'' ! (n mod 16)"

definition hex_encode :: "bytes \<Rightarrow> string" where
  "hex_encode bs = concat (map (\<lambda>b. [hex_digit (unat b div 16), hex_digit (unat b)]) bs)"

definition is_hex_char :: "char \<Rightarrow> bool" where
  "is_hex_char c \<longleftrightarrow> c \<in> set ''0123456789abcdefABCDEF''"

definition crypto_hash :: "'z ext_scheme \<Rightarrow> bytes list \<Rightarrow> bytes" where
  "crypto_hash E parts = x_sha3 E (concat parts)"

definition hash_hex :: "'z ext_scheme \<Rightarrow> bytes list \<Rightarrow> string" where
  "hash_hex E parts = hex_encode (crypto_hash E parts)"

definition AddressPrefix :: string where "AddressPrefix = ''cg''"

definition address_from_pub :: "'z ext_scheme \<Rightarrow> bytes \<Rightarrow> string" where
  "address_from_pub E pub = AddressPrefix @ hex_encode (drop 12 (crypto_hash E [pub]))"

definition valid_address :: "string \<Rightarrow> bool" where
  "valid_address addr \<longleftrightarrow>
     take 2 addr = AddressPrefix \<and> length addr = length AddressPrefix + 40
       \<and> list_all is_hex_char (drop (length AddressPrefix) addr)"

datatype sig_err = BadPublicKey | BadSignature

definition crypto_verify :: "'z ext_scheme \<Rightarrow> bytes \<Rightarrow> bytes \<Rightarrow> bytes \<Rightarrow> sig_err + unit" where
  "crypto_verify E pub msg sig =
     (if \<not> x_pub_ok E pub then Inl BadPublicKey
      else if \<not> x_verify E pub msg sig then Inl BadSignature else Inr ())"

definition tx_signing_bytes :: "'z ext_scheme \<Rightarrow> transaction \<Rightarrow> bytes" where
  "tx_signing_bytes E tx = x_tx_json E (tx\<lparr>tx_Signature := []\<rparr>)"

definition tx_hash :: "'z ext_scheme \<Rightarrow> transaction \<Rightarrow> string" where
  "tx_hash E tx = hash_hex E [tx_signing_bytes E tx]"

definition tx_verify_signature :: "'z ext_scheme \<Rightarrow> transaction \<Rightarrow> sig_err + unit" where
  "tx_verify_signature E tx = crypto_verify E (tx_FromPubKey tx) (tx_signing_bytes E tx) (tx_Signature tx)"

subsection \<open>ValidateBasic\<close>

datatype vb_err =
    VInvalidFrom | VPubKeyMismatch | VMaxBaseFee | VMemoTooLong | VInvalidTo | VAmountZero
  | VTokenIdRequired | VTokenParams | VSymbol | VSymbolReserved | VSupplyZero | VDecimals
  | VMintToken | VNotValidatorAddr | VSelfDelegate | VContractParams | VContractFields
  | VVestingBeneficiary | VVestingWindow | VEscrowSeller | VEscrowSellerIsBuyer | VEscrowArbiter
  | VNoSigner | VSignerInvalid | VSignerDuplicate | VThreshold | VTemplate | VContractId | VAction
  | VShieldCommitment | VShieldNote | VSpendProof | VSpendPublic | VCode | VFunctionName | VProfile
  | VUnknownType | VSignature sig_err

definition is_upper :: "char \<Rightarrow> bool" where
  "is_upper c \<longleftrightarrow> CHR ''A'' \<le> c \<and> c \<le> CHR ''Z''"

definition is_digit :: "char \<Rightarrow> bool" where
  "is_digit c \<longleftrightarrow> CHR ''0'' \<le> c \<and> c \<le> CHR ''9''"

text \<open>The regular expression \<^verbatim>\<open>^[A-Z][A-Z0-9]{2,7}$\<close>.\<close>

definition symbol_ok :: "string \<Rightarrow> bool" where
  "symbol_ok s = (case s of [] \<Rightarrow> False
     | c # cs \<Rightarrow> is_upper c \<and> 2 \<le> length cs \<and> length cs \<le> 7
                 \<and> list_all (\<lambda>d. is_upper d \<or> is_digit d) cs)"

text \<open>The loop over the signers of a multisig or the members of a DAO.\<close>

fun check_signers :: "string list \<Rightarrow> string list \<Rightarrow> vb_err + unit" where
  "check_signers seen [] = Inr ()"
| "check_signers seen (sg # sgs) =
     (if \<not> valid_address sg then Inl VSignerInvalid
      else if sg \<in> set seen then Inl VSignerDuplicate
      else check_signers (sg # seen) sgs)"

definition validate_signers :: "contract_params \<Rightarrow> vb_err + unit" where
  "validate_signers c =
     (if length (cp_Signers c) < 1 then Inl VNoSigner
      else rbind (check_signers [] (cp_Signers c)) (\<lambda>_.
        if cp_Threshold c < 1 \<or> of_nat (length (cp_Signers c)) < cp_Threshold c
        then Inl VThreshold else Inr ()))"

definition validate_contract_create :: "transaction \<Rightarrow> vb_err + unit" where
  "validate_contract_create tx =
     (case tx_Contract tx of
        None \<Rightarrow> Inl VContractParams
      | Some c \<Rightarrow>
          if cp_TokenID c = '''' \<or> cp_Amount c = 0 then Inl VContractFields
          else if cp_Template c = TemplateVesting then
            (if \<not> valid_address (cp_Beneficiary c) then Inl VVestingBeneficiary
             else if i64_le (cp_StartMs c) 0 \<or> i64_le (cp_EndMs c) (cp_StartMs c) then Inl VVestingWindow
             else Inr ())
          else if cp_Template c = TemplateEscrow then
            (if \<not> valid_address (cp_Seller c) then Inl VEscrowSeller
             else if cp_Seller c = tx_From tx then Inl VEscrowSellerIsBuyer
             else if cp_Arbiter c \<noteq> '''' \<and> \<not> valid_address (cp_Arbiter c) then Inl VEscrowArbiter
             else Inr ())
          else if cp_Template c = TemplateMultisig then validate_signers c
          else if cp_Template c = TemplateDAO then validate_signers c
          else Inl VTemplate)"

definition validate_contract_exec :: "transaction \<Rightarrow> vb_err + unit" where
  "validate_contract_exec tx =
     (if tx_ContractID tx = '''' then Inl VContractId
      else if tx_Action tx \<in> {ActionClaim, ActionRelease, ActionRefund, ActionApprove, ActionReject}
      then Inr ()
      else if tx_Action tx = ActionPropose then
        (if \<not> valid_address (tx_To tx) then Inl VInvalidTo
         else if tx_Amount tx = 0 then Inl VAmountZero else Inr ())
      else Inl VAction)"

definition validate_create_token :: "transaction \<Rightarrow> vb_err + unit" where
  "validate_create_token tx =
     (case tx_Token tx of
        None \<Rightarrow> Inl VTokenParams
      | Some t \<Rightarrow>
          if \<not> symbol_ok (tp_Symbol t) then Inl VSymbol
          else if tp_Symbol t = NativeToken then Inl VSymbolReserved
          else if tp_Supply t = 0 then Inl VSupplyZero
          else if 12 < tp_Decimals t then Inl VDecimals
          else Inr ())"

definition validate_shielded :: "transaction \<Rightarrow> vb_err + unit" where
  "validate_shielded tx =
     (if tx_Type tx = TxShield then
        (if tx_Amount tx = 0 then Inl VAmountZero
         else if length (tx_ShieldCommitment tx) = 0 then Inl VShieldCommitment
         else if length (tx_ShieldNote tx) = 0 then Inl VShieldNote else Inr ())
      else if tx_Type tx = TxShieldedTransfer then
        (if length (tx_SpendProof tx) = 0 then Inl VSpendProof
         else if length (tx_SpendPublic tx) = 0 then Inl VSpendPublic
         else if length (tx_ShieldNote tx) = 0 then Inl VShieldNote else Inr ())
      else
        (if \<not> valid_address (tx_To tx) then Inl VInvalidTo
         else if length (tx_SpendProof tx) = 0 then Inl VSpendProof
         else if length (tx_SpendPublic tx) = 0 then Inl VSpendPublic else Inr ()))"

text \<open>The \<^verbatim>\<open>switch tx.Type\<close> of \<^verbatim>\<open>ValidateBasic\<close>.\<close>

definition validate_by_type :: "transaction \<Rightarrow> vb_err + unit" where
  "validate_by_type tx =
     (if tx_Type tx = TxTransfer then
        (if \<not> valid_address (tx_To tx) then Inl VInvalidTo
         else if tx_Amount tx = 0 then Inl VAmountZero
         else if tx_TokenID tx = '''' then Inl VTokenIdRequired else Inr ())
      else if tx_Type tx = TxCreateToken then validate_create_token tx
      else if tx_Type tx = TxMint then
        (if tx_TokenID tx = '''' \<or> tx_TokenID tx = NativeToken then Inl VMintToken
         else if tx_Amount tx = 0 then Inl VAmountZero else Inr ())
      else if tx_Type tx = TxStake \<or> tx_Type tx = TxUnstake then
        (if tx_Amount tx = 0 then Inl VAmountZero else Inr ())
      else if tx_Type tx = TxUnjail then Inr ()
      else if tx_Type tx = TxDelegate \<or> tx_Type tx = TxUndelegate then
        (if \<not> valid_address (tx_To tx) then Inl VNotValidatorAddr
         else if tx_To tx = tx_From tx then Inl VSelfDelegate
         else if tx_Amount tx = 0 then Inl VAmountZero else Inr ())
      else if tx_Type tx = TxContractCreate then validate_contract_create tx
      else if tx_Type tx = TxContractExec then validate_contract_exec tx
      else if tx_Type tx = TxShield \<or> tx_Type tx = TxShieldedTransfer \<or> tx_Type tx = TxUnshield then
        validate_shielded tx
      else if tx_Type tx = TxWasmDeploy then
        (if length (tx_Code tx) = 0 then Inl VCode else Inr ())
      else if tx_Type tx = TxWasmCall then
        (if tx_ContractID tx = '''' then Inl VContractId
         else if tx_Action tx = '''' then Inl VFunctionName else Inr ())
      else if tx_Type tx = TxValidatorProfile then
        (if length (tx_Memo tx) = 0 then Inl VProfile else Inr ())
      else Inl VUnknownType)"

definition validate_basic :: "'z ext_scheme \<Rightarrow> transaction \<Rightarrow> vb_err + unit" where
  "validate_basic E tx =
     (if \<not> valid_address (tx_From tx) then Inl VInvalidFrom
      else if address_from_pub E (tx_FromPubKey tx) \<noteq> tx_From tx then Inl VPubKeyMismatch
      else if tx_MaxBaseFee tx = 0 then Inl VMaxBaseFee
      else if 256 < length (tx_Memo tx) then Inl VMemoTooLong
      else rbind (validate_by_type tx) (\<lambda>_.
        case tx_verify_signature E tx of Inl e \<Rightarrow> Inl (VSignature e) | Inr u \<Rightarrow> Inr ()))"

text \<open>
  \<^verbatim>\<open>VerifyAll\<close> validates the batch on several goroutines and keeps one of the errors met; which
  one depends on scheduling, so the model returns only whether the batch is accepted.
\<close>

definition verify_all :: "'z ext_scheme \<Rightarrow> transaction list \<Rightarrow> bool" where
  "verify_all E txs = list_all (\<lambda>tx. validate_basic E tx = Inr ()) txs"

subsection \<open>Votes and evidence\<close>

definition vote_signing_bytes :: "'z ext_scheme \<Rightarrow> vote \<Rightarrow> bytes" where
  "vote_signing_bytes E v = x_vote_json E (v\<lparr>v_Signature := []\<rparr>)"

definition vote_hash :: "'z ext_scheme \<Rightarrow> vote \<Rightarrow> string" where
  "vote_hash E v = hash_hex E [vote_signing_bytes E v]"

datatype vote_err = VoterMismatch | VoteSig sig_err

definition vote_verify :: "'z ext_scheme \<Rightarrow> vote \<Rightarrow> vote_err + unit" where
  "vote_verify E v =
     (if address_from_pub E (v_VoterPub v) \<noteq> v_Voter v then Inl VoterMismatch
      else case crypto_verify E (v_VoterPub v) (vote_signing_bytes E v) (v_Signature v) of
             Inl e \<Rightarrow> Inl (VoteSig e) | Inr u \<Rightarrow> Inr ())"

datatype evidence_err = EvMissingVote | EvSameHash | EvRounds | EvKinds | EvChain | EvHeightVoter
  | EvVote vote_err

definition check_evidence_vote :: "'z ext_scheme \<Rightarrow> string \<Rightarrow> evidence \<Rightarrow> vote \<Rightarrow> evidence_err + unit" where
  "check_evidence_vote E chain_id ev v =
     (if v_ChainID v \<noteq> chain_id then Inl EvChain
      else if v_Height v \<noteq> ev_Height ev \<or> v_Voter v \<noteq> ev_Voter ev then Inl EvHeightVoter
      else case vote_verify E v of Inl e \<Rightarrow> Inl (EvVote e) | Inr u \<Rightarrow> Inr ())"

definition evidence_verify :: "'z ext_scheme \<Rightarrow> string \<Rightarrow> evidence \<Rightarrow> evidence_err + unit" where
  "evidence_verify E chain_id ev =
     (case (ev_VoteA ev, ev_VoteB ev) of
        (Some a, Some b) \<Rightarrow>
          if v_BlockHash a = v_BlockHash b then Inl EvSameHash
          else if v_Round a \<noteq> v_Round b then Inl EvRounds
          else if v_Kind a \<noteq> v_Kind b then Inl EvKinds
          else rbind (check_evidence_vote E chain_id ev a) (\<lambda>_. check_evidence_vote E chain_id ev b)
      | _ \<Rightarrow> Inl EvMissingVote)"

subsection \<open>Roots covered by the block hash\<close>

definition commit_root :: "'z ext_scheme \<Rightarrow> vote list \<Rightarrow> string" where
  "commit_root E votes = (case votes of
     [] \<Rightarrow> hash_hex E []
   | v # vs \<Rightarrow> hash_hex E [fold (\<lambda>w acc. crypto_hash E [acc, str_bytes (vote_hash E w)]) vs
        (crypto_hash E [str_bytes (vote_hash E v)])])"

definition evidence_hash :: "'z ext_scheme \<Rightarrow> evidence \<Rightarrow> string" where
  "evidence_hash E ev = hash_hex E [x_evidence_json E ev]"

definition evidence_root :: "'z ext_scheme \<Rightarrow> evidence list \<Rightarrow> string" where
  "evidence_root E es = (case map (\<lambda>e. crypto_hash E [str_bytes (evidence_hash E e)]) es of
     [] \<Rightarrow> hash_hex E []
   | h # hs \<Rightarrow> hex_encode (fold (\<lambda>x acc. crypto_hash E [acc, x]) hs h))"

text \<open>One level of \<^verbatim>\<open>TxRoot\<close>: an odd last node is paired with itself.\<close>

fun tx_root_level :: "'z ext_scheme \<Rightarrow> bytes list \<Rightarrow> bytes list" where
  "tx_root_level E [] = []"
| "tx_root_level E [a] = [crypto_hash E [a, a]]"
| "tx_root_level E (a # b # r) = crypto_hash E [a, b] # tx_root_level E r"

lemma length_tx_root_level: "length (tx_root_level E xs) = (length xs + 1) div 2"
  by (induction E xs rule: tx_root_level.induct) auto

lemma tx_root_level_repeat:
  "odd (length xs) \<Longrightarrow> tx_root_level E (xs @ [last xs]) = tx_root_level E xs"
  by (induction E xs rule: tx_root_level.induct) auto

function tx_root_loop :: "'z ext_scheme \<Rightarrow> bytes list \<Rightarrow> bytes list" where
  "tx_root_loop E layer = (if length layer \<le> 1 then layer else tx_root_loop E (tx_root_level E layer))"
  by pat_completeness auto
termination
  by (relation "measure (\<lambda>(E, l). length l)") (auto simp: length_tx_root_level)

declare tx_root_loop.simps [simp del]

definition tx_root :: "'z ext_scheme \<Rightarrow> transaction list \<Rightarrow> string" where
  "tx_root E txs = (case txs of
     [] \<Rightarrow> hash_hex E []
   | _ \<Rightarrow> hex_encode (hd (tx_root_loop E (map (\<lambda>tx. crypto_hash E [tx_signing_bytes E tx]) txs))))"

definition block_compute_hash :: "'z ext_scheme \<Rightarrow> block \<Rightarrow> string" where
  "block_compute_hash E b = hash_hex E [x_header_json E (b_Header b)]"

datatype proposer_err = ProposerMismatch | ProposerSig sig_err

definition verify_proposer_sig :: "'z ext_scheme \<Rightarrow> block \<Rightarrow> proposer_err + unit" where
  "verify_proposer_sig E b =
     (if address_from_pub E (b_ProposerPubKey b) \<noteq> h_Proposer (b_Header b) then Inl ProposerMismatch
      else case crypto_verify E (b_ProposerPubKey b) (x_header_json E (b_Header b)) (b_ProposerSignature b)
           of Inl e \<Rightarrow> Inl (ProposerSig e) | Inr u \<Rightarrow> Inr ())"

end
