(* ===== verification/TxCodec.thy ===== *)
theory TxCodec
  imports Codec ChainTypes
begin

text \<open>
  The binary transport format of transactions, \<^verbatim>\<open>internal/types/tx_codec.go\<close>: writers and readers
  with the source's field order, the presence bytes of the optional parts and the two optional
  extension blocks after the signature.
\<close>

subsection \<open>Writers\<close>

definition write_token_params :: "token_params \<Rightarrow> encoder \<Rightarrow> encoder" where
  "write_token_params t e =
     (let e = write_string e (tp_Symbol t);
          e = write_string e (tp_Name t);
          e = write_u8 e (tp_Decimals t);
          e = write_uvarint e (tp_Supply t)
      in write_bool e (tp_Mintable t))"

definition write_contract_params :: "contract_params \<Rightarrow> encoder \<Rightarrow> encoder" where
  "write_contract_params c e =
     (let e = write_string e (cp_Template c);
          e = write_string e (cp_TokenID c);
          e = write_uvarint e (cp_Amount c);
          e = write_string e (cp_Beneficiary c);
          e = write_varint e (cp_StartMs c);
          e = write_varint e (cp_EndMs c);
          e = write_string e (cp_Seller c);
          e = write_string e (cp_Arbiter c);
          e = write_slice (\<lambda>s e. write_string e s) (cp_Signers c) e
      in write_uvarint e (cp_Threshold c))"

definition has_shield :: "transaction \<Rightarrow> bool" where
  "has_shield tx \<longleftrightarrow> 0 < length (tx_ShieldCommitment tx) \<or> 0 < length (tx_ShieldNote tx)
     \<or> 0 < length (tx_SpendProof tx) \<or> 0 < length (tx_SpendPublic tx)"

definition has_wasm :: "transaction \<Rightarrow> bool" where
  "has_wasm tx \<longleftrightarrow> 0 < length (tx_Code tx) \<or> 0 < length (tx_Args tx) \<or> 0 < tx_Gas tx"

definition tx_marshal :: "transaction \<Rightarrow> bytes" where
  "tx_marshal tx =
     (let e = write_string [] (tx_ChainID tx);
          e = write_string e (tx_Type tx);
          e = write_string e (tx_From tx);
          e = write_bytes e (tx_FromPubKey tx);
          e = write_string e (tx_To tx);
          e = write_string e (tx_TokenID tx);
          e = write_uvarint e (tx_Amount tx);
          e = write_uvarint e (tx_Nonce tx);
          e = write_uvarint e (tx_MaxBaseFee tx);
          e = write_uvarint e (tx_Tip tx);
          e = write_bool e (tx_Private tx);
          e = write_string e (tx_Memo tx);
          e = (case tx_Token tx of None \<Rightarrow> write_bool e False
               | Some t \<Rightarrow> write_token_params t (write_bool e True));
          e = (case tx_Contract tx of None \<Rightarrow> write_bool e False
               | Some c \<Rightarrow> write_contract_params c (write_bool e True));
          e = write_string e (tx_ContractID tx);
          e = write_string e (tx_Action tx);
          e = write_uvarint e (tx_Proposal tx);
          e = write_varint e (tx_Timestamp tx);
          e = write_bytes e (tx_Signature tx);
          e = (if has_wasm tx \<or> has_shield tx
               then write_uvarint (write_slice (\<lambda>a e. write_uvarint e a) (tx_Args tx)
                      (write_bytes e (tx_Code tx))) (tx_Gas tx)
               else e)
      in if has_shield tx
         then write_bytes (write_bytes (write_bytes (write_bytes e (tx_ShieldCommitment tx))
                (tx_ShieldNote tx)) (tx_SpendProof tx)) (tx_SpendPublic tx)
         else e)"

subsection \<open>Readers\<close>

definition read_token_params :: "token_params reader" where
  "read_token_params d =
     rbind (read_string d) (\<lambda>(sym, d).
     rbind (read_string d) (\<lambda>(name, d).
     rbind (read_u8 d) (\<lambda>(dec, d).
     rbind (read_uvarint d) (\<lambda>(sup, d).
     rbind (read_bool d) (\<lambda>(mint, d).
       Inr (\<lparr>tp_Symbol = sym, tp_Name = name, tp_Decimals = dec, tp_Supply = sup,
             tp_Mintable = mint\<rparr>, d))))))"

definition read_contract_params :: "contract_params reader" where
  "read_contract_params d =
     rbind (read_string d) (\<lambda>(tmpl, d).
     rbind (read_string d) (\<lambda>(tok, d).
     rbind (read_uvarint d) (\<lambda>(amt, d).
     rbind (read_string d) (\<lambda>(ben, d).
     rbind (read_varint d) (\<lambda>(startms, d).
     rbind (read_varint d) (\<lambda>(endms, d).
     rbind (read_string d) (\<lambda>(seller, d).
     rbind (read_string d) (\<lambda>(arb, d).
     rbind (read_slice read_string d) (\<lambda>(sgs, d).
     rbind (read_uvarint d) (\<lambda>(thr, d).
       Inr (\<lparr>cp_Template = tmpl, cp_TokenID = tok, cp_Amount = amt, cp_Beneficiary = ben,
             cp_StartMs = startms, cp_EndMs = endms, cp_Seller = seller, cp_Arbiter = arb,
             cp_Signers = sgs, cp_Threshold = thr\<rparr>, d)))))))))))"

text \<open>A presence byte followed by the value.\<close>

definition read_optional :: "'a reader \<Rightarrow> 'a option reader" where
  "read_optional rd d = rbind (read_bool d) (\<lambda>(b, d).
     if b then rbind (rd d) (\<lambda>(x, d). Inr (Some x, d)) else Inr (None, d))"

text \<open>The fields up to the signature; the extension fields keep their zero values.\<close>

definition read_tx_base :: "transaction reader" where
  "read_tx_base d =
     rbind (read_string d) (\<lambda>(chain, d).
     rbind (read_string d) (\<lambda>(type, d).
     rbind (read_string d) (\<lambda>(from, d).
     rbind (read_bytes d) (\<lambda>(pub, d).
     rbind (read_string d) (\<lambda>(to, d).
     rbind (read_string d) (\<lambda>(tok, d).
     rbind (read_uvarint d) (\<lambda>(amt, d).
     rbind (read_uvarint d) (\<lambda>(nonce, d).
     rbind (read_uvarint d) (\<lambda>(maxfee, d).
     rbind (read_uvarint d) (\<lambda>(tip, d).
     rbind (read_bool d) (\<lambda>(priv, d).
     rbind (read_string d) (\<lambda>(memo, d).
     rbind (read_optional read_token_params d) (\<lambda>(tp, d).
     rbind (read_optional read_contract_params d) (\<lambda>(cp, d).
     rbind (read_string d) (\<lambda>(cid, d).
     rbind (read_string d) (\<lambda>(act, d).
     rbind (read_uvarint d) (\<lambda>(prop, d).
     rbind (read_varint d) (\<lambda>(ts, d).
     rbind (read_bytes d) (\<lambda>(sig, d).
       Inr (\<lparr>tx_ChainID = chain, tx_Type = type, tx_From = from, tx_FromPubKey = pub, tx_To = to,
             tx_TokenID = tok, tx_Amount = amt, tx_Nonce = nonce, tx_MaxBaseFee = maxfee,
             tx_Tip = tip, tx_Private = priv, tx_Memo = memo, tx_Token = tp, tx_Contract = cp,
             tx_ContractID = cid, tx_Action = act, tx_Proposal = prop, tx_Code = [],
             tx_Args = [], tx_Gas = 0, tx_ShieldCommitment = [], tx_ShieldNote = [],
             tx_SpendProof = [], tx_SpendPublic = [], tx_Timestamp = ts, tx_Signature = sig\<rparr>, d)
     )))))))))))))))))))"

definition read_wasm_ext :: "transaction \<Rightarrow> transaction reader" where
  "read_wasm_ext tx d =
     (if 0 < remaining d then
        rbind (read_bytes d) (\<lambda>(code, d).
        rbind (read_slice read_uvarint d) (\<lambda>(args, d).
        rbind (read_uvarint d) (\<lambda>(gas, d).
          Inr (tx\<lparr>tx_Code := code, tx_Args := args, tx_Gas := gas\<rparr>, d))))
      else Inr (tx, d))"

definition read_shield_ext :: "transaction \<Rightarrow> transaction reader" where
  "read_shield_ext tx d =
     (if 0 < remaining d then
        rbind (read_bytes d) (\<lambda>(cm, d).
        rbind (read_bytes d) (\<lambda>(note, d).
        rbind (read_bytes d) (\<lambda>(proof, d).
        rbind (read_bytes d) (\<lambda>(pub, d).
          Inr (tx\<lparr>tx_ShieldCommitment := cm, tx_ShieldNote := note, tx_SpendProof := proof,
                  tx_SpendPublic := pub\<rparr>, d)))))
      else Inr (tx, d))"

definition tx_unmarshal :: "bytes \<Rightarrow> codec_err + transaction" where
  "tx_unmarshal data =
     rbind (read_tx_base (new_decoder data)) (\<lambda>(tx, d).
     rbind (read_wasm_ext tx d) (\<lambda>(tx, d).
     rbind (read_shield_ext tx d) (\<lambda>(tx, d).
     rbind (must_finish d) (\<lambda>_. Inr tx))))"

subsection \<open>Round trips\<close>

definition str_ok :: "string \<Rightarrow> bool" where
  "str_ok s \<longleftrightarrow> length s \<le> MaxBytesLen"

definition blob_ok :: "bytes \<Rightarrow> bool" where
  "blob_ok b \<longleftrightarrow> length b \<le> MaxBytesLen"

definition token_fits :: "token_params \<Rightarrow> bool" where
  "token_fits t \<longleftrightarrow> str_ok (tp_Symbol t) \<and> str_ok (tp_Name t)"

definition contract_fits :: "contract_params \<Rightarrow> bool" where
  "contract_fits c \<longleftrightarrow> str_ok (cp_Template c) \<and> str_ok (cp_TokenID c) \<and> str_ok (cp_Beneficiary c)
     \<and> str_ok (cp_Seller c) \<and> str_ok (cp_Arbiter c) \<and> list_all str_ok (cp_Signers c)
     \<and> length (cp_Signers c) < 2 ^ 64"

text \<open>Every string and blob of the transaction is within the codec's 32 MiB bound.\<close>

definition tx_fits :: "transaction \<Rightarrow> bool" where
  "tx_fits tx \<longleftrightarrow> str_ok (tx_ChainID tx) \<and> str_ok (tx_Type tx) \<and> str_ok (tx_From tx)
     \<and> blob_ok (tx_FromPubKey tx) \<and> str_ok (tx_To tx) \<and> str_ok (tx_TokenID tx) \<and> str_ok (tx_Memo tx)
     \<and> pred_option token_fits (tx_Token tx) \<and> pred_option contract_fits (tx_Contract tx)
     \<and> str_ok (tx_ContractID tx) \<and> str_ok (tx_Action tx) \<and> blob_ok (tx_Signature tx)
     \<and> blob_ok (tx_Code tx) \<and> length (tx_Args tx) < 2 ^ 64
     \<and> blob_ok (tx_ShieldCommitment tx) \<and> blob_ok (tx_ShieldNote tx) \<and> blob_ok (tx_SpendProof tx)
     \<and> blob_ok (tx_SpendPublic tx)"

definition enc_token :: "token_params \<Rightarrow> bytes" where
  "enc_token t = enc_string (tp_Symbol t) @ enc_string (tp_Name t) @ [tp_Decimals t]
     @ put_uvarint (tp_Supply t) @ enc_bool (tp_Mintable t)"

definition enc_contract :: "contract_params \<Rightarrow> bytes" where
  "enc_contract c = enc_string (cp_Template c) @ enc_string (cp_TokenID c) @ put_uvarint (cp_Amount c)
     @ enc_string (cp_Beneficiary c) @ put_varint (cp_StartMs c) @ put_varint (cp_EndMs c)
     @ enc_string (cp_Seller c) @ enc_string (cp_Arbiter c) @ enc_slice enc_string (cp_Signers c)
     @ put_uvarint (cp_Threshold c)"

definition enc_optional :: "('a \<Rightarrow> bytes) \<Rightarrow> 'a option \<Rightarrow> bytes" where
  "enc_optional enc x = (case x of None \<Rightarrow> enc_bool False | Some y \<Rightarrow> enc_bool True @ enc y)"

lemma write_token_enc: "write_token_params t e = e @ enc_token t"
  by (simp add: write_token_params_def enc_token_def Let_def codec_simps)

lemma write_contract_enc: "write_contract_params c e = e @ enc_contract c"
  by (simp add: write_contract_params_def enc_contract_def Let_def codec_simps
      write_slice_enc [where enc = enc_string])

lemma str_ok_codec: "field_codec enc_string read_string str_ok"
  by unfold_locales (simp_all add: str_ok_def codec_simps)

interpretation token_codec: field_codec enc_token read_token_params token_fits
  by unfold_locales
    (simp_all add: enc_token_def read_token_params_def token_fits_def str_ok_def codec_simps)

lemmas read_signers_enc = field_codec.read_slice_enc [OF str_ok_codec]

interpretation contract_codec: field_codec enc_contract read_contract_params contract_fits
  by unfold_locales
    (simp_all add: enc_contract_def read_contract_params_def contract_fits_def codec_simps
      read_signers_enc str_ok_def [symmetric] read_string_put [folded str_ok_def])

context field_codec begin

lemma read_optional_enc:
  "pred_option ok x \<Longrightarrow>
   read_optional rd (mkdec pre (enc_optional enc x @ r)) = Inr (x, mkdec (pre @ enc_optional enc x) r)"
  by (cases x) (simp_all add: read_optional_def enc_optional_def read_bool_put rd_enc)

end

definition enc_tx_base :: "transaction \<Rightarrow> bytes" where
  "enc_tx_base tx = enc_string (tx_ChainID tx) @ enc_string (tx_Type tx) @ enc_string (tx_From tx)
     @ enc_bytes (tx_FromPubKey tx) @ enc_string (tx_To tx) @ enc_string (tx_TokenID tx)
     @ put_uvarint (tx_Amount tx) @ put_uvarint (tx_Nonce tx) @ put_uvarint (tx_MaxBaseFee tx)
     @ put_uvarint (tx_Tip tx) @ enc_bool (tx_Private tx) @ enc_string (tx_Memo tx)
     @ enc_optional enc_token (tx_Token tx) @ enc_optional enc_contract (tx_Contract tx)
     @ enc_string (tx_ContractID tx) @ enc_string (tx_Action tx) @ put_uvarint (tx_Proposal tx)
     @ put_varint (tx_Timestamp tx) @ enc_bytes (tx_Signature tx)"

definition enc_wasm_ext :: "transaction \<Rightarrow> bytes" where
  "enc_wasm_ext tx = enc_bytes (tx_Code tx) @ enc_slice put_uvarint (tx_Args tx) @ put_uvarint (tx_Gas tx)"

definition enc_shield_ext :: "transaction \<Rightarrow> bytes" where
  "enc_shield_ext tx = enc_bytes (tx_ShieldCommitment tx) @ enc_bytes (tx_ShieldNote tx)
     @ enc_bytes (tx_SpendProof tx) @ enc_bytes (tx_SpendPublic tx)"

lemma write_optional_enc:
  "(case x of None \<Rightarrow> write_bool e False | Some t \<Rightarrow> wr t (write_bool e True)) = e @ enc_optional enc x"
  if "\<And>t e. wr t e = e @ enc t"
  by (cases x) (simp_all add: enc_optional_def codec_simps that)

lemma tx_marshal_enc:
  "tx_marshal tx = enc_tx_base tx
     @ (if has_wasm tx \<or> has_shield tx then enc_wasm_ext tx else [])
     @ (if has_shield tx then enc_shield_ext tx else [])"
  by (simp add: tx_marshal_def Let_def enc_tx_base_def enc_wasm_ext_def enc_shield_ext_def codec_simps
      write_optional_enc [where enc = enc_token, OF write_token_enc]
      write_optional_enc [where enc = enc_contract, OF write_contract_enc]
      write_slice_enc [where enc = put_uvarint])

text \<open>The transaction with its extension fields at their zero values.\<close>

definition tx_base :: "transaction \<Rightarrow> transaction" where
  "tx_base tx = tx\<lparr>tx_Code := [], tx_Args := [], tx_Gas := 0, tx_ShieldCommitment := [],
     tx_ShieldNote := [], tx_SpendProof := [], tx_SpendPublic := []\<rparr>"

lemma read_tx_base_enc:
  assumes "tx_fits tx"
  shows "read_tx_base (mkdec pre (enc_tx_base tx @ r)) = Inr (tx_base tx, mkdec (pre @ enc_tx_base tx) r)"
  using assms unfolding tx_fits_def enc_tx_base_def read_tx_base_def tx_base_def
  by (simp add: codec_simps read_string_put [folded str_ok_def] read_bytes_put [folded blob_ok_def]
      token_codec.read_optional_enc contract_codec.read_optional_enc)

lemma read_wasm_ext_enc:
  assumes "tx_fits tx"
  shows "read_wasm_ext (tx_base tx) (mkdec pre (enc_wasm_ext tx @ r))
    = Inr ((tx_base tx)\<lparr>tx_Code := tx_Code tx, tx_Args := tx_Args tx, tx_Gas := tx_Gas tx\<rparr>,
           mkdec (pre @ enc_wasm_ext tx) r)"
  using assms unfolding tx_fits_def enc_wasm_ext_def read_wasm_ext_def
  by (simp add: codec_simps read_bytes_put [folded blob_ok_def] uvarint_codec.read_slice_enc list_all_iff)

lemma read_shield_ext_enc:
  assumes "tx_fits tx"
  shows "read_shield_ext t (mkdec pre (enc_shield_ext tx))
    = Inr (t\<lparr>tx_ShieldCommitment := tx_ShieldCommitment tx, tx_ShieldNote := tx_ShieldNote tx,
             tx_SpendProof := tx_SpendProof tx, tx_SpendPublic := tx_SpendPublic tx\<rparr>,
           mkdec (pre @ enc_shield_ext tx) [])"
  using assms unfolding tx_fits_def enc_shield_ext_def read_shield_ext_def
  by (simp add: codec_simps read_bytes_put [folded blob_ok_def]
      bytes_codec.rd_enc_end [folded blob_ok_def])

lemma read_wasm_ext_none [simp]: "read_wasm_ext t (mkdec pre []) = Inr (t, mkdec pre [])"
  and read_shield_ext_none [simp]: "read_shield_ext t (mkdec pre []) = Inr (t, mkdec pre [])"
  by (simp_all add: read_wasm_ext_def read_shield_ext_def)

lemma tx_unmarshal_marshal:
  assumes "tx_fits tx"
  shows "tx_unmarshal (tx_marshal tx) = Inr tx"
proof -
  note rd = read_tx_base_enc [OF assms] read_wasm_ext_enc [OF assms] read_shield_ext_enc [OF assms]
    read_tx_base_enc [OF assms, where r = "[]", simplified]
    read_wasm_ext_enc [OF assms, where r = "[]", simplified]
  show ?thesis
  proof (cases "has_shield tx")
    case True
    then show ?thesis
      by (simp add: tx_unmarshal_def tx_marshal_enc new_decoder_mkdec rd) (simp add: tx_base_def)
  next
    case False
    then have sh: "tx_ShieldCommitment tx = []" "tx_ShieldNote tx = []" "tx_SpendProof tx = []"
      "tx_SpendPublic tx = []"
      by (simp_all add: has_shield_def)
    show ?thesis
    proof (cases "has_wasm tx")
      case True
      with False show ?thesis
        by (simp add: tx_unmarshal_def tx_marshal_enc new_decoder_mkdec rd) (simp add: tx_base_def sh)
    next
      case nw: False
      then have "tx_Code tx = []" "tx_Args tx = []" "tx_Gas tx = 0"
        by (simp_all add: has_wasm_def word_gt_0)
      with False nw show ?thesis
        by (simp add: tx_unmarshal_def tx_marshal_enc new_decoder_mkdec rd) (simp add: tx_base_def sh)
    qed
  qed
qed

interpretation tx_codec: frame_codec tx_marshal tx_unmarshal tx_fits
  by unfold_locales (rule tx_unmarshal_marshal)

end
