(* ===== verification/BlockCodec.thy ===== *)
theory BlockCodec
  imports TxCodec
begin

text \<open>
  The binary formats of votes, evidence, headers and blocks, \<^verbatim>\<open>internal/types/block_codec.go\<close>. Every
  transaction, evidence and vote of a block is a length-prefixed frame; \<open>frame_codec\<close> carries their
  round trips.
\<close>

subsection \<open>Writers\<close>

definition vote_marshal :: "vote \<Rightarrow> bytes" where
  "vote_marshal v =
     (let e = write_string [] (v_ChainID v);
          e = write_uvarint e (v_Height v);
          e = write_uvarint e (ucast (v_Round v));
          e = write_string e (v_Kind v);
          e = write_string e (v_BlockHash v);
          e = write_string e (v_Voter v);
          e = write_bytes e (v_VoterPub v)
      in write_bytes e (v_Signature v))"

definition evidence_marshal :: "evidence \<Rightarrow> codec_err + bytes" where
  "evidence_marshal ev =
     (let e = write_uvarint [] (ev_Height ev);
          e = write_string e (ev_Voter ev)
      in case (ev_VoteA ev, ev_VoteB ev) of
           (Some a, Some b) \<Rightarrow> Inr (write_bytes (write_bytes e (vote_marshal a)) (vote_marshal b))
         | _ \<Rightarrow> Inl ErrMissingVote)"

definition write_block_header :: "block_header \<Rightarrow> encoder \<Rightarrow> encoder" where
  "write_block_header h e =
     (let e = write_uvarint e (h_Height h);
          e = write_string e (h_PrevHash h);
          e = write_varint e (h_Timestamp h);
          e = write_string e (h_Proposer h);
          e = write_uvarint e (ucast (h_Round h));
          e = write_string e (h_TxRoot h);
          e = write_string e (h_EvidenceRoot h);
          e = write_string e (h_LastCommitRoot h)
      in write_string e (h_StateRoot h))"

text \<open>Marshalling the evidence list stops at the first entry with a missing vote.\<close>

fun marshal_all :: "('a \<Rightarrow> codec_err + bytes) \<Rightarrow> 'a list \<Rightarrow> codec_err + bytes list" where
  "marshal_all f [] = Inr []"
| "marshal_all f (x # xs) = rbind (f x) (\<lambda>b. rbind (marshal_all f xs) (\<lambda>bs. Inr (b # bs)))"

definition block_marshal :: "block \<Rightarrow> codec_err + bytes" where
  "block_marshal b =
     (let e = write_block_header (b_Header b) [];
          e = write_slice (\<lambda>tx e. write_bytes e (tx_marshal tx)) (b_Txs b) e
      in rbind (marshal_all evidence_marshal (b_Evidence b)) (\<lambda>raws.
         let e = write_slice (\<lambda>raw e. write_bytes e raw) raws e;
             e = write_slice (\<lambda>v e. write_bytes e (vote_marshal v)) (b_LastCommit b) e;
             e = write_string e (b_Hash b);
             e = write_bytes e (b_ProposerPubKey b)
         in Inr (write_bytes e (b_ProposerSignature b))))"

subsection \<open>Readers\<close>

definition vote_unmarshal :: "bytes \<Rightarrow> codec_err + vote" where
  "vote_unmarshal data =
     rbind (read_string (new_decoder data)) (\<lambda>(chain, d).
     rbind (read_uvarint d) (\<lambda>(height, d).
     rbind (read_uvarint d) (\<lambda>(r, d).
     rbind (read_string d) (\<lambda>(kind, d).
     rbind (read_string d) (\<lambda>(bh, d).
     rbind (read_string d) (\<lambda>(voter, d).
     rbind (read_bytes d) (\<lambda>(pub, d).
     rbind (read_bytes d) (\<lambda>(sig, d).
     rbind (must_finish d) (\<lambda>_.
       Inr \<lparr>v_ChainID = chain, v_Height = height, v_Round = ucast r, v_Kind = kind,
            v_BlockHash = bh, v_Voter = voter, v_VoterPub = pub, v_Signature = sig\<rparr>)))))))))"

definition evidence_unmarshal :: "bytes \<Rightarrow> codec_err + evidence" where
  "evidence_unmarshal data =
     rbind (read_uvarint (new_decoder data)) (\<lambda>(height, d).
     rbind (read_string d) (\<lambda>(voter, d).
     rbind (read_frame vote_unmarshal d) (\<lambda>(a, d).
     rbind (read_frame vote_unmarshal d) (\<lambda>(b, d).
     rbind (must_finish d) (\<lambda>_.
       Inr \<lparr>ev_Height = height, ev_Voter = voter, ev_VoteA = Some a, ev_VoteB = Some b\<rparr>)))))"

definition read_block_header :: "block_header reader" where
  "read_block_header d =
     rbind (read_uvarint d) (\<lambda>(height, d).
     rbind (read_string d) (\<lambda>(prev, d).
     rbind (read_varint d) (\<lambda>(ts, d).
     rbind (read_string d) (\<lambda>(proposer, d).
     rbind (read_uvarint d) (\<lambda>(r, d).
     rbind (read_string d) (\<lambda>(txr, d).
     rbind (read_string d) (\<lambda>(evr, d).
     rbind (read_string d) (\<lambda>(lcr, d).
     rbind (read_string d) (\<lambda>(str, d).
       Inr (\<lparr>h_Height = height, h_PrevHash = prev, h_Timestamp = ts, h_Proposer = proposer,
             h_Round = ucast r, h_TxRoot = txr, h_EvidenceRoot = evr, h_LastCommitRoot = lcr,
             h_StateRoot = str\<rparr>, d))))))))))"

definition block_unmarshal :: "bytes \<Rightarrow> codec_err + block" where
  "block_unmarshal data =
     rbind (read_block_header (new_decoder data)) (\<lambda>(h, d).
     rbind (read_slice (read_frame tx_unmarshal) d) (\<lambda>(txs, d).
     rbind (read_slice (read_frame evidence_unmarshal) d) (\<lambda>(evs, d).
     rbind (read_slice (read_frame vote_unmarshal) d) (\<lambda>(vs, d).
     rbind (read_string d) (\<lambda>(hash, d).
     rbind (read_bytes d) (\<lambda>(pub, d).
     rbind (read_bytes d) (\<lambda>(sig, d).
     rbind (must_finish d) (\<lambda>_.
       Inr \<lparr>b_Header = h, b_Txs = txs, b_Evidence = evs, b_LastCommit = vs, b_Hash = hash,
            b_ProposerPubKey = pub, b_ProposerSignature = sig\<rparr>))))))))"

subsection \<open>Round trips\<close>

lemma ucast_round [simp]: "ucast (ucast (r :: u32) :: u64) = r"
  by (rule ucast_up_ucast_id) (simp add: is_up)

definition vote_fits :: "vote \<Rightarrow> bool" where
  "vote_fits v \<longleftrightarrow> str_ok (v_ChainID v) \<and> str_ok (v_Kind v) \<and> str_ok (v_BlockHash v)
     \<and> str_ok (v_Voter v) \<and> blob_ok (v_VoterPub v) \<and> blob_ok (v_Signature v)"

lemma vote_unmarshal_marshal: "vote_fits v \<Longrightarrow> vote_unmarshal (vote_marshal v) = Inr v"
  by (simp add: vote_fits_def vote_marshal_def vote_unmarshal_def Let_def new_decoder_mkdec
      codec_simps read_string_put [folded str_ok_def] read_bytes_put [folded blob_ok_def]
      bytes_codec.rd_enc_end [folded blob_ok_def])

interpretation vote_codec: frame_codec vote_marshal vote_unmarshal vote_fits
  by unfold_locales (rule vote_unmarshal_marshal)

definition vote_frame_ok :: "vote \<Rightarrow> bool" where
  "vote_frame_ok v \<longleftrightarrow> vote_fits v \<and> length (vote_marshal v) \<le> MaxBytesLen"

text \<open>The bytes of a piece of evidence whose two votes are present.\<close>

definition evidence_bytes :: "evidence \<Rightarrow> bytes" where
  "evidence_bytes ev = put_uvarint (ev_Height ev) @ enc_string (ev_Voter ev)
     @ enc_bytes (vote_marshal (the (ev_VoteA ev))) @ enc_bytes (vote_marshal (the (ev_VoteB ev)))"

definition evidence_fits :: "evidence \<Rightarrow> bool" where
  "evidence_fits ev \<longleftrightarrow> str_ok (ev_Voter ev)
     \<and> (case ev_VoteA ev of None \<Rightarrow> False | Some a \<Rightarrow> vote_frame_ok a)
     \<and> (case ev_VoteB ev of None \<Rightarrow> False | Some b \<Rightarrow> vote_frame_ok b)"

lemma evidence_marshal_fits: "evidence_fits ev \<Longrightarrow> evidence_marshal ev = Inr (evidence_bytes ev)"
  by (auto simp: evidence_fits_def evidence_marshal_def evidence_bytes_def Let_def codec_simps
      split: option.splits)

lemmas vote_frame_enc = vote_codec.framed.rd_enc [folded vote_frame_ok_def]
  vote_codec.framed.rd_enc_end [folded vote_frame_ok_def]

lemma evidence_unmarshal_marshal:
  assumes "evidence_fits ev"
  shows "evidence_unmarshal (evidence_bytes ev) = Inr ev"
proof -
  from assms obtain a b where ab: "ev_VoteA ev = Some a" "ev_VoteB ev = Some b"
    "vote_frame_ok a" "vote_frame_ok b" "str_ok (ev_Voter ev)"
    by (auto simp: evidence_fits_def split: option.splits)
  then show ?thesis
    by (cases ev) (simp add: evidence_unmarshal_def evidence_bytes_def new_decoder_mkdec codec_simps
        read_string_put [folded str_ok_def] vote_frame_enc)
qed

interpretation evidence_codec: frame_codec evidence_bytes evidence_unmarshal evidence_fits
  by unfold_locales (rule evidence_unmarshal_marshal)

definition header_fits :: "block_header \<Rightarrow> bool" where
  "header_fits h \<longleftrightarrow> str_ok (h_PrevHash h) \<and> str_ok (h_Proposer h) \<and> str_ok (h_TxRoot h)
     \<and> str_ok (h_EvidenceRoot h) \<and> str_ok (h_LastCommitRoot h) \<and> str_ok (h_StateRoot h)"

definition enc_header :: "block_header \<Rightarrow> bytes" where
  "enc_header h = put_uvarint (h_Height h) @ enc_string (h_PrevHash h) @ put_varint (h_Timestamp h)
     @ enc_string (h_Proposer h) @ put_uvarint (ucast (h_Round h)) @ enc_string (h_TxRoot h)
     @ enc_string (h_EvidenceRoot h) @ enc_string (h_LastCommitRoot h) @ enc_string (h_StateRoot h)"

lemma write_header_enc: "write_block_header h e = e @ enc_header h"
  by (simp add: write_block_header_def enc_header_def Let_def codec_simps)

interpretation header_codec: field_codec enc_header read_block_header header_fits
  by unfold_locales (simp_all add: enc_header_def read_block_header_def header_fits_def codec_simps
      read_string_put [folded str_ok_def])

text \<open>
  A block the decoder can read back: every string and blob is within the codec's bound, and so
  is every frame (transaction, evidence, vote).
\<close>

definition block_fits :: "block \<Rightarrow> bool" where
  "block_fits b \<longleftrightarrow> header_fits (b_Header b)
     \<and> list_all (\<lambda>tx. tx_fits tx \<and> length (tx_marshal tx) \<le> MaxBytesLen) (b_Txs b)
     \<and> list_all (\<lambda>ev. evidence_fits ev \<and> length (evidence_bytes ev) \<le> MaxBytesLen) (b_Evidence b)
     \<and> list_all (\<lambda>v. vote_fits v \<and> length (vote_marshal v) \<le> MaxBytesLen) (b_LastCommit b)
     \<and> length (b_Txs b) < 2 ^ 64 \<and> length (b_Evidence b) < 2 ^ 64 \<and> length (b_LastCommit b) < 2 ^ 64
     \<and> str_ok (b_Hash b) \<and> blob_ok (b_ProposerPubKey b) \<and> blob_ok (b_ProposerSignature b)"

lemma marshal_all_evidence:
  "list_all evidence_fits evs \<Longrightarrow> marshal_all evidence_marshal evs = Inr (map evidence_bytes evs)"
  by (induction evs) (simp_all add: evidence_marshal_fits)

definition enc_block :: "block \<Rightarrow> bytes" where
  "enc_block b = enc_header (b_Header b) @ enc_slice (\<lambda>tx. enc_bytes (tx_marshal tx)) (b_Txs b)
     @ enc_slice (\<lambda>ev. enc_bytes (evidence_bytes ev)) (b_Evidence b)
     @ enc_slice (\<lambda>v. enc_bytes (vote_marshal v)) (b_LastCommit b)
     @ enc_string (b_Hash b) @ enc_bytes (b_ProposerPubKey b) @ enc_bytes (b_ProposerSignature b)"

lemma enc_slice_map: "enc_slice f (map g xs) = enc_slice (\<lambda>x. f (g x)) xs"
  by (simp add: enc_slice_def comp_def)

lemma block_marshal_enc:
  assumes "list_all evidence_fits (b_Evidence b)"
  shows "block_marshal b = Inr (enc_block b)"
  using marshal_all_evidence [OF assms]
  by (simp add: block_marshal_def enc_block_def Let_def write_header_enc codec_simps enc_slice_map
      write_slice_enc [where enc = "\<lambda>tx. enc_bytes (tx_marshal tx)"]
      write_slice_enc [where enc = "\<lambda>v. enc_bytes (vote_marshal v)"]
      write_slice_enc [where enc = enc_bytes])

lemma block_unmarshal_enc:
  assumes "block_fits b"
  shows "block_unmarshal (enc_block b) = Inr b"
  using assms unfolding block_fits_def enc_block_def block_unmarshal_def new_decoder_mkdec
  by (simp add: header_codec.rd_enc tx_codec.framed.read_slice_enc evidence_codec.framed.read_slice_enc
      vote_codec.framed.read_slice_enc read_string_put [folded str_ok_def]
      read_bytes_put [folded blob_ok_def] bytes_codec.rd_enc_end [folded blob_ok_def])

lemma block_unmarshal_marshal:
  assumes "block_fits b"
  shows "\<exists>raw. block_marshal b = Inr raw \<and> block_unmarshal raw = Inr b"
proof -
  from assms have "list_all evidence_fits (b_Evidence b)"
    by (auto simp: block_fits_def list_all_iff)
  with block_marshal_enc block_unmarshal_enc [OF assms] show ?thesis by blast
qed

end
