(* ===== verification/Meter.thy ===== *)
theory Meter
  imports Codec
begin

text \<open>
  The gas instrumentation of WASM modules, \<^verbatim>\<open>internal/wasmvm/meter.go\<close>, and the deployment check
  \<^verbatim>\<open>internal/wasmvm/consensus.go\<close>. A run of the Go code ends in a value, an error, a run-time panic,
  or does not end: \<open>wres\<close> has one constructor for each.
\<close>

datatype werr = WMalformed | WUnsupported | WInvalidCode | WOutOfGas

datatype 'a wres = WOk 'a | WErr werr | WPanic | WHang

definition wbind :: "'a wres \<Rightarrow> ('a \<Rightarrow> 'b wres) \<Rightarrow> 'b wres" where
  "wbind m f = (case m of WOk x \<Rightarrow> f x | WErr e \<Rightarrow> WErr e | WPanic \<Rightarrow> WPanic | WHang \<Rightarrow> WHang)"

lemma wbind_simps [simp]:
  "wbind (WOk x) f = f x" "wbind (WErr e) f = WErr e" "wbind WPanic f = WPanic"
  "wbind WHang f = WHang"
  by (simp_all add: wbind_def)

lemma wbind_eq_WOk: "wbind m f = WOk y \<longleftrightarrow> (\<exists>x. m = WOk x \<and> f x = WOk y)"
  by (cases m) auto

lemma wbind_eq_WHang: "wbind m f = WHang \<longleftrightarrow> m = WHang \<or> (\<exists>x. m = WOk x \<and> f x = WHang)"
  by (cases m) auto

lemma wbind_eq_WPanic: "wbind m f = WPanic \<longleftrightarrow> m = WPanic \<or> (\<exists>x. m = WOk x \<and> f x = WPanic)"
  by (cases m) auto

subsection \<open>Reading primitives\<close>

text \<open>The value and the number of bytes it took.\<close>

definition m_readUvarint :: "bytes \<Rightarrow> nat \<Rightarrow> (u64 \<times> nat) wres" where
  "m_readUvarint b pos =
     (if length b < pos then WErr WMalformed
      else case uvarint (drop pos b) of
             (v, n) \<Rightarrow> if n \<le> 0 then WErr WMalformed else WOk (v, nat n))"

definition m_readVarint :: "bytes \<Rightarrow> nat \<Rightarrow> (i64 \<times> nat) wres" where
  "m_readVarint b pos =
     (if length b < pos then WErr WMalformed
      else case varint (drop pos b) of
             (v, n) \<Rightarrow> if n \<le> 0 then WErr WMalformed else WOk (v, nat n))"

text \<open>Skips \<open>k\<close> uvarints in a row.\<close>

fun skip_uvarints :: "bytes \<Rightarrow> nat \<Rightarrow> nat \<Rightarrow> nat wres" where
  "skip_uvarints b k pos =
     (if k = 0 then WOk pos
      else wbind (m_readUvarint b pos) (\<lambda>(_, n). skip_uvarints b (k - 1) (pos + n)))"

declare skip_uvarints.simps [simp del]

definition skip_limits :: "bytes \<Rightarrow> nat \<Rightarrow> nat wres" where
  "skip_limits b pos =
     (if length b \<le> pos then WErr WMalformed
      else let flag = b ! pos in
        wbind (m_readUvarint b (pos + 1)) (\<lambda>(_, n).
          if flag = 0x01 then wbind (m_readUvarint b (pos + 1 + n)) (\<lambda>(_, n'). WOk (pos + 1 + n + n'))
          else WOk (pos + 1 + n)))"

text \<open>One name (a length-prefixed byte vector) of an import.\<close>

definition skip_name :: "bytes \<Rightarrow> nat \<Rightarrow> nat wres" where
  "skip_name b pos = wbind (m_readUvarint b pos) (\<lambda>(l, n).
     if length b - (pos + n) < unat l then WErr WMalformed else WOk (pos + n + unat l))"

fun count_imports :: "bytes \<Rightarrow> nat \<Rightarrow> nat \<Rightarrow> nat \<Rightarrow> nat wres" where
  "count_imports b k pos globals =
     (if k = 0 then WOk globals
      else wbind (skip_name b pos) (\<lambda>pos. wbind (skip_name b pos) (\<lambda>pos.
        if length b \<le> pos then WErr WMalformed
        else let kind = b ! pos; pos = pos + 1 in
          if kind = 0x00 then
            wbind (m_readUvarint b pos) (\<lambda>(_, n). count_imports b (k - 1) (pos + n) globals)
          else if kind = 0x01 then
            wbind (skip_limits b (pos + 1)) (\<lambda>pos. count_imports b (k - 1) pos globals)
          else if kind = 0x02 then
            wbind (skip_limits b pos) (\<lambda>pos. count_imports b (k - 1) pos globals)
          else if kind = 0x03 then count_imports b (k - 1) (pos + 2) (globals + 1)
          else WErr WMalformed)))"

declare count_imports.simps [simp del]

definition count_imported_globals :: "bytes \<Rightarrow> nat wres" where
  "count_imported_globals content =
     wbind (m_readUvarint content 0) (\<lambda>(cnt, n). count_imports content (unat cnt) n 0)"

text \<open>The header of the section at \<open>pos\<close>: its sid, its content and the position after it.\<close>

definition read_section :: "bytes \<Rightarrow> nat \<Rightarrow> (u8 \<times> bytes \<times> nat) wres" where
  "read_section wasm pos =
     (let sid = wasm ! pos in
      wbind (m_readUvarint wasm (pos + 1)) (\<lambda>(sz, n).
        let p = pos + 1 + n in
        if length wasm - p < unat sz then WErr WMalformed
        else WOk (sid, take (unat sz) (drop p wasm), p + unat sz)))"

lemma m_readUvarint_pos: "m_readUvarint b pos = WOk (v, n) \<Longrightarrow> 1 \<le> n \<and> pos + n \<le> length b"
  using uvarint_consumed [of "drop pos b"]
  by (auto simp: m_readUvarint_def split: if_splits prod.splits)

lemma m_readVarint_pos: "m_readVarint b pos = WOk (v, n) \<Longrightarrow> 1 \<le> n \<and> pos + n \<le> length b"
  using uvarint_consumed [of "drop pos b"]
  by (auto simp: m_readVarint_def varint_def split: if_splits prod.splits)

lemma read_section_pos:
  "read_section wasm pos = WOk (sid, content, p) \<Longrightarrow> pos + 2 \<le> p \<and> p \<le> length wasm"
  by (auto simp: read_section_def Let_def wbind_eq_WOk split: if_splits dest!: m_readUvarint_pos)

text \<open>\<^verbatim>\<open>countGlobals\<close>: imported and defined globals, over the sections from \<open>pos\<close> on.\<close>

function count_globals :: "bytes \<Rightarrow> nat \<Rightarrow> nat \<Rightarrow> u64 \<Rightarrow> (nat \<times> u64) wres" where
  "count_globals wasm pos imported defined =
     (if length wasm \<le> pos then WOk (imported, defined)
      else case read_section wasm pos of
             WOk (sid, content, p) \<Rightarrow>
               if sid = 2 then wbind (count_imported_globals content) (\<lambda>c. count_globals wasm p c defined)
               else if sid = 6 then
                 wbind (m_readUvarint content 0) (\<lambda>(cnt, _). count_globals wasm p imported cnt)
               else count_globals wasm p imported defined
           | WErr e \<Rightarrow> WErr e | WPanic \<Rightarrow> WPanic | WHang \<Rightarrow> WHang)"
  by pat_completeness auto
termination
  by (relation "measure (\<lambda>(wasm, pos, i, d). length wasm - pos)") (auto dest!: read_section_pos)

declare count_globals.simps [simp del]

text \<open>
  \<^verbatim>\<open>hasSection\<close> and the scans for an insertion point run on modules whose section sizes the first
  pass has already checked, so \<^verbatim>\<open>int(size)\<close> is \<open>unat sz\<close> there.
\<close>

function has_section :: "bytes \<Rightarrow> u8 \<Rightarrow> nat \<Rightarrow> bool" where
  "has_section wasm sid pos =
     (if length wasm \<le> pos then False
      else case m_readUvarint wasm (pos + 1) of
             WOk (sz, n) \<Rightarrow> if wasm ! pos = sid then True else has_section wasm sid (pos + 1 + n + unat sz)
           | _ \<Rightarrow> False)"
  by pat_completeness auto
termination
  by (relation "measure (\<lambda>(wasm, sid, pos). length wasm - pos)") auto

declare has_section.simps [simp del]

subsection \<open>Emission\<close>

definition append_uvarint :: "bytes \<Rightarrow> u64 \<Rightarrow> bytes" where
  "append_uvarint b v = b @ put_uvarint v"

definition append_section :: "bytes \<Rightarrow> u8 \<Rightarrow> bytes \<Rightarrow> bytes" where
  "append_section out sid content = append_uvarint (out @ [sid]) (of_nat (length content)) @ content"

text \<open>
  \<^verbatim>\<open>appendSLEB\<close>, on the signed value: \<^verbatim>\<open>v & 0x7f\<close> is \<open>v mod 128\<close> and the arithmetic shift
  \<^verbatim>\<open>v >>= 7\<close> is \<open>v div 128\<close>.
\<close>

function append_sleb :: "bytes \<Rightarrow> int \<Rightarrow> bytes" where
  "append_sleb b v =
     (let c = word_of_int (v mod 128) :: u8; v' = v div 128 in
      if (v' = 0 \<and> c AND 0x40 = 0) \<or> (v' = -1 \<and> c AND 0x40 \<noteq> 0) then b @ [c]
      else append_sleb (b @ [c OR 0x80]) v')"
  by pat_completeness auto
termination
proof (relation "measure (\<lambda>(b, v). nat \<bar>v\<bar>)")
  fix b :: bytes and v v' :: int and c :: u8
  assume c: "c = word_of_int (v mod 128)" and v': "v' = v div 128"
    and go: "\<not> ((v' = 0 \<and> c AND 0x40 = 0) \<or> (v' = -1 \<and> c AND 0x40 \<noteq> 0))"
  have "v \<noteq> 0" using c v' go by auto
  moreover have "v \<noteq> -1" using c v' go by auto
  ultimately have "\<bar>v div 128\<bar> < \<bar>v\<bar>" by linarith
  then show "((b @ [c OR 0x80], v'), b, v) \<in> measure (\<lambda>(b, v). nat \<bar>v\<bar>)"
    by (simp add: v')
qed simp

declare append_sleb.simps [simp del]

definition gas_global_entry :: "int \<Rightarrow> bytes" where
  "gas_global_entry limit = append_sleb [0x7e, 0x01, 0x42] limit @ [0x0b]"

definition append_gas_global :: "bytes \<Rightarrow> int \<Rightarrow> bytes wres" where
  "append_gas_global content limit =
     wbind (m_readUvarint content 0) (\<lambda>(cnt, n).
       WOk (append_uvarint [] (cnt + 1) @ drop n content @ gas_global_entry limit))"

definition gasExportName :: bytes where
  "gasExportName = str_bytes ''chaingo_gas''"

definition gas_export_entry :: "u32 \<Rightarrow> bytes" where
  "gas_export_entry g =
     append_uvarint (append_uvarint [] (of_nat (length gasExportName)) @ gasExportName @ [0x03]) (ucast g)"

definition append_gas_export :: "bytes \<Rightarrow> u32 \<Rightarrow> bytes wres" where
  "append_gas_export content g =
     wbind (m_readUvarint content 0) (\<lambda>(cnt, n).
       WOk (append_uvarint [] (cnt + 1) @ drop n content @ gas_export_entry g))"

text \<open>The start of the first section whose sid exceeds \<open>bound\<close>, else the end.\<close>

function insert_point :: "bytes \<Rightarrow> u8 \<Rightarrow> nat \<Rightarrow> nat wres" where
  "insert_point out bound pos =
     (if length out \<le> pos then WOk (length out)
      else case m_readUvarint out (pos + 1) of
             WOk (sz, n) \<Rightarrow> if bound < out ! pos then WOk pos
                             else insert_point out bound (pos + 1 + n + unat sz)
           | WErr e \<Rightarrow> WErr e | WPanic \<Rightarrow> WPanic | WHang \<Rightarrow> WHang)"
  by pat_completeness auto
termination
  by (relation "measure (\<lambda>(out, bound, pos). length out - pos)") auto

declare insert_point.simps [simp del]

definition insert_global_section :: "bytes \<Rightarrow> int \<Rightarrow> bytes wres" where
  "insert_global_section out limit =
     (let sec = append_uvarint [] 1 @ gas_global_entry limit;
          section = append_section [] 6 sec
      in wbind (insert_point out 6 8) (\<lambda>at. WOk (take at out @ section @ drop at out)))"

definition insert_export_section :: "bytes \<Rightarrow> u32 \<Rightarrow> bytes wres" where
  "insert_export_section out g =
     (let sec = append_uvarint [] 1 @ gas_export_entry g;
          section = append_section [] 7 sec
      in wbind (insert_point out 7 8) (\<lambda>at. WOk (take at out @ section @ drop at out)))"

subsection \<open>Instrumentation of code\<close>

definition charge :: "u32 \<Rightarrow> int \<Rightarrow> bytes" where
  "charge g cost =
     (let b = append_uvarint [0x23] (ucast g);
          b = append_sleb (b @ [0x42]) cost;
          b = b @ [0x7d, 0x24];
          b = append_uvarint b (ucast g) @ [0x23];
          b = append_uvarint b (ucast g)
      in b @ [0x42, 0x00, 0x53, 0x04, 0x40, 0x00, 0x0b])"

text \<open>
  \<^verbatim>\<open>needBytes\<close>: the position and \<open>k\<close> are Go \<^verbatim>\<open>int\<close>s, their sum wraps, and \<open>k\<close> may be negative
  (the \<^verbatim>\<open>int(cnt)\<close> of a huge count), so the result may lie before \<open>pos\<close>.
\<close>

definition wrap64 :: "int \<Rightarrow> int" where
  "wrap64 x = sint (word_of_int x :: i64)"

definition need_bytes :: "bytes \<Rightarrow> nat \<Rightarrow> int \<Rightarrow> int wres" where
  "need_bytes code pos k =
     (let p = wrap64 (int pos + k) in if int (length code) < p then WErr WMalformed else WOk p)"

definition skip_one_uvarint :: "bytes \<Rightarrow> nat \<Rightarrow> int wres" where
  "skip_one_uvarint code pos = wbind (m_readUvarint code pos) (\<lambda>(_, n). WOk (int (pos + n)))"

definition skip_one_varint :: "bytes \<Rightarrow> nat \<Rightarrow> int wres" where
  "skip_one_varint code pos = wbind (m_readVarint code pos) (\<lambda>(_, n). WOk (int (pos + n)))"

definition skip_many_uvarints :: "bytes \<Rightarrow> nat \<Rightarrow> nat \<Rightarrow> int wres" where
  "skip_many_uvarints code k pos = wbind (skip_uvarints code k pos) (\<lambda>p. WOk (int p))"

text \<open>The \<^verbatim>\<open>case op == 0xfc\<close> branch: saturating truncation and bulk memory.\<close>

definition skip_fc :: "bytes \<Rightarrow> nat \<Rightarrow> int wres" where
  "skip_fc code pos =
     wbind (m_readUvarint code pos) (\<lambda>(sub, n).
       let pos = pos + n in
       if sub \<le> 7 then WOk (int pos)
       else if sub = 8 then wbind (m_readUvarint code pos) (\<lambda>(_, n). need_bytes code (pos + n) 1)
       else if sub = 9 \<or> sub = 13 \<or> sub = 15 \<or> sub = 16 \<or> sub = 17 then skip_one_uvarint code pos
       else if sub = 10 then need_bytes code pos 2
       else if sub = 11 then need_bytes code pos 1
       else if sub = 12 \<or> sub = 14 then skip_many_uvarints code 2 pos
       else WErr WUnsupported)"

definition skip_immediate :: "bytes \<Rightarrow> nat \<Rightarrow> u8 \<Rightarrow> int wres" where
  "skip_immediate code pos op =
     (if op \<in> {0x00, 0x01, 0x05, 0x0b, 0x0f, 0x1a, 0x1b, 0xd1} \<or> (0x45 \<le> op \<and> op \<le> 0xc4)
      then WOk (int pos)
      else if op \<in> {0x02, 0x03, 0x04} then skip_one_varint code pos
      else if op \<in> {0x0c, 0x0d, 0x10} \<or> (0x20 \<le> op \<and> op \<le> 0x26) \<or> op = 0xd2
      then skip_one_uvarint code pos
      else if op = 0x0e then
        wbind (m_readUvarint code pos) (\<lambda>(cnt, n). skip_many_uvarints code (unat cnt + 1) (pos + n))
      else if op = 0x11 then skip_many_uvarints code 2 pos
      else if 0x28 \<le> op \<and> op \<le> 0x3e then skip_many_uvarints code 2 pos
      else if op = 0x3f \<or> op = 0x40 then need_bytes code pos 1
      else if op = 0x41 \<or> op = 0x42 then skip_one_varint code pos
      else if op = 0x43 then need_bytes code pos 4
      else if op = 0x44 then need_bytes code pos 8
      else if op = 0xd0 then need_bytes code pos 1
      else if op = 0x1c then
        wbind (m_readUvarint code pos) (\<lambda>(cnt, n). need_bytes code (pos + n) (sint cnt))
      else if op = 0xfc then skip_fc code pos
      else WErr WUnsupported)"

text \<open>
  The loop of \<^verbatim>\<open>instrumentBody\<close> over the instructions. \<open>body_loop_src\<close> is the source's loop, where
  \<open>None\<close> is a run that never ends; a next position before \<open>start\<close> makes \<^verbatim>\<open>code[start:nip]\<close>
  panic. \<open>body_loop\<close> is its total form: a next position equal to \<open>start\<close> repeats the same state
  for ever, which it reports as \<open>WHang\<close> (lemma \<open>body_loop_src_eq\<close>).
\<close>

definition slice :: "'a list \<Rightarrow> nat \<Rightarrow> nat \<Rightarrow> 'a list" where
  "slice xs i j = take (j - i) (drop i xs)"

partial_function (option) body_loop_src :: "bytes \<Rightarrow> bytes \<Rightarrow> nat \<Rightarrow> bytes \<Rightarrow> bytes wres option" where
  "body_loop_src code ch ip out =
     (if length code \<le> ip then Some (WOk out)
      else case skip_immediate code (ip + 1) (code ! ip) of
             WOk nip \<Rightarrow>
               if nip < int ip then Some WPanic
               else body_loop_src code ch (nat nip)
                      (out @ slice code ip (nat nip) @ (if code ! ip = 0x03 then ch else []))
           | WErr e \<Rightarrow> Some (WErr e) | WPanic \<Rightarrow> Some WPanic | WHang \<Rightarrow> None)"

function body_loop :: "bytes \<Rightarrow> bytes \<Rightarrow> nat \<Rightarrow> bytes \<Rightarrow> bytes wres" where
  "body_loop code ch ip out =
     (if length code \<le> ip then WOk out
      else case skip_immediate code (ip + 1) (code ! ip) of
             WOk nip \<Rightarrow>
               if nip < int ip then WPanic
               else if nip = int ip then WHang
               else body_loop code ch (nat nip)
                      (out @ slice code ip (nat nip) @ (if code ! ip = 0x03 then ch else []))
           | WErr e \<Rightarrow> WErr e | WPanic \<Rightarrow> WPanic | WHang \<Rightarrow> WHang)"
  by pat_completeness auto
termination
  by (relation "measure (\<lambda>(code, ch, ip, out). length code - ip)") auto

declare body_loop.simps [simp del]

text \<open>The local declarations at the head of a body: \<open>k\<close> pairs of a count and a type byte.\<close>

fun skip_locals :: "bytes \<Rightarrow> nat \<Rightarrow> nat \<Rightarrow> nat wres" where
  "skip_locals body k pos =
     (if k = 0 then WOk pos
      else wbind (m_readUvarint body pos) (\<lambda>(_, n).
        if length body \<le> pos + n then WErr WMalformed else skip_locals body (k - 1) (pos + n + 1)))"

declare skip_locals.simps [simp del]

definition instrument_body :: "bytes \<Rightarrow> u32 \<Rightarrow> int \<Rightarrow> bytes wres" where
  "instrument_body body g cost =
     wbind (m_readUvarint body 0) (\<lambda>(n_locals, n).
     wbind (skip_locals body (unat n_locals) n) (\<lambda>pos.
       let ch = charge g cost in body_loop (drop pos body) ch 0 (take pos body @ ch)))"

fun instrument_funcs :: "bytes \<Rightarrow> u32 \<Rightarrow> int \<Rightarrow> nat \<Rightarrow> nat \<Rightarrow> bytes \<Rightarrow> bytes wres" where
  "instrument_funcs content g cost k pos out =
     (if k = 0 then WOk out
      else wbind (m_readUvarint content pos) (\<lambda>(body_size, n).
        let p = pos + n in
        if length content - p < unat body_size then WErr WMalformed
        else wbind (instrument_body (take (unat body_size) (drop p content)) g cost) (\<lambda>new_body.
          instrument_funcs content g cost (k - 1) (p + unat body_size)
            (append_uvarint out (of_nat (length new_body)) @ new_body))))"

declare instrument_funcs.simps [simp del]

definition instrument_code :: "bytes \<Rightarrow> u32 \<Rightarrow> int \<Rightarrow> bytes wres" where
  "instrument_code content g cost =
     wbind (m_readUvarint content 0) (\<lambda>(n_funcs, n).
       instrument_funcs content g cost (unat n_funcs) n (append_uvarint [] n_funcs))"

text \<open>The second pass of \<^verbatim>\<open>instrument\<close>: rewrite sections 6, 7 and 10, copy the others.\<close>

function rewrite_sections :: "bytes \<Rightarrow> u32 \<Rightarrow> int \<Rightarrow> int \<Rightarrow> nat \<Rightarrow> bytes \<Rightarrow> bytes wres" where
  "rewrite_sections wasm g limit cost pos out =
     (if length wasm \<le> pos then WOk out
      else case read_section wasm pos of
             WOk (sid, content, p) \<Rightarrow>
               wbind (if sid = 6 then wbind (append_gas_global content limit) (\<lambda>c. WOk (append_section out 6 c))
                      else if sid = 7 then wbind (append_gas_export content g) (\<lambda>c. WOk (append_section out 7 c))
                      else if sid = 10 then wbind (instrument_code content g cost) (\<lambda>c. WOk (append_section out 10 c))
                      else WOk (out @ slice wasm pos p))
                 (\<lambda>out. rewrite_sections wasm g limit cost p out)
           | WErr e \<Rightarrow> WErr e | WPanic \<Rightarrow> WPanic | WHang \<Rightarrow> WHang)"
  by pat_completeness auto
termination
  by (relation "measure (\<lambda>(wasm, g, l, c, pos, out). length wasm - pos)") (auto dest!: read_section_pos)

declare rewrite_sections.simps [simp del]

definition instrument :: "bytes \<Rightarrow> int \<Rightarrow> int \<Rightarrow> bytes wres" where
  "instrument wasm gas_limit cost =
     (if length wasm < 8 \<or> take 4 wasm \<noteq> [0x00, 0x61, 0x73, 0x6d] then WErr WMalformed
      else wbind (count_globals wasm 8 0 0) (\<lambda>(imported, defined).
        let g = ucast (of_nat imported + defined :: u64) :: u32 in
        wbind (rewrite_sections wasm g gas_limit cost 8 (take 8 wasm)) (\<lambda>out.
        wbind (if defined = 0 \<and> \<not> has_section wasm 6 8 then insert_global_section out gas_limit else WOk out) (\<lambda>out.
          if has_section wasm 7 8 then WOk out else insert_export_section out g))))"

text \<open>\<^verbatim>\<open>Validate\<close>: every error of the dry run becomes \<^verbatim>\<open>ErrInvalidCode\<close>.\<close>

definition wasm_validate :: "bytes \<Rightarrow> unit wres" where
  "wasm_validate code =
     (if length code = 0 then WErr WInvalidCode
      else case instrument code (2 ^ 30) 1 of
             WOk _ \<Rightarrow> WOk () | WErr _ \<Rightarrow> WErr WInvalidCode | WPanic \<Rightarrow> WPanic | WHang \<Rightarrow> WHang)"

lemma wasm_validate_hang: "wasm_validate code = WHang \<longleftrightarrow> code \<noteq> [] \<and> instrument code (2 ^ 30) 1 = WHang"
  by (auto simp: wasm_validate_def split: wres.splits)

subsection \<open>When the instruction loop ends\<close>

lemma skip_uvarints_pos: "skip_uvarints b k pos = WOk p \<Longrightarrow> pos \<le> p \<and> (pos \<le> length b \<longrightarrow> p \<le> length b)"
proof (induction b k pos rule: skip_uvarints.induct)
  case (1 b k pos)
  show ?case
  proof (cases "k = 0")
    case True
    with 1 show ?thesis by (simp add: skip_uvarints.simps)
  next
    case False
    with "1.prems" obtain v n where n: "m_readUvarint b pos = WOk (v, n)"
      and rest: "skip_uvarints b (k - 1) (pos + n) = WOk p"
      by (subst (asm) skip_uvarints.simps) (auto simp: wbind_eq_WOk)
    with "1.IH" [OF False] m_readUvarint_pos [OF n] show ?thesis by fastforce
  qed
qed

lemma need_bytes_le: "need_bytes code pos k = WOk p \<Longrightarrow> p \<le> int (length code)"
  by (auto simp: need_bytes_def Let_def split: if_splits)

lemma skip_ok_bounds:
  "skip_one_uvarint code pos = WOk p \<Longrightarrow> int pos < p \<and> p \<le> int (length code)"
  "skip_one_varint code pos = WOk p \<Longrightarrow> int pos < p \<and> p \<le> int (length code)"
  by (auto simp: skip_one_uvarint_def skip_one_varint_def wbind_eq_WOk
      dest!: m_readUvarint_pos m_readVarint_pos)

lemma skip_loop_step: "skip_immediate code pos 0x03 = WOk p \<Longrightarrow> int pos < p"
  by (simp add: skip_immediate_def skip_ok_bounds)

lemma m_read_not_hang [simp]: "m_readUvarint b pos \<noteq> WHang" "m_readVarint b pos \<noteq> WHang"
  by (auto simp: m_readUvarint_def m_readVarint_def split: prod.splits)

lemma skip_uvarints_not_hang [simp]: "skip_uvarints b k pos \<noteq> WHang"
proof (induction b k pos rule: skip_uvarints.induct)
  case (1 b k pos)
  then show ?case
    by (subst skip_uvarints.simps) (auto simp: wbind_eq_WHang)
qed

lemma need_bytes_not_hang [simp]: "need_bytes code pos k \<noteq> WHang"
  by (simp add: need_bytes_def Let_def)

lemma skip_not_hang [simp]:
  "skip_one_uvarint code pos \<noteq> WHang" "skip_one_varint code pos \<noteq> WHang"
  "skip_many_uvarints code k pos \<noteq> WHang" "skip_fc code pos \<noteq> WHang"
  by (auto simp: skip_one_uvarint_def skip_one_varint_def skip_many_uvarints_def skip_fc_def
      Let_def wbind_eq_WHang split: if_splits)

lemma skip_immediate_not_hang [simp]: "skip_immediate code pos op \<noteq> WHang"
  by (simp add: skip_immediate_def wbind_eq_WHang)

lemma m_read_not_panic [simp]: "m_readUvarint b pos \<noteq> WPanic" "m_readVarint b pos \<noteq> WPanic"
  by (auto simp: m_readUvarint_def m_readVarint_def split: prod.splits)

lemma skip_uvarints_not_panic [simp]: "skip_uvarints b k pos \<noteq> WPanic"
proof (induction b k pos rule: skip_uvarints.induct)
  case (1 b k pos)
  then show ?case
    by (subst skip_uvarints.simps) (auto simp: wbind_def split: wres.split)
qed

lemma need_bytes_not_panic [simp]: "need_bytes code pos k \<noteq> WPanic"
  by (simp add: need_bytes_def Let_def)

lemma skip_not_panic [simp]:
  "skip_one_uvarint code pos \<noteq> WPanic" "skip_one_varint code pos \<noteq> WPanic"
  "skip_many_uvarints code k pos \<noteq> WPanic" "skip_fc code pos \<noteq> WPanic"
  by (auto simp: skip_one_uvarint_def skip_one_varint_def skip_many_uvarints_def skip_fc_def
      Let_def wbind_eq_WPanic split: if_splits)

lemma skip_immediate_not_panic [simp]: "skip_immediate code pos op \<noteq> WPanic"
  by (simp add: skip_immediate_def wbind_eq_WPanic)

text \<open>A position whose instruction ends where it starts.\<close>

definition stuck :: "bytes \<Rightarrow> nat \<Rightarrow> bool" where
  "stuck code ip \<longleftrightarrow> ip < length code \<and> skip_immediate code (ip + 1) (code ! ip) = WOk (int ip)"

lemma body_loop_src_not_stuck:
  assumes "body_loop_src code ch ip out = Some r"
  shows "\<not> stuck code ip"
proof (rule body_loop_src.raw_induct [where P = "\<lambda>code ch ip out r. \<not> stuck code ip", OF _ assms])
  fix f code ch ip out r
  assume IH: "\<And>code ch ip out r. f code ch ip out = Some r \<Longrightarrow> \<not> stuck code ip"
    and eq: "(if length code \<le> ip then Some (WOk out)
      else case skip_immediate code (ip + 1) (code ! ip) of
             WOk nip \<Rightarrow>
               if nip < int ip then Some WPanic
               else f code ch (nat nip)
                      (out @ slice code ip (nat nip) @ (if code ! ip = 0x03 then ch else []))
           | WErr e \<Rightarrow> Some (WErr e) | WPanic \<Rightarrow> Some WPanic | WHang \<Rightarrow> None) = Some r"
  show "\<not> stuck code ip"
  proof
    assume s: "stuck code ip"
    with eq have "f code ch ip (out @ slice code ip ip @ (if code ! ip = 0x03 then ch else [])) = Some r"
      by (simp add: stuck_def)
    with IH s show False by blast
  qed
qed

lemma body_loop_src_eq:
  "body_loop_src code ch ip out
     = (case body_loop code ch ip out of WHang \<Rightarrow> None | r \<Rightarrow> Some r)"
proof (induction code ch ip out rule: body_loop.induct)
  case (1 code ch ip out)
  show ?case
  proof (cases "skip_immediate code (ip + 1) (code ! ip)")
    case (WOk nip)
    consider "length code \<le> ip" | "\<not> length code \<le> ip" "nip < int ip"
      | "\<not> length code \<le> ip" "nip = int ip" | "\<not> length code \<le> ip" "int ip < nip" by linarith
    then show ?thesis
    proof cases
      case 3
      with WOk have "stuck code ip" by (simp add: stuck_def)
      with body_loop_src_not_stuck have "body_loop_src code ch ip out = None" by fastforce
      with 3 WOk show ?thesis by (simp add: body_loop.simps [of code ch ip out])
    next
      case 4
      then show ?thesis
        using "1.IH" [of nip] WOk
        by (simp add: body_loop.simps [of code ch ip out] body_loop_src.simps [of code ch ip out])
    qed (use WOk in \<open>simp_all add: body_loop.simps [of code ch ip out] body_loop_src.simps [of code ch ip out]\<close>)
  next
    case WHang
    then show ?thesis by simp
  qed (simp_all add: body_loop.simps [of code ch ip out] body_loop_src.simps [of code ch ip out])
qed

text \<open>
  Only the typed \<open>select\<close> can move the position backwards: every other immediate ends at or after
  the byte that follows its opcode. The bound on the length is that of a Go slice.
\<close>

lemma wrap64_id: "0 \<le> x \<Longrightarrow> x < 2 ^ 63 \<Longrightarrow> wrap64 x = x"
  by (simp add: wrap64_def signed_of_int signed_take_bit_int_eq_self)

lemma need_bytes_forward:
  assumes "need_bytes code pos k = WOk p" "0 \<le> k" "int pos + k < 2 ^ 63"
  shows "int pos \<le> p"
  using assms wrap64_id [of "int pos + k"] by (auto simp: need_bytes_def Let_def split: if_splits)

lemma skip_many_forward: "skip_many_uvarints code k pos = WOk p \<Longrightarrow> int pos \<le> p"
  by (auto simp: skip_many_uvarints_def wbind_eq_WOk dest: skip_uvarints_pos)

lemma skip_fc_forward:
  assumes "skip_fc code pos = WOk p" "length code < 2 ^ 62"
  shows "int pos \<le> p"
proof -
  from assms(1) obtain sb n where n: "m_readUvarint code pos = WOk (sb, n)"
    and r: "(let pos = pos + n in
       if sb \<le> 7 then WOk (int pos)
       else if sb = 8 then wbind (m_readUvarint code pos) (\<lambda>(_, n). need_bytes code (pos + n) 1)
       else if sb = 9 \<or> sb = 13 \<or> sb = 15 \<or> sb = 16 \<or> sb = 17 then skip_one_uvarint code pos
       else if sb = 10 then need_bytes code pos 2
       else if sb = 11 then need_bytes code pos 1
       else if sb = 12 \<or> sb = 14 then skip_many_uvarints code 2 pos
       else WErr WUnsupported) = WOk p"
    by (auto simp: skip_fc_def wbind_eq_WOk)
  have pn: "pos + n \<le> length code" using m_readUvarint_pos [OF n] by simp
  have nb: "need_bytes code q k = WOk p \<Longrightarrow> q \<le> length code \<Longrightarrow> 0 \<le> k \<Longrightarrow> k \<le> 2 \<Longrightarrow> int q \<le> p" for q k
    using need_bytes_forward [of code q k p] assms(2) by simp
  have mr: "m_readUvarint code (pos + n) = WOk (v, k) \<Longrightarrow> pos + n + k \<le> length code" for v k
    using m_readUvarint_pos by auto
  have "int (pos + n) \<le> p"
    using r pn nb [of "pos + n" 2] nb [of "pos + n" 1] skip_many_forward [of code 2 "pos + n" p]
      skip_ok_bounds(1) [of code "pos + n" p] mr nb [of _ 1]
    by (auto simp: Let_def wbind_eq_WOk split: if_splits) force+
  then show ?thesis by simp
qed

lemma skip_immediate_forward:
  assumes "skip_immediate code pos op = WOk p" "op \<noteq> 0x1c" "pos \<le> length code" "length code < 2 ^ 62"
  shows "int pos \<le> p"
proof -
  have nb: "need_bytes code pos k = WOk p \<Longrightarrow> 0 \<le> k \<Longrightarrow> k \<le> 8 \<Longrightarrow> ?thesis" for k
    using need_bytes_forward [of code pos k p] assms(3,4) by simp
  have u: "skip_one_uvarint code pos = WOk p \<Longrightarrow> ?thesis" "skip_one_varint code pos = WOk p \<Longrightarrow> ?thesis"
    using skip_ok_bounds [of code pos p] by auto
  have m: "skip_many_uvarints code k pos = WOk p \<Longrightarrow> ?thesis" for k
    by (rule skip_many_forward)
  have t: "wbind (m_readUvarint code pos) (\<lambda>(cnt, n). skip_many_uvarints code (unat cnt + 1) (pos + n)) = WOk p \<Longrightarrow> ?thesis"
    by (auto simp: wbind_eq_WOk dest!: skip_many_forward)
  have f: "skip_fc code pos = WOk p \<Longrightarrow> ?thesis" using skip_fc_forward assms(4) by blast
  show ?thesis
    using assms(1,2) unfolding skip_immediate_def
    by (simp only: split: if_split_asm) (use nb [of 1] nb [of 4] nb [of 8] u m [of 2] t f in \<open>simp_all\<close>)
qed

lemma body_loop_bad_select:
  "body_loop code ch ip out = WHang \<or> body_loop code ch ip out = WPanic \<Longrightarrow> length code < 2 ^ 62
    \<Longrightarrow> \<exists>i<length code. code ! i = 0x1c"
proof (induction code ch ip out rule: body_loop.induct)
  case (1 code ch ip out)
  show ?case
  proof (cases "ip < length code \<and> code ! ip \<noteq> 0x1c")
    case True
    then have ip: "\<not> length code \<le> ip" by simp
    have noP: "skip_immediate code (ip + 1) (code ! ip) \<noteq> WPanic" by (rule skip_immediate_not_panic)
    from "1.prems"(1) ip obtain nip where n: "skip_immediate code (ip + 1) (code ! ip) = WOk nip"
      using noP by (subst (asm) (1 2) body_loop.simps) (auto split: wres.splits)
    then have "int (ip + 1) \<le> nip"
      using skip_immediate_forward [OF n] True "1.prems"(2) by simp
    with n ip 1 show ?thesis
      by (subst (asm) (1 2) body_loop.simps) auto
  next
    case False
    with "1.prems"(1) show ?thesis
      by (cases "ip < length code") (auto simp: body_loop.simps [of code ch ip out])
  qed
qed

text \<open>
  A 24-byte module whose only function body is the typed \<open>select\<close> (opcode 0x1c) with the count
  \<open>2 ^ 64 - 11\<close>: the count, read as \<^verbatim>\<open>int\<close>, is \<open>-11\<close>, which takes the position back to the
  opcode.
\<close>

definition hang_module :: bytes where
  "hang_module = [0x00, 0x61, 0x73, 0x6d, 0x01, 0x00, 0x00, 0x00,
     0x0a, 0x0e, 0x01, 0x0c, 0x00, 0x1c,
     0xf5, 0xff, 0xff, 0xff, 0xff, 0xff, 0xff, 0xff, 0xff, 0x01]"

lemma validate_hang_module: "wasm_validate hang_module = WHang"
  by code_simp

end
