(* ===== verification/WireProps.thy ===== *)
theory WireProps
  imports BlockCodec Meter
begin

text \<open>
  Properties of the wire formats (\<^verbatim>\<open>internal/codec\<close>, \<^verbatim>\<open>tx_codec.go\<close>, \<^verbatim>\<open>block_codec.go\<close>) and of the
  WASM gas meter (\<^verbatim>\<open>internal/wasmvm/meter.go\<close>), with concrete inputs their witnesses use.
\<close>

subsection \<open>Sample data\<close>

definition sample_tx :: transaction where
  "sample_tx = \<lparr>tx_ChainID = ''chaingo-1'', tx_Type = ''wasm_call'', tx_From = ''cg01'', tx_FromPubKey = [1, 2, 3],
     tx_To = ''cg02'', tx_TokenID = ''CGO'', tx_Amount = 300, tx_Nonce = 7, tx_MaxBaseFee = 100000, tx_Tip = 5,
     tx_Private = True, tx_Memo = ''memo'', tx_Token = None, tx_Contract = None, tx_ContractID = ''ab'',
     tx_Action = ''run'', tx_Proposal = 0, tx_Code = [0], tx_Args = [1, 2 ^ 63], tx_Gas = 9,
     tx_ShieldCommitment = [], tx_ShieldNote = [7], tx_SpendProof = [], tx_SpendPublic = [],
     tx_Timestamp = - 1, tx_Signature = [9]\<rparr>"

definition sample_vote :: "string \<Rightarrow> vote" where
  "sample_vote h = \<lparr>v_ChainID = ''chaingo-1'', v_Height = 5, v_Round = 2, v_Kind = PrecommitKind,
     v_BlockHash = h, v_Voter = ''cg01'', v_VoterPub = [1], v_Signature = [2]\<rparr>"

definition sample_evidence :: evidence where
  "sample_evidence = \<lparr>ev_Height = 5, ev_Voter = ''cg01'', ev_VoteA = Some (sample_vote ''aa''),
     ev_VoteB = Some (sample_vote ''bb'')\<rparr>"

definition sample_block :: block where
  "sample_block = \<lparr>b_Header = \<lparr>h_Height = 5, h_PrevHash = ''aa'', h_Timestamp = 17, h_Proposer = ''cg01'',
       h_Round = 2, h_TxRoot = ''t'', h_EvidenceRoot = ''e'', h_LastCommitRoot = ''c'', h_StateRoot = ''s''\<rparr>,
     b_Txs = [], b_Evidence = [], b_LastCommit = [], b_Hash = ''hh'', b_ProposerPubKey = [4],
     b_ProposerSignature = [5]\<rparr>"

lemma sample_tx_fits: "tx_fits sample_tx"
  by (simp add: tx_fits_def sample_tx_def str_ok_def blob_ok_def MaxBytesLen_def)

lemma sample_vote_fits: "length h \<le> 2 \<Longrightarrow> vote_fits (sample_vote h)"
  by (simp add: vote_fits_def sample_vote_def str_ok_def blob_ok_def MaxBytesLen_def PrecommitKind_def)

lemma sample_block_fits: "block_fits sample_block"
  by (simp add: block_fits_def sample_block_def header_fits_def str_ok_def blob_ok_def MaxBytesLen_def)

subsection \<open>Round trips\<close>

text \<open>
  C22. Decoding an encoded transaction gives the transaction back, for every transaction whose
  byte fields are within the limit of the decoder, whatever optional extensions it carries.
\<close>

theorem tx_wire_roundtrip: "tx_fits tx \<Longrightarrow> tx_unmarshal (tx_marshal tx) = Inr tx"
  by (rule tx_unmarshal_marshal)

theorem tx_wire_roundtrip_witness: "tx_unmarshal (tx_marshal sample_tx) = Inr sample_tx"
  by (rule tx_wire_roundtrip [OF sample_tx_fits])



subsection \<open>What a decoder allocates\<close>

interpretation frame_safe: safe_reader "read_frame un"
  by unfold_locales (auto simp: read_frame_def rbind_eq_Inr dest: bytes_safe.step)

lemma moved_trans: "moved m d d' \<Longrightarrow> moved n d' d'' \<Longrightarrow> moved (m + n) d d''"
  by (simp add: moved_def)

lemma moved_mono: "moved m d d' \<Longrightarrow> n \<le> m \<Longrightarrow> moved n d d'"
  by (simp add: moved_def)

lemma rd_keeps: "safe_reader rd \<Longrightarrow> moved 0 d0 d \<Longrightarrow> rd d = Inr (x, d') \<Longrightarrow> moved 0 d0 d'"
  using safe_reader.step [of rd d x d'] by (auto simp: moved_def)

lemmas rd_keeps_all = rd_keeps [OF uvarint_safe.safe_reader_axioms] rd_keeps [OF varint_safe.safe_reader_axioms]
  rd_keeps [OF string_safe.safe_reader_axioms]

lemma header_moved:
  assumes "wf_dec d" "read_block_header d = Inr (h, d')"
  shows "moved 0 d d'"
proof -
  have start: "moved 0 d d" using assms(1) by (simp add: moved_def)
  from assms(2) obtain x1 d1 x2 d2 x3 d3 x4 d4 x5 d5 x6 d6 x7 d7 x8 d8 x9
    where "read_uvarint d = Inr (x1, d1)" "read_string d1 = Inr (x2, d2)" "read_varint d2 = Inr (x3, d3)"
      "read_string d3 = Inr (x4, d4)" "read_uvarint d4 = Inr (x5, d5)" "read_string d5 = Inr (x6, d6)"
      "read_string d6 = Inr (x7, d7)" "read_string d7 = Inr (x8, d8)" "read_string d8 = Inr (x9, d')"
    unfolding read_block_header_def by (auto simp: rbind_eq_Inr)
  with start show ?thesis by (meson rd_keeps_all)
qed

lemma slice_moved:
  assumes "safe_reader rd" "wf_dec d" "read_slice rd d = Inr (xs, d')"
  shows "moved (length xs) d d'"
  using read_slice_bounded [OF assms] by (auto intro: moved_mono)



subsection \<open>The gas meter\<close>

text \<open>
  The loop that instruments a function body ends exactly when its total form does not report
  a repeated position, and then with the same result: the model of a run that never returns is
  neither too strong nor too weak.
\<close>

theorem instrument_loop_exact:
  "body_loop_src code ch ip out = (case body_loop code ch ip out of WHang \<Rightarrow> None | r \<Rightarrow> Some r)"
  by (rule body_loop_src_eq)

text \<open>
  The loop fails to return, or panics, only on code that contains the opcode of the typed
  \<open>select\<close>: every other instruction moves it forward.
\<close>

theorem instrument_loop_progress:
  assumes "\<forall>i<length code. code ! i \<noteq> 0x1c" and "length code < 2 ^ 62"
  shows "(\<exists>r. body_loop_src code ch ip out = Some r) \<and> body_loop_src code ch ip out \<noteq> Some WPanic"
  using assms body_loop_bad_select [of code ch ip out]
  by (auto simp: body_loop_src_eq split: wres.split)

theorem instrument_loop_progress_witness:
  "\<exists>r. body_loop_src [0x41, 0x05, 0x1a, 0x0b] [] 0 [] = Some r"
proof -
  have "\<forall>i<length [0x41, 0x05, 0x1a, 0x0b :: u8]. [0x41, 0x05, 0x1a, 0x0b :: u8] ! i \<noteq> 0x1c"
    by (simp add: nth_Cons' less_Suc_eq)
  from instrument_loop_progress [OF this] show ?thesis by simp
qed


end
