(* ===== verification/Field.thy ===== *)
theory Field
  imports ChainPrelude
begin

text \<open>
  The Goldilocks field of \<^verbatim>\<open>internal/stark/field.go\<close>: \<open>p = 2 ^ 64 - 2 ^ 32 + 1\<close>, an element being
  its canonical residue in one 64-bit word. Each operation is written with the carries and
  borrows of the source; the lemmas show that it computes the operation modulo \<open>p\<close> and returns
  a canonical residue.
\<close>

type_synonym felt = u64

definition felt_P :: u64 where "felt_P = 0xFFFFFFFF00000001"
definition epsilon :: u64 where "epsilon = 0xFFFFFFFF"

text \<open>\<^verbatim>\<open>bits.Add64\<close>, \<^verbatim>\<open>bits.Sub64\<close> with no carry in, and \<^verbatim>\<open>bits.Mul64\<close>.\<close>

definition add64 :: "u64 \<Rightarrow> u64 \<Rightarrow> u64 \<times> bool" where
  "add64 x y = (x + y, 2 ^ 64 \<le> uint x + uint y)"

definition sub64 :: "u64 \<Rightarrow> u64 \<Rightarrow> u64 \<times> bool" where
  "sub64 x y = (x - y, x < y)"

definition mul64 :: "u64 \<Rightarrow> u64 \<Rightarrow> u64 \<times> u64" where
  "mul64 x y = (word_of_int (uint x * uint y div 2 ^ 64), x * y)"

definition from_uint64 :: "u64 \<Rightarrow> felt" where
  "from_uint64 x = (if felt_P \<le> x then x - felt_P else x)"

definition felt_add :: "felt \<Rightarrow> felt \<Rightarrow> felt" where
  "felt_add a b =
     (let (sum, carry) = add64 a b;
          sum = (if carry then sum + epsilon else sum)
      in if felt_P \<le> sum then sum - felt_P else sum)"

definition felt_sub :: "felt \<Rightarrow> felt \<Rightarrow> felt" where
  "felt_sub a b = (let (diff, borrow) = sub64 a b in if borrow then diff - epsilon else diff)"

definition felt_neg :: "felt \<Rightarrow> felt" where
  "felt_neg a = (if a = 0 then 0 else felt_P - a)"

definition reduce128 :: "u64 \<Rightarrow> u64 \<Rightarrow> felt" where
  "reduce128 lo hi =
     (let hiHi = drop_bit 32 hi;
          hiLo = hi AND 0xFFFFFFFF;
          (t0, borrow) = sub64 lo hiHi;
          t0 = (if borrow then t0 - epsilon else t0);
          t1 = hiLo * epsilon;
          (res, carry) = add64 t0 t1;
          res = (if carry then res + epsilon else res)
      in if felt_P \<le> res then res - felt_P else res)"

definition felt_mul :: "felt \<Rightarrow> felt \<Rightarrow> felt" where
  "felt_mul a b = (let (hi, lo) = mul64 a b in reduce128 lo hi)"

text \<open>Square and multiply, over the bits of the exponent.\<close>

function exp_loop :: "felt \<Rightarrow> felt \<Rightarrow> u64 \<Rightarrow> felt" where
  "exp_loop result base e =
     (if e = 0 then result
      else exp_loop (if e AND 1 = 1 then felt_mul result base else result)
             (felt_mul base base) (drop_bit 1 e))"
  by pat_completeness auto
termination
proof (relation "measure (\<lambda>(result, base, e). unat e)")
  fix result base :: felt and e :: u64
  assume "e \<noteq> 0"
  then have "unat e \<noteq> 0" by (simp add: unat_eq_0)
  then show "((if e AND 1 = 1 then felt_mul result base else result, felt_mul base base, drop_bit 1 e),
      result, base, e) \<in> measure (\<lambda>(result, base, e). unat e)"
    by (simp add: unat_drop_bit_eq drop_bit_nat_def)
qed simp

declare exp_loop.simps [simp del]

definition felt_exp :: "felt \<Rightarrow> u64 \<Rightarrow> felt" where
  "felt_exp a e = exp_loop 1 a e"

definition felt_inv :: "felt \<Rightarrow> felt" where
  "felt_inv a = (if a = 0 then 0 else felt_exp a (felt_P - 2))"

definition felt_div :: "felt \<Rightarrow> felt \<Rightarrow> felt" where
  "felt_div a b = felt_mul a (felt_inv b)"

text \<open>Montgomery's simultaneous inversion: prefix products, one inversion, and the way back.\<close>

fun prefix_products :: "felt \<Rightarrow> felt list \<Rightarrow> felt list \<times> felt" where
  "prefix_products acc [] = ([], acc)"
| "prefix_products acc (a # as) =
     (let (out, total) = prefix_products (felt_mul acc a) as in (acc # out, total))"

fun back_products :: "felt \<Rightarrow> (felt \<times> felt) list \<Rightarrow> felt list" where
  "back_products iv [] = []"
| "back_products iv ((p, a) # rest) = felt_mul p iv # back_products (felt_mul iv a) rest"

definition batch_inv :: "felt list \<Rightarrow> felt list" where
  "batch_inv as =
     (if as = [] then []
      else let (out, acc) = prefix_products 1 as
           in rev (back_products (felt_inv acc) (rev (zip out as))))"

subsection \<open>Bytes of an element\<close>

definition be64 :: "u64 \<Rightarrow> bytes" where
  "be64 x = map (\<lambda>i. ucast (drop_bit (56 - 8 * i) x)) [0 ..< 8]"

definition of_be :: "bytes \<Rightarrow> u64" where
  "of_be bs = foldl (\<lambda>acc b. push_bit 8 acc OR ucast b) 0 bs"

definition felt_bytes :: "felt \<Rightarrow> bytes" where
  "felt_bytes a = be64 a"

definition felt_from_bytes :: "bytes \<Rightarrow> felt" where
  "felt_from_bytes b =
     (let k = min (length b) 8 in from_uint64 (of_be (replicate (8 - k) 0 @ take k b)))"

subsection \<open>Roots of unity\<close>

definition twoAdicity :: u32 where "twoAdicity = 32"
definition generator :: u64 where "generator = 7"

definition two_adic_root :: felt where
  "two_adic_root = felt_exp generator (drop_bit 32 (felt_P - 1))"

text \<open>\<open>None\<close> is the panic on an order above \<open>2 ^ 32\<close>.\<close>

definition root_of_unity :: "u32 \<Rightarrow> felt option" where
  "root_of_unity logN =
     (if twoAdicity < logN then None
      else Some (((\<lambda>r. felt_mul r r) ^^ (32 - unat logN)) two_adic_root))"

subsection \<open>The operations modulo p\<close>

definition p_int :: int where "p_int = 18446744069414584321"

definition canon :: "felt \<Rightarrow> bool" where "canon a \<longleftrightarrow> uint a < p_int"

named_theorems felt_simps \<open>the value and canonicity of the field operations\<close>

lemma uint_felt_P [simp]: "uint felt_P = p_int"
  by (simp add: felt_P_def p_int_def)

lemma uint_epsilon [simp]: "uint epsilon = 4294967295"
  by (simp add: epsilon_def)

lemma word_bounds: "0 \<le> uint (x :: u64)" "uint x < 18446744073709551616"
  using uint_lt2p [of x] by simp_all

lemma mod_p_near:
  assumes "0 \<le> r" "r < p_int" and "r = x \<or> r = x - p_int \<or> r = x + p_int"
  shows "r = x mod p_int"
proof -
  have "x mod p_int = r mod p_int" using assms(3) by auto
  then show ?thesis using assms(1,2) by simp
qed

lemma felt_P_le: "felt_P \<le> x \<longleftrightarrow> p_int \<le> uint x"
  by (simp add: word_le_def)

lemma uint_add64: "uint (x + y :: u64)
    = (if 18446744073709551616 \<le> uint x + uint y then uint x + uint y - 18446744073709551616 else uint x + uint y)"
  by (simp add: uint_plus_if')

lemma uint_sub64: "uint (x - y :: u64)
    = (if uint x < uint y then uint x - uint y + 18446744073709551616 else uint x - uint y)"
  by (simp add: uint_sub_if')

lemma uint_word_obtain:
  fixes x :: u64
  obtains X where "uint x = X" "0 \<le> X" "X < 18446744073709551616"
  using word_bounds [of x] by blast

lemma canon_obtain:
  assumes "canon a"
  obtains A where "uint a = A" "0 \<le> A" "A < p_int"
  using assms word_bounds [of a] by (auto simp: canon_def)

lemma canon_modI: "uint a = x mod p_int \<Longrightarrow> canon a"
  by (simp add: canon_def p_int_def)

lemma from_uint64_mod [felt_simps]: "uint (from_uint64 x) = uint x mod p_int"
proof -
  obtain X where X: "uint x = X" "0 \<le> X" "X < 18446744073709551616" by (rule uint_word_obtain)
  show ?thesis
    using X by (intro mod_p_near) (auto simp: from_uint64_def felt_P_le uint_sub64 p_int_def)
qed

lemma canon_from_uint64 [felt_simps]: "canon (from_uint64 x)"
  by (rule canon_modI, rule from_uint64_mod)

lemma felt_add_mod:
  assumes "canon a" "canon b"
  shows "uint (felt_add a b) = (uint a + uint b) mod p_int"
proof -
  obtain A where A: "uint a = A" "0 \<le> A" "A < p_int" using assms(1) by (rule canon_obtain)
  obtain B where B: "uint b = B" "0 \<le> B" "B < p_int" using assms(2) by (rule canon_obtain)
  show ?thesis
    using A B
    by (intro mod_p_near)
      (auto simp: felt_add_def add64_def Let_def felt_P_le uint_sub64 uint_add64 p_int_def)
qed

lemma felt_sub_mod:
  assumes "canon a" "canon b"
  shows "uint (felt_sub a b) = (uint a - uint b) mod p_int"
proof -
  obtain A where A: "uint a = A" "0 \<le> A" "A < p_int" using assms(1) by (rule canon_obtain)
  obtain B where B: "uint b = B" "0 \<le> B" "B < p_int" using assms(2) by (rule canon_obtain)
  show ?thesis
    using A B
    by (intro mod_p_near)
      (auto simp: felt_sub_def sub64_def Let_def uint_sub64 p_int_def word_less_def)
qed

lemma felt_neg_mod:
  assumes "canon a"
  shows "uint (felt_neg a) = (- uint a) mod p_int"
proof -
  obtain A where A: "uint a = A" "0 \<le> A" "A < p_int" using assms by (rule canon_obtain)
  have "a \<noteq> 0 \<Longrightarrow> 0 < A" using A(1,2) by (metis order_le_less uint_0_iff)
  with A show ?thesis
    by (intro mod_p_near) (auto simp: felt_neg_def uint_sub64 p_int_def)
qed

text \<open>\<^verbatim>\<open>2 ^ 64 = 2 ^ 32 - 1\<close> and \<^verbatim>\<open>2 ^ 96 = -1\<close> modulo \<open>p\<close>.\<close>

lemma reduce128_bounds:
  assumes "uint lo = L" "uint hi = H * 4294967296 + G" "0 \<le> G" "G < 4294967296"
  shows "uint (reduce128 lo hi) = (L + 4294967295 * G - H) mod p_int"
proof -
  have L: "0 \<le> L" "L < 18446744073709551616" using assms(1) word_bounds [of lo] by auto
  have H: "0 \<le> H" "H < 4294967296" using assms word_bounds [of hi] by auto
  have hh: "uint (drop_bit 32 hi) = H"
    using assms by (simp add: drop_bit_eq_div uint_div)
  have "uint (hi AND 0xFFFFFFFF) = uint hi AND mask 32"
    by (simp add: unsigned_and_eq mask_eq_exp_minus_1)
  then have hl: "uint (hi AND 0xFFFFFFFF) = G"
    using assms by (simp add: take_bit_eq_mod flip: take_bit_eq_mask)
  define t1 where "t1 = (hi AND 0xFFFFFFFF) * epsilon"
  have "G * 4294967295 < 18446744073709551616" using assms(4) by simp
  then have t1: "uint t1 = G * 4294967295"
    using assms(3) hl by (simp add: t1_def uint_word_ariths)
  define t0 where "t0 = (if lo < drop_bit 32 hi then lo - drop_bit 32 hi - epsilon else lo - drop_bit 32 hi)"
  have t0: "uint t0 = (if L < H then L - H + p_int else L - H)"
    using L H by (auto simp: t0_def uint_sub64 hh assms(1) p_int_def word_less_def)
  have "reduce128 lo hi = (let res = (if 2 ^ 64 \<le> uint t0 + uint t1 then t0 + t1 + epsilon else t0 + t1)
      in if felt_P \<le> res then res - felt_P else res)"
    by (simp add: reduce128_def Let_def sub64_def add64_def t0_def t1_def)
  then have u: "uint (reduce128 lo hi) = (let r = (if 18446744073709551616 \<le> uint t0 + uint t1
        then uint t0 + uint t1 - p_int else uint t0 + uint t1) in if p_int \<le> r then r - p_int else r)"
    using L H assms(3,4)
    by (auto simp: Let_def felt_P_le uint_add64 uint_sub64 t0 t1 p_int_def)
  define T where "T = uint t0 + uint t1"
  have T: "0 \<le> T" "T \<le> 36893488138829168640"
    using L H assms(3,4) by (auto simp: T_def t0 t1 p_int_def)
  have "T = L + 4294967295 * G - H \<or> T = L + 4294967295 * G - H + p_int"
    by (auto simp: T_def t0 t1)
  then have "T mod p_int = (L + 4294967295 * G - H) mod p_int" by auto
  moreover have "uint (reduce128 lo hi) = T mod p_int"
    using T(1,2) unfolding u T_def [symmetric] by (intro mod_p_near) (auto simp: Let_def p_int_def)
  ultimately show ?thesis by simp
qed

lemma reduce128_mod: "uint (reduce128 lo hi) = (uint lo + 18446744073709551616 * uint hi) mod p_int"
proof -
  define H G where "H = uint hi div 4294967296" and "G = uint hi mod 4294967296"
  have hi: "uint hi = H * 4294967296 + G" "0 \<le> G" "G < 4294967296"
    by (simp_all add: H_def G_def)
  have "uint lo + 18446744073709551616 * uint hi
      = uint lo + 4294967295 * G - H + p_int * (4294967296 * H + H + G)"
    by (simp add: hi p_int_def algebra_simps)
  then show ?thesis
    using reduce128_bounds [OF refl hi] by (simp only: mod_mult_self2)
qed

lemma felt_mul_mod [felt_simps]: "uint (felt_mul a b) = (uint a * uint b) mod p_int"
proof -
  have "uint (word_of_int (uint a * uint b div 18446744073709551616) :: u64)
      = uint a * uint b div 18446744073709551616"
  proof (rule word_of_int_inverse [OF refl])
    have "uint a * uint b \<le> 18446744073709551615 * 18446744073709551615"
      using word_bounds [of a] word_bounds [of b] by (intro mult_mono) auto
    then show "uint a * uint b div 18446744073709551616 < 2 ^ LENGTH(64)" by simp
    show "0 \<le> uint a * uint b div 18446744073709551616" by (simp add: pos_imp_zdiv_nonneg_iff)
  qed
  moreover have "uint (a * b) = uint a * uint b mod 18446744073709551616"
    by (simp add: uint_word_ariths)
  ultimately show ?thesis
    by (simp add: felt_mul_def mul64_def reduce128_mod)
qed

lemma canon_felt_mul [felt_simps]: "canon (felt_mul a b)"
  by (rule canon_modI, rule felt_mul_mod)

lemma canon_felt_add [felt_simps]: "canon a \<Longrightarrow> canon b \<Longrightarrow> canon (felt_add a b)"
  by (rule canon_modI, rule felt_add_mod)

lemma canon_felt_sub [felt_simps]: "canon a \<Longrightarrow> canon b \<Longrightarrow> canon (felt_sub a b)"
  by (rule canon_modI, rule felt_sub_mod)

lemma canon_felt_neg [felt_simps]: "canon a \<Longrightarrow> canon (felt_neg a)"
  by (rule canon_modI, rule felt_neg_mod)

lemma canon_consts [felt_simps]: "canon 0" "canon 1"
  by (simp_all add: canon_def p_int_def)

declare felt_add_mod [felt_simps] felt_sub_mod [felt_simps] felt_neg_mod [felt_simps]

lemma canon_mod [simp]: "canon a \<Longrightarrow> uint a mod p_int = uint a"
  by (simp add: canon_def)

lemma canon_eqI: "canon a \<Longrightarrow> canon b \<Longrightarrow> uint a mod p_int = uint b mod p_int \<Longrightarrow> a = b"
  by (simp add: canon_def word_uint_eq_iff)

lemma exp_loop_mod:
  "canon result \<Longrightarrow> uint (exp_loop result base e) = (uint result * uint base ^ unat e) mod p_int"
proof (induction result base e rule: exp_loop.induct)
  case (1 result base e)
  show ?case
  proof (cases "e = 0")
    case True
    with 1 show ?thesis by (simp add: exp_loop.simps)
  next
    case False
    define r' where "r' = (if e AND 1 = 1 then felt_mul result base else result)"
    have c: "canon r'" using "1.prems" by (simp add: r'_def felt_simps)
    have half: "unat (drop_bit 1 e) = unat e div 2"
      by (simp add: unat_drop_bit_eq drop_bit_nat_def)
    have odd: "e AND 1 = 1 \<longleftrightarrow> odd (unat e)"
    proof -
      have "unat (e AND 1) = unat e mod 2" by (simp add: and_one_eq unat_mod)
      moreover have "e AND 1 = 1 \<longleftrightarrow> unat (e AND 1) = 1" by (simp add: word_unat_eq_iff)
      ultimately show ?thesis by (simp add: odd_iff_mod_2_eq_one)
    qed
    have "uint (exp_loop result base e) = (uint r' * uint (felt_mul base base) ^ (unat e div 2)) mod p_int"
      using "1.IH" [OF False] c False half
      by (simp add: exp_loop.simps [of result base e] r'_def)
    also have "\<dots> = (uint r' * (uint base * uint base) ^ (unat e div 2)) mod p_int"
      by (metis felt_mul_mod mod_mult_right_eq power_mod)
    also have "\<dots> = (uint result * uint base ^ unat e) mod p_int"
    proof (cases "odd (unat e)")
      case True
      then have "unat e = Suc (2 * (unat e div 2))" by simp
      then have "uint base ^ unat e = uint base * (uint base * uint base) ^ (unat e div 2)"
        by (metis power_Suc power_mult power2_eq_square)
      with True odd show ?thesis by (simp add: r'_def felt_simps mod_mult_left_eq mult.assoc)
    next
      case e: False
      then have "unat e = 2 * (unat e div 2)" by simp
      then have "uint base ^ unat e = (uint base * uint base) ^ (unat e div 2)"
        by (metis power_mult power2_eq_square)
      with e odd show ?thesis by (simp add: r'_def)
    qed
    finally show ?thesis .
  qed
qed

lemma felt_exp_mod [felt_simps]: "uint (felt_exp a e) = uint a ^ unat e mod p_int"
  by (simp add: felt_exp_def exp_loop_mod felt_simps)

lemma canon_felt_exp [felt_simps]: "canon (felt_exp a e)"
  by (rule canon_modI, rule felt_exp_mod)

subsection \<open>Bytes of an element\<close>

lemma length_be64 [simp]: "length (be64 x) = 8"
  by (simp add: be64_def)

lemma be_step: "push_bit 8 (drop_bit (k + 8) x) OR ucast (ucast (drop_bit k x) :: u8) = drop_bit k (x :: u64)"
proof (rule bit_word_eqI)
  fix n assume n: "n < LENGTH(64)"
  have "\<not> n < 8 \<Longrightarrow> k + 8 + (n - 8) = k + n" by simp
  with n show "bit (push_bit 8 (drop_bit (k + 8) x) OR ucast (ucast (drop_bit k x) :: u8)) n = bit (drop_bit k x) n"
    by (cases "n < 8") (simp_all add: bit_simps)
qed

lemma of_be_be64 [codec_simps, simp]: "of_be (be64 x) = x"
proof -
  have u: "[0 ..< 8] = [0, 1, 2, 3, 4, 5, 6, 7 :: nat]" by (simp add: upt_rec)
  have z: "drop_bit 64 x = 0" by (rule bit_word_eqI) (simp add: bit_simps)
  show ?thesis
    using be_step [of 56 x] be_step [of 48 x] be_step [of 40 x] be_step [of 32 x] be_step [of 24 x] be_step [of 16 x]
      be_step [of 8 x] be_step [of 0 x]
    by (simp add: of_be_def be64_def u z)
qed

lemma felt_from_bytes_bytes [codec_simps]: "canon a \<Longrightarrow> felt_from_bytes (felt_bytes a) = a"
  by (simp add: felt_from_bytes_def felt_bytes_def from_uint64_def felt_P_le canon_def)

lemma canon_felt_from_bytes [felt_simps]: "canon (felt_from_bytes b)"
  by (simp add: felt_from_bytes_def Let_def felt_simps)

lemma length_felt_bytes [simp]: "length (felt_bytes a) = 8"
  by (simp add: felt_bytes_def)

subsection \<open>Simultaneous inversion\<close>

definition felt_prod :: "felt list \<Rightarrow> felt" where
  "felt_prod as = foldl felt_mul 1 as"

lemma felt_mul_commute: "felt_mul a b = felt_mul b a"
  by (simp add: word_uint_eq_iff felt_mul_mod mult.commute)

lemma felt_mul_assoc: "felt_mul (felt_mul a b) c = felt_mul a (felt_mul b c)"
  by (simp add: word_uint_eq_iff felt_mul_mod mod_mult_left_eq mod_mult_right_eq mult.assoc)

lemma felt_mul_left_commute: "felt_mul a (felt_mul b c) = felt_mul b (felt_mul a c)"
  by (metis felt_mul_assoc felt_mul_commute)

lemmas felt_mul_ac = felt_mul_assoc felt_mul_commute felt_mul_left_commute

lemma felt_mul_1: "canon a \<Longrightarrow> felt_mul a 1 = a" "canon a \<Longrightarrow> felt_mul 1 a = a"
  by (simp_all add: word_uint_eq_iff felt_mul_mod)

lemma prefix_products_app:
  "prefix_products acc (as @ [a]) =
     (fst (prefix_products acc as) @ [snd (prefix_products acc as)],
      felt_mul (snd (prefix_products acc as)) a)"
  by (induction acc as rule: prefix_products.induct) (auto simp: Let_def split: prod.split)

lemma prefix_products_total: "snd (prefix_products acc as) = foldl felt_mul acc as"
  by (induction acc as rule: prefix_products.induct) (auto simp: Let_def split: prod.split)

lemma length_prefix_products [simp]: "length (fst (prefix_products acc as)) = length as"
  by (induction acc as rule: prefix_products.induct) (auto simp: Let_def split: prod.split)

lemma canon_prefix_total: "canon acc \<Longrightarrow> canon (snd (prefix_products acc as))"
  by (induction as rule: rev_induct) (auto simp: prefix_products_app felt_simps)

text \<open>The way back: if \<open>iv\<close> inverts the product of a prefix, every entry inverts its element.\<close>

lemma back_products_inverse:
  assumes "canon acc" "list_all canon as" and "felt_mul iv (snd (prefix_products acc as)) = 1"
  shows "list_all2 (\<lambda>r a. felt_mul r a = 1)
           (back_products iv (rev (zip (fst (prefix_products acc as)) as))) (rev as)"
  using assms
proof (induction as arbitrary: iv rule: rev_induct)
  case (snoc a as)
  let ?p = "snd (prefix_products acc as)"
  from snoc.prems have "felt_mul (felt_mul iv a) ?p = 1"
    by (simp add: prefix_products_app felt_mul_ac)
  then have "list_all2 (\<lambda>r a. felt_mul r a = 1)
      (back_products (felt_mul iv a) (rev (zip (fst (prefix_products acc as)) as))) (rev as)"
    using snoc.IH snoc.prems(1,2) by simp
  moreover have "felt_mul (felt_mul ?p iv) a = 1"
    using snoc.prems(3) by (simp add: prefix_products_app felt_mul_ac)
  ultimately show ?case by (simp add: prefix_products_app)
qed simp

lemma batch_inv_inverse:
  assumes "list_all canon as" and "felt_mul (felt_inv (felt_prod as)) (felt_prod as) = 1"
  shows "list_all2 (\<lambda>r a. felt_mul r a = 1) (batch_inv as) as"
proof (cases "as = []")
  case False
  have "list_all2 (\<lambda>r a. felt_mul r a = 1)
      (back_products (felt_inv (felt_prod as)) (rev (zip (fst (prefix_products 1 as)) as))) (rev as)"
    using assms by (intro back_products_inverse) (simp_all add: felt_simps prefix_products_total felt_prod_def)
  then have "list_all2 (\<lambda>r a. felt_mul r a = 1)
      (rev (back_products (felt_inv (felt_prod as)) (rev (zip (fst (prefix_products 1 as)) as)))) as"
    by (metis list_all2_rev1 rev_rev_ident)
  with False show ?thesis
    by (simp add: batch_inv_def split_def prefix_products_total felt_prod_def)
qed (simp add: batch_inv_def)

end
