(* ===== verification/FieldInv.thy ===== *)
theory FieldInv
  imports Field
begin

text \<open>
  Every non-zero element of \<^verbatim>\<open>field.go\<close> is a power of the constant \<^verbatim>\<open>generator\<close> (7), because the
  order of 7 is exactly \<open>p - 1\<close>: its power \<open>p - 1\<close> is 1 and none of its powers \<open>(p - 1) div q\<close> is,
  for the six prime factors \<open>q\<close> of \<open>p - 1\<close>. Hence \<^verbatim>\<open>Inv\<close>, a power with the exponent \<open>p - 2\<close>, is the
  inverse and \<^verbatim>\<open>BatchInv\<close> inverts every element, without any assumption on \<open>p\<close>.
\<close>

subsection \<open>The order of the generator\<close>

definition units :: nat where "units = 18446744069414584320"

lemma p_units: "p_int = int units + 1"
  by (simp add: p_int_def units_def)

text \<open>
  A power modulo \<open>m\<close> by squaring, from a list of certificates: each step gives the quotient and the
  remainder, so that checking it needs one product and no division.
\<close>

fun climbs :: "int \<Rightarrow> int \<Rightarrow> nat \<Rightarrow> int \<Rightarrow> (bool \<times> int \<times> int) list \<Rightarrow> nat \<Rightarrow> int \<Rightarrow> bool" where
  "climbs m a n x [] n' x' \<longleftrightarrow> n = n' \<and> x = x'"
| "climbs m a n x ((w, q, r) # cs) n' x' \<longleftrightarrow>
     x * x * (if w then a else 1) = q * m + r \<and> climbs m a (2 * n + (if w then 1 else 0)) r cs n' x'"

lemma climbs_power: "climbs m a n x cs n' x' \<Longrightarrow> a ^ n mod m = x mod m \<Longrightarrow> a ^ n' mod m = x' mod m"
proof (induction m a n x cs n' x' rule: climbs.induct)
  case (2 m a n x w q r cs n' x')
  let ?n = "2 * n + (if w then 1 else 0)"
  have sq: "a ^ (2 * n) = a ^ n * a ^ n" by (simp only: mult_2 power_add)
  have "a ^ ?n mod m = (a ^ n * a ^ n) * (if w then a else 1) mod m"
    by (simp only: power_add sq split: if_split) simp
  also have "\<dots> = (x * x) * (if w then a else 1) mod m"
    using "2.prems"(2) by (metis mod_mult_eq)
  also have "\<dots> = r mod m" using "2.prems"(1) by simp
  finally show ?case using "2.IH" "2.prems"(1) by simp
qed simp

lemma climbs_result: "climbs m a 1 a cs n x \<Longrightarrow> 0 \<le> x \<Longrightarrow> x < m \<Longrightarrow> a ^ n mod m = x"
  using climbs_power [of m a 1 a cs n x] by simp

text \<open>The prime is \<open>(2 ^ 32 - 1) * 2 ^ 32 + 1\<close>; the powers are taken from \<open>7 ^ 2 ^ 31\<close> and \<open>7 ^ 2 ^ 32\<close>.\<close>

lemma seven_base_g: "(7 :: int) ^ 2147483648 mod p_int = 17380019310548783236"
proof -
  have "climbs p_int 7 1 7
     [(False, 0, 49), (False, 0, 2401), (False, 0, 5764801), (False, 0, 33232930569601), (False, 59871144, 3732854072722565977), (False,
      755374470194167763, 11250886851934520606), (False, 6862048634637463057, 12159723539389677939), (False, 8015445760942885145,
      1536671775522476176), (False, 128009590028552839, 18371408314118145657), (False, 18296380226993647159, 2431605942540367610),
      (False, 320528513733820776, 6358221588783459004), (False, 2191551073725880667, 10083885515493449909), (False,
      5512341186441451559, 15094611910849701842), (False, 12351627359374782256, 18060412910171584788), (False,
      17682172705301910413, 10529651373896570371), (False, 6010467627164328842, 11156834669773791359), (False,
      6747801095969600701, 11840798296997857860), (False, 7600501410037550524, 1447330804268045396), (False, 113557517201986392,
      15265864706138236984), (False, 12633482870970026938, 12990112920302977158), (False, 9147578187632842085,
      16491641580159807679), (False, 14743753205716107851, 17642952523097762870), (False, 16874185089843886439,
      4419967652436713981), (False, 1059054864916706342, 7206579306846404579), (False, 2815390353464961295, 17869454728573311546),
      (False, 17310231610247778778, 4919185416341570378), (False, 1311797088379918943, 14445320067108370181), (False,
      11311875475476573771, 17666966662873528270), (False, 16920151864880832278, 5473358340599679662), (False,
      1624007543655523727, 4120449531758749877), (False, 920384880924393333, 17380019310548783236)]
     2147483648 17380019310548783236"
    by (simp only: climbs.simps if_True if_False simp_thms p_int_def) (intro conjI; simp)
  then show ?thesis by (rule climbs_result) (simp_all add: p_int_def)
qed

lemma seven_base_h: "(7 :: int) ^ 4294967296 mod p_int = 12275445934081160404"
proof -
  have "climbs p_int 7 1 7
     [(False, 0, 49), (False, 0, 2401), (False, 0, 5764801), (False, 0, 33232930569601), (False, 59871144, 3732854072722565977), (False,
      755374470194167763, 11250886851934520606), (False, 6862048634637463057, 12159723539389677939), (False, 8015445760942885145,
      1536671775522476176), (False, 128009590028552839, 18371408314118145657), (False, 18296380226993647159, 2431605942540367610),
      (False, 320528513733820776, 6358221588783459004), (False, 2191551073725880667, 10083885515493449909), (False,
      5512341186441451559, 15094611910849701842), (False, 12351627359374782256, 18060412910171584788), (False,
      17682172705301910413, 10529651373896570371), (False, 6010467627164328842, 11156834669773791359), (False,
      6747801095969600701, 11840798296997857860), (False, 7600501410037550524, 1447330804268045396), (False, 113557517201986392,
      15265864706138236984), (False, 12633482870970026938, 12990112920302977158), (False, 9147578187632842085,
      16491641580159807679), (False, 14743753205716107851, 17642952523097762870), (False, 16874185089843886439,
      4419967652436713981), (False, 1059054864916706342, 7206579306846404579), (False, 2815390353464961295, 17869454728573311546),
      (False, 17310231610247778778, 4919185416341570378), (False, 1311797088379918943, 14445320067108370181), (False,
      11311875475476573771, 17666966662873528270), (False, 16920151864880832278, 5473358340599679662), (False,
      1624007543655523727, 4120449531758749877), (False, 920384880924393333, 17380019310548783236), (False, 16374980327064014652,
      12275445934081160404)]
     4294967296 12275445934081160404"
    by (simp only: climbs.simps if_True if_False simp_thms p_int_def) (intro conjI; simp)
  then show ?thesis by (rule climbs_result) (simp_all add: p_int_def)
qed

lemma power_stacked: "(b :: int) ^ k mod m = h \<Longrightarrow> h ^ n mod m = x \<Longrightarrow> b ^ (k * n) mod m = x"
  by (metis power_mod power_mult)

lemma seven_power_2: "(7 :: int) ^ 9223372034707292160 mod p_int \<noteq> 1"
proof -
  have "climbs p_int 17380019310548783236 1 17380019310548783236
     [(True, 284597474294229004962771048928150887812, 16341254035993852604), (True, 251594588174903174287149757416798079636,
      17838412189661013420), (True, 299807796182835002668650515916909175302, 14553636398574310458), (True,
      199560035840227581553794653835809119833, 12914056198713337911), (True, 157128829845498134119390112467797344562,
      10709466607341495954), (True, 108060311294867421334528186190351060153, 7500959378422514263), (True,
      53010775710227242204936715179920679845, 8965981650855844639), (True, 75740160958499753275256511954546138043,
      12986574462539434953), (True, 158898483467170731750264254105485622684, 12658757672957790760), (True,
      150977665127260866381369830507232987384, 328486730228707336), (True, 101663765793746024484670193335037747,
      10989187623479390669), (True, 113778894294461300965373213951457937107, 14744565892089108049), (True,
      204830447351263510808733826545130018519, 10977344643077333037), (True, 113533788800715682770691841811432673296,
      10862935977680770068), (True, 111179565433971948500862982964880067966, 7318164361609642178), (True,
      50458559816362118730636688591732378378, 10123972320692110086), (True, 96567820683658513875704957179982032070,
      130724526948758986), (True, 16100697483497818927472507853176464, 17661458235941421312), (True,
      293889215521684173647878164110487881819, 6339018849627109285), (True, 37859477732899433826921719673640869398,
      11012737045107515342), (True, 114267064703876070843900418190582408168, 14175618418188641576), (True,
      189327875168055179969254958596776680368, 14962862707483549008), (True, 210940472451273360862344585507085185825,
      13017193425094701279), (True, 159648649308500063134580583641339584980, 8024443007816062896), (True,
      60668090515420752469429063960344939106, 4925816364943579550), (True, 22860565366147167588556754197109184910,
      14525145177837493890), (True, 198779455165521473655801656117626402951, 18298270339531944329), (True,
      315464585236538423292650276192243918038, 11853244195314237678), (True, 132374702026977223084204461406336725313,
      9827442270647231951), (True, 90993744033134654102877807882780206612, 15846339274147123184), (True,
      236585668084478979182929352029211493376, 18446744069414584320)]
     4294967295 18446744069414584320"
    by (simp only: climbs.simps if_True if_False simp_thms p_int_def) (intro conjI; simp)
  then have s: "17380019310548783236 ^ 4294967295 mod p_int = 18446744069414584320" by (rule climbs_result) (simp_all add: p_int_def)
  have e: "(9223372034707292160 :: nat) = 2147483648 * 4294967295" by simp
  show ?thesis unfolding e power_stacked [OF seven_base_g s] by simp
qed

lemma seven_power_3: "(7 :: int) ^ 6148914689804861440 mod p_int \<noteq> 1"
proof -
  have "climbs p_int 12275445934081160404 1 12275445934081160404
     [(False, 8168735485976295571, 4756475762779100925), (True, 15055255547563742083916918692150739916, 7781028390488215464), (False,
      3282118653880420675, 16538725463549498621), (True, 182021056884462693217182349361348108590, 8246665031048405574), (False,
      3686693103043351759, 2750330294025098837), (True, 5033699207389492221595216353803888493, 4733570987445959623), (False,
      1214669331827576209, 10619881994662283040), (True, 75051078487440581253548437416183184816, 18361179848640336464), (False,
      18276012512858321091, 950055633415809085), (True, 600641907823157561858477361564098020, 14539522463670894480), (False,
      11459893012886547742, 871452039643317218), (True, 505364274020794804220498658306938172, 11310299617345086484), (False,
      6934713082847909837, 15244413738397616579), (True, 154646113421814954802948472281830919318, 144820208228696286), (False,
      1136942792315139, 3684268560309858177), (True, 9032752602797638727209662986367575213, 18342191855603989543), (False,
      18238232221457944923, 14551972485095996566), (True, 140916317429353905899850599826853898087, 16561037900262977897), (False,
      14868096792685149494, 12047248418557059035), (True, 96581353405703368759199337485042771766, 5709593261608934014), (False,
      1767220008600938079, 2874022416960892837), (True, 5496647137786493675726229921031165112, 7802345761617692924), (False,
      3300127066042474929, 18222847149760681567), (True, 220978499478992082669933599751615503232, 13093268643099712084), (False,
      9293438620673545254, 14805989675903260522), (True, 145878886570762378270598142543191774233, 6515397714927682743), (False,
      2301241195950091181, 11178342284497030948), (True, 83151935554949970326784123719472075485, 11368723234197765731), (False,
      7006540964054793514, 4315988950561070367), (True, 12395903988265825099455580836203513811, 18446744065119617025)]
     1431655765 18446744065119617025"
    by (simp only: climbs.simps if_True if_False simp_thms p_int_def) (intro conjI; simp)
  then have s: "12275445934081160404 ^ 1431655765 mod p_int = 18446744065119617025" by (rule climbs_result) (simp_all add: p_int_def)
  have e: "(6148914689804861440 :: nat) = 4294967296 * 1431655765" by simp
  show ?thesis unfolding e power_stacked [OF seven_base_h s] by simp
qed

lemma seven_power_5: "(7 :: int) ^ 3689348813882916864 mod p_int \<noteq> 1"
proof -
  have "climbs p_int 12275445934081160404 1 12275445934081160404
     [(True, 100274870807912209362790343088254163096, 1279992132519201448), (False, 88816750161756197, 11302600489504509467), (False,
      6925275124142910150, 15099809066790865939), (True, 151726160176490491914094928331239525089, 11395689535312925715), (True,
      86416917917651549568599076132357467129, 3080292546802250491), (False, 514356470615174901, 17006525114682413860), (False,
      15678750428150883768, 8083283331813898072), (True, 43480362780434769032562697029243807451, 7481955408674006565), (True,
      37251844938184504937139608973678841855, 8229424189471531445), (False, 3671294090459423032, 11544158429850306753), (False,
      7224450740575228597, 6575894157890375372), (True, 28775785285358006244236350420756755000, 15468026419318992136), (True,
      159216240824422652561537687302952178221, 13117622064007455443), (False, 9328042280341345770, 9907097673348654079), (False,
      5320753838180461495, 6822962341432118346), (True, 30978722469593171351006313070503490760, 10170028983955575304), (True,
      68827490748106710927589718755901850937, 3714462262458937287), (False, 747949331725586648, 10207503010611174361), (False,
      5648320230364794321, 4650203334667317280), (True, 14390021471478751800911961443503102560, 7079038093298791840), (True,
      33347712918230424292637907047889841385, 750328663734657815), (False, 30519917309163602, 7983852518127489983), (False,
      3455455379624266697, 3938614147066682552), (True, 10322964372211321478982442407886978069, 17105565073236396267), (True,
      194711860406504085366562147278904312264, 7734626918933084012), (False, 3243090127448320367, 4412797120506850337), (False,
      1055621433976534112, 3875766691360155617), (True, 9996150991898120213644906491999535067, 17358023527338233849), (True,
      200501719191153786552337209680167230142, 1373043270956696022)]
     858993459 1373043270956696022"
    by (simp only: climbs.simps if_True if_False simp_thms p_int_def) (intro conjI; simp)
  then have s: "12275445934081160404 ^ 858993459 mod p_int = 1373043270956696022" by (rule climbs_result) (simp_all add: p_int_def)
  have e: "(3689348813882916864 :: nat) = 4294967296 * 858993459" by simp
  show ?thesis unfolding e power_stacked [OF seven_base_h s] by simp
qed

lemma seven_power_17: "(7 :: int) ^ 1085102592318504960 mod p_int \<noteq> 1"
proof -
  have "climbs p_int 12275445934081160404 1 12275445934081160404
     [(True, 100274870807912209362790343088254163096, 1279992132519201448), (True, 1090265214651432361609400511988007658,
      4549350404001778198), (True, 13772612637827783510193476976452324920, 11274872323250451096), (False, 6891337865763175941,
      12069298394184580155), (False, 7896676138603213309, 5428282574489895836), (False, 1597368706240514140,
      15488913980707339956), (False, 13005355058810919721, 14489374604437787495), (True, 139706572131918066197052812713804511595,
      17837368160142808105), (True, 211728396174782106773452823340786936761, 12508716582751049819), (True,
      104122134028296916355271974218971788462, 16600212635661691142), (True, 183376997478832578836558575473062953523,
      17081009302073449373), (False, 15816388934525878534, 9712290447447227715), (False, 5113562880290355251,
      18353052305479501654), (False, 18259836405826822176, 3495479116764033220), (False, 662359395769576661, 3168539979805436219),
      (True, 6680914872613112881930999115471605969, 2173454143271796195), (True, 3143536582228857897844295933184761010,
      1214334918687997890), (True, 981283558953289588116874617827479172, 5013457521129386188), (True,
      16726005470906218682092293359138317841, 15021829110735092015), (False, 12232801028896668531, 12875054229430057774), (False,
      8986248239092391190, 13189085413205303086), (False, 9429955410138963574, 7390837058150600142), (False, 2961198584128551292,
      1279620912662927432), (True, 1089632914816255857393157261848039150, 1129246164337980946), (True,
      848583931035632731384941639984599267, 11392130255474453357), (True, 86362944183409881989703258657930278189,
      13350968192455222727), (True, 118615946294020551166815813567857364506, 16301593560560007290)]
     252645135 16301593560560007290"
    by (simp only: climbs.simps if_True if_False simp_thms p_int_def) (intro conjI; simp)
  then have s: "12275445934081160404 ^ 252645135 mod p_int = 16301593560560007290" by (rule climbs_result) (simp_all add: p_int_def)
  have e: "(1085102592318504960 :: nat) = 4294967296 * 252645135" by simp
  show ?thesis unfolding e power_stacked [OF seven_base_h s] by simp
qed

lemma seven_power_257: "(7 :: int) ^ 71777214277877760 mod p_int \<noteq> 1"
proof -
  have "climbs p_int 12275445934081160404 1 12275445934081160404
     [(True, 100274870807912209362790343088254163096, 1279992132519201448), (True, 1090265214651432361609400511988007658,
      4549350404001778198), (True, 13772612637827783510193476976452324920, 11274872323250451096), (True,
      84594245384662119685192464955689626220, 4304519570518954644), (True, 12330109368050023688518820994098800154,
      16394889243316335910), (True, 178868773754208974307159672645077270803, 3679734199234472637), (True,
      9010532421481014068206573319861846453, 17588058450869219263), (False, 16769344167575324197, 683923235602147932), (False,
      25356832101989228, 8835979233172182436), (False, 4232428699355170230, 3355407709622930266), (False, 610338651386423258,
      17799430507262292938), (False, 17174831785526800703, 11182389913569094181), (False, 6778748797541061101,
      11350173437670463340), (False, 6983695148608873608, 13348485338936455432), (False, 9659268875488669632,
      13464544557546266752), (True, 120642656369387058343363101241992594936, 1513428289589361160), (True,
      1524197520715065632186236766484262213, 4375310131417860027), (True, 12738997130936998130751480385526371712,
      2157233494186566964), (True, 3096790777066731122351711583032979874, 18009115704370032030), (True,
      215825289482164167266506700399985109895, 12804583452587087305), (True, 109105957594175019923667838958130451384,
      16894534560283711836), (True, 189937194376385108950032485241312925956, 17537846203270146108), (True,
      204677484082215750513226754123935690393, 995085315851368103)]
     16711935 995085315851368103"
    by (simp only: climbs.simps if_True if_False simp_thms p_int_def) (intro conjI; simp)
  then have s: "12275445934081160404 ^ 16711935 mod p_int = 995085315851368103" by (rule climbs_result) (simp_all add: p_int_def)
  have e: "(71777214277877760 :: nat) = 4294967296 * 16711935" by simp
  show ?thesis unfolding e power_stacked [OF seven_base_h s] by simp
qed

lemma seven_power_65537: "(7 :: int) ^ 281470681743360 mod p_int \<noteq> 1"
proof -
  have "climbs p_int 12275445934081160404 1 12275445934081160404
     [(True, 100274870807912209362790343088254163096, 1279992132519201448), (True, 1090265214651432361609400511988007658,
      4549350404001778198), (True, 13772612637827783510193476976452324920, 11274872323250451096), (True,
      84594245384662119685192464955689626220, 4304519570518954644), (True, 12330109368050023688518820994098800154,
      16394889243316335910), (True, 178868773754208974307159672645077270803, 3679734199234472637), (True,
      9010532421481014068206573319861846453, 17588058450869219263), (True, 205851177679070134800706040955375453502,
      13474118253388618134), (True, 120814278470858744149439294103643604808, 3424231069583294856), (True,
      7802677956339056868464674815014050573, 3212278696635431411), (True, 6866635437876714533845447794848974841,
      8674491644268464123), (True, 50073231705863478281349883648817870014, 7614671795105477622), (True,
      38585126995043357974972510001990882526, 565825823434018290), (True, 213050757993636314219819879604219470,
      1614949354278806530), (True, 1735542966025304362406573560661157439, 8478886009461009681)]
     65535 8478886009461009681"
    by (simp only: climbs.simps if_True if_False simp_thms p_int_def) (intro conjI; simp)
  then have s: "12275445934081160404 ^ 65535 mod p_int = 8478886009461009681" by (rule climbs_result) (simp_all add: p_int_def)
  have e: "(281470681743360 :: nat) = 4294967296 * 65535" by simp
  show ?thesis unfolding e power_stacked [OF seven_base_h s] by simp
qed

lemma seven_power_1: "(7 :: int) ^ 18446744069414584320 mod p_int = 1"
proof -
  have "climbs p_int 12275445934081160404 1 12275445934081160404
     [(True, 100274870807912209362790343088254163096, 1279992132519201448), (True, 1090265214651432361609400511988007658,
      4549350404001778198), (True, 13772612637827783510193476976452324920, 11274872323250451096), (True,
      84594245384662119685192464955689626220, 4304519570518954644), (True, 12330109368050023688518820994098800154,
      16394889243316335910), (True, 178868773754208974307159672645077270803, 3679734199234472637), (True,
      9010532421481014068206573319861846453, 17588058450869219263), (True, 205851177679070134800706040955375453502,
      13474118253388618134), (True, 120814278470858744149439294103643604808, 3424231069583294856), (True,
      7802677956339056868464674815014050573, 3212278696635431411), (True, 6866635437876714533845447794848974841,
      8674491644268464123), (True, 50073231705863478281349883648817870014, 7614671795105477622), (True,
      38585126995043357974972510001990882526, 565825823434018290), (True, 213050757993636314219819879604219470,
      1614949354278806530), (True, 1735542966025304362406573560661157439, 8478886009461009681), (True,
      47840438170515072071971890586046116260, 16512774553975191984), (True, 181450286653214144474338838813564814151,
      10879306936227360953), (True, 78762594676724022264854030134554583059, 14499380711312378497), (True,
      139899596554171288611160775512712448612, 13620044171060547184), (True, 123445307976706012202338835075014569445,
      16026704985743549979), (True, 170925177963575804856554364996870384580, 13171580951127167984), (True,
      115449848177257737010390130580268585547, 10671780847451750837), (True, 75786412905181038397694229040886242820,
      8784566205410244656), (True, 51352098532523869213200535126264721584, 13929018800122643280), (True,
      129109620494234935305786824469678280202, 2172118419930080758), (True, 3139673970303302094703630898633460389,
      16616023290509522987), (True, 183726473860000238153503415516092635564, 5169155891321124232), (True,
      17781025920869300496630955300253761514, 4008130831684506902), (True, 10690581623298320565850040111887256792,
      1687683896074273784), (True, 1895395163807990923642788640663452650, 7450758955135236374), (True,
      36941845048780092416390480234162344143, 1)]
     4294967295 1"
    by (simp only: climbs.simps if_True if_False simp_thms p_int_def) (intro conjI; simp)
  then have s: "12275445934081160404 ^ 4294967295 mod p_int = 1" by (rule climbs_result) (simp_all add: p_int_def)
  have e: "(18446744069414584320 :: nat) = 4294967296 * 4294967295" by simp
  show ?thesis unfolding e power_stacked [OF seven_base_h s] by simp
qed

lemmas seven_powers = seven_power_1 seven_power_2 seven_power_3 seven_power_5 seven_power_17 seven_power_257 seven_power_65537

lemma seven_units: "(7 :: int) ^ units mod p_int = 1"
  unfolding units_def by (rule seven_power_1)

lemma units_div:
  "units div 2 = 9223372034707292160"
  "units div 3 = 6148914689804861440"
  "units div 5 = 3689348813882916864"
  "units div 17 = 1085102592318504960"
  "units div 257 = 71777214277877760"
  "units div 65537 = 281470681743360"
  by (simp_all add: units_def)

lemma seven_parts: "q \<in> {2, 3, 5, 17, 257, 65537} \<Longrightarrow> (7 :: int) ^ (units div q) mod p_int \<noteq> 1"
  by (elim insertE emptyE) (simp_all only: units_div seven_powers not_False_eq_True)

subsection \<open>The divisors of p - 1\<close>

lemma prime_by_search:
  assumes "list_all (\<lambda>d. 0 < q mod d) [2 ..< m]" and "q < m * m" and "(d :: nat) dvd q" and "q \<noteq> 0"
  shows "d = 1 \<or> d = q"
proof (rule ccontr)
  assume no: "\<not> (d = 1 \<or> d = q)"
  obtain e where e: "q = d * e" using assms(3) by (rule dvdE)
  have "2 \<le> d" "2 \<le> e" using no e assms(4) by (cases d; cases e; auto simp: Suc_le_eq)+
  moreover have "d < m \<or> e < m"
  proof (rule ccontr)
    assume "\<not> (d < m \<or> e < m)"
    then have "m * m \<le> d * e" by (intro mult_le_mono) auto
    with assms(2) e show False by simp
  qed
  moreover have "q mod d = 0" "q mod e = 0" using e by simp_all
  ultimately show False using assms(1) unfolding list_all_iff by (metis atLeastLessThan_iff less_irrefl set_upt)
qed

lemma small_search:
  "list_all (\<lambda>d. 0 < (2 :: nat) mod d) [2 ..< 2]" "list_all (\<lambda>d. 0 < (3 :: nat) mod d) [2 ..< 2]"
  "list_all (\<lambda>d. 0 < (5 :: nat) mod d) [2 ..< 3]" "list_all (\<lambda>d. 0 < (17 :: nat) mod d) [2 ..< 5]"
  "list_all (\<lambda>d. 0 < (257 :: nat) mod d) [2 ..< 17]" "list_all (\<lambda>d. 0 < (65537 :: nat) mod d) [2 ..< 257]"
  by simp_all

lemma factors_prime: "q \<in> {2, 3, 5, 17, 257, 65537} \<Longrightarrow> (d :: nat) dvd q \<Longrightarrow> d = 1 \<or> d = q"
  using prime_by_search [OF small_search(1), of d] prime_by_search [OF small_search(2), of d]
    prime_by_search [OF small_search(3), of d] prime_by_search [OF small_search(4), of d]
    prime_by_search [OF small_search(5), of d] prime_by_search [OF small_search(6), of d]
  by (elim insertE emptyE) simp_all

lemma units_factor:
  assumes "n dvd units" and "n \<noteq> 1"
  shows "\<exists>q \<in> {2, 3, 5, 17, 257, 65537}. q dvd n"
proof (rule ccontr)
  assume no: "\<not> ?thesis"
  have cop: "coprime n q" if "q \<in> {2, 3, 5, 17, 257, 65537}" for q
    using factors_prime [OF that, of "gcd n q"] no that
    by (metis coprime_iff_gcd_eq_1 gcd_dvd1 gcd_dvd2)
  have u: "units = 2 ^ 32 * 3 * 5 * 17 * 257 * 65537" by (simp add: units_def)
  have "coprime n units" unfolding u
    by (intro coprime_mult_right_iff [THEN iffD2] conjI coprime_power_right_iff [THEN iffD2] disjI1 cop) auto
  with assms show False by (meson coprime_common_divisor_nat dvd_refl)
qed


subsection \<open>Powers of the generator\<close>

lemma power_mod_1: "(a :: int) ^ k mod p_int = 1 \<Longrightarrow> a ^ (k * j) mod p_int = 1"
proof (induction j)
  case (Suc j)
  have "a ^ (k * Suc j) mod p_int = (a ^ k mod p_int) * (a ^ (k * j) mod p_int) mod p_int"
    by (simp add: power_add mod_mult_eq)
  with Suc show ?case by (simp add: p_int_def)
qed (simp add: p_int_def)

lemma power_mod_gcd:
  assumes "(a :: int) ^ m mod p_int = 1" and "a ^ n mod p_int = 1"
  shows "a ^ gcd m n mod p_int = 1"
proof (cases "m = 0")
  case False
  then obtain x y where xy: "m * x = n * y + gcd m n" using bezout_nat by blast
  have "a ^ (m * x) mod p_int = (a ^ (n * y) mod p_int) * a ^ gcd m n mod p_int"
    unfolding xy by (simp add: power_add mod_mult_left_eq)
  with power_mod_1 [OF assms(1), of x] power_mod_1 [OF assms(2), of y] show ?thesis by simp
qed (use assms in simp)

text \<open>No smaller positive power of 7 is 1.\<close>

lemma seven_order:
  assumes "(7 :: int) ^ k mod p_int = 1" and "0 < k"
  shows "units \<le> k"
proof (rule ccontr)
  assume less: "\<not> units \<le> k"
  define g where "g = gcd k units"
  have g: "g dvd units" "(7 :: int) ^ g mod p_int = 1"
    using power_mod_gcd [OF assms(1) seven_units] by (simp_all add: g_def)
  have "g \<le> k" using assms(2) by (simp add: g_def gcd_le1_nat)
  obtain n where n: "units = g * n" using g(1) by (rule dvdE)
  have "n \<noteq> 1" using n less \<open>g \<le> k\<close> by auto
  moreover have "n dvd units" unfolding n by (rule dvd_triv_right)
  ultimately obtain q where q: "q \<in> {2, 3, 5, 17, 257, 65537}" "q dvd n" using units_factor by blast
  then obtain j where "n = q * j" by (auto elim: dvdE)
  then have "units div q = g * j" using n q(1) by auto
  with power_mod_1 [OF g(2), of j] seven_parts [OF q(1)] show False by simp
qed

lemma seven_unit: "(7 :: int) ^ k mod p_int * (7 ^ (units * k - k) mod p_int) mod p_int = 1"
proof -
  have "k \<le> units * k" by (simp add: units_def)
  then have "(7 :: int) ^ k mod p_int * (7 ^ (units * k - k) mod p_int) mod p_int = 7 ^ (units * k) mod p_int"
    by (simp add: mod_mult_eq power_add [symmetric])
  then show ?thesis using power_mod_1 [OF seven_units] by simp
qed

lemma seven_inj: "inj_on (\<lambda>k. (7 :: int) ^ k mod p_int) {..<units}"
proof (rule linorder_inj_onI')
  fix i j assume ij: "i \<in> {..<units}" "j \<in> {..<units}" "i < j"
  show "(7 :: int) ^ i mod p_int \<noteq> 7 ^ j mod p_int"
  proof
    assume eq: "(7 :: int) ^ i mod p_int = 7 ^ j mod p_int"
    let ?r = "(7 :: int) ^ (units * i - i) mod p_int"
    have "7 ^ j = 7 ^ i * (7 :: int) ^ (j - i)" using ij by (simp add: power_add [symmetric])
    then have "7 ^ i mod p_int * 7 ^ (j - i) * ?r mod p_int = 7 ^ i mod p_int * ?r mod p_int"
      using eq by (metis mod_mult_left_eq)
    then have "(7 ^ i mod p_int * ?r mod p_int) * 7 ^ (j - i) mod p_int = 1"
      using seven_unit [of i] by (metis mod_mult_left_eq mult.assoc mult.commute)
    then have "(7 :: int) ^ (j - i) mod p_int = 1" unfolding seven_unit by simp
    with seven_order [of "j - i"] ij show False by simp
  qed
qed

lemma seven_onto:
  assumes "0 < a" and "a < p_int"
  shows "\<exists>k. (7 :: int) ^ k mod p_int = a"
proof -
  have "(\<lambda>k. (7 :: int) ^ k mod p_int) ` {..<units} \<subseteq> {1..<p_int}"
  proof (rule image_subsetI)
    fix k
    have "(7 :: int) ^ k mod p_int \<noteq> 0" using seven_unit [of k] by (metis mod_0 mult_zero_left zero_neq_one)
    moreover have "0 \<le> (7 :: int) ^ k mod p_int" "(7 :: int) ^ k mod p_int < p_int" by (simp_all add: p_int_def)
    ultimately show "(7 :: int) ^ k mod p_int \<in> {1..<p_int}" by auto
  qed
  moreover have "card ((\<lambda>k. (7 :: int) ^ k mod p_int) ` {..<units}) = card {1..<p_int}"
    using card_image [OF seven_inj] by (simp add: p_units)
  ultimately have "(\<lambda>k. (7 :: int) ^ k mod p_int) ` {..<units} = {1..<p_int}"
    by (intro card_subset_eq finite_atLeastLessThan_int)
  moreover have "a \<in> {1..<p_int}" using assms by simp
  ultimately have "a \<in> (\<lambda>k. (7 :: int) ^ k mod p_int) ` {..<units}" by simp
  then show ?thesis by (elim imageE) (rule exI, rule sym)
qed

theorem fermat:
  assumes "0 < a" and "a < p_int"
  shows "a ^ units mod p_int = 1"
proof -
  obtain k where k: "(7 :: int) ^ k mod p_int = a" using seven_onto [OF assms] by blast
  have "a ^ units mod p_int = 7 ^ (units * k) mod p_int"
    unfolding k [symmetric] by (simp add: power_mod power_mult [symmetric] mult.commute)
  then show ?thesis using power_mod_1 [OF seven_units] by simp
qed

subsection \<open>Inversion\<close>

lemma canon_one_iff: "canon a \<Longrightarrow> (a = 1) = (uint a mod p_int = 1)"
  by (auto simp: word_uint_eq_iff canon_def)

lemma felt_inv_inverse:
  assumes "canon a" and "a \<noteq> 0"
  shows "felt_mul a (felt_inv a) = 1" and "felt_mul (felt_inv a) a = 1" and "felt_inv a \<noteq> 0"
proof -
  have u: "unat (felt_P - 2) = units - 1" by (simp add: felt_P_def units_def)
  have "0 < uint a" using assms(2) by (simp add: word_uint_eq_iff less_le)
  then have "uint a ^ units mod p_int = 1" using assms(1) by (intro fermat) (simp_all add: canon_def)
  moreover have "uint (felt_mul a (felt_inv a)) = uint a * uint a ^ (units - 1) mod p_int"
    using assms(2) by (simp add: felt_inv_def felt_mul_mod felt_exp_mod u mod_mult_right_eq)
  moreover have "uint a * uint a ^ (units - 1) = uint a ^ units"
    by (simp add: units_def flip: power_Suc)
  ultimately have "uint (felt_mul a (felt_inv a)) = 1" by simp
  then show "felt_mul a (felt_inv a) = 1" by (simp add: word_uint_eq_iff)
  then show "felt_mul (felt_inv a) a = 1" by (simp add: felt_mul_commute)
  then show "felt_inv a \<noteq> 0" by (auto simp: word_uint_eq_iff felt_mul_mod)
qed

lemma felt_mul_eq_0:
  assumes "canon a" "canon b" "felt_mul a b = 0"
  shows "a = 0 \<or> b = 0"
proof (rule ccontr)
  assume no: "\<not> (a = 0 \<or> b = 0)"
  have "felt_mul (felt_inv a) (felt_mul a b) = felt_mul 1 b"
    using felt_inv_inverse(2) [of a] assms(1) no by (simp add: felt_mul_assoc [symmetric])
  then have "felt_mul 1 b = 0" using assms(3) by (simp add: word_uint_eq_iff felt_mul_mod)
  with assms(2) no show False by (simp add: word_uint_eq_iff felt_mul_mod canon_def)
qed

lemma felt_prod_nonzero: "list_all (\<lambda>a. canon a \<and> a \<noteq> 0) as \<Longrightarrow> canon acc \<Longrightarrow> acc \<noteq> 0 \<Longrightarrow> foldl felt_mul acc as \<noteq> 0"
proof (induction as arbitrary: acc)
  case (Cons a as)
  then have "felt_mul acc a \<noteq> 0" using felt_mul_eq_0 [of acc a] by auto
  with Cons show ?case by (simp add: canon_felt_mul)
qed simp

lemma canon_felt_foldl: "canon acc \<Longrightarrow> canon (foldl felt_mul acc as)"
  by (induction as arbitrary: acc) (auto simp: canon_felt_mul)

lemma batch_inv_all:
  assumes "list_all (\<lambda>a. canon a \<and> a \<noteq> 0) as"
  shows "list_all2 (\<lambda>r a. felt_mul r a = 1) (batch_inv as) as"
proof (rule batch_inv_inverse)
  show "list_all canon as" using assms by (simp add: list_all_iff)
  have "canon (1 :: felt)" "(1 :: felt) \<noteq> 0" by (simp_all add: felt_simps)
  then show "felt_mul (felt_inv (felt_prod as)) (felt_prod as) = 1"
    unfolding felt_prod_def using assms by (intro felt_inv_inverse(2) canon_felt_foldl felt_prod_nonzero)
qed

subsection \<open>Roots of unity\<close>

lemma square_iter_mod:
  "uint (((\<lambda>r. felt_mul r r) ^^ k) a) mod p_int = uint a ^ 2 ^ k mod p_int"
proof (induction k)
  case (Suc k)
  let ?r = "((\<lambda>r. felt_mul r r) ^^ k) a"
  have "uint (felt_mul ?r ?r) mod p_int = (uint ?r mod p_int) * (uint ?r mod p_int) mod p_int"
    by (simp add: felt_mul_mod mod_mult_eq)
  then have "uint (felt_mul ?r ?r) mod p_int = (uint a ^ 2 ^ k * uint a ^ 2 ^ k) mod p_int"
    by (simp only: Suc mod_mult_eq)
  then show ?case by (simp add: power_add [symmetric] mult_2)
qed simp

lemma root_of_unity_power:
  assumes "root_of_unity logN = Some w"
  shows "uint w mod p_int = 7 ^ (units div 2 ^ unat logN) mod p_int" and "unat logN \<le> 32"
proof -
  have le: "unat logN \<le> 32" and w: "w = ((\<lambda>r. felt_mul r r) ^^ (32 - unat logN)) two_adic_root"
    using assms by (auto simp: root_of_unity_def twoAdicity_def word_less_nat_alt split: if_splits)
  have e: "unat (drop_bit 32 (felt_P - 1)) = units div 2 ^ 32"
    by (simp add: felt_P_def units_def)
  have "(2 :: nat) ^ 32 = 2 ^ (32 - unat logN) * 2 ^ unat logN" using le by (simp flip: power_add)
  then have "units = 4294967295 * 2 ^ (32 - unat logN) * 2 ^ unat logN" by (simp add: units_def mult.commute)
  then have "units div 2 ^ unat logN = 4294967295 * 2 ^ (32 - unat logN)" by (metis nonzero_mult_div_cancel_right power_not_zero zero_neq_numeral)
  moreover have "units div 2 ^ 32 = 4294967295" by (simp add: units_def)
  ultimately have "units div 2 ^ 32 * 2 ^ (32 - unat logN) = units div 2 ^ unat logN" by simp
  then have "(7 :: int) ^ (units div 2 ^ 32 * 2 ^ (32 - unat logN)) = 7 ^ (units div 2 ^ unat logN)" by simp
  then show "uint w mod p_int = 7 ^ (units div 2 ^ unat logN) mod p_int"
    unfolding w square_iter_mod two_adic_root_def felt_exp_mod e
    by (simp only: power_mod power_mult [symmetric]) (simp add: generator_def)
  show "unat logN \<le> 32" by (rule le)
qed

text \<open>\<^verbatim>\<open>RootOfUnity(logN)\<close> has order exactly \<open>2 ^ logN\<close>.\<close>

lemma root_of_unity_order:
  assumes "root_of_unity logN = Some w"
  shows "uint w ^ 2 ^ unat logN mod p_int = 1"
    and "0 < j \<Longrightarrow> j < 2 ^ unat logN \<Longrightarrow> uint w ^ j mod p_int \<noteq> 1"
proof -
  define m where "m = units div 2 ^ unat logN"
  have "(2 :: nat) ^ unat logN dvd 2 ^ 32" by (rule le_imp_power_dvd) (rule root_of_unity_power(2) [OF assms])
  moreover have "(2 :: nat) ^ 32 dvd units" by (rule dvdI [of _ _ 4294967295]) (simp add: units_def)
  ultimately have "2 ^ unat logN dvd units" by (rule dvd_trans)
  then have m: "units = m * 2 ^ unat logN" by (simp add: m_def)
  have w: "uint w ^ j mod p_int = 7 ^ (m * j) mod p_int" for j
    by (metis root_of_unity_power(1) [OF assms, folded m_def] power_mod power_mult)
  show "uint w ^ 2 ^ unat logN mod p_int = 1" unfolding w by (simp only: m [symmetric] seven_units)
  show "uint w ^ j mod p_int \<noteq> 1" if "0 < j" "j < 2 ^ unat logN"
  proof
    assume "uint w ^ j mod p_int = 1"
    moreover have "0 < m" using m by (cases m) (simp_all add: units_def)
    ultimately have "units \<le> m * j" using seven_order [of "m * j"] that unfolding w by (metis nat_0_less_mult_iff)
    then have "m * 2 ^ unat logN \<le> m * j" unfolding m .
    with \<open>0 < m\<close> that(2) show False by (metis mult_le_cancel1 not_le)
  qed
qed

lemma root_power_one_iff:
  assumes "root_of_unity logN = Some w"
  shows "uint w ^ j mod p_int = 1 \<longleftrightarrow> 2 ^ unat logN dvd j"
proof
  let ?n = "2 ^ unat logN :: nat"
  assume one: "uint w ^ j mod p_int = 1"
  have "uint w ^ gcd j ?n mod p_int = 1"
    using power_mod_gcd [OF one root_of_unity_order(1) [OF assms]] .
  moreover have "0 < gcd j ?n" by simp
  ultimately have "\<not> gcd j ?n < ?n" using root_of_unity_order(2) [OF assms] by blast
  moreover have "gcd j ?n \<le> ?n" by (rule gcd_le2_nat) simp
  ultimately have "gcd j ?n = ?n" by simp
  then show "?n dvd j" by (metis gcd_dvd1)
next
  assume "2 ^ unat logN dvd j"
  then obtain k where "j = 2 ^ unat logN * k" by (rule dvdE)
  then show "uint w ^ j mod p_int = 1" using power_mod_1 [OF root_of_unity_order(1) [OF assms]] by simp
qed

subsection \<open>Batch inversion, element by element\<close>

lemma felt_inv_unique:
  assumes "felt_mul r a = 1" and "canon r" and "canon a" and "a \<noteq> 0"
  shows "r = felt_inv a"
proof -
  have "felt_mul 1 (felt_inv a) = felt_mul r (felt_mul a (felt_inv a))"
    using assms(1) by (simp flip: felt_mul_assoc)
  then have "felt_mul 1 (felt_inv a) = felt_mul r 1" using felt_inv_inverse(1) [OF assms(3,4)] by simp
  moreover have "canon (felt_inv a)" by (simp add: felt_inv_def felt_simps)
  ultimately show ?thesis using assms(2) by (simp add: word_uint_eq_iff felt_mul_mod canon_def)
qed

lemma back_products_canon: "r \<in> set (back_products iv pas) \<Longrightarrow> canon r"
  by (induction iv pas rule: back_products.induct) (auto simp: canon_felt_mul)

lemma batch_inv_canon: "r \<in> set (batch_inv as) \<Longrightarrow> canon r"
  by (auto simp: batch_inv_def Let_def dest: back_products_canon split: if_splits prod.splits)

end
