(* ===== verification/Merkle.thy ===== *)
theory Merkle
  imports Field ChainTypes
begin

text \<open>
  The two Merkle trees of \<^verbatim>\<open>internal/stark\<close>: \<^verbatim>\<open>merkle.go\<close> (SHA3 nodes over rows of field
  elements) and \<^verbatim>\<open>merkle_poseidon.go\<close> (Poseidon nodes over digests). The two files have the same
  code up to the leaf digest and the node function, so \<^verbatim>\<open>Commit\<close>, \<^verbatim>\<open>Open\<close> and \<^verbatim>\<open>VerifyPath\<close>
  are modelled once over the node function; \<open>Poseidon\<close> instantiates the second one. Completeness
  of openings and their binding to the root are proved for every node function.
\<close>

subsection \<open>The tree\<close>

record 'd merkle_tree =
  t_layers :: "'d list list"
  t_numLeaves :: nat

fun bits_len :: "nat \<Rightarrow> nat" where
  "bits_len n = (if n = 0 then 0 else Suc (bits_len (n div 2)))"

declare bits_len.simps [simp del]

definition next_pow2 :: "nat \<Rightarrow> nat" where
  "next_pow2 n = (if n \<le> 1 then 1 else 2 ^ bits_len (n - 1))"

definition next_level :: "('d \<Rightarrow> 'd \<Rightarrow> 'd) \<Rightarrow> 'd list \<Rightarrow> 'd list" where
  "next_level node level = map (\<lambda>i. node (level ! (2 * i)) (level ! (2 * i + 1))) [0 ..< length level div 2]"

lemma length_next_level [simp]: "length (next_level node level) = length level div 2"
  by (simp add: next_level_def)

function build_layers :: "('d \<Rightarrow> 'd \<Rightarrow> 'd) \<Rightarrow> 'd list \<Rightarrow> 'd list list" where
  "build_layers node level =
     (if 1 < length level then level # build_layers node (next_level node level) else [level])"
  by pat_completeness auto
termination by (relation "measure (\<lambda>(node, level). length level)") auto

declare build_layers.simps [simp del]

text \<open>\<open>None\<close> is the panic on an empty list of leaves.\<close>

definition commit :: "('d \<Rightarrow> 'd \<Rightarrow> 'd) \<Rightarrow> 'd list \<Rightarrow> ('d \<times> 'd merkle_tree) option" where
  "commit node digests =
     (if digests = [] then None
      else let level = digests @ replicate (next_pow2 (length digests) - length digests) (last digests);
               layers = build_layers node level
           in Some (last layers ! 0, \<lparr>t_layers = layers, t_numLeaves = length digests\<rparr>))"

fun open_path :: "'d list list \<Rightarrow> nat \<Rightarrow> 'd list" where
  "open_path (level # l2 # layers) idx = level ! (idx XOR 1) # open_path (l2 # layers) (idx div 2)"
| "open_path layers idx = []"

text \<open>\<open>None\<close> is the panic on an index that is not a real leaf's.\<close>

definition open_leaf :: "'d merkle_tree \<Rightarrow> int \<Rightarrow> 'd list option" where
  "open_leaf t index =
     (if index < 0 \<or> int (t_numLeaves t) \<le> index then None
      else Some (open_path (t_layers t) (nat index)))"

fun fold_path :: "('d \<Rightarrow> 'd \<Rightarrow> 'd) \<Rightarrow> 'd \<Rightarrow> nat \<Rightarrow> 'd list \<Rightarrow> 'd" where
  "fold_path node acc idx [] = acc"
| "fold_path node acc idx (sibling # path) =
     fold_path node (if even idx then node acc sibling else node sibling acc) (idx div 2) path"

text \<open>The bound \<^verbatim>\<open>1 << uint(len(path))\<close>, a shift of a 64-bit \<^verbatim>\<open>int\<close>: it is negative for 63 levels and 0 beyond.\<close>

definition shift_one :: "nat \<Rightarrow> int" where "shift_one n = sint (push_bit n (1 :: i64))"

definition verify_path :: "('d \<Rightarrow> 'd \<Rightarrow> 'd) \<Rightarrow> 'd \<Rightarrow> int \<Rightarrow> 'd \<Rightarrow> 'd list \<Rightarrow> bool" where
  "verify_path node root index leaf path \<longleftrightarrow>
     0 \<le> index \<and> index < shift_one (length path) \<and> fold_path node leaf (nat index) path = root"

text \<open>The SHA3 tree's leaf and node digests.\<close>

definition hash_leaf :: "'z ext_scheme \<Rightarrow> felt list \<Rightarrow> bytes" where
  "hash_leaf E leaf = crypto_hash E ([0] # map felt_bytes leaf)"

definition hash_node :: "'z ext_scheme \<Rightarrow> bytes \<Rightarrow> bytes \<Rightarrow> bytes" where
  "hash_node E left right = crypto_hash E [[1], left, right]"

definition sha_commit :: "'z ext_scheme \<Rightarrow> felt list list \<Rightarrow> (bytes \<times> bytes merkle_tree) option" where
  "sha_commit E leaves = commit (hash_node E) (map (hash_leaf E) leaves)"

definition sha_verify_path :: "'z ext_scheme \<Rightarrow> bytes \<Rightarrow> int \<Rightarrow> felt list \<Rightarrow> bytes list \<Rightarrow> bool" where
  "sha_verify_path E root index leaf path = verify_path (hash_node E) root index (hash_leaf E leaf) path"

subsection \<open>Openings verify\<close>

lemma shift_one_small: "n < 63 \<Longrightarrow> shift_one n = 2 ^ n"
proof -
  assume n: "n < 63"
  then have lt: "(2 :: int) ^ n < 2 ^ 63" by (intro power_strict_increasing) simp_all
  have "uint (push_bit n 1 :: i64) = take_bit 64 (push_bit n 1)" unfolding unsigned_push_bit_eq by simp
  then have "uint (push_bit n 1 :: i64) = take_bit 64 (2 ^ n)" by (simp add: push_bit_eq_mult)
  also have "\<dots> = 2 ^ n" using lt by (intro take_bit_int_eq_self) simp_all
  finally have u: "uint (push_bit n 1 :: i64) = 2 ^ n" .
  have "(- (2 ^ 63) :: int) \<le> 2 ^ n" by (rule order_trans [of _ 0]) simp_all
  then show ?thesis using lt unfolding shift_one_def sint_uint u by (intro signed_take_bit_int_eq_self) simp_all
qed

lemma bits_len_bound: "n < 2 ^ bits_len n"
proof (induction n rule: bits_len.induct)
  case (1 n)
  show ?case
  proof (cases "n = 0")
    case True then show ?thesis by (simp add: bits_len.simps)
  next
    case False
    with 1 have "n div 2 < 2 ^ bits_len (n div 2)" by simp
    then show ?thesis using False by (subst bits_len.simps) auto
  qed
qed

lemma next_pow2_ge: "n \<le> next_pow2 n"
  using bits_len_bound [of "n - 1"] by (auto simp: next_pow2_def)

lemma bits_len_le: "n < 2 ^ k \<Longrightarrow> bits_len n \<le> k"
proof (induction k arbitrary: n)
  case (Suc k)
  then have "n div 2 < 2 ^ k" by auto
  from Suc.IH [OF this] show ?case by (subst bits_len.simps) simp
qed (simp add: bits_len.simps)

lemma next_pow2_le: "n \<le> 2 ^ k \<Longrightarrow> next_pow2 n \<le> 2 ^ k"
  using bits_len_le [of "n - 1" k] by (auto simp: next_pow2_def)

lemma next_pow2_power: "\<exists>k. next_pow2 n = 2 ^ k"
  by (metis next_pow2_def power_0)

lemma one_less_twice_pow [simp]: "Suc 0 < 2 * 2 ^ k"
  by (induction k) auto

lemma length_layers: "length level = 2 ^ k \<Longrightarrow> length (build_layers node level) = Suc k"
proof (induction k arbitrary: level)
  case 0 then show ?case by (simp add: build_layers.simps)
next
  case (Suc k)
  then have "length (next_level node level) = 2 ^ k" by simp
  from Suc.IH [OF this] Suc.prems show ?case by (subst build_layers.simps) auto
qed

lemma build_layers_Cons: "\<exists>rest. build_layers node level = level # rest"
  by (subst build_layers.simps) auto

lemma xor_one_nat: "(i :: nat) XOR Suc 0 = (if even i then Suc i else i - 1)"
  using xor_one_eq [of i] by auto

lemma fold_open_path:
  assumes "length level = 2 ^ k" and "i < 2 ^ k"
  shows "fold_path node (level ! i) i (open_path (build_layers node level) i)
           = last (build_layers node level) ! 0
         \<and> length (open_path (build_layers node level) i) = k"
  using assms
proof (induction k arbitrary: level i)
  case 0
  then show ?case by (simp add: build_layers.simps)
next
  case (Suc k)
  let ?nl = "next_level node level"
  have l: "build_layers node level = level # build_layers node ?nl"
    using Suc.prems by (subst build_layers.simps) auto
  obtain rest where r: "build_layers node ?nl = ?nl # rest" using build_layers_Cons by blast
  have len: "length ?nl = 2 ^ k" "i div 2 < 2 ^ k" using Suc.prems by auto
  have nl: "?nl ! (i div 2) = (if even i then node (level ! i) (level ! (i XOR 1)) else node (level ! (i XOR 1)) (level ! i))"
    using Suc.prems len by (auto simp: next_level_def xor_one_nat elim!: oddE)
  from Suc.IH [OF len] show ?case
    by (simp add: l r nl split: if_splits)
qed

lemma commit_open_verify:
  assumes c: "commit node digests = Some (root, t)" and i: "i < length digests" and small: "length digests \<le> 2 ^ 62"
  shows "\<exists>path. open_leaf t (int i) = Some path \<and> verify_path node root (int i) (digests ! i) path"
proof -
  define level where "level = digests @ replicate (next_pow2 (length digests) - length digests) (last digests)"
  obtain k where k: "next_pow2 (length digests) = 2 ^ k" using next_pow2_power by blast
  have len: "length level = 2 ^ k" using next_pow2_ge [of "length digests"] by (simp add: level_def k)
  have ik: "i < 2 ^ k" using i next_pow2_ge [of "length digests"] k by simp
  have "(2 :: nat) ^ k \<le> 2 ^ 62" using next_pow2_le [OF small] k by (simp only:)
  then have k63: "k < 63" by (metis le_imp_less_Suc one_less_numeral_iff power_le_imp_le_exp semiring_norm(76) Suc_numeral semiring_norm(5))
  have t: "t = \<lparr>t_layers = build_layers node level, t_numLeaves = length digests\<rparr>"
    and root: "root = last (build_layers node level) ! 0"
    using c by (auto simp: commit_def level_def Let_def split: if_splits)
  have "level ! i = digests ! i" using i by (simp add: level_def nth_append)
  moreover have "int i < 2 ^ k" using ik by (metis of_nat_less_iff of_nat_numeral of_nat_power)
  ultimately show ?thesis
    using fold_open_path [OF len ik, of node] i k63 by (simp add: open_leaf_def verify_path_def t root shift_one_small)
qed

subsection \<open>An opening is bound to the root\<close>

text \<open>The pairs a verification hands to the node function.\<close>

fun fold_pairs :: "('d \<Rightarrow> 'd \<Rightarrow> 'd) \<Rightarrow> 'd \<Rightarrow> nat \<Rightarrow> 'd list \<Rightarrow> ('d \<times> 'd) list" where
  "fold_pairs node acc idx [] = []"
| "fold_pairs node acc idx (sibling # path) =
     (let pair = if even idx then (acc, sibling) else (sibling, acc)
      in pair # fold_pairs node (case_prod node pair) (idx div 2) path)"

text \<open>
  Since some collision always exists for a hash of fixed length, what matters is that the two
  verifications themselves exhibit one.
\<close>

definition pair_collision :: "('d \<Rightarrow> 'd \<Rightarrow> 'd) \<Rightarrow> ('d \<times> 'd) list \<Rightarrow> ('d \<times> 'd) list \<Rightarrow> bool" where
  "pair_collision node us vs \<longleftrightarrow> (\<exists>u \<in> set us. \<exists>v \<in> set vs. u \<noteq> v \<and> case_prod node u = case_prod node v)"

lemma pair_collision_Cons:
  "u \<noteq> v \<and> case_prod node u = case_prod node v \<or> pair_collision node us vs
     \<Longrightarrow> pair_collision node (u # us) (v # vs)"
  unfolding pair_collision_def by (metis list.set_intros)

lemma fold_path_binding:
  "fold_path node a i p = fold_path node b i q \<Longrightarrow> length p = length q
    \<Longrightarrow> (a = b \<and> p = q) \<or> pair_collision node (fold_pairs node a i p) (fold_pairs node b i q)"
proof (induction p arbitrary: a b i q)
  case (Cons s p)
  from Cons.prems(2) obtain s' q' where q: "q = s' # q'" by (cases q) auto
  define u v where "u = (if even i then (a, s) else (s, a))" and "v = (if even i then (b, s') else (s', b))"
  have f: "fold_path node a i (s # p) = fold_path node (case_prod node u) (i div 2) p"
    "fold_path node b i q = fold_path node (case_prod node v) (i div 2) q'"
    "fold_pairs node a i (s # p) = u # fold_pairs node (case_prod node u) (i div 2) p"
    "fold_pairs node b i q = v # fold_pairs node (case_prod node v) (i div 2) q'"
    by (simp_all add: q u_def v_def)
  have "(case_prod node u = case_prod node v \<and> p = q')
      \<or> pair_collision node (fold_pairs node (case_prod node u) (i div 2) p) (fold_pairs node (case_prod node v) (i div 2) q')"
    using Cons.prems(2) q by (intro Cons.IH [OF Cons.prems(1) [unfolded f(1,2)]]) simp
  moreover have "u = v \<Longrightarrow> a = b \<and> s = s'" by (simp add: u_def v_def split: if_splits)
  ultimately show ?case unfolding f using pair_collision_Cons [of u v node] q by blast
qed simp

lemma verify_path_binding:
  assumes "verify_path node root index a p" "verify_path node root index b q" "length p = length q"
  shows "(a = b \<and> p = q) \<or> pair_collision node (fold_pairs node a (nat index) p) (fold_pairs node b (nat index) q)"
  using assms fold_path_binding [of node a "nat index" p b q] by (simp add: verify_path_def)

text \<open>For 32-byte digests a colliding pair is a collision of the underlying hash.\<close>

definition path_inputs :: "'z ext_scheme \<Rightarrow> int \<Rightarrow> felt list \<Rightarrow> bytes list \<Rightarrow> bytes list" where
  "path_inputs E index leaf path =
     concat ([0] # map felt_bytes leaf)
       # map (\<lambda>(x, y). 1 # x @ y) (fold_pairs (hash_node E) (hash_leaf E leaf) (nat index) path)"

definition input_collision :: "'z ext_scheme \<Rightarrow> bytes list \<Rightarrow> bytes list \<Rightarrow> bool" where
  "input_collision E us vs \<longleftrightarrow> (\<exists>u \<in> set us. \<exists>v \<in> set vs. u \<noteq> v \<and> x_sha3 E u = x_sha3 E v)"

lemma fold_pairs_sized:
  assumes "\<And>x y. size (node x y) = n" and "size a = n" and "list_all (\<lambda>s. size s = n) p"
  shows "(x, y) \<in> set (fold_pairs node a i p) \<Longrightarrow> size x = n \<and> size y = n"
  using assms(2,3)
proof (induction p arbitrary: a i)
  case (Cons s p)
  then show ?case using assms(1) by (fastforce simp: Let_def split: if_splits)
qed simp

lemma concat_felt_bytes_inject: "concat (map felt_bytes xs) = concat (map felt_bytes ys) \<Longrightarrow> xs = ys"
proof (induction xs arbitrary: ys)
  case Nil
  then show ?case by (cases ys) (auto simp: felt_bytes_def be64_def upt_rec)
next
  case (Cons x xs)
  then obtain y ys' where ys: "ys = y # ys'" by (cases ys) (auto simp: felt_bytes_def be64_def upt_rec)
  with Cons.prems have "felt_bytes x = felt_bytes y" "concat (map felt_bytes xs) = concat (map felt_bytes ys')"
    by simp_all
  with Cons.IH ys show ?case by (metis felt_bytes_def of_be_be64)
qed

lemma sha_path_binding:
  assumes sha: "\<And>x. length (x_sha3 E x) = 32"
    and v: "sha_verify_path E root index a p" "sha_verify_path E root index b q" "length p = length q"
    and l: "list_all (\<lambda>s. length s = 32) p" "list_all (\<lambda>s. length s = 32) q"
  shows "(a = b \<and> p = q) \<or> input_collision E (path_inputs E index a p) (path_inputs E index b q)"
proof -
  let ?us = "fold_pairs (hash_node E) (hash_leaf E a) (nat index) p"
  let ?vs = "fold_pairs (hash_node E) (hash_leaf E b) (nat index) q"
  have len: "size (hash_node E x y) = 32" "size (hash_leaf E c) = 32" for x y c
    by (simp_all add: hash_node_def hash_leaf_def crypto_hash_def sha)
  consider "hash_leaf E a = hash_leaf E b" "p = q" | "pair_collision (hash_node E) ?us ?vs"
    using verify_path_binding [OF v(1,2) [unfolded sha_verify_path_def] v(3)] by blast
  then show ?thesis
  proof cases
    case 1
    then have "x_sha3 E (0 # concat (map felt_bytes a)) = x_sha3 E (0 # concat (map felt_bytes b))"
      by (simp add: hash_leaf_def crypto_hash_def)
    then have "a = b \<or> input_collision E (path_inputs E index a p) (path_inputs E index b q)"
      using concat_felt_bytes_inject [of a b] by (auto simp: input_collision_def path_inputs_def)
    with 1 show ?thesis by blast
  next
    case 2
    then obtain x y x' y' where m: "(x, y) \<in> set ?us" "(x', y') \<in> set ?vs" "(x, y) \<noteq> (x', y')"
      and eq: "hash_node E x y = hash_node E x' y'" by (auto simp: pair_collision_def)
    have "length x = 32 \<and> length y = 32" using fold_pairs_sized [OF len(1) len(2) l(1) m(1)] by simp
    moreover have "length x' = 32 \<and> length y' = 32" using fold_pairs_sized [OF len(1) len(2) l(2) m(2)] by simp
    ultimately have "1 # x @ y \<noteq> 1 # x' @ y'" using m(3) by auto
    moreover have "x_sha3 E (1 # x @ y) = x_sha3 E (1 # x' @ y')"
      using eq by (simp add: hash_node_def crypto_hash_def)
    moreover have "1 # x @ y \<in> set (path_inputs E index a p)" "1 # x' @ y' \<in> set (path_inputs E index b q)"
      using m(1,2) by (force simp: path_inputs_def)+
    ultimately show ?thesis unfolding input_collision_def by blast
  qed
qed

end
