(* ===== verification/Poseidon.thy ===== *)
theory Poseidon
  imports Merkle
begin

text \<open>
  The Poseidon permutation, its sponge and its two-to-one compression (\<^verbatim>\<open>poseidon.go\<close>), the
  Merkle tree over it (\<^verbatim>\<open>merkle_poseidon.go\<close>) and the serialised public statement of a shielded
  spend (\<^verbatim>\<open>spendn_codec.go\<close>, readers of \<^verbatim>\<open>spend_codec.go\<close>). The round constants and the points
  of the Cauchy matrix come from a SHAKE256 stream of \<^verbatim>\<open>golang.org/x/crypto\<close>, so they are the
  parameter \<open>poseidon_params\<close>; \<open>mds_of_points\<close> is the matrix the code builds from the points.
\<close>

type_synonym digest = "felt list"

record poseidon_params =
  pp_points :: "felt list"
  pp_rc :: "felt list list"

definition poseidonWidth :: nat where "poseidonWidth = 12"
definition poseidonRate :: nat where "poseidonRate = 8"
definition poseidonDigestLen :: nat where "poseidonDigestLen = 4"
definition poseidonAlpha :: u64 where "poseidonAlpha = 7"
definition halfFull :: nat where "halfFull = 8 div 2"
definition poseidonPartialRounds :: nat where "poseidonPartialRounds = 22"
definition poseidonDomainSep :: u64 where "poseidonDomainSep = 0x506f73656964306e"

lemmas poseidon_consts = poseidonWidth_def poseidonRate_def poseidonDigestLen_def halfFull_def
  poseidonPartialRounds_def

definition mds_of_points :: "felt list \<Rightarrow> felt list list" where
  "mds_of_points pts =
     map (\<lambda>i. map (\<lambda>j. felt_inv (felt_sub (pts ! i) (pts ! (poseidonWidth + j)))) [0 ..< poseidonWidth])
       [0 ..< poseidonWidth]"

definition sbox :: "felt \<Rightarrow> felt" where
  "sbox x = felt_exp x poseidonAlpha"

definition apply_mds :: "felt list list \<Rightarrow> felt list \<Rightarrow> felt list" where
  "apply_mds mds st = map (\<lambda>row. fold (\<lambda>(m, s) acc. felt_add acc (felt_mul m s)) (zip row st) 0) mds"

definition add_round_constants :: "felt list \<Rightarrow> felt list \<Rightarrow> felt list" where
  "add_round_constants rc st = map2 felt_add st rc"

definition full_round :: "felt list list \<Rightarrow> felt list \<Rightarrow> felt list \<Rightarrow> felt list" where
  "full_round mds rc st = apply_mds mds (map sbox (add_round_constants rc st))"

definition partial_round :: "felt list list \<Rightarrow> felt list \<Rightarrow> felt list \<Rightarrow> felt list" where
  "partial_round mds rc st =
     (let s = add_round_constants rc st in apply_mds mds (s[0 := sbox (s ! 0)]))"

definition permute :: "poseidon_params \<Rightarrow> felt list \<Rightarrow> felt list" where
  "permute pp st =
     (let mds = mds_of_points (pp_points pp);
          s = fold (full_round mds) (take halfFull (pp_rc pp)) st;
          s = fold (partial_round mds) (take poseidonPartialRounds (drop halfFull (pp_rc pp))) s
      in fold (full_round mds) (take halfFull (drop (halfFull + poseidonPartialRounds) (pp_rc pp))) s)"

fun absorb :: "poseidon_params \<Rightarrow> felt list \<Rightarrow> felt list \<Rightarrow> felt list" where
  "absorb pp st msg =
     (if msg = [] then st
      else absorb pp (permute pp (take poseidonRate msg @ drop poseidonRate st)) (drop 8 msg))"

declare absorb.simps [simp del]

definition pad_felts :: "felt list \<Rightarrow> felt list" where
  "pad_felts xs = xs @ [1] @ replicate ((8 - (length xs + 1) mod 8) mod 8) 0"

definition sponge_init :: "nat \<Rightarrow> felt list" where
  "sponge_init len = replicate poseidonRate 0 @ [from_uint64 poseidonDomainSep, from_uint64 (of_nat len), 0, 0]"

definition poseidon_hash :: "poseidon_params \<Rightarrow> felt list \<Rightarrow> digest" where
  "poseidon_hash pp xs = take poseidonDigestLen (absorb pp (sponge_init (length xs)) (pad_felts xs))"

definition hash2 :: "poseidon_params \<Rightarrow> digest \<Rightarrow> digest \<Rightarrow> digest" where
  "hash2 pp left right =
     take poseidonDigestLen (permute pp (left @ right @ drop poseidonRate (sponge_init poseidonRate)))"

definition poseidon_commit :: "poseidon_params \<Rightarrow> digest list \<Rightarrow> (digest \<times> digest merkle_tree) option" where
  "poseidon_commit pp leaves = commit (hash2 pp) leaves"

definition poseidon_verify_path :: "poseidon_params \<Rightarrow> digest \<Rightarrow> int \<Rightarrow> digest \<Rightarrow> digest list \<Rightarrow> bool" where
  "poseidon_verify_path pp root index leaf path = verify_path (hash2 pp) root index leaf path"

subsection \<open>The public statement of a spend\<close>

record spend_public =
  sp_MerkleRoot :: digest
  sp_Nfs :: "digest list"
  sp_OutCms :: "digest list"
  sp_Fee :: felt

datatype sc_err = SCShort | SCBound | SCTrailing

definition be32 :: "u32 \<Rightarrow> bytes" where
  "be32 x = map (\<lambda>i. ucast (drop_bit (24 - 8 * i) x)) [0 ..< 4]"

definition sc_take :: "nat \<Rightarrow> bytes \<Rightarrow> sc_err + bytes \<times> bytes" where
  "sc_take n b = (if length b < n then Inl SCShort else Inr (take n b, drop n b))"

definition sc_u32 :: "bytes \<Rightarrow> sc_err + nat \<times> bytes" where
  "sc_u32 b = rbind (sc_take 4 b) (\<lambda>(s, b). Inr (unat (of_be s), b))"

definition sc_felt :: "bytes \<Rightarrow> sc_err + felt \<times> bytes" where
  "sc_felt b = rbind (sc_take 8 b) (\<lambda>(s, b). Inr (felt_from_bytes s, b))"

fun sc_felts :: "nat \<Rightarrow> bytes \<Rightarrow> sc_err + felt list \<times> bytes" where
  "sc_felts 0 b = Inr ([], b)"
| "sc_felts (Suc n) b =
     rbind (sc_felt b) (\<lambda>(f, b). rbind (sc_felts n b) (\<lambda>(fs, b). Inr (f # fs, b)))"

fun sc_digests :: "nat \<Rightarrow> bytes \<Rightarrow> sc_err + digest list \<times> bytes" where
  "sc_digests 0 b = Inr ([], b)"
| "sc_digests (Suc n) b =
     rbind (sc_felts poseidonDigestLen b) (\<lambda>(d, b). rbind (sc_digests n b) (\<lambda>(ds, b). Inr (d # ds, b)))"

definition scMaxShieldInputs :: nat where "scMaxShieldInputs = 64"
definition scMaxShieldOutputs :: nat where "scMaxShieldOutputs = 64"

definition marshal_spend_public :: "spend_public \<Rightarrow> bytes" where
  "marshal_spend_public p =
     be32 (of_nat (length (sp_Nfs p))) @ be32 (of_nat (length (sp_OutCms p)))
     @ concat (map felt_bytes (sp_MerkleRoot p))
     @ concat (map felt_bytes (concat (sp_Nfs p)))
     @ concat (map felt_bytes (concat (sp_OutCms p)))
     @ felt_bytes (sp_Fee p)"

definition unmarshal_spend_public :: "bytes \<Rightarrow> sc_err + spend_public" where
  "unmarshal_spend_public b =
     rbind (sc_u32 b) (\<lambda>(numIn, b).
     rbind (sc_u32 b) (\<lambda>(numOut, b).
       if numIn < 1 \<or> scMaxShieldInputs < numIn then Inl SCBound
       else if numOut < 1 \<or> scMaxShieldOutputs < numOut then Inl SCBound
       else
         rbind (sc_felts poseidonDigestLen b) (\<lambda>(root, b).
         rbind (sc_digests numIn b) (\<lambda>(nfs, b).
         rbind (sc_digests numOut b) (\<lambda>(outs, b).
         rbind (sc_felt b) (\<lambda>(fee, b).
           if length b \<noteq> 0 then Inl SCTrailing
           else Inr \<lparr>sp_MerkleRoot = root, sp_Nfs = nfs, sp_OutCms = outs, sp_Fee = fee\<rparr>))))))"

definition digest_ok :: "digest \<Rightarrow> bool" where
  "digest_ok d \<longleftrightarrow> length d = poseidonDigestLen \<and> list_all canon d"

definition spend_public_ok :: "spend_public \<Rightarrow> bool" where
  "spend_public_ok p \<longleftrightarrow>
     digest_ok (sp_MerkleRoot p) \<and> list_all digest_ok (sp_Nfs p) \<and> list_all digest_ok (sp_OutCms p)
     \<and> canon (sp_Fee p) \<and> 1 \<le> length (sp_Nfs p) \<and> length (sp_Nfs p) \<le> scMaxShieldInputs
     \<and> 1 \<le> length (sp_OutCms p) \<and> length (sp_OutCms p) \<le> scMaxShieldOutputs"

subsection \<open>Round trip of the statement\<close>

lemma sc_u32_be32 [codec_simps]: "n < 2 ^ 32 \<Longrightarrow> sc_u32 (be32 (of_nat n) @ rest) = Inr (n, rest)"
proof -
  assume n: "n < 2 ^ 32"
  have u: "[0 ..< 4] = [0, 1, 2, 3 :: nat]" by (simp add: upt_rec)
  have step: "push_bit 8 (ucast (drop_bit (k + 8) x)) OR ucast (ucast (drop_bit k x) :: u8) = (ucast (drop_bit k x) :: u64)" for x :: u32 and k
  proof (rule bit_word_eqI)
    fix m assume m: "m < LENGTH(64)"
    have "\<not> m < 8 \<Longrightarrow> k + 8 + (m - 8) = k + m" by simp
    with m show "bit (push_bit 8 (ucast (drop_bit (k + 8) x)) OR ucast (ucast (drop_bit k x) :: u8) :: u64) m = bit (ucast (drop_bit k x) :: u64) m"
      by (cases "m < 8") (auto simp: bit_simps dest: bit_imp_le_length)
  qed
  have "of_be (be32 x) = ucast x" for x :: u32
  proof -
    have z: "drop_bit 32 x = 0" by (rule bit_word_eqI) (simp add: bit_simps)
    show ?thesis using step [of 24 x] step [of 16 x] step [of 8 x] step [of 0 x] by (simp add: of_be_def be32_def u z)
  qed
  moreover have "unat (ucast (of_nat n :: u32) :: u64) = n"
  proof -
    have "unat (of_nat n :: u32) = n" using n by (simp add: unat_of_nat)
    with n show ?thesis by (simp add: unsigned_ucast_eq take_bit_nat_eq_self)
  qed
  ultimately show ?thesis
    by (simp add: sc_u32_def sc_take_def be32_def)
qed

lemma sc_felt_bytes [codec_simps]: "canon f \<Longrightarrow> sc_felt (felt_bytes f @ rest) = Inr (f, rest)"
  by (simp add: sc_felt_def sc_take_def codec_simps)

lemma sc_felts_bytes [codec_simps]:
  "list_all canon fs \<Longrightarrow> n = length fs \<Longrightarrow> sc_felts n (concat (map felt_bytes fs) @ rest) = Inr (fs, rest)"
  by (induction fs arbitrary: n) (auto simp: codec_simps)

lemma sc_digests_bytes [codec_simps]:
  "list_all digest_ok ds \<Longrightarrow> n = length ds
     \<Longrightarrow> sc_digests n (concat (map felt_bytes (concat ds)) @ rest) = Inr (ds, rest)"
  by (induction ds arbitrary: n) (auto simp: codec_simps digest_ok_def)

lemma unmarshal_marshal_spend:
  assumes "spend_public_ok p"
  shows "unmarshal_spend_public (marshal_spend_public p) = Inr p"
proof -
  have d: "digest_ok (sp_MerkleRoot p)" "list_all digest_ok (sp_Nfs p)" "list_all digest_ok (sp_OutCms p)"
    "canon (sp_Fee p)" using assms by (simp_all add: spend_public_ok_def)
  have len: "1 \<le> length (sp_Nfs p)" "length (sp_Nfs p) \<le> 64" "1 \<le> length (sp_OutCms p)" "length (sp_OutCms p) \<le> 64"
    using assms by (simp_all add: spend_public_ok_def scMaxShieldInputs_def scMaxShieldOutputs_def)
  have root: "list_all canon (sp_MerkleRoot p)" "poseidonDigestLen = length (sp_MerkleRoot p)"
    using d(1) by (simp_all add: digest_ok_def)
  have fee: "sc_felt (felt_bytes (sp_Fee p)) = Inr (sp_Fee p, [])"
    using sc_felt_bytes [of "sp_Fee p" "[]"] d(4) by simp
  have "\<not> length (sp_Nfs p) < 1" "\<not> length (sp_OutCms p) < 1" using len by auto
  then show ?thesis
    using d len fee root(1)
    unfolding unmarshal_spend_public_def marshal_spend_public_def
    by (simp add: codec_simps root(2) scMaxShieldInputs_def scMaxShieldOutputs_def)
qed

lemma sc_felts_length: "sc_felts n b = Inr (fs, b') \<Longrightarrow> length fs = n \<and> list_all canon fs"
  by (induction n arbitrary: b fs)
    (auto simp: rbind_eq_Inr sc_felt_def felt_simps split: prod.splits)

lemma sc_digests_ok: "sc_digests n b = Inr (ds, b') \<Longrightarrow> length ds = n \<and> list_all digest_ok ds"
  by (induction n arbitrary: b ds)
    (auto simp: rbind_eq_Inr digest_ok_def dest: sc_felts_length split: prod.splits)

lemma unmarshal_spend_ok: "unmarshal_spend_public b = Inr p \<Longrightarrow> spend_public_ok p"
  unfolding unmarshal_spend_public_def
  by (auto simp: rbind_eq_Inr spend_public_ok_def digest_ok_def sc_felt_def felt_simps Suc_le_eq
      dest!: sc_felts_length sc_digests_ok split: prod.splits if_splits)

end
