(* ===== verification/Smt.thy ===== *)
theory Smt
  imports ChainTypes
begin

text \<open>
  The sparse Merkle tree of \<^verbatim>\<open>internal/smt\<close>. A path is a list of 256 bits (the source's string of
  \<^verbatim>\<open>'0'\<close> and \<^verbatim>\<open>'1'\<close>); the store maps the prefixes of non-empty subtrees to their hashes. The
  abstract specification is \<open>ref_hash\<close>, the root of the full tree over a map from paths to leaf
  hashes: the store computes it (\<open>smt_rel\<close>), so the root depends on the set of entries only, not
  on the order of the updates, and a proof built by \<open>prove\<close> verifies.
\<close>

type_synonym path = "bool list"
type_synonym smt = "(path, bytes) fmap"

definition treeDepth :: nat where "treeDepth = 256"
definition hashSize :: nat where "hashSize = 32"

text \<open>\<open>default_up k\<close> is \<^verbatim>\<open>defaultHashes[treeDepth - k]\<close>.\<close>

primrec default_up :: "'z ext_scheme \<Rightarrow> nat \<Rightarrow> bytes" where
  "default_up E 0 = replicate hashSize 0"
| "default_up E (Suc k) = crypto_hash E [default_up E k, default_up E k]"

definition default_hash :: "'z ext_scheme \<Rightarrow> nat \<Rightarrow> bytes" where
  "default_hash E d = default_up E (treeDepth - d)"

definition byte_bits :: "u8 \<Rightarrow> bool list" where
  "byte_bits b = map (\<lambda>i. bit b (7 - i)) [0 ..< 8]"

definition path_bits :: "'z ext_scheme \<Rightarrow> bytes \<Rightarrow> path" where
  "path_bits E key = concat (map byte_bits (crypto_hash E [key]))"

definition node_hash :: "'z ext_scheme \<Rightarrow> smt \<Rightarrow> path \<Rightarrow> bytes" where
  "node_hash E t prefix = (case fmlookup t prefix of None \<Rightarrow> default_hash E (length prefix) | Some h \<Rightarrow> h)"

definition store_node :: "'z ext_scheme \<Rightarrow> path \<Rightarrow> bytes option \<Rightarrow> smt \<Rightarrow> smt" where
  "store_node E prefix h t =
     (case h of
        None \<Rightarrow> fmdrop prefix t
      | Some h \<Rightarrow> if h = default_hash E (length prefix) then fmdrop prefix t else fmupd prefix h t)"

text \<open>The loop of \<^verbatim>\<open>setLeaf\<close> from depth \<open>d - 1\<close> down to 0.\<close>

fun rehash :: "'z ext_scheme \<Rightarrow> path \<Rightarrow> nat \<Rightarrow> smt \<Rightarrow> smt" where
  "rehash E p 0 t = t"
| "rehash E p (Suc d) t =
     (let prefix = take d p;
          h = crypto_hash E [node_hash E t (prefix @ [False]), node_hash E t (prefix @ [True])]
      in rehash E p d (store_node E prefix (Some h) t))"

definition set_leaf :: "'z ext_scheme \<Rightarrow> path \<Rightarrow> bytes option \<Rightarrow> smt \<Rightarrow> smt" where
  "set_leaf E p leaf t = rehash E p treeDepth (store_node E p leaf t)"

definition smt_update :: "'z ext_scheme \<Rightarrow> bytes \<Rightarrow> bytes \<Rightarrow> smt \<Rightarrow> smt" where
  "smt_update E key v t =
     (if length v = 0 then set_leaf E (path_bits E key) None t
      else set_leaf E (path_bits E key) (Some (crypto_hash E [v])) t)"

definition smt_delete :: "'z ext_scheme \<Rightarrow> bytes \<Rightarrow> smt \<Rightarrow> smt" where
  "smt_delete E key t = set_leaf E (path_bits E key) None t"

definition smt_root :: "'z ext_scheme \<Rightarrow> smt \<Rightarrow> bytes" where
  "smt_root E t = node_hash E t []"

definition smt_len :: "smt \<Rightarrow> nat" where
  "smt_len t = fcard (ffilter (\<lambda>p. length p = treeDepth) (fmdom t))"

record smt_proof =
  pf_Key :: bytes
  pf_Leaf :: "bytes option"
  pf_Siblings :: "bytes list"

text \<open>The siblings from the leaf's up to depth 1.\<close>

fun siblings :: "'z ext_scheme \<Rightarrow> smt \<Rightarrow> path \<Rightarrow> nat \<Rightarrow> bytes list" where
  "siblings E t p 0 = []"
| "siblings E t p (Suc d) = node_hash E t (take d p @ [\<not> p ! d]) # siblings E t p d"

definition prove :: "'z ext_scheme \<Rightarrow> smt \<Rightarrow> bytes \<Rightarrow> smt_proof" where
  "prove E t key =
     \<lparr>pf_Key = key, pf_Leaf = fmlookup t (path_bits E key),
      pf_Siblings = siblings E t (path_bits E key) treeDepth\<rparr>"

fun climb :: "'z ext_scheme \<Rightarrow> path \<Rightarrow> nat \<Rightarrow> bytes list \<Rightarrow> bytes \<Rightarrow> bytes" where
  "climb E p (Suc d) (sib # sibs) cur =
     climb E p d sibs (if \<not> p ! d then crypto_hash E [cur, sib] else crypto_hash E [sib, cur])"
| "climb E p d sibs cur = cur"

definition verify_proof :: "'z ext_scheme \<Rightarrow> smt_proof \<Rightarrow> bytes \<Rightarrow> bool" where
  "verify_proof E pf root \<longleftrightarrow>
     length (pf_Siblings pf) = treeDepth \<and>
     climb E (path_bits E (pf_Key pf)) treeDepth (pf_Siblings pf)
       (case pf_Leaf pf of None \<Rightarrow> default_hash E treeDepth | Some l \<Rightarrow> l) = root"

subsection \<open>The full tree over a map of leaves\<close>

text \<open>\<open>ref_up E L k q\<close> is the hash of the subtree at \<open>q\<close>, \<open>k\<close> levels above the leaves.\<close>

primrec ref_up :: "'z ext_scheme \<Rightarrow> (path \<Rightarrow> bytes option) \<Rightarrow> nat \<Rightarrow> path \<Rightarrow> bytes" where
  "ref_up E L 0 q = (case L q of None \<Rightarrow> replicate hashSize 0 | Some h \<Rightarrow> h)"
| "ref_up E L (Suc k) q = crypto_hash E [ref_up E L k (q @ [False]), ref_up E L k (q @ [True])]"

definition ref_hash :: "'z ext_scheme \<Rightarrow> (path \<Rightarrow> bytes option) \<Rightarrow> path \<Rightarrow> bytes" where
  "ref_hash E L q = ref_up E L (treeDepth - length q) q"

definition smt_rel :: "'z ext_scheme \<Rightarrow> smt \<Rightarrow> (path \<Rightarrow> bytes option) \<Rightarrow> bool" where
  "smt_rel E t L \<longleftrightarrow> (\<forall>q. length q \<le> treeDepth \<longrightarrow> node_hash E t q = ref_hash E L q)"

lemma ref_up_empty: "ref_up E (\<lambda>_. None) k q = default_up E k"
  by (induction k arbitrary: q) simp_all

lemma smt_rel_empty: "smt_rel E fmempty (\<lambda>_. None)"
  by (simp add: smt_rel_def node_hash_def ref_hash_def ref_up_empty default_hash_def)

lemma node_hash_store [simp]:
  "node_hash E (store_node E p h t) q
     = (if q = p then (case h of None \<Rightarrow> default_hash E (length p) | Some x \<Rightarrow> x) else node_hash E t q)"
  by (auto simp: node_hash_def store_node_def split: option.splits)

lemma ref_up_unaffected:
  "(\<And>r. p \<noteq> q @ r) \<Longrightarrow> ref_up E (L(p := x)) k q = ref_up E L k q"
proof (induction k arbitrary: q)
  case 0
  from 0 [of "[]"] show ?case by auto
next
  case (Suc k)
  have "p \<noteq> (q @ [b]) @ r" for b r using Suc.prems by simp
  then show ?case using Suc.IH by simp
qed

lemma ref_hash_step:
  "length q < treeDepth \<Longrightarrow> ref_hash E L q = crypto_hash E [ref_hash E L (q @ [False]), ref_hash E L (q @ [True])]"
  by (simp add: ref_hash_def Suc_diff_le flip: Suc_diff_Suc)

text \<open>The loop restores the hashes of the ancestors, deepest first.\<close>

lemma rehash_rel:
  assumes "length p = treeDepth" "d \<le> treeDepth"
    and "\<And>q. length q \<le> treeDepth \<Longrightarrow> (\<And>e. e < d \<Longrightarrow> q \<noteq> take e p) \<Longrightarrow> node_hash E t q = ref_hash E L q"
  shows "smt_rel E (rehash E p d t) L"
  using assms
proof (induction d arbitrary: t)
  case 0
  then show ?case by (simp add: smt_rel_def)
next
  case (Suc d)
  let ?q = "take d p"
  have len: "length ?q = d" using Suc.prems(1,2) by simp
  have child: "node_hash E t (?q @ [b]) = ref_hash E L (?q @ [b])" for b
  proof (rule Suc.prems(3))
    show "length (?q @ [b]) \<le> treeDepth" using Suc.prems(2) len by simp
    fix e assume "e < Suc d"
    then have "length (take e p) < length (?q @ [b])" by (simp add: len)
    then show "?q @ [b] \<noteq> take e p" by (metis less_irrefl)
  qed
  have "smt_rel E (rehash E p d (store_node E ?q (Some (ref_hash E L ?q)) t)) L"
  proof (rule Suc.IH)
    fix q assume q: "length q \<le> treeDepth" "\<And>e. e < d \<Longrightarrow> q \<noteq> take e p"
    show "node_hash E (store_node E ?q (Some (ref_hash E L ?q)) t) q = ref_hash E L q"
    proof (cases "q = ?q")
      case False
      then have "\<And>e. e < Suc d \<Longrightarrow> q \<noteq> take e p" using q(2) by (metis less_antisym)
      with q(1) Suc.prems(3) False show ?thesis by simp
    qed simp
  qed (use Suc.prems in auto)
  moreover have "ref_hash E L ?q = crypto_hash E [node_hash E t (?q @ [False]), node_hash E t (?q @ [True])]"
    using Suc.prems(2) by (simp add: child ref_hash_step len)
  ultimately show ?case by (simp add: Let_def)
qed

lemma set_leaf_rel:
  assumes "smt_rel E t L" "length p = treeDepth"
  shows "smt_rel E (set_leaf E p h t) (L(p := h))"
  unfolding set_leaf_def
proof (rule rehash_rel)
  fix q assume q: "length q \<le> treeDepth" "\<And>e. e < treeDepth \<Longrightarrow> q \<noteq> take e p"
  show "node_hash E (store_node E p h t) q = ref_hash E (L(p := h)) q"
  proof (cases "q = p")
    case True
    then show ?thesis
      using assms(2) by (auto simp: ref_hash_def default_hash_def split: option.split)
  next
    case False
    have "p \<noteq> q @ r" for r
    proof
      assume "p = q @ r"
      with q(2) [of "length q"] q(1) assms(2) False show False
        by (metis append_Nil2 append_eq_conv_conj le_neq_implies_less length_0_conv length_append nat_less_le not_add_less1 take_all_iff)
    qed
    then show ?thesis
      using False assms(1) q(1) by (simp add: smt_rel_def ref_hash_def ref_up_unaffected)
  qed
qed (use assms in simp_all)

subsection \<open>Updates, order independence\<close>

definition sha_ok :: "'z ext_scheme \<Rightarrow> bool" where
  "sha_ok E \<longleftrightarrow> (\<forall>x. length (x_sha3 E x) = hashSize)"

definition spec_update :: "'z ext_scheme \<Rightarrow> bytes \<times> bytes \<Rightarrow> (path \<Rightarrow> bytes option) \<Rightarrow> (path \<Rightarrow> bytes option)" where
  "spec_update E = (\<lambda>(key, v) L. L(path_bits E key := (if v = [] then None else Some (crypto_hash E [v]))))"

definition smt_build :: "'z ext_scheme \<Rightarrow> (bytes \<times> bytes) list \<Rightarrow> smt" where
  "smt_build E kvs = fold (\<lambda>(k, v). smt_update E k v) kvs fmempty"

definition spec_build :: "'z ext_scheme \<Rightarrow> (bytes \<times> bytes) list \<Rightarrow> (path \<Rightarrow> bytes option)" where
  "spec_build E kvs = fold (spec_update E) kvs (\<lambda>_. None)"

lemma length_path_bits [simp]: "sha_ok E \<Longrightarrow> length (path_bits E key) = treeDepth"
proof -
  assume "sha_ok E"
  then have "length (crypto_hash E [key]) = 32" by (simp add: sha_ok_def crypto_hash_def hashSize_def)
  moreover have "length (path_bits E key) = (\<Sum>b\<leftarrow>crypto_hash E [key]. 8)"
    by (simp add: path_bits_def length_concat byte_bits_def comp_def)
  ultimately show ?thesis by (simp add: sum_list_triv treeDepth_def)
qed

lemma smt_update_rel:
  assumes "sha_ok E" "smt_rel E t L"
  shows "smt_rel E (smt_update E k v t) (spec_update E (k, v) L)"
  using assms set_leaf_rel [of E t L "path_bits E k"]
  by (auto simp: smt_update_def spec_update_def)

lemma smt_delete_rel:
  assumes "sha_ok E" "smt_rel E t L"
  shows "smt_rel E (smt_delete E k t) (L(path_bits E k := None))"
  using assms set_leaf_rel [of E t L "path_bits E k"] by (simp add: smt_delete_def)

lemma smt_fold_rel:
  "sha_ok E \<Longrightarrow> smt_rel E t L
    \<Longrightarrow> smt_rel E (fold (\<lambda>(k, v). smt_update E k v) kvs t) (fold (spec_update E) kvs L)"
  by (induction kvs arbitrary: t L) (auto simp: smt_update_rel)

lemma smt_build_rel: "sha_ok E \<Longrightarrow> smt_rel E (smt_build E kvs) (spec_build E kvs)"
  by (simp add: smt_build_def spec_build_def smt_fold_rel smt_rel_empty)

lemma smt_rel_root: "smt_rel E t L \<Longrightarrow> smt_root E t = ref_hash E L []"
  by (simp add: smt_rel_def smt_root_def)

lemma spec_fold_other:
  "p \<notin> path_bits E ` fst ` set kvs \<Longrightarrow> fold (spec_update E) kvs L p = L p"
  by (induction kvs arbitrary: L) (auto simp: spec_update_def)

lemma spec_fold_last:
  "distinct (map (path_bits E \<circ> fst) kvs) \<Longrightarrow> (k, v) \<in> set kvs
    \<Longrightarrow> fold (spec_update E) kvs L (path_bits E k) = (if v = [] then None else Some (crypto_hash E [v]))"
proof (induction kvs arbitrary: L)
  case (Cons kv kvs)
  show ?case
  proof (cases "kv = (k, v)")
    case True
    with Cons.prems(1) have "path_bits E k \<notin> path_bits E ` fst ` set kvs" by (auto simp: image_comp)
    with True show ?thesis by (simp add: spec_fold_other) (simp add: spec_update_def)
  next
    case False
    with Cons show ?thesis by simp
  qed
qed simp

lemma spec_build_order:
  assumes "set kvs = set kvs'" "distinct (map (path_bits E \<circ> fst) kvs)" "distinct (map (path_bits E \<circ> fst) kvs')"
  shows "spec_build E kvs = spec_build E kvs'"
proof
  fix p
  show "spec_build E kvs p = spec_build E kvs' p"
  proof (cases "p \<in> path_bits E ` fst ` set kvs")
    case True
    then obtain k v where "(k, v) \<in> set kvs" and p: "p = path_bits E k" by auto
    then show ?thesis
      using spec_fold_last [OF assms(2)] spec_fold_last [OF assms(3)] assms(1) by (simp add: spec_build_def)
  next
    case False
    with assms(1) show ?thesis by (simp add: spec_build_def spec_fold_other)
  qed
qed

subsection \<open>Proofs of inclusion and exclusion\<close>

lemma climb_siblings:
  assumes "smt_rel E t L" "d \<le> treeDepth" "length p = treeDepth"
  shows "climb E p d (siblings E t p d) (ref_hash E L (take d p)) = smt_root E t"
  using assms(2)
proof (induction d)
  case 0
  then show ?case by (simp add: smt_rel_root [OF assms(1)])
next
  case (Suc d)
  then have d: "d < length p" using assms(3) by simp
  have split: "take (Suc d) p = take d p @ [p ! d]" using d by (simp add: take_Suc_conv_app_nth)
  have "node_hash E t (take d p @ [\<not> p ! d]) = ref_hash E L (take d p @ [\<not> p ! d])"
    using assms(1) Suc.prems d by (simp add: smt_rel_def)
  moreover have "ref_hash E L (take d p) = crypto_hash E [ref_hash E L (take d p @ [False]), ref_hash E L (take d p @ [True])]"
    using Suc.prems d by (intro ref_hash_step) simp
  ultimately show ?case
    using Suc.IH Suc.prems split by (cases "p ! d") simp_all
qed

lemma length_siblings [simp]: "length (siblings E t p d) = d"
  by (induction d) simp_all

lemma prove_verify:
  assumes "sha_ok E" "smt_rel E t L"
  shows "verify_proof E (prove E t key) (smt_root E t)"
proof -
  let ?p = "path_bits E key"
  have len: "length ?p = treeDepth" using assms(1) by simp
  have "(case fmlookup t ?p of None \<Rightarrow> default_hash E treeDepth | Some l \<Rightarrow> l) = node_hash E t ?p"
    unfolding node_hash_def len ..
  also have "\<dots> = ref_hash E L (take treeDepth ?p)"
    using assms(2) len by (simp add: smt_rel_def)
  finally show ?thesis
    using climb_siblings [OF assms(2) order_refl len] by (simp add: verify_proof_def prove_def)
qed

text \<open>Two accepted proofs of one key whose leaves are hashes agree, or SHA3-256 collides.\<close>

text \<open>The inputs that a verification hashes.\<close>

fun climb_inputs :: "'z ext_scheme \<Rightarrow> path \<Rightarrow> nat \<Rightarrow> bytes list \<Rightarrow> bytes \<Rightarrow> bytes list" where
  "climb_inputs E p (Suc d) (sib # sibs) cur =
     (let x = if \<not> p ! d then cur @ sib else sib @ cur in x # climb_inputs E p d sibs (x_sha3 E x))"
| "climb_inputs E p d sibs cur = []"

definition sha_collision :: "'z ext_scheme \<Rightarrow> bytes list \<Rightarrow> bytes list \<Rightarrow> bool" where
  "sha_collision E us vs \<longleftrightarrow> (\<exists>u \<in> set us. \<exists>v \<in> set vs. u \<noteq> v \<and> x_sha3 E u = x_sha3 E v)"

lemma climb_binding:
  "climb E p d ss a = climb E p d ss' b \<Longrightarrow> length ss = d \<Longrightarrow> length ss' = d
    \<Longrightarrow> sha_ok E \<Longrightarrow> length a = hashSize \<Longrightarrow> length b = hashSize
    \<Longrightarrow> a = b \<or> sha_collision E (climb_inputs E p d ss a) (climb_inputs E p d ss' b)"
proof (induction d arbitrary: ss ss' a b)
  case (Suc d)
  obtain s r s' r' where ss: "ss = s # r" "ss' = s' # r'" "length r = d" "length r' = d"
    using Suc.prems(2,3) by (metis length_Suc_conv)
  define x y where "x = (if \<not> p ! d then a @ s else s @ a)" and "y = (if \<not> p ! d then b @ s' else s' @ b)"
  have f: "climb E p (Suc d) ss a = climb E p d r (x_sha3 E x)" "climb E p (Suc d) ss' b = climb E p d r' (x_sha3 E y)"
    "climb_inputs E p (Suc d) ss a = x # climb_inputs E p d r (x_sha3 E x)"
    "climb_inputs E p (Suc d) ss' b = y # climb_inputs E p d r' (x_sha3 E y)"
    by (simp_all add: ss x_def y_def crypto_hash_def Let_def)
  have "x_sha3 E x = x_sha3 E y \<or> sha_collision E (climb_inputs E p d r (x_sha3 E x)) (climb_inputs E p d r' (x_sha3 E y))"
    using Suc.prems(1,4) ss(3,4) by (intro Suc.IH) (simp_all add: f sha_ok_def)
  moreover have "x = y \<Longrightarrow> a = b"
    using Suc.prems(5,6) by (auto simp: x_def y_def split: if_splits)
  ultimately show ?case unfolding f sha_collision_def by (metis list.set_intros)
qed simp

definition leaf_ok :: "smt_proof \<Rightarrow> bool" where
  "leaf_ok pf \<longleftrightarrow> (case pf_Leaf pf of None \<Rightarrow> True | Some l \<Rightarrow> length l = hashSize)"

definition leaf_value :: "smt_proof \<Rightarrow> bytes" where
  "leaf_value pf = (case pf_Leaf pf of None \<Rightarrow> replicate hashSize 0 | Some l \<Rightarrow> l)"

definition proof_inputs :: "'z ext_scheme \<Rightarrow> smt_proof \<Rightarrow> bytes list" where
  "proof_inputs E pf = climb_inputs E (path_bits E (pf_Key pf)) treeDepth (pf_Siblings pf) (leaf_value pf)"

lemma verify_binding:
  assumes "sha_ok E" "verify_proof E pf root" "verify_proof E pf' root" "pf_Key pf = pf_Key pf'"
    "leaf_ok pf" "leaf_ok pf'"
  shows "leaf_value pf = leaf_value pf' \<or> sha_collision E (proof_inputs E pf) (proof_inputs E pf')"
proof -
  have z: "default_hash E treeDepth = replicate hashSize 0" by (simp add: default_hash_def)
  have "climb E (path_bits E (pf_Key pf)) treeDepth (pf_Siblings pf) (leaf_value pf)
      = climb E (path_bits E (pf_Key pf)) treeDepth (pf_Siblings pf') (leaf_value pf')"
    using assms(2-4) unfolding verify_proof_def leaf_value_def z by simp
  then show ?thesis unfolding proof_inputs_def assms(4) [symmetric]
    by (rule climb_binding) (use assms in \<open>auto simp: verify_proof_def leaf_ok_def leaf_value_def split: option.splits\<close>)
qed

text \<open>The leaf of a proof is what the map holds at the key, and it has the length of a hash.\<close>

lemma rehash_leaf: "length q = treeDepth \<Longrightarrow> length p = treeDepth \<Longrightarrow> d \<le> treeDepth
    \<Longrightarrow> fmlookup (rehash E p d t) q = fmlookup t q"
proof (induction d arbitrary: t)
  case (Suc d)
  then have "q \<noteq> take d p" by auto
  with Suc show ?case by (simp add: Let_def store_node_def)
qed simp

lemma smt_build_leaf:
  assumes "sha_ok E" and "length q = treeDepth"
  shows "fmlookup (smt_build E kvs) q = Some h \<Longrightarrow> length h = hashSize"
proof -
  have "\<forall>h. fmlookup t q = Some h \<longrightarrow> length h = hashSize
    \<Longrightarrow> \<forall>h. fmlookup (fold (\<lambda>(k, v). smt_update E k v) kvs t) q = Some h \<longrightarrow> length h = hashSize" for t
  proof (induction kvs arbitrary: t)
    case (Cons kv kvs)
    obtain k v where kv: "kv = (k, v)" by (cases kv)
    have "\<forall>h. fmlookup (smt_update E k v t) q = Some h \<longrightarrow> length h = hashSize"
      using Cons.prems assms
      by (auto simp: smt_update_def set_leaf_def rehash_leaf store_node_def sha_ok_def crypto_hash_def split: if_splits)
    from Cons.IH [OF this] show ?case by (simp add: kv)
  qed simp
  from this [of fmempty] show "fmlookup (smt_build E kvs) q = Some h \<Longrightarrow> length h = hashSize"
    by (simp add: smt_build_def)
qed

lemma prove_leaf:
  assumes "sha_ok E"
  shows "leaf_ok (prove E (smt_build E kvs) key)"
    and "leaf_value (prove E (smt_build E kvs) key)
      = (case spec_build E kvs (path_bits E key) of None \<Rightarrow> replicate hashSize 0 | Some h \<Rightarrow> h)"
proof -
  let ?p = "path_bits E key" and ?t = "smt_build E kvs"
  have len: "length ?p = treeDepth" using assms by simp
  show "leaf_ok (prove E ?t key)"
    using smt_build_leaf [OF assms len, of kvs] by (auto simp: leaf_ok_def prove_def split: option.split)
  have "leaf_value (prove E ?t key) = node_hash E ?t ?p"
    unfolding node_hash_def len by (simp add: leaf_value_def prove_def default_hash_def split: option.split)
  also have "\<dots> = ref_hash E (spec_build E kvs) ?p"
    using smt_build_rel [OF assms, of kvs] len by (simp add: smt_rel_def)
  finally show "leaf_value (prove E ?t key) = (case spec_build E kvs ?p of None \<Rightarrow> replicate hashSize 0 | Some h \<Rightarrow> h)"
    by (simp add: ref_hash_def len)
qed

text \<open>
  A proof hashes its leaf and its deepest sibling as one string, so bytes may move between the two.
\<close>

definition shift_leaf :: "'z ext_scheme \<Rightarrow> nat \<Rightarrow> smt_proof \<Rightarrow> smt_proof" where
  "shift_leaf E n pf =
     (case (pf_Leaf pf, pf_Siblings pf) of
        (Some l, s # ss) \<Rightarrow>
          if \<not> path_bits E (pf_Key pf) ! (treeDepth - 1)
          then pf\<lparr>pf_Leaf := Some (take n (l @ s)), pf_Siblings := drop n (l @ s) # ss\<rparr>
          else pf\<lparr>pf_Leaf := Some (drop n (s @ l)), pf_Siblings := take n (s @ l) # ss\<rparr>
      | _ \<Rightarrow> pf)"

lemma verify_shift_leaf: "verify_proof E (shift_leaf E n pf) root = verify_proof E pf root"
proof -
  obtain d where d: "treeDepth = Suc d" by (simp add: treeDepth_def eval_nat_numeral)
  show ?thesis
    by (simp add: verify_proof_def shift_leaf_def d crypto_hash_def del: take_append drop_append
        split: option.split list.split)
qed

end
