(* ===== verification/CryptoProps.thy ===== *)
theory CryptoProps
  imports FieldInv Poseidon Smt
begin

text \<open>
  Properties of the arithmetic and of the authenticated structures the ledger rests on: the
  Goldilocks field and its roots of unity, the two Merkle trees, the encoded statement of a
  shielded spend, the sparse Merkle tree of the state, and the Merkle root of a block.
\<close>

subsection \<open>A sample hash\<close>

definition sample_hash :: ext where
  "sample_hash = \<lparr>x_sha3 = (\<lambda>b. take 32 (b @ replicate 32 0)), x_pub_ok = (\<lambda>_. True), x_verify = (\<lambda>_ _ _. True),
     x_tx_json = (\<lambda>tx. be64 (tx_Nonce tx) @ str_bytes (tx_From tx)), x_vote_json = (\<lambda>v. []),
     x_evidence_json = (\<lambda>e. []), x_header_json = (\<lambda>h. [])\<rparr>"

lemma sample_sha_ok: "sha_ok sample_hash"
  by (auto simp: sha_ok_def sample_hash_def hashSize_def)

subsection \<open>The field\<close>



text \<open>
  \<^verbatim>\<open>Inv\<close>, which raises to the power \<open>p - 2\<close>, inverts every canonical element but 0, so \<^verbatim>\<open>Div\<close>
  undoes \<^verbatim>\<open>Mul\<close>; a product is 0 only when a factor is.
\<close>

theorem field_division:
  assumes "canon a" and "canon b" and "b \<noteq> 0"
  shows "felt_div (felt_mul a b) b = a \<and> felt_mul (felt_div a b) b = a \<and> (felt_mul a b = 0 \<longleftrightarrow> a = 0)"
proof -
  have one: "felt_mul a 1 = a" using assms(1) by (simp add: word_uint_eq_iff felt_mul_mod canon_def)
  have "felt_div (felt_mul a b) b = a"
    using felt_inv_inverse(1) [OF assms(2,3)] one by (simp add: felt_div_def felt_mul_assoc)
  moreover have "felt_mul (felt_div a b) b = a"
    using felt_inv_inverse(2) [OF assms(2,3)] one by (simp add: felt_div_def felt_mul_assoc)
  moreover have "felt_mul 0 b = 0" by (simp add: word_uint_eq_iff felt_mul_mod)
  ultimately show ?thesis using felt_mul_eq_0 [OF assms(1,2)] assms(3) by blast
qed

theorem field_division_witness: "felt_div (felt_mul 5 7) 7 = 5 \<and> felt_mul (felt_div 5 7) 7 = 5"
  using field_division [of 5 7] by (simp add: canon_def p_int_def)

text \<open>
  Montgomery's batch inversion, one exponentiation for the whole list, returns what inverting
  every element on its own returns.
\<close>

theorem batch_inversion_pointwise:
  assumes "list_all (\<lambda>a. canon a \<and> a \<noteq> 0) as"
  shows "batch_inv as = map felt_inv as"
proof (rule nth_equalityI)
  have all: "list_all2 (\<lambda>r a. felt_mul r a = 1) (batch_inv as) as" using batch_inv_all [OF assms] .
  then show len: "length (batch_inv as) = length (map felt_inv as)" by (simp add: list_all2_lengthD)
  fix i assume i: "i < length (batch_inv as)"
  have "felt_mul (batch_inv as ! i) (as ! i) = 1" using all i by (rule list_all2_nthD)
  moreover have "canon (as ! i)" "as ! i \<noteq> 0" using assms i len by (simp_all add: list_all_length)
  ultimately show "batch_inv as ! i = map felt_inv as ! i"
    using felt_inv_unique batch_inv_canon [of "batch_inv as ! i" as] i len by simp
qed

theorem batch_inversion_pointwise_witness: "batch_inv [3, 5, 7] = [felt_inv 3, felt_inv 5, felt_inv 7]"
  using batch_inversion_pointwise [of "[3, 5, 7]"] by (simp add: canon_def p_int_def)

text \<open>
  \<^verbatim>\<open>RootOfUnity(logN)\<close> is a primitive root: its power \<open>2 ^ logN\<close> is 1 and no smaller positive power
  is, for every order the field has.
\<close>

theorem root_of_unity_primitive:
  assumes "unat logN \<le> 32"
  shows "\<exists>w. root_of_unity logN = Some w \<and>
    (\<forall>j. felt_exp w j = 1 \<longleftrightarrow> 2 ^ unat logN dvd unat j)"
proof -
  obtain w where w: "root_of_unity logN = Some w"
    using assms by (simp add: root_of_unity_def twoAdicity_def word_less_nat_alt)
  have "felt_exp w j = 1 \<longleftrightarrow> 2 ^ unat logN dvd unat j" for j
    using root_power_one_iff [OF w, of "unat j"] canon_one_iff [OF canon_felt_exp, of w j]
    by (simp add: felt_exp_mod)
  with w show ?thesis by blast
qed

theorem root_of_unity_primitive_witness: "\<exists>w. root_of_unity 3 = Some w \<and> felt_exp w 8 = 1 \<and> felt_exp w 4 \<noteq> 1"
proof -
  obtain w where "root_of_unity 3 = Some w" "\<forall>j. felt_exp w j = 1 \<longleftrightarrow> 2 ^ unat (3 :: u32) dvd unat j"
    using root_of_unity_primitive [of 3] by auto
  then show ?thesis by simp
qed

subsection \<open>Merkle trees\<close>

text \<open>
  Every leaf of a committed tree can be opened, and its path verifies against the root, also
  when the number of leaves is no power of two and the last leaf is repeated; this holds for the
  SHA3 tree and the Poseidon tree, whatever the node function is.
\<close>

theorem merkle_openings_verify:
  assumes "commit node digests = Some (root, t)" and "i < length digests" and "length digests \<le> 2 ^ 62"
  shows "\<exists>path. open_leaf t (int i) = Some path \<and> verify_path node root (int i) (digests ! i) path"
  by (rule commit_open_verify [OF assms])

definition sample_node :: "nat \<Rightarrow> nat \<Rightarrow> nat" where "sample_node x y = 2 * x + 3 * y"

theorem merkle_openings_verify_witness:
  "\<exists>root t path. commit sample_node [5, 6, 7] = Some (root, t) \<and> open_leaf t 2 = Some path
     \<and> verify_path sample_node root 2 7 path"
proof -
  obtain root t where c: "commit sample_node [5, 6, 7] = Some (root, t)" by (simp add: commit_def Let_def)
  from merkle_openings_verify [OF c, of 2] c show ?thesis by simp
qed



subsection \<open>The statement of a shielded spend\<close>

text \<open>
  The encoding of a spend's public inputs is read back exactly, and whatever the reader accepts
  has canonical field elements and between 1 and 64 nullifiers and output commitments.
\<close>

theorem spend_statement_roundtrip:
  assumes "spend_public_ok p"
  shows "unmarshal_spend_public (marshal_spend_public p) = Inr p
    \<and> (\<forall>b p'. unmarshal_spend_public b = Inr p' \<longrightarrow> spend_public_ok p')"
  using unmarshal_marshal_spend [OF assms] unmarshal_spend_ok by blast

theorem spend_statement_roundtrip_witness:
  "unmarshal_spend_public (marshal_spend_public
     \<lparr>sp_MerkleRoot = [1, 2, 3, 4], sp_Nfs = [[5, 6, 7, 8]], sp_OutCms = [[9, 10, 11, 12]], sp_Fee = 13\<rparr>)
   = Inr \<lparr>sp_MerkleRoot = [1, 2, 3, 4], sp_Nfs = [[5, 6, 7, 8]], sp_OutCms = [[9, 10, 11, 12]], sp_Fee = 13\<rparr>"
  by (rule spend_statement_roundtrip [THEN conjunct1])
    (simp add: spend_public_ok_def digest_ok_def canon_def p_int_def poseidonDigestLen_def
      scMaxShieldInputs_def scMaxShieldOutputs_def)

subsection \<open>The sparse Merkle tree\<close>

text \<open>
  C25. After any sequence of updates and deletions the incremental tree, which stores only the nodes
  that differ from the default, has the root of the full tree of depth 256 over the map the
  sequence builds; so the root depends on the content alone, not on the order of insertion.
\<close>

theorem smt_refines_full_tree:
  assumes "sha_ok E"
  shows "smt_root E (smt_build E kvs) = ref_hash E (spec_build E kvs) []
    \<and> (\<forall>kvs'. set kvs' = set kvs \<and> distinct (map (path_bits E \<circ> fst) kvs) \<and> distinct (map (path_bits E \<circ> fst) kvs')
          \<longrightarrow> smt_root E (smt_build E kvs') = smt_root E (smt_build E kvs))"
  using smt_rel_root [OF smt_build_rel [OF assms]] spec_build_order [of _ kvs E] by metis

theorem smt_refines_full_tree_witness:
  "smt_root sample_hash (smt_build sample_hash [([1], [2]), ([1], [])]) = ref_hash sample_hash (\<lambda>_. None) []"
proof -
  have "spec_build sample_hash [([1], [2]), ([1], [])] = (\<lambda>_. None)"
    by (simp add: spec_build_def spec_update_def)
  with smt_refines_full_tree [OF sample_sha_ok, of "[([1], [2]), ([1], [])]"] show ?thesis by simp
qed



text \<open>
  Without the length condition a proof is malleable: \<^verbatim>\<open>Verify\<close> accepts, with the same root, every
  proof obtained by moving the border between the leaf and its sibling, so the leaf it shows can
  be any prefix (or suffix) of the two strings joined.
\<close>

theorem smt_proof_malleable:
  assumes "verify_proof E pf root" and "pf_Leaf pf = Some l" and "pf_Siblings pf = s # ss"
    and "\<not> path_bits E (pf_Key pf) ! (treeDepth - 1)"
  shows "\<exists>pf'. verify_proof E pf' root \<and> pf_Key pf' = pf_Key pf \<and> pf_Leaf pf' = Some (take n (l @ s))"
proof (intro exI conjI)
  show "verify_proof E (shift_leaf E n pf) root" using assms(1) by (simp add: verify_shift_leaf)
  show "pf_Key (shift_leaf E n pf) = pf_Key pf" "pf_Leaf (shift_leaf E n pf) = Some (take n (l @ s))"
    using assms(2-4) by (simp_all add: shift_leaf_def)
qed

theorem smt_proof_malleable_witness:
  "\<exists>root pf. verify_proof sample_hash pf root \<and> pf_Leaf pf = Some []"
proof -
  let ?pf = "\<lparr>pf_Key = [0], pf_Leaf = Some [9], pf_Siblings = replicate 256 []\<rparr>"
  let ?root = "climb sample_hash (path_bits sample_hash [0]) treeDepth (replicate 256 []) [9]"
  have v: "verify_proof sample_hash ?pf ?root" by (simp add: verify_proof_def treeDepth_def)
  have bit: "\<not> path_bits sample_hash [0] ! 255" by code_simp
  have "replicate 256 ([] :: bytes) = [] # replicate 255 []" by (simp add: numeral_eq_Suc)
  from smt_proof_malleable [OF v, of "[9]" "[]" "replicate 255 []" 0] this bit show ?thesis
    by (auto simp: treeDepth_def)
qed

subsection \<open>The Merkle root of a block\<close>

text \<open>
  \<^verbatim>\<open>TxRoot\<close> pairs an odd last node with itself, so a block with an odd number of transactions
  (at least three) has the same root as the block that repeats its last transaction.
\<close>

theorem tx_root_repeats_last:
  assumes "odd (length txs)" and "txs \<noteq> [tx]" and "last txs = tx"
  shows "tx_root E (txs @ [tx]) = tx_root E txs"
proof -
  let ?h = "\<lambda>tx. crypto_hash E [tx_signing_bytes E tx]"
  have ne: "txs \<noteq> []" using assms(1) by auto
  have one: "length txs \<noteq> 1" using assms(2,3) by (cases txs) auto
  with ne have len: "\<not> length txs \<le> 1" by (cases txs) auto
  have "tx_root_level E (map ?h txs @ [?h tx]) = tx_root_level E (map ?h txs)"
    using tx_root_level_repeat [of "map ?h txs" E] assms(1,3) ne by (simp add: last_map)
  then have "tx_root_loop E (map ?h (txs @ [tx])) = tx_root_loop E (map ?h txs)"
    using len ne by (simp add: tx_root_loop.simps [of E "map ?h txs"] tx_root_loop.simps [of E "map ?h txs @ [?h tx]"])
  with ne show ?thesis by (cases txs) (simp_all add: tx_root_def)
qed

definition sample_transfer :: "u64 \<Rightarrow> transaction" where
  "sample_transfer nonce = \<lparr>tx_ChainID = ''c'', tx_Type = TxTransfer, tx_From = ''a'', tx_FromPubKey = [],
     tx_To = ''b'', tx_TokenID = NativeToken, tx_Amount = 1, tx_Nonce = nonce, tx_MaxBaseFee = 0, tx_Tip = 0,
     tx_Private = False, tx_Memo = '''', tx_Token = None, tx_Contract = None, tx_ContractID = '''',
     tx_Action = '''', tx_Proposal = 0, tx_Code = [], tx_Args = [], tx_Gas = 0,
     tx_ShieldCommitment = [], tx_ShieldNote = [], tx_SpendProof = [], tx_SpendPublic = [],
     tx_Timestamp = 0, tx_Signature = []\<rparr>"

theorem tx_root_repeats_last_witness:
  "tx_root sample_hash [sample_transfer 0, sample_transfer 1, sample_transfer 2, sample_transfer 2]
     = tx_root sample_hash [sample_transfer 0, sample_transfer 1, sample_transfer 2]"
  using tx_root_repeats_last [of "[sample_transfer 0, sample_transfer 1, sample_transfer 2]" "sample_transfer 2" sample_hash] by simp

end
