(* ===== verification/Host.thy ===== *)
theory Host
  imports Meter
begin

text \<open>
  The host interface of WASM contracts (\<^verbatim>\<open>internal/wasmvm/host.go\<close>): the sandbox a call runs
  in, the effect of each host function, and \<^verbatim>\<open>run\<close>. The WebAssembly engine (\<^verbatim>\<open>wazero\<close>) is a
  parameter: given the instrumented module, the function, the arguments and the sandbox it
  starts in, it yields the host calls the run makes, in order, with the bytes read from linear
  memory, and whether the run returns or traps.
\<close>

record sandbox =
  sb_Caller :: string
  sb_Value :: i64
  sb_Balance :: i64
  sb_Storage :: "(string, bytes) fmap"
  sb_Logs :: "string list"
  sb_Transfers :: "(string \<times> i64) list"

definition new_sandbox :: "string \<Rightarrow> i64 \<Rightarrow> sandbox" where
  "new_sandbox caller v =
     \<lparr>sb_Caller = caller, sb_Value = v, sb_Balance = 0, sb_Storage = fmempty, sb_Logs = [], sb_Transfers = []\<rparr>"

definition storage_write :: "bytes \<Rightarrow> bytes \<Rightarrow> sandbox \<Rightarrow> sandbox" where
  "storage_write key v s = s\<lparr>sb_Storage := fmupd (bytes_str key) v (sb_Storage s)\<rparr>"

definition storage_read :: "sandbox \<Rightarrow> bytes \<Rightarrow> bytes option" where
  "storage_read s key = fmlookup (sb_Storage s) (bytes_str key)"

definition sb_transfer :: "string \<Rightarrow> i64 \<Rightarrow> sandbox \<Rightarrow> sandbox \<times> bool" where
  "sb_transfer to amount s =
     (if i64_less amount 0 \<or> i64_less (sb_Balance s) amount then (s, False)
      else (s\<lparr>sb_Balance := sb_Balance s - amount, sb_Transfers := sb_Transfers s @ [(to, amount)]\<rparr>, True))"

datatype host_call =
    HLog bytes
  | HValue
  | HCaller
  | HStorageWrite bytes bytes
  | HStorageRead bytes
  | HTransfer bytes i64

fun host_step :: "host_call \<Rightarrow> sandbox \<Rightarrow> sandbox" where
  "host_step (HLog msg) s = s\<lparr>sb_Logs := sb_Logs s @ [bytes_str msg]\<rparr>"
| "host_step HValue s = s"
| "host_step HCaller s = s"
| "host_step (HStorageWrite k v) s = storage_write k v s"
| "host_step (HStorageRead k) s = s"
| "host_step (HTransfer to amount) s = fst (sb_transfer (bytes_str to) amount s)"

record run_result =
  rr_Returns :: "u64 list"
  rr_Logs :: "string list"
  rr_GasLeft :: i64
  rr_GasUsed :: i64

text \<open>A run of the engine: it cannot start, traps, or returns values and the gas global.\<close>

datatype vm_run =
    VmNoStart
  | VmTrap "host_call list"
  | VmReturn "host_call list" "u64 list" "i64 option"

type_synonym vm = "bytes \<Rightarrow> string \<Rightarrow> u64 list \<Rightarrow> sandbox \<Rightarrow> vm_run"

definition sb_run :: "vm \<Rightarrow> bytes \<Rightarrow> string \<Rightarrow> i64 \<Rightarrow> u64 list \<Rightarrow> sandbox \<Rightarrow> sandbox \<times> run_result wres" where
  "sb_run vm wasm fn gas_limit args s =
     (case instrument wasm (sint gas_limit) 1 of
        WErr e \<Rightarrow> (s, WErr e)
      | WPanic \<Rightarrow> (s, WPanic)
      | WHang \<Rightarrow> (s, WHang)
      | WOk m \<Rightarrow>
          (case vm m fn args s of
             VmNoStart \<Rightarrow> (s, WErr WMalformed)
           | VmTrap calls \<Rightarrow> (fold host_step calls s, WErr WOutOfGas)
           | VmReturn calls out g \<Rightarrow>
               let s' = fold host_step calls s in
               (s', WOk \<lparr>rr_Returns = out,
                         rr_Logs = drop (length (sb_Logs s)) (sb_Logs s'),
                         rr_GasLeft = (case g of None \<Rightarrow> 0 | Some l \<Rightarrow> l),
                         rr_GasUsed = (case g of None \<Rightarrow> 0 | Some l \<Rightarrow> gas_limit - l)\<rparr>)))"

subsection \<open>What a run can do to the sandbox\<close>

definition transferred :: "sandbox \<Rightarrow> u64" where
  "transferred s = sum_list (map snd (sb_Transfers s))"

definition sb_ok :: "sandbox \<Rightarrow> bool" where
  "sb_ok s \<longleftrightarrow> 0 \<le> sint (sb_Balance s) \<and> (\<forall>(to, a) \<in> set (sb_Transfers s). 0 \<le> sint a)"

lemma host_step_total: "sb_Balance (host_step c s) + transferred (host_step c s) = sb_Balance s + transferred s"
  by (cases c) (auto simp: sb_transfer_def storage_write_def transferred_def)

lemma host_steps_total:
  "sb_Balance (fold host_step cs s) + transferred (fold host_step cs s) = sb_Balance s + transferred s"
  by (induction cs arbitrary: s) (simp_all add: host_step_total)

lemma sint_sub_nonneg:
  fixes a b :: i64
  assumes "0 \<le> sint a" "sint a \<le> sint b"
  shows "sint (b - a) = sint b - sint a"
proof -
  have "sint b < 2 ^ 63" using sint_lt [of b] by simp
  with assms show ?thesis
    by (simp add: sint_word_ariths signed_take_bit_int_eq_self)
qed

lemma host_step_ok: "sb_ok s \<Longrightarrow> sb_ok (host_step c s)"
  by (cases c)
    (auto simp: sb_ok_def sb_transfer_def storage_write_def i64_less_def not_less sint_sub_nonneg)

lemma host_steps_ok: "sb_ok s \<Longrightarrow> sb_ok (fold host_step cs s)"
  by (induction cs arbitrary: s) (simp_all add: host_step_ok)

lemma host_steps_caller: "sb_Caller (fold host_step cs s) = sb_Caller s"
proof (induction cs arbitrary: s)
  case (Cons c cs)
  then show ?case by (cases c) (auto simp: sb_transfer_def storage_write_def)
qed simp

lemma sb_run_cases:
  obtains cs where "fst (sb_run vm wasm fn g args s) = fold host_step cs s"
proof -
  have "\<exists>cs. fst (sb_run vm wasm fn g args s) = fold host_step cs s"
    by (auto simp: sb_run_def Let_def split: wres.split vm_run.split)
      (metis fold_simps(1))+
  then show thesis using that by blast
qed

end
