(* ===== verification/ChainState.thy ===== *)
theory ChainState
  imports ChainTypes Host Poseidon Smt
begin

text \<open>
  The state of the chain (\<^verbatim>\<open>internal/state/state.go\<close>): its records, the account table, the read
  operations, validator powers, proposer selection and the finalized height. Go maps are finite
  maps; a \<^verbatim>\<open>map[string]bool\<close> that only ever gets \<^verbatim>\<open>true\<close> is the finite set of its keys. Mutexes
  are not modelled: every exported operation holds the lock for its whole body, so the operations
  are atomic.

  The record \<open>chain_ext\<close> extends \<open>ext\<close> by what the state machine takes from outside: the
  WebAssembly engine, the Poseidon constants, the STARK verifier, the JSON bytes of the state and
  the order in which a Go \<^verbatim>\<open>range\<close> visits a map.
\<close>

subsection \<open>Records\<close>

record account =
  ac_Address :: string
  ac_Balances :: "(string, u64) fmap"
  ac_Nonce :: u64
  ac_Staked :: u64

record token =
  tk_Params :: token_params
  tk_Creator :: string
  tk_TotalSupply :: u64
  tk_CreatedAt :: u64

record validator =
  va_Address :: string
  va_Stake :: u64
  va_BlocksProposed :: u64
  va_RewardsEarned :: u64
  va_Delegated :: u64
  va_Delegators :: "(string, u64) fmap"
  va_Missed :: u64
  va_Jailed :: bool
  va_JailedUntil :: i64
  va_Profile :: string

record supply_info =
  su_Total :: u64
  su_Minted :: u64
  su_Burned :: u64

record unbonding =
  ub_Address :: string
  ub_Amount :: u64
  ub_ReleaseAt :: i64

record proposal =
  mp_To :: string
  mp_Amount :: u64
  mp_Approvals :: "string list"
  mp_Against :: "string list"
  mp_Executed :: bool
  mp_Rejected :: bool

record contract =
  ct_ID :: string
  ct_Template :: string
  ct_Creator :: string
  ct_TokenID :: string
  ct_Amount :: u64
  ct_Released :: u64
  ct_Beneficiary :: string
  ct_StartMs :: i64
  ct_EndMs :: i64
  ct_Seller :: string
  ct_Arbiter :: string
  ct_Signers :: "string list"
  ct_Threshold :: u64
  ct_Proposals :: "proposal list"
  ct_Status :: string
  ct_CreatedAt :: u64

record wasm_contract =
  wc_Address :: string
  wc_Code :: bytes
  wc_Storage :: "(string, bytes) fmap"
  wc_Balance :: u64
  wc_Creator :: string
  wc_Calls :: u64
  wc_CreatedAt :: u64

record shielded_pool =
  sh_Commitments :: "bytes list"
  sh_Root :: bytes
  sh_Nullifiers :: "string fset"
  sh_Notes :: "bytes list"
  sh_Balance :: u64

record state =
  st_Accounts :: "(string, account) fmap"
  st_Tokens :: "(string, token) fmap"
  st_Validators :: "(string, validator) fmap"
  st_Contracts :: "(string, contract) fmap"
  st_WasmContracts :: "(string, wasm_contract) fmap"
  st_Shielded :: "shielded_pool option"
  st_Slashed :: "string fset"
  st_Unbonding :: "unbonding list"
  st_Supply :: supply_info
  st_Params :: params
  st_BaseFee :: u64
  st_Height :: u64
  st_LastHash :: string
  st_FinalizedHeight :: u64

text \<open>The values of the leaves of the sparse state tree.\<close>

datatype state_item =
    ItemAccount account | ItemValidator validator | ItemToken token | ItemContract contract
  | ItemWasm wasm_contract | ItemTrue | ItemSupply supply_info | ItemParams params | ItemBaseFee u64
  | ItemUnbonding "unbonding list" | ItemShielded shielded_pool

record chain_ext = ext +
  x_vm :: vm
  x_poseidon :: poseidon_params
  x_spend_proof_ok :: "bytes \<Rightarrow> bool"
  x_verify_spend :: "spend_public \<Rightarrow> bytes \<Rightarrow> bool"
  x_range :: "(string, u64) fmap \<Rightarrow> string list"
  x_state_json :: "state \<Rightarrow> bytes"
  x_item_json :: "state_item \<Rightarrow> bytes"

definition Active :: string where "Active = ''active''"
definition Completed :: string where "Completed = ''completed''"
definition Refunded :: string where "Refunded = ''refunded''"

lemmas status_defs = Active_def Completed_def Refunded_def

lemma status_distinct [simp]: "Completed \<noteq> Active" "Refunded \<noteq> Active" "Active \<noteq> Completed" "Active \<noteq> Refunded"
  by (simp_all add: status_defs)

definition is_signer :: "contract \<Rightarrow> string \<Rightarrow> bool" where
  "is_signer c addr \<longleftrightarrow> addr \<in> set (ct_Signers c)"

definition new_state :: "params \<Rightarrow> state" where
  "new_state no_params = \<lparr>
     st_Accounts = fmempty, st_Tokens = fmempty, st_Validators = fmempty, st_Contracts = fmempty,
     st_WasmContracts = fmempty, st_Shielded = None, st_Slashed = {||}, st_Unbonding = [],
     st_Supply = \<lparr>su_Total = 0, su_Minted = 0, su_Burned = 0\<rparr>, st_Params = no_params,
     st_BaseFee = 0, st_Height = 0, st_LastHash = [], st_FinalizedHeight = 0\<rparr>"

definition set_params :: "params \<Rightarrow> state \<Rightarrow> state" where
  "set_params p st = st\<lparr>st_Params := p, st_BaseFee := p_MinBaseFee p\<rparr>"

subsection \<open>Accounts\<close>

definition fresh_account :: "string \<Rightarrow> account" where
  "fresh_account addr = \<lparr>ac_Address = addr, ac_Balances = fmempty, ac_Nonce = 0, ac_Staked = 0\<rparr>"

text \<open>
  \<^verbatim>\<open>s.acct(addr)\<close> returns the account and creates it when missing: \<open>acct\<close> is the account it
  returns, \<open>touch\<close> the state it leaves, and \<open>acct_upd\<close> the state after the returned pointer has
  been written through.
\<close>

definition acct :: "state \<Rightarrow> string \<Rightarrow> account" where
  "acct st addr = (case fmlookup (st_Accounts st) addr of None \<Rightarrow> fresh_account addr | Some a \<Rightarrow> a)"

definition acct_upd :: "string \<Rightarrow> (account \<Rightarrow> account) \<Rightarrow> state \<Rightarrow> state" where
  "acct_upd addr f st = st\<lparr>st_Accounts := fmupd addr (f (acct st addr)) (st_Accounts st)\<rparr>"

definition touch :: "string \<Rightarrow> state \<Rightarrow> state" where
  "touch addr st = (if fmlookup (st_Accounts st) addr = None then acct_upd addr (\<lambda>a. a) st else st)"

definition bal :: "state \<Rightarrow> string \<Rightarrow> string \<Rightarrow> u64" where
  "bal st addr tok = mget (ac_Balances (acct st addr)) tok"

definition bal_add :: "string \<Rightarrow> string \<Rightarrow> u64 \<Rightarrow> state \<Rightarrow> state" where
  "bal_add addr tok x = acct_upd addr (\<lambda>a. a\<lparr>ac_Balances := madd (ac_Balances a) tok x\<rparr>)"

definition bal_sub :: "string \<Rightarrow> string \<Rightarrow> u64 \<Rightarrow> state \<Rightarrow> state" where
  "bal_sub addr tok x = acct_upd addr (\<lambda>a. a\<lparr>ac_Balances := msub (ac_Balances a) tok x\<rparr>)"

definition val_upd :: "string \<Rightarrow> validator \<Rightarrow> state \<Rightarrow> state" where
  "val_upd addr v st = st\<lparr>st_Validators := fmupd addr v (st_Validators st)\<rparr>"

definition burn_supply :: "u64 \<Rightarrow> state \<Rightarrow> state" where
  "burn_supply x st = st\<lparr>st_Supply := (st_Supply st)\<lparr>su_Total := su_Total (st_Supply st) - x,
     su_Burned := su_Burned (st_Supply st) + x\<rparr>\<rparr>"

definition mint_supply :: "u64 \<Rightarrow> state \<Rightarrow> state" where
  "mint_supply x st = st\<lparr>st_Supply := (st_Supply st)\<lparr>su_Total := su_Total (st_Supply st) + x,
     su_Minted := su_Minted (st_Supply st) + x\<rparr>\<rparr>"

definition nonce_of :: "state \<Rightarrow> string \<Rightarrow> u64" where
  "nonce_of st addr = (case fmlookup (st_Accounts st) addr of None \<Rightarrow> 0 | Some a \<Rightarrow> ac_Nonce a)"

text \<open>\<^verbatim>\<open>GetAccount\<close> adds the unbonding total and the delegations to a copy of the account.\<close>

record account_view = account +
  av_Unbonding :: u64
  av_Delegations :: "(string, u64) fmap"

definition unbonding_of :: "state \<Rightarrow> string \<Rightarrow> u64" where
  "unbonding_of st addr = sum_list (map ub_Amount (filter (\<lambda>u. ub_Address u = addr) (st_Unbonding st)))"

definition delegations_of :: "state \<Rightarrow> string \<Rightarrow> (string, u64) fmap" where
  "delegations_of st addr =
     fmmap_keys (\<lambda>_ v. mget (va_Delegators v) addr)
       (fmfilter (\<lambda>k. case fmlookup (st_Validators st) k of
           None \<Rightarrow> False | Some v \<Rightarrow> fmlookup (va_Delegators v) addr \<noteq> None) (st_Validators st))"

definition get_account :: "state \<Rightarrow> string \<Rightarrow> account_view" where
  "get_account st addr = account.extend (acct st addr)
     \<lparr>av_Unbonding = unbonding_of st addr, av_Delegations = delegations_of st addr\<rparr>"

definition get_contract :: "state \<Rightarrow> string \<Rightarrow> contract option" where
  "get_contract st i = fmlookup (st_Contracts st) i"

definition get_wasm_contract :: "state \<Rightarrow> string \<Rightarrow> wasm_contract option" where
  "get_wasm_contract st addr = fmlookup (st_WasmContracts st) addr"

definition get_token :: "state \<Rightarrow> string \<Rightarrow> token option" where
  "get_token st symb = fmlookup (st_Tokens st) symb"

subsection \<open>Voting power\<close>

definition weight :: "validator \<Rightarrow> u64" where
  "weight v = va_Stake v + va_Delegated v"

definition active_weight :: "validator \<Rightarrow> u64" where
  "active_weight v = (if va_Jailed v then 0 else va_Stake v + va_Delegated v)"

definition power_of :: "state \<Rightarrow> string \<Rightarrow> u64" where
  "power_of st addr = (case fmlookup (st_Validators st) addr of None \<Rightarrow> 0 | Some v \<Rightarrow> active_weight v)"

definition total_staked :: "state \<Rightarrow> u64" where
  "total_staked st =
     sum_list (map (\<lambda>k. active_weight (the (fmlookup (st_Validators st) k))) (sorted_keys (st_Validators st)))"

record validator_set =
  vs_Powers :: "(string, u64) fmap"
  vs_Total :: u64

definition set_power_of :: "validator_set option \<Rightarrow> string \<Rightarrow> u64" where
  "set_power_of vs addr = (case vs of None \<Rightarrow> 0 | Some s \<Rightarrow> mget (vs_Powers s) addr)"

text \<open>The active validators with their weights, by key.\<close>

definition active_vals :: "state \<Rightarrow> (string \<times> u64) list" where
  "active_vals st =
     filter (\<lambda>(a, w). 0 < w)
       (map (\<lambda>k. let v = the (fmlookup (st_Validators st) k) in (va_Address v, active_weight v))
         (sorted_keys (st_Validators st)))"

definition snapshot_active_set :: "state \<Rightarrow> validator_set" where
  "snapshot_active_set st =
     fold (\<lambda>(a, w) vs. vs\<lparr>vs_Powers := fmupd a w (vs_Powers vs), vs_Total := vs_Total vs + w\<rparr>)
       (active_vals st) \<lparr>vs_Powers = fmempty, vs_Total = 0\<rparr>"

subsection \<open>Slashed faults, finalized height, proposer\<close>

definition dec_digit :: "nat \<Rightarrow> char" where
  "dec_digit n = char_of (48 + n mod 10)"

fun dec_string :: "nat \<Rightarrow> string" where
  "dec_string n = (if n < 10 then [dec_digit n] else dec_string (n div 10) @ [dec_digit n])"

declare dec_string.simps [simp del]

definition slash_key :: "string \<Rightarrow> u64 \<Rightarrow> string" where
  "slash_key voter height = voter @ ''@'' @ dec_string (unat height)"

definition is_slashed :: "state \<Rightarrow> string \<Rightarrow> u64 \<Rightarrow> bool" where
  "is_slashed st voter height \<longleftrightarrow> slash_key voter height |\<in>| st_Slashed st"

definition set_finalized :: "u64 \<Rightarrow> state \<Rightarrow> state" where
  "set_finalized h st = (if st_FinalizedHeight st < h then st\<lparr>st_FinalizedHeight := h\<rparr> else st)"

fun pick :: "u64 \<Rightarrow> (string \<times> u64) list \<Rightarrow> string \<Rightarrow> string" where
  "pick r [] dflt = dflt"
| "pick r ((a, w) # vals) dflt = (if r < w then a else pick (r - w) vals a)"

definition proposer_seed :: "'z ext_scheme \<Rightarrow> u64 \<Rightarrow> string \<Rightarrow> u32 \<Rightarrow> u64" where
  "proposer_seed E height prev rnd =
     of_be (take 8 (crypto_hash E [str_bytes prev, be64 height @ be32 rnd]))"

definition select_proposer :: "'z ext_scheme \<Rightarrow> state \<Rightarrow> u64 \<Rightarrow> string \<Rightarrow> u32 \<Rightarrow> string" where
  "select_proposer E st height prev rnd =
     (let vals = active_vals st; total = sum_list (map snd vals) in
      if total = 0 then []
      else pick (proposer_seed E height prev rnd mod total) (sort_key fst vals) [])"

end
