(* ===== verification/StateOps.thy ===== *)
theory StateOps
  imports ChainState
begin

text \<open>
  The operations of \<^verbatim>\<open>state.go\<close> that \<^verbatim>\<open>Execute\<close> and \<^verbatim>\<open>applyTx\<close> call: slashing, downtime, the
  block reward, the release of unbonded funds, multisig and DAO proposals, the shielded pool,
  and the genesis operations.
\<close>

subsection \<open>Slashing\<close>

text \<open>The loop of \<^verbatim>\<open>slashWeightLocked\<close> over the sorted delegators, which also adds up the burn.\<close>

definition slash_delegator :: "u64 \<Rightarrow> string \<Rightarrow> validator \<times> u64 \<Rightarrow> validator \<times> u64" where
  "slash_delegator bps a = (\<lambda>(v, burn).
     let dcut = mul_div (mget (va_Delegators v) a) bps 10000 in
     (v\<lparr>va_Delegators := msub (va_Delegators v) a dcut, va_Delegated := va_Delegated v - dcut\<rparr>, burn + dcut))"

definition lower_staked :: "u64 \<Rightarrow> account \<Rightarrow> account" where
  "lower_staked scut a = a\<lparr>ac_Staked := (if scut \<le> ac_Staked a then ac_Staked a - scut else 0)\<rparr>"

definition slash_weight :: "validator \<Rightarrow> u64 \<Rightarrow> state \<Rightarrow> validator \<times> state" where
  "slash_weight v bps st =
     (let scut = mul_div (va_Stake v) bps 10000;
          v1 = v\<lparr>va_Stake := va_Stake v - scut\<rparr>;
          st1 = (if fmlookup (st_Accounts st) (va_Address v) = None then st
                 else acct_upd (va_Address v) (lower_staked scut) st);
          (v2, burn) = fold (slash_delegator bps) (sorted_keys (va_Delegators v1)) (v1, scut)
      in (v2, burn_supply burn st1))"

definition unbond_entry :: "params \<Rightarrow> i64 \<Rightarrow> string \<Rightarrow> u64 \<Rightarrow> unbonding" where
  "unbond_entry p blockTime a amt =
     \<lparr>ub_Address = a, ub_Amount = amt, ub_ReleaseAt = blockTime + p_UnbondingSeconds p * 1000\<rparr>"

text \<open>The delegators leave with their validator, in the order of the list given.\<close>

definition unbond_delegators :: "string list \<Rightarrow> validator \<Rightarrow> i64 \<Rightarrow> state \<Rightarrow> state" where
  "unbond_delegators as v blockTime st =
     st\<lparr>st_Unbonding := st_Unbonding st
          @ map (\<lambda>a. unbond_entry (st_Params st) blockTime a (mget (va_Delegators v) a)) as\<rparr>"

definition del_validator :: "string \<Rightarrow> state \<Rightarrow> state" where
  "del_validator addr st = st\<lparr>st_Validators := fmdrop addr (st_Validators st)\<rparr>"

text \<open>
  \<^verbatim>\<open>slashLocked\<close> ranges over the delegators map directly, so their order in the unbonding queue
  is the map's iteration order, \<open>x_range E\<close>.
\<close>

definition slash :: "'z chain_ext_scheme \<Rightarrow> string \<Rightarrow> u64 \<Rightarrow> i64 \<Rightarrow> state \<Rightarrow> state" where
  "slash E voter height blockTime st =
     (let key = slash_key voter height in
      if key |\<in>| st_Slashed st then st
      else
        let st1 = st\<lparr>st_Slashed := finsert key (st_Slashed st)\<rparr> in
        (case fmlookup (st_Validators st1) voter of
           None \<Rightarrow> st1
         | Some v \<Rightarrow>
             let (v2, st2) = slash_weight v (p_SlashDoubleSignBps (st_Params st1)) st1 in
             if va_Stake v2 = 0
             then del_validator voter (unbond_delegators (x_range E (va_Delegators v2)) v2 blockTime st2)
             else val_upd voter v2 st2))"

definition miss_slot :: "i64 \<Rightarrow> string \<Rightarrow> state \<Rightarrow> state" where
  "miss_slot blockTime addr st =
     (case fmlookup (st_Validators st) addr of
        None \<Rightarrow> st
      | Some v \<Rightarrow>
          if va_Jailed v then st
          else
            let v1 = v\<lparr>va_Missed := va_Missed v + 1\<rparr> in
            if p_DowntimeJailThreshold (st_Params st) \<le> va_Missed v1
            then let (v2, st2) = slash_weight v1 (p_SlashDowntimeBps (st_Params st)) st
                 in val_upd addr (v2\<lparr>va_Jailed := True,
                      va_JailedUntil := blockTime + p_JailSeconds (st_Params st) * 1000, va_Missed := 0\<rparr>) st2
            else val_upd addr v1 st)"

definition apply_downtime :: "string \<Rightarrow> string list \<Rightarrow> i64 \<Rightarrow> state \<Rightarrow> state" where
  "apply_downtime proposer absent blockTime st =
     fold (miss_slot blockTime) absent
       (case fmlookup (st_Validators st) proposer of
          None \<Rightarrow> st
        | Some v \<Rightarrow> val_upd proposer (v\<lparr>va_Missed := 0\<rparr>) st)"

subsection \<open>Rewards and unbonding\<close>

definition mint :: "string \<Rightarrow> u64 \<Rightarrow> state \<Rightarrow> state" where
  "mint addr amount st = mint_supply amount (bal_add addr NativeToken amount st)"

definition credit_share :: "u64 \<Rightarrow> validator \<Rightarrow> string \<Rightarrow> state \<times> u64 \<Rightarrow> state \<times> u64" where
  "credit_share pool v a = (\<lambda>(st, distributed).
     let share = mul_div pool (mget (va_Delegators v) a) (va_Delegated v)
     in (bal_add a NativeToken share st, distributed + share))"

definition distribute_reward :: "string \<Rightarrow> u64 \<Rightarrow> state \<Rightarrow> state" where
  "distribute_reward proposer reward st =
     (case fmlookup (st_Validators st) proposer of
        None \<Rightarrow> mint proposer reward st
      | Some v \<Rightarrow>
          if va_Delegated v = 0
          then val_upd proposer (v\<lparr>va_BlocksProposed := va_BlocksProposed v + 1,
                 va_RewardsEarned := va_RewardsEarned v + reward\<rparr>) (mint proposer reward st)
          else
            let delegShare = mul_div reward (va_Delegated v) (weight v);
                commission = mul_div delegShare (p_DelegationCommissionBps (st_Params st)) 10000;
                pool = delegShare - commission;
                (st1, distributed) = fold (credit_share pool v) (sorted_keys (va_Delegators v)) (st, 0);
                validatorPart = reward - delegShare + commission + (pool - distributed);
                st2 = mint_supply reward (bal_add proposer NativeToken validatorPart st1)
            in val_upd proposer (v\<lparr>va_BlocksProposed := va_BlocksProposed v + 1,
                 va_RewardsEarned := va_RewardsEarned v + validatorPart\<rparr>) st2)"

definition release_one :: "unbonding \<Rightarrow> state \<Rightarrow> state" where
  "release_one u st = bal_add (ub_Address u) NativeToken (ub_Amount u) st"

definition release_unbonded :: "i64 \<Rightarrow> state \<Rightarrow> state" where
  "release_unbonded blockTime st =
     (fold release_one (filter (\<lambda>u. i64_le (ub_ReleaseAt u) blockTime) (st_Unbonding st)) st)
       \<lparr>st_Unbonding := filter (\<lambda>u. \<not> i64_le (ub_ReleaseAt u) blockTime) (st_Unbonding st)\<rparr>"

subsection \<open>Multisig and DAO proposals\<close>

definition new_proposal :: "string \<Rightarrow> u64 \<Rightarrow> string \<Rightarrow> proposal" where
  "new_proposal to amount from =
     \<lparr>mp_To = to, mp_Amount = amount, mp_Approvals = [from], mp_Against = [], mp_Executed = False, mp_Rejected = False\<rparr>"

text \<open>The payment of an accepted proposal.\<close>

definition pay_proposal :: "contract \<Rightarrow> proposal \<Rightarrow> state \<Rightarrow> contract \<times> proposal \<times> state" where
  "pay_proposal c p st =
     (let released = ct_Released c + mp_Amount p in
      (c\<lparr>ct_Released := released, ct_Status := (if released = ct_Amount c then Completed else ct_Status c)\<rparr>,
       p\<lparr>mp_Executed := True\<rparr>,
       bal_add (mp_To p) (ct_TokenID c) (mp_Amount p) st))"

definition maybe_execute_multisig :: "contract \<Rightarrow> proposal \<Rightarrow> state \<Rightarrow> contract \<times> proposal \<times> state" where
  "maybe_execute_multisig c p st =
     (if mp_Executed p \<or> of_nat (length (mp_Approvals p)) < ct_Threshold c then (c, p, st)
      else if ct_Amount c - ct_Released c < mp_Amount p then (c, p, st)
      else pay_proposal c p st)"

definition proposal_has_voter :: "proposal \<Rightarrow> string \<Rightarrow> bool" where
  "proposal_has_voter p addr \<longleftrightarrow> addr \<in> set (mp_Approvals p) \<or> addr \<in> set (mp_Against p)"

definition maybe_resolve_dao :: "contract \<Rightarrow> proposal \<Rightarrow> state \<Rightarrow> contract \<times> proposal \<times> state" where
  "maybe_resolve_dao c p st =
     (if mp_Executed p \<or> mp_Rejected p then (c, p, st)
      else if ct_Threshold c \<le> of_nat (length (mp_Approvals p)) then
        if ct_Amount c - ct_Released c < mp_Amount p then (c, p, st)
        else pay_proposal c p st
      else if of_nat (length (ct_Signers c)) - of_nat (length (mp_Against p)) < ct_Threshold c
      then (c, p\<lparr>mp_Rejected := True\<rparr>, st)
      else (c, p, st))"

subsection \<open>The shielded pool\<close>

datatype shield_err =
    BadCommitment | PoolFull | EmptyPool | BadPublic sc_err | BadProof | InvalidProof | StaleRoot
  | DoubleSpend | RepeatedNullifier

definition poseidonDigestBytes :: nat where "poseidonDigestBytes = 4 * 8"
definition spendDepth :: nat where "spendDepth = 12"
definition pool_capacity :: nat where "pool_capacity = 2 ^ spendDepth"

definition empty_pool :: shielded_pool where
  "empty_pool = \<lparr>sh_Commitments = [], sh_Root = [], sh_Nullifiers = {||}, sh_Notes = [], sh_Balance = 0\<rparr>"

definition ensure_shielded :: "state \<Rightarrow> shielded_pool" where
  "ensure_shielded st = (case st_Shielded st of None \<Rightarrow> empty_pool | Some pool \<Rightarrow> pool)"

definition cm_to_digest :: "bytes \<Rightarrow> shield_err + digest" where
  "cm_to_digest b =
     (if length b \<noteq> poseidonDigestBytes then Inl BadCommitment
      else Inr (map (\<lambda>k. felt_from_bytes (take 8 (drop (k * 8) b))) [0 ..< 4]))"

definition digest_to_bytes :: "digest \<Rightarrow> bytes" where
  "digest_to_bytes d = concat (map felt_bytes d)"

fun pool_leaves :: "bytes list \<Rightarrow> shield_err + digest list" where
  "pool_leaves [] = Inr []"
| "pool_leaves (cm # cms) = rbind (cm_to_digest cm) (\<lambda>d. rbind (pool_leaves cms) (\<lambda>ds. Inr (d # ds)))"

definition zero_digest :: digest where "zero_digest = replicate poseidonDigestLen 0"

definition pool_root :: "'z chain_ext_scheme \<Rightarrow> bytes list \<Rightarrow> shield_err + bytes" where
  "pool_root E commitments =
     (if pool_capacity < length commitments then Inl PoolFull
      else rbind (pool_leaves commitments) (\<lambda>ds.
        let leaves = ds @ replicate (pool_capacity - length ds) zero_digest
        in Inr (digest_to_bytes (fst (the (poseidon_commit (x_poseidon E) leaves))))))"

definition nullifier_key :: "'z chain_ext_scheme \<Rightarrow> digest \<Rightarrow> string" where
  "nullifier_key E nf = hash_hex E [digest_to_bytes nf]"

fun check_nullifiers :: "string fset \<Rightarrow> string list \<Rightarrow> string list \<Rightarrow> shield_err + unit" where
  "check_nullifiers spent seen [] = Inr ()"
| "check_nullifiers spent seen (key # keys) =
     (if key |\<in>| spent then Inl DoubleSpend
      else if key \<in> set seen then Inl RepeatedNullifier
      else check_nullifiers spent (key # seen) keys)"

definition verify_spend :: "'z chain_ext_scheme \<Rightarrow> state \<Rightarrow> transaction \<Rightarrow> shield_err + spend_public \<times> shielded_pool" where
  "verify_spend E st tx =
     (case st_Shielded st of
        None \<Rightarrow> Inl EmptyPool
      | Some pool \<Rightarrow>
          if sh_Commitments pool = [] then Inl EmptyPool
          else case unmarshal_spend_public (tx_SpendPublic tx) of
                 Inl e \<Rightarrow> Inl (BadPublic e)
               | Inr pub \<Rightarrow>
                   if \<not> x_spend_proof_ok E (tx_SpendProof tx) then Inl BadProof
                   else if \<not> x_verify_spend E pub (tx_SpendProof tx) then Inl InvalidProof
                   else if digest_to_bytes (sp_MerkleRoot pub) \<noteq> sh_Root pool then Inl StaleRoot
                   else rbind (check_nullifiers (sh_Nullifiers pool) [] (map (nullifier_key E) (sp_Nfs pub)))
                          (\<lambda>_. Inr (pub, pool)))"

text \<open>The new notes and the spent nullifiers of a verified spend.\<close>

definition insert_outputs :: "'z chain_ext_scheme \<Rightarrow> spend_public \<Rightarrow> shielded_pool \<Rightarrow> shield_err + shielded_pool" where
  "insert_outputs E pub pool =
     (if pool_capacity < length (sh_Commitments pool) + length (sp_OutCms pub) then Inl PoolFull
      else
        let newCommits = sh_Commitments pool @ map digest_to_bytes (sp_OutCms pub) in
        rbind (pool_root E newCommits) (\<lambda>newRoot.
          Inr (pool\<lparr>sh_Nullifiers := sh_Nullifiers pool |\<union>| fset_of_list (map (nullifier_key E) (sp_Nfs pub)),
                    sh_Commitments := newCommits, sh_Root := newRoot\<rparr>)))"

subsection \<open>Genesis operations, commit, root\<close>

definition bootstrap_vesting :: "string \<Rightarrow> string \<Rightarrow> u64 \<Rightarrow> i64 \<Rightarrow> i64 \<Rightarrow> state \<Rightarrow> state" where
  "bootstrap_vesting i beneficiary amount startMs endMs st =
     (mint_supply amount st)\<lparr>st_Contracts := fmupd i
        \<lparr>ct_ID = i, ct_Template = TemplateVesting, ct_Creator = ''genesis'', ct_TokenID = NativeToken,
         ct_Amount = amount, ct_Released = 0, ct_Beneficiary = beneficiary, ct_StartMs = startMs,
         ct_EndMs = endMs, ct_Seller = [], ct_Arbiter = [], ct_Signers = [], ct_Threshold = 0,
         ct_Proposals = [], ct_Status = Active, ct_CreatedAt = 0\<rparr> (st_Contracts st)\<rparr>"

definition fresh_validator :: "string \<Rightarrow> validator" where
  "fresh_validator addr =
     \<lparr>va_Address = addr, va_Stake = 0, va_BlocksProposed = 0, va_RewardsEarned = 0, va_Delegated = 0,
      va_Delegators = fmempty, va_Missed = 0, va_Jailed = False, va_JailedUntil = 0, va_Profile = []\<rparr>"

definition validator_or_new :: "state \<Rightarrow> string \<Rightarrow> validator" where
  "validator_or_new st addr =
     (case fmlookup (st_Validators st) addr of None \<Rightarrow> fresh_validator addr | Some v \<Rightarrow> v)"

definition bootstrap_stake :: "string \<Rightarrow> u64 \<Rightarrow> state \<Rightarrow> state" where
  "bootstrap_stake addr amount st =
     (let st1 = mint_supply amount (acct_upd addr (\<lambda>a. a\<lparr>ac_Staked := ac_Staked a + amount\<rparr>) st);
          v = validator_or_new st1 addr
      in val_upd addr (v\<lparr>va_Stake := va_Stake v + amount\<rparr>) st1)"

definition commit_block :: "u64 \<Rightarrow> string \<Rightarrow> state \<Rightarrow> state" where
  "commit_block height h st = st\<lparr>st_Height := height, st_LastHash := h\<rparr>"

end
