(* ===== verification/StateTx.thy ===== *)
theory StateTx
  imports StateOps
begin

text \<open>
  \<^verbatim>\<open>applyTx\<close> of \<^verbatim>\<open>state.go\<close>: fees, one handler per transaction type, and the final charge. A
  handler returns an error before it changes anything (in the source too, every error return of a
  case precedes its first write), so \<open>TxErr\<close> carries no state; what the source does leave behind
  on an error is the sender's account, which \<^verbatim>\<open>s.acct(tx.From)\<close> has created (\<open>Rejected\<close>).
  \<open>TxPanic\<close> is a nil dereference and \<open>TxHang\<close> a run that never ends.
\<close>

datatype tx_err =
    EBadNonce | EMaxBaseFee | EInsufficientCGO | EUnknownToken | EInsufficientToken | ETokenExists
  | ENotCreator | ENotMintable | EStakeBelowMin | ENotJailed | EStillJailed | ENotValidator
  | EInsufficientStake | EPartialUnstake | EDelegationBelowMin | EInsufficientDelegation
  | EPartialUndelegate | EUnknownContract | EContractClosed | ENotBeneficiary | ENothingVested
  | ENotAuthorized | ENotSigner | EExceedsVault | EUnknownProposal | EProposalResolved
  | EAlreadyVoted | EBadAction | EPrivacyDisabled | EShield shield_err | EPoolBalance
  | EWasmDisabled | ECodeTooLarge | EInvalidCode | EContractExists | EUnknownWasm | EUnknownType

datatype 'a tx_res = TxOk 'a | TxErr tx_err | TxPanic | TxHang

definition tx_check :: "bool \<Rightarrow> tx_err \<Rightarrow> 'a tx_res \<Rightarrow> 'a tx_res" where
  "tx_check b e k = (if b then k else TxErr e)"

lemma tx_check_TxOk [simp]: "tx_check b e k = TxOk x \<longleftrightarrow> b \<and> k = TxOk x"
  by (simp add: tx_check_def)

subsection \<open>Fees\<close>

definition is_shielded_type :: "string \<Rightarrow> bool" where
  "is_shielded_type t \<longleftrightarrow> t = TxShield \<or> t = TxShieldedTransfer \<or> t = TxUnshield"

definition tx_burn :: "state \<Rightarrow> transaction \<Rightarrow> u64" where
  "tx_burn st tx =
     (let p = st_Params st; t = tx_Type tx in
      st_BaseFee st
      + (if tx_Private tx then st_BaseFee st * p_PrivacyFeeMult p else 0)
      + (if t = TxCreateToken then p_TokenCreateFee p else 0)
      + (if t = TxContractCreate then p_ContractCreateFee p else 0)
      + (if t = TxWasmDeploy then p_WasmDeployFee p else 0)
      + (if t = TxWasmCall then p_WasmCallFee p else 0)
      + (if is_shielded_type t then p_ShieldFee p else 0))"

definition tx_fee :: "state \<Rightarrow> transaction \<Rightarrow> u64" where
  "tx_fee st tx = tx_burn st tx + tx_Tip tx"

text \<open>\<open>None\<close> is the nil dereference of \<^verbatim>\<open>tx.Contract\<close>.\<close>

definition tx_need_native :: "state \<Rightarrow> transaction \<Rightarrow> u64 option" where
  "tx_need_native st tx =
     (let t = tx_Type tx;
          need = tx_fee st tx
            + (if t = TxTransfer \<and> tx_TokenID tx = NativeToken then tx_Amount tx else 0)
            + (if t = TxStake \<or> t = TxDelegate then tx_Amount tx else 0);
          rest = (if t = TxWasmCall then tx_Amount tx else 0) + (if t = TxShield then tx_Amount tx else 0)
      in if t = TxContractCreate
         then (case tx_Contract tx of
                 None \<Rightarrow> None
               | Some c \<Rightarrow> Some (need + (if cp_TokenID c = NativeToken then cp_Amount c else 0) + rest))
         else Some (need + rest))"

subsection \<open>Transfers and tokens\<close>

definition tx_transfer :: "state \<Rightarrow> transaction \<Rightarrow> state tx_res" where
  "tx_transfer st tx =
     (if tx_TokenID tx = NativeToken
      then TxOk (bal_add (tx_To tx) NativeToken (tx_Amount tx) (bal_sub (tx_From tx) NativeToken (tx_Amount tx) st))
      else if fmlookup (st_Tokens st) (tx_TokenID tx) = None then TxErr EUnknownToken
      else if bal st (tx_From tx) (tx_TokenID tx) < tx_Amount tx then TxErr EInsufficientToken
      else TxOk (bal_add (tx_To tx) (tx_TokenID tx) (tx_Amount tx)
                  (bal_sub (tx_From tx) (tx_TokenID tx) (tx_Amount tx) st)))"

definition tx_create_token :: "state \<Rightarrow> transaction \<Rightarrow> state tx_res" where
  "tx_create_token st tx =
     (case tx_Token tx of
        None \<Rightarrow> TxPanic
      | Some tp \<Rightarrow>
          if fmlookup (st_Tokens st) (tp_Symbol tp) \<noteq> None then TxErr ETokenExists
          else TxOk (bal_add (tx_From tx) (tp_Symbol tp) (tp_Supply tp)
                 (st\<lparr>st_Tokens := fmupd (tp_Symbol tp)
                       \<lparr>tk_Params = tp, tk_Creator = tx_From tx, tk_TotalSupply = tp_Supply tp,
                        tk_CreatedAt = st_Height st + 1\<rparr> (st_Tokens st)\<rparr>)))"

definition tx_mint :: "state \<Rightarrow> transaction \<Rightarrow> state tx_res" where
  "tx_mint st tx =
     (case fmlookup (st_Tokens st) (tx_TokenID tx) of
        None \<Rightarrow> TxErr EUnknownToken
      | Some t \<Rightarrow>
          if tk_Creator t \<noteq> tx_From tx then TxErr ENotCreator
          else if \<not> tp_Mintable (tk_Params t) then TxErr ENotMintable
          else
            let target = (if tx_To tx \<noteq> [] then tx_To tx else tx_From tx) in
            TxOk (bal_add target (tx_TokenID tx) (tx_Amount tx)
              (st\<lparr>st_Tokens := fmupd (tx_TokenID tx)
                    (t\<lparr>tk_TotalSupply := tk_TotalSupply t + tx_Amount tx\<rparr>) (st_Tokens st)\<rparr>)))"

subsection \<open>Validators and delegations\<close>

definition tx_stake :: "state \<Rightarrow> transaction \<Rightarrow> state tx_res" where
  "tx_stake st tx =
     (let current = (case fmlookup (st_Validators st) (tx_From tx) of None \<Rightarrow> 0 | Some v \<Rightarrow> va_Stake v) in
      if current + tx_Amount tx < p_MinValidatorStake (st_Params st) then TxErr EStakeBelowMin
      else
        let st1 = acct_upd (tx_From tx) (\<lambda>a. a\<lparr>ac_Staked := ac_Staked a + tx_Amount tx\<rparr>)
                    (bal_sub (tx_From tx) NativeToken (tx_Amount tx) st);
            v = validator_or_new st1 (tx_From tx)
        in TxOk (val_upd (tx_From tx) (v\<lparr>va_Stake := va_Stake v + tx_Amount tx\<rparr>) st1))"

definition tx_unjail :: "state \<Rightarrow> transaction \<Rightarrow> i64 \<Rightarrow> state tx_res" where
  "tx_unjail st tx blockTime =
     (case fmlookup (st_Validators st) (tx_From tx) of
        None \<Rightarrow> TxErr ENotJailed
      | Some v \<Rightarrow>
          if \<not> va_Jailed v then TxErr ENotJailed
          else if i64_less blockTime (va_JailedUntil v) then TxErr EStillJailed
          else TxOk (val_upd (tx_From tx) (v\<lparr>va_Jailed := False, va_Missed := 0\<rparr>) st))"

definition tx_validator_profile :: "state \<Rightarrow> transaction \<Rightarrow> state tx_res" where
  "tx_validator_profile st tx =
     (case fmlookup (st_Validators st) (tx_From tx) of
        None \<Rightarrow> TxErr ENotValidator
      | Some v \<Rightarrow> TxOk (val_upd (tx_From tx) (v\<lparr>va_Profile := tx_Memo tx\<rparr>) st))"

definition add_unbonding :: "string \<Rightarrow> u64 \<Rightarrow> i64 \<Rightarrow> state \<Rightarrow> state" where
  "add_unbonding addr amount blockTime st =
     st\<lparr>st_Unbonding := st_Unbonding st @ [unbond_entry (st_Params st) blockTime addr amount]\<rparr>"

definition tx_unstake :: "state \<Rightarrow> transaction \<Rightarrow> i64 \<Rightarrow> state tx_res" where
  "tx_unstake st tx blockTime =
     (case fmlookup (st_Validators st) (tx_From tx) of
        None \<Rightarrow> TxErr EInsufficientStake
      | Some v \<Rightarrow>
          if ac_Staked (acct st (tx_From tx)) < tx_Amount tx then TxErr EInsufficientStake
          else
            let remaining = va_Stake v - tx_Amount tx in
            if remaining \<noteq> 0 \<and> remaining < p_MinValidatorStake (st_Params st) then TxErr EPartialUnstake
            else
              let st1 = add_unbonding (tx_From tx) (tx_Amount tx) blockTime
                    (acct_upd (tx_From tx) (\<lambda>a. a\<lparr>ac_Staked := ac_Staked a - tx_Amount tx\<rparr>) st)
              in if remaining = 0
                 then TxOk (del_validator (tx_From tx)
                        (unbond_delegators (sorted_keys (va_Delegators v)) v blockTime st1))
                 else TxOk (val_upd (tx_From tx) (v\<lparr>va_Stake := remaining\<rparr>) st1))"

definition tx_delegate :: "state \<Rightarrow> transaction \<Rightarrow> state tx_res" where
  "tx_delegate st tx =
     (case fmlookup (st_Validators st) (tx_To tx) of
        None \<Rightarrow> TxErr ENotValidator
      | Some v \<Rightarrow>
          if mget (va_Delegators v) (tx_From tx) + tx_Amount tx < p_MinDelegation (st_Params st)
          then TxErr EDelegationBelowMin
          else TxOk (val_upd (tx_To tx)
                 (v\<lparr>va_Delegators := madd (va_Delegators v) (tx_From tx) (tx_Amount tx),
                    va_Delegated := va_Delegated v + tx_Amount tx\<rparr>)
                 (bal_sub (tx_From tx) NativeToken (tx_Amount tx) st)))"

definition tx_undelegate :: "state \<Rightarrow> transaction \<Rightarrow> i64 \<Rightarrow> state tx_res" where
  "tx_undelegate st tx blockTime =
     (case fmlookup (st_Validators st) (tx_To tx) of
        None \<Rightarrow> TxErr EInsufficientDelegation
      | Some v \<Rightarrow>
          if mget (va_Delegators v) (tx_From tx) < tx_Amount tx then TxErr EInsufficientDelegation
          else
            let remaining = mget (va_Delegators v) (tx_From tx) - tx_Amount tx in
            if remaining \<noteq> 0 \<and> remaining < p_MinDelegation (st_Params st) then TxErr EPartialUndelegate
            else TxOk (val_upd (tx_To tx)
                   (v\<lparr>va_Delegated := va_Delegated v - tx_Amount tx,
                      va_Delegators := (if remaining = 0 then fmdrop (tx_From tx) (va_Delegators v)
                                        else fmupd (tx_From tx) remaining (va_Delegators v))\<rparr>)
                   (add_unbonding (tx_From tx) (tx_Amount tx) blockTime st)))"

subsection \<open>No-code contracts\<close>

definition ctr_upd :: "string \<Rightarrow> contract \<Rightarrow> state \<Rightarrow> state" where
  "ctr_upd i c st = st\<lparr>st_Contracts := fmupd i c (st_Contracts st)\<rparr>"

definition new_contract :: "string \<Rightarrow> contract_params \<Rightarrow> string \<Rightarrow> u64 \<Rightarrow> contract" where
  "new_contract i c creator height =
     \<lparr>ct_ID = i, ct_Template = cp_Template c, ct_Creator = creator, ct_TokenID = cp_TokenID c,
      ct_Amount = cp_Amount c, ct_Released = 0, ct_Beneficiary = cp_Beneficiary c,
      ct_StartMs = cp_StartMs c, ct_EndMs = cp_EndMs c, ct_Seller = cp_Seller c,
      ct_Arbiter = cp_Arbiter c, ct_Signers = cp_Signers c, ct_Threshold = cp_Threshold c,
      ct_Proposals = [], ct_Status = Active, ct_CreatedAt = height\<rparr>"

definition tx_contract_create :: "'z chain_ext_scheme \<Rightarrow> state \<Rightarrow> transaction \<Rightarrow> state tx_res" where
  "tx_contract_create E st tx =
     (case tx_Contract tx of
        None \<Rightarrow> TxPanic
      | Some c \<Rightarrow>
          if cp_TokenID c \<noteq> NativeToken \<and> fmlookup (st_Tokens st) (cp_TokenID c) = None
          then TxErr EUnknownToken
          else if cp_TokenID c \<noteq> NativeToken \<and> bal st (tx_From tx) (cp_TokenID c) < cp_Amount c
          then TxErr EInsufficientToken
          else TxOk (ctr_upd (tx_hash E tx) (new_contract (tx_hash E tx) c (tx_From tx) (st_Height st + 1))
                 (bal_sub (tx_From tx) (cp_TokenID c) (cp_Amount c) st)))"

text \<open>Linear release between \<^verbatim>\<open>StartMs\<close> and \<^verbatim>\<open>EndMs\<close>.\<close>

definition vested_amount :: "contract \<Rightarrow> i64 \<Rightarrow> u64" where
  "vested_amount c blockTime =
     (if i64_le blockTime (ct_StartMs c) then 0
      else if i64_le (ct_EndMs c) blockTime then ct_Amount c
      else mul_div (ct_Amount c) (blockTime - ct_StartMs c) (ct_EndMs c - ct_StartMs c))"

definition vesting_claim :: "state \<Rightarrow> transaction \<Rightarrow> i64 \<Rightarrow> contract \<Rightarrow> state tx_res" where
  "vesting_claim st tx blockTime c =
     (if tx_From tx \<noteq> ct_Beneficiary c then TxErr ENotBeneficiary
      else
        let claimable = vested_amount c blockTime - ct_Released c in
        if claimable = 0 then TxErr ENothingVested
        else
          let released = ct_Released c + claimable in
          TxOk (ctr_upd (tx_ContractID tx)
                  (c\<lparr>ct_Released := released,
                     ct_Status := (if released = ct_Amount c then Completed else ct_Status c)\<rparr>)
                  (bal_add (ct_Beneficiary c) (ct_TokenID c) claimable st)))"

definition escrow_release :: "state \<Rightarrow> transaction \<Rightarrow> contract \<Rightarrow> state tx_res" where
  "escrow_release st tx c =
     (if tx_From tx \<noteq> ct_Creator c \<and> tx_From tx \<noteq> ct_Arbiter c then TxErr ENotAuthorized
      else TxOk (ctr_upd (tx_ContractID tx) (c\<lparr>ct_Released := ct_Amount c, ct_Status := Completed\<rparr>)
             (bal_add (ct_Seller c) (ct_TokenID c) (ct_Amount c) st)))"

definition escrow_refund :: "state \<Rightarrow> transaction \<Rightarrow> contract \<Rightarrow> state tx_res" where
  "escrow_refund st tx c =
     (if tx_From tx \<noteq> ct_Seller c \<and> tx_From tx \<noteq> ct_Arbiter c then TxErr ENotAuthorized
      else TxOk (ctr_upd (tx_ContractID tx) (c\<lparr>ct_Status := Refunded\<rparr>)
             (bal_add (ct_Creator c) (ct_TokenID c) (ct_Amount c) st)))"

text \<open>Storing the outcome of a proposal, which is a pointer into the contract's list.\<close>

definition store_proposal :: "string \<Rightarrow> nat \<Rightarrow> contract \<times> proposal \<times> state \<Rightarrow> state" where
  "store_proposal cid i = (\<lambda>(c, p, st). ctr_upd cid (c\<lparr>ct_Proposals := (ct_Proposals c)[i := p]\<rparr>) st)"

definition add_proposal :: "contract \<Rightarrow> proposal \<Rightarrow> contract" where
  "add_proposal c p = c\<lparr>ct_Proposals := ct_Proposals c @ [p]\<rparr>"

definition multisig_propose :: "state \<Rightarrow> transaction \<Rightarrow> contract \<Rightarrow> state tx_res" where
  "multisig_propose st tx c =
     (if \<not> is_signer c (tx_From tx) then TxErr ENotSigner
      else if ct_Amount c - ct_Released c < tx_Amount tx then TxErr EExceedsVault
      else
        let p = new_proposal (tx_To tx) (tx_Amount tx) (tx_From tx) in
        TxOk (store_proposal (tx_ContractID tx) (length (ct_Proposals c))
               (maybe_execute_multisig (add_proposal c p) p st)))"

definition multisig_approve :: "state \<Rightarrow> transaction \<Rightarrow> contract \<Rightarrow> state tx_res" where
  "multisig_approve st tx c =
     (if \<not> is_signer c (tx_From tx) then TxErr ENotSigner
      else if of_nat (length (ct_Proposals c)) \<le> tx_Proposal tx then TxErr EUnknownProposal
      else
        let p = ct_Proposals c ! unat (tx_Proposal tx) in
        if mp_Executed p then TxErr EProposalResolved
        else if tx_From tx \<in> set (mp_Approvals p) then TxErr EAlreadyVoted
        else TxOk (store_proposal (tx_ContractID tx) (unat (tx_Proposal tx))
               (maybe_execute_multisig c (p\<lparr>mp_Approvals := mp_Approvals p @ [tx_From tx]\<rparr>) st)))"

definition dao_propose :: "state \<Rightarrow> transaction \<Rightarrow> contract \<Rightarrow> state tx_res" where
  "dao_propose st tx c =
     (if \<not> is_signer c (tx_From tx) then TxErr ENotSigner
      else if ct_Amount c - ct_Released c < tx_Amount tx then TxErr EExceedsVault
      else
        let p = new_proposal (tx_To tx) (tx_Amount tx) (tx_From tx) in
        TxOk (store_proposal (tx_ContractID tx) (length (ct_Proposals c))
               (maybe_resolve_dao (add_proposal c p) p st)))"

definition dao_vote :: "state \<Rightarrow> transaction \<Rightarrow> contract \<Rightarrow> state tx_res" where
  "dao_vote st tx c =
     (if \<not> is_signer c (tx_From tx) then TxErr ENotSigner
      else if of_nat (length (ct_Proposals c)) \<le> tx_Proposal tx then TxErr EUnknownProposal
      else
        let p = ct_Proposals c ! unat (tx_Proposal tx) in
        if mp_Executed p \<or> mp_Rejected p then TxErr EProposalResolved
        else if proposal_has_voter p (tx_From tx) then TxErr EAlreadyVoted
        else
          let p1 = (if tx_Action tx = ActionApprove
                    then p\<lparr>mp_Approvals := mp_Approvals p @ [tx_From tx]\<rparr>
                    else p\<lparr>mp_Against := mp_Against p @ [tx_From tx]\<rparr>)
          in TxOk (store_proposal (tx_ContractID tx) (unat (tx_Proposal tx)) (maybe_resolve_dao c p1 st)))"

definition tx_contract_exec :: "state \<Rightarrow> transaction \<Rightarrow> i64 \<Rightarrow> state tx_res" where
  "tx_contract_exec st tx blockTime =
     (case fmlookup (st_Contracts st) (tx_ContractID tx) of
        None \<Rightarrow> TxErr EUnknownContract
      | Some c \<Rightarrow>
          let tmpl = ct_Template c; action = tx_Action tx in
          if ct_Status c \<noteq> Active then TxErr EContractClosed
          else if tmpl = TemplateVesting \<and> action = ActionClaim then vesting_claim st tx blockTime c
          else if tmpl = TemplateEscrow \<and> action = ActionRelease then escrow_release st tx c
          else if tmpl = TemplateEscrow \<and> action = ActionRefund then escrow_refund st tx c
          else if tmpl = TemplateMultisig \<and> action = ActionPropose then multisig_propose st tx c
          else if tmpl = TemplateMultisig \<and> action = ActionApprove then multisig_approve st tx c
          else if tmpl = TemplateDAO \<and> action = ActionPropose then dao_propose st tx c
          else if tmpl = TemplateDAO \<and> (action = ActionApprove \<or> action = ActionReject) then dao_vote st tx c
          else TxErr EBadAction)"

subsection \<open>The shielded pool\<close>

definition set_pool :: "shielded_pool \<Rightarrow> state \<Rightarrow> state" where
  "set_pool pool st = st\<lparr>st_Shielded := Some pool\<rparr>"

definition shield_res :: "shield_err + 'a \<Rightarrow> ('a \<Rightarrow> 'b tx_res) \<Rightarrow> 'b tx_res" where
  "shield_res m f = (case m of Inl e \<Rightarrow> TxErr (EShield e) | Inr x \<Rightarrow> f x)"

lemma shield_res_TxOk: "shield_res m f = TxOk y \<longleftrightarrow> (\<exists>x. m = Inr x \<and> f x = TxOk y)"
  by (auto simp: shield_res_def split: sum.splits)

definition tx_shield :: "'z chain_ext_scheme \<Rightarrow> state \<Rightarrow> transaction \<Rightarrow> state tx_res" where
  "tx_shield E st tx =
     tx_check (p_PrivacyEnabled (st_Params st)) EPrivacyDisabled
       (shield_res (cm_to_digest (tx_ShieldCommitment tx)) (\<lambda>_.
          let cur = (case st_Shielded st of None \<Rightarrow> [] | Some pool \<Rightarrow> sh_Commitments pool) in
          if pool_capacity < length cur + 1 then TxErr (EShield PoolFull)
          else
            let newCommits = cur @ [tx_ShieldCommitment tx] in
            shield_res (pool_root E newCommits) (\<lambda>newRoot.
              let pool = ensure_shielded st in
              TxOk (set_pool (pool\<lparr>sh_Balance := sh_Balance pool + tx_Amount tx,
                      sh_Commitments := newCommits, sh_Notes := sh_Notes pool @ [tx_ShieldNote tx],
                      sh_Root := newRoot\<rparr>)
                    (bal_sub (tx_From tx) NativeToken (tx_Amount tx) st)))))"

definition tx_shielded_transfer :: "'z chain_ext_scheme \<Rightarrow> state \<Rightarrow> transaction \<Rightarrow> state tx_res" where
  "tx_shielded_transfer E st tx =
     tx_check (p_PrivacyEnabled (st_Params st)) EPrivacyDisabled
       (shield_res (verify_spend E st tx) (\<lambda>(pub, pool).
          if sh_Balance pool < sp_Fee pub then TxErr EPoolBalance
          else shield_res (insert_outputs E pub pool) (\<lambda>pool1.
            TxOk (burn_supply (sp_Fee pub)
              (set_pool (pool1\<lparr>sh_Notes := sh_Notes pool1 @ [tx_ShieldNote tx],
                               sh_Balance := sh_Balance pool1 - sp_Fee pub\<rparr>) st)))))"

definition tx_unshield :: "'z chain_ext_scheme \<Rightarrow> state \<Rightarrow> transaction \<Rightarrow> state tx_res" where
  "tx_unshield E st tx =
     tx_check (p_PrivacyEnabled (st_Params st)) EPrivacyDisabled
       (shield_res (verify_spend E st tx) (\<lambda>(pub, pool).
          if sh_Balance pool < sp_Fee pub then TxErr EPoolBalance
          else shield_res (insert_outputs E pub pool) (\<lambda>pool1.
            TxOk (bal_add (tx_To tx) NativeToken (sp_Fee pub)
              (set_pool (pool1\<lparr>sh_Notes := (if tx_ShieldNote tx = [] then sh_Notes pool1
                                                else sh_Notes pool1 @ [tx_ShieldNote tx]),
                               sh_Balance := sh_Balance pool1 - sp_Fee pub\<rparr>) st)))))"

subsection \<open>WASM contracts\<close>

definition tx_wasm_deploy :: "'z chain_ext_scheme \<Rightarrow> state \<Rightarrow> transaction \<Rightarrow> state tx_res" where
  "tx_wasm_deploy E st tx =
     (if \<not> p_WasmEnabled (st_Params st) then TxErr EWasmDisabled
      else if p_WasmMaxCodeLen (st_Params st) < of_nat (length (tx_Code tx)) then TxErr ECodeTooLarge
      else case wasm_validate (tx_Code tx) of
             WErr _ \<Rightarrow> TxErr EInvalidCode
           | WPanic \<Rightarrow> TxPanic
           | WHang \<Rightarrow> TxHang
           | WOk _ \<Rightarrow>
               let addr = tx_hash E tx in
               if fmlookup (st_WasmContracts st) addr \<noteq> None then TxErr EContractExists
               else TxOk (st\<lparr>st_WasmContracts := fmupd addr
                      \<lparr>wc_Address = addr, wc_Code = tx_Code tx, wc_Storage = fmempty, wc_Balance = 0,
                       wc_Creator = tx_From tx, wc_Calls = 0, wc_CreatedAt = st_Height st + 1\<rparr>
                      (st_WasmContracts st)\<rparr>))"

definition call_sandbox :: "transaction \<Rightarrow> wasm_contract \<Rightarrow> sandbox" where
  "call_sandbox tx wc =
     (new_sandbox (tx_From tx) (tx_Amount tx))
       \<lparr>sb_Balance := wc_Balance wc + tx_Amount tx, sb_Storage := wc_Storage wc\<rparr>"

definition call_gas :: "state \<Rightarrow> transaction \<Rightarrow> u64" where
  "call_gas st tx =
     (let gas = p_WasmGasLimit (st_Params st) in if 0 < tx_Gas tx \<and> tx_Gas tx < gas then tx_Gas tx else gas)"

definition credit_transfer :: "string \<times> i64 \<Rightarrow> state \<Rightarrow> state" where
  "credit_transfer = (\<lambda>(to, amount) st. if i64_less 0 amount then bal_add to NativeToken amount st else st)"

definition commit_call :: "transaction \<Rightarrow> wasm_contract \<Rightarrow> sandbox \<Rightarrow> state \<Rightarrow> state" where
  "commit_call tx wc sb st =
     (let st1 = fold credit_transfer (sb_Transfers sb) (bal_sub (tx_From tx) NativeToken (tx_Amount tx) st)
      in st1\<lparr>st_WasmContracts := fmupd (tx_ContractID tx)
               (wc\<lparr>wc_Storage := sb_Storage sb, wc_Balance := sb_Balance sb, wc_Calls := wc_Calls wc + 1\<rparr>)
               (st_WasmContracts st1)\<rparr>)"

definition tx_wasm_call :: "'z chain_ext_scheme \<Rightarrow> state \<Rightarrow> transaction \<Rightarrow> state tx_res" where
  "tx_wasm_call E st tx =
     (if \<not> p_WasmEnabled (st_Params st) then TxErr EWasmDisabled
      else case fmlookup (st_WasmContracts st) (tx_ContractID tx) of
             None \<Rightarrow> TxErr EUnknownWasm
           | Some wc \<Rightarrow>
               (case sb_run (x_vm E) (wc_Code wc) (tx_Action tx) (call_gas st tx) (tx_Args tx) (call_sandbox tx wc) of
                  (sb, WOk _) \<Rightarrow> TxOk (commit_call tx wc sb st)
                | (sb, WErr _) \<Rightarrow> TxOk st
                | (sb, WPanic) \<Rightarrow> TxPanic
                | (sb, WHang) \<Rightarrow> TxHang))"

subsection \<open>applyTx\<close>

definition tx_dispatch :: "'z chain_ext_scheme \<Rightarrow> state \<Rightarrow> transaction \<Rightarrow> i64 \<Rightarrow> state tx_res" where
  "tx_dispatch E st tx blockTime =
     (let t = tx_Type tx in
      if t = TxTransfer then tx_transfer st tx
      else if t = TxCreateToken then tx_create_token st tx
      else if t = TxMint then tx_mint st tx
      else if t = TxStake then tx_stake st tx
      else if t = TxUnjail then tx_unjail st tx blockTime
      else if t = TxValidatorProfile then tx_validator_profile st tx
      else if t = TxUnstake then tx_unstake st tx blockTime
      else if t = TxDelegate then tx_delegate st tx
      else if t = TxUndelegate then tx_undelegate st tx blockTime
      else if t = TxContractCreate then tx_contract_create E st tx
      else if t = TxContractExec then tx_contract_exec st tx blockTime
      else if t = TxShield then tx_shield E st tx
      else if t = TxShieldedTransfer then tx_shielded_transfer E st tx
      else if t = TxUnshield then tx_unshield E st tx
      else if t = TxWasmDeploy then tx_wasm_deploy E st tx
      else if t = TxWasmCall then tx_wasm_call E st tx
      else TxErr EUnknownType)"

definition bump_nonce :: "string \<Rightarrow> state \<Rightarrow> state" where
  "bump_nonce addr = acct_upd addr (\<lambda>a. a\<lparr>ac_Nonce := ac_Nonce a + 1\<rparr>)"

text \<open>The charge at the end: \<open>burn\<close> was computed from the state before the handler.\<close>

definition charge_fees :: "transaction \<Rightarrow> string \<Rightarrow> u64 \<Rightarrow> state \<Rightarrow> state" where
  "charge_fees tx proposer burn st =
     (let st1 = burn_supply burn (bal_sub (tx_From tx) NativeToken (burn + tx_Tip tx) st);
          st2 = (if proposer \<noteq> [] then bal_add proposer NativeToken (tx_Tip tx) st1
                 else burn_supply (tx_Tip tx) st1)
      in bump_nonce (tx_From tx) st2)"

datatype outcome =
    Applied state
  | Rejected tx_err state
  | Crashed
  | Hung

definition tx_guards :: "state \<Rightarrow> transaction \<Rightarrow> unit tx_res" where
  "tx_guards st tx =
     (if tx_Nonce tx \<noteq> ac_Nonce (acct st (tx_From tx)) then TxErr EBadNonce
      else if tx_MaxBaseFee tx < st_BaseFee st then TxErr EMaxBaseFee
      else case tx_need_native st tx of
             None \<Rightarrow> TxPanic
           | Some need \<Rightarrow> if bal st (tx_From tx) NativeToken < need then TxErr EInsufficientCGO else TxOk ())"

definition apply_tx :: "'z chain_ext_scheme \<Rightarrow> state \<Rightarrow> transaction \<Rightarrow> string \<Rightarrow> i64 \<Rightarrow> outcome" where
  "apply_tx E st0 tx proposer blockTime =
     (let st = touch (tx_From tx) st0 in
      case tx_guards st tx of
        TxErr e \<Rightarrow> Rejected e st
      | TxPanic \<Rightarrow> Crashed
      | TxHang \<Rightarrow> Hung
      | TxOk _ \<Rightarrow>
          (case tx_dispatch E st tx blockTime of
             TxErr e \<Rightarrow> Rejected e st
           | TxPanic \<Rightarrow> Crashed
           | TxHang \<Rightarrow> Hung
           | TxOk st1 \<Rightarrow> Applied (charge_fees tx proposer (tx_burn st tx) st1)))"

subsection \<open>Execute\<close>

text \<open>
  \<^verbatim>\<open>Execute\<close> returns the applied transactions, the failures, the root and the new state; in strict
  mode the first failure stops it. \<open>ExecFailed\<close> carries the state at the failure, which the caller
  discards by restoring its snapshot.
\<close>

datatype exec_result =
    Executed "transaction list" "(string \<times> tx_err) list" string state
  | ExecFailed string tx_err state
  | ExecCrashed
  | ExecHung

datatype run_txs_result =
    Ran "transaction list" "(string \<times> tx_err) list" state
  | Stopped string tx_err state
  | RunCrashed
  | RunHung

fun run_txs :: "'z chain_ext_scheme \<Rightarrow> string \<Rightarrow> i64 \<Rightarrow> bool \<Rightarrow> transaction list \<Rightarrow> transaction list
    \<Rightarrow> (string \<times> tx_err) list \<Rightarrow> state \<Rightarrow> run_txs_result" where
  "run_txs E proposer blockTime strict [] applied failed st = Ran applied failed st"
| "run_txs E proposer blockTime strict (tx # txs) applied failed st =
     (case apply_tx E st tx proposer blockTime of
        Rejected e st1 \<Rightarrow>
          if strict then Stopped (tx_hash E tx) e st1
          else run_txs E proposer blockTime strict txs applied (failed @ [(tx_hash E tx, e)]) st1
      | Applied st1 \<Rightarrow> run_txs E proposer blockTime strict txs (applied @ [tx]) failed st1
      | Crashed \<Rightarrow> RunCrashed
      | Hung \<Rightarrow> RunHung)"

text \<open>
  The state root. \<open>x_state_json\<close> is the JSON of the hashed fields: the height, the last block hash
  and the finalized height are not among them, so they are blanked. The sparse root has one leaf
  per entry; a map is visited in the order of its keys here, in any order by the source.
\<close>

definition hashed_fields :: "state \<Rightarrow> state" where
  "hashed_fields st = st\<lparr>st_Height := 0, st_LastHash := [], st_FinalizedHeight := 0\<rparr>"

definition map_leaves :: "string \<Rightarrow> ('v \<Rightarrow> state_item) \<Rightarrow> (string, 'v) fmap \<Rightarrow> (string \<times> state_item) list" where
  "map_leaves pre item m = map (\<lambda>k. (pre @ k, item (the (fmlookup m k)))) (sorted_keys m)"

definition state_leaves :: "state \<Rightarrow> (string \<times> state_item) list" where
  "state_leaves st =
     map_leaves ''acc/'' ItemAccount (st_Accounts st)
     @ map_leaves ''val/'' ItemValidator (st_Validators st)
     @ map_leaves ''tok/'' ItemToken (st_Tokens st)
     @ map_leaves ''ctr/'' ItemContract (st_Contracts st)
     @ map_leaves ''wasm/'' ItemWasm (st_WasmContracts st)
     @ map (\<lambda>k. (''slash/'' @ k, ItemTrue)) (sorted_list_of_fset (st_Slashed st))
     @ [(''supply'', ItemSupply (st_Supply st)), (''params'', ItemParams (st_Params st)),
        (''base_fee'', ItemBaseFee (st_BaseFee st)), (''unbonding'', ItemUnbonding (st_Unbonding st))]
     @ (case st_Shielded st of None \<Rightarrow> [] | Some pool \<Rightarrow> [(''shielded'', ItemShielded pool)])"

definition sparse_root :: "'z chain_ext_scheme \<Rightarrow> state \<Rightarrow> string" where
  "sparse_root E st =
     hex_encode (smt_root E (smt_build E (map (\<lambda>(k, i). (str_bytes k, x_item_json E i)) (state_leaves st))))"

definition state_root :: "'z chain_ext_scheme \<Rightarrow> state \<Rightarrow> string" where
  "state_root E st =
     (if p_SparseMerkleRoot (st_Params st) then sparse_root E st
      else hash_hex E [x_state_json E (hashed_fields st)])"

definition begin_block :: "'z chain_ext_scheme \<Rightarrow> evidence list \<Rightarrow> string list \<Rightarrow> string \<Rightarrow> i64 \<Rightarrow> state \<Rightarrow> state" where
  "begin_block E evs absent proposer blockTime st =
     (let st1 = release_unbonded blockTime st;
          st2 = fold (\<lambda>ev. slash E (ev_Voter ev) (ev_Height ev) blockTime) evs st1
      in if proposer \<noteq> [] then apply_downtime proposer absent blockTime st2 else st2)"

definition pay_reward :: "string \<Rightarrow> state \<Rightarrow> state" where
  "pay_reward proposer st =
     (if proposer = [] then st
      else let reward = reward_per_block (total_staked st) (st_Params st)
           in if 0 < reward then distribute_reward proposer reward st else st)"

definition execute :: "'z chain_ext_scheme \<Rightarrow> transaction list \<Rightarrow> evidence list \<Rightarrow> string list \<Rightarrow> string \<Rightarrow> i64 \<Rightarrow> bool
    \<Rightarrow> state \<Rightarrow> exec_result" where
  "execute E txs evs absent proposer blockTime strict st =
     (case run_txs E proposer blockTime strict txs [] [] (begin_block E evs absent proposer blockTime st) of
        Stopped h e st1 \<Rightarrow> ExecFailed h e st1
      | RunCrashed \<Rightarrow> ExecCrashed
      | RunHung \<Rightarrow> ExecHung
      | Ran applied failed st1 \<Rightarrow>
          let st2 = pay_reward proposer st1 in
          (case next_base_fee (st_BaseFee st2) (length applied) (st_Params st2) of
             None \<Rightarrow> ExecCrashed
           | Some fee \<Rightarrow> let st3 = st2\<lparr>st_BaseFee := fee\<rparr> in Executed applied failed (state_root E st3) st3))"

end
