(* ===== verification/Conserve.thy ===== *)
theory Conserve
  imports StateTx
begin

text \<open>
  Conservation of every token. \<open>holdings tok st\<close> is all there is of a token: balances, funds locked
  in contracts and, for the native token, stakes, delegations, the unbonding queue, the balances of
  WASM contracts and the shielded pool. \<open>issued tok st\<close> is what the state says exists: the supply
  counter, or the token's total supply. \<open>surplus\<close> is their difference in the 64-bit arithmetic of
  the program, and every operation keeps it.
\<close>

definition val_funds :: "validator \<Rightarrow> u64" where
  "val_funds v = va_Stake v + fmsum (\<lambda>x. x) (va_Delegators v)"

definition locked :: "contract \<Rightarrow> u64" where
  "locked c = (if ct_Status c = Active then ct_Amount c - ct_Released c else 0)"

definition locked_in :: "string \<Rightarrow> contract \<Rightarrow> u64" where
  "locked_in tok c = (if ct_TokenID c = tok then locked c else 0)"

definition pool_balance :: "state \<Rightarrow> u64" where
  "pool_balance st = (case st_Shielded st of None \<Rightarrow> 0 | Some pool \<Rightarrow> sh_Balance pool)"

definition native_extra :: "state \<Rightarrow> u64" where
  "native_extra st = fmsum val_funds (st_Validators st) + sum_list (map ub_Amount (st_Unbonding st))
     + fmsum wc_Balance (st_WasmContracts st) + pool_balance st"

definition holdings :: "string \<Rightarrow> state \<Rightarrow> u64" where
  "holdings tok st = fmsum (\<lambda>a. mget (ac_Balances a) tok) (st_Accounts st)
     + fmsum (locked_in tok) (st_Contracts st)
     + (if tok = NativeToken then native_extra st else 0)"

definition issued :: "string \<Rightarrow> state \<Rightarrow> u64" where
  "issued tok st = (if tok = NativeToken then su_Total (st_Supply st)
     else fmval tk_TotalSupply (fmlookup (st_Tokens st) tok))"

definition surplus :: "string \<Rightarrow> state \<Rightarrow> u64" where
  "surplus tok st = holdings tok st - issued tok st"

lemmas surplus_defs = surplus_def holdings_def issued_def native_extra_def pool_balance_def

named_theorems surplus_simps \<open>the effect of each update of the state on the surplus\<close>

definition nat_only :: "string \<Rightarrow> u64 \<Rightarrow> u64" where
  "nat_only tok x = (if tok = NativeToken then x else 0)"

lemma nat_only_simps [simp]: "nat_only NativeToken x = x" "tok \<noteq> NativeToken \<Longrightarrow> nat_only tok x = 0"
  by (simp_all add: nat_only_def)

lemma fmval_acct: "fmval (\<lambda>a. mget (ac_Balances a) tok) (fmlookup (st_Accounts st) addr) = bal st addr tok"
  by (simp add: bal_def acct_def fresh_account_def fmval_def split: option.split)

lemma surplus_acct_upd:
  "surplus tok (acct_upd addr f st) = surplus tok st + (mget (ac_Balances (f (acct st addr))) tok - bal st addr tok)"
  by (simp add: surplus_defs acct_upd_def fmsum_upd fmval_acct)

lemma surplus_bal_add [surplus_simps]:
  "surplus tok (bal_add addr t x st) = surplus tok st + (if tok = t then x else 0)"
  by (simp add: bal_add_def surplus_acct_upd bal_def)

lemma surplus_bal_sub [surplus_simps]:
  "surplus tok (bal_sub addr t x st) = surplus tok st - (if tok = t then x else 0)"
  by (simp add: bal_sub_def surplus_acct_upd bal_def)

lemma surplus_acct_same [surplus_simps]:
  "(\<And>a. ac_Balances (f a) = ac_Balances a) \<Longrightarrow> surplus tok (acct_upd addr f st) = surplus tok st"
  by (simp add: surplus_acct_upd bal_def)

lemma surplus_touch [surplus_simps]: "surplus tok (touch addr st) = surplus tok st"
  by (simp add: touch_def surplus_simps)

lemma surplus_bump [surplus_simps]: "surplus tok (bump_nonce addr st) = surplus tok st"
  by (simp add: bump_nonce_def surplus_simps)

lemma surplus_burn [surplus_simps]: "surplus tok (burn_supply x st) = surplus tok st + nat_only tok x"
  by (simp add: surplus_defs burn_supply_def nat_only_def)

lemma surplus_mint_supply [surplus_simps]: "surplus tok (mint_supply x st) = surplus tok st - nat_only tok x"
  by (simp add: surplus_defs mint_supply_def nat_only_def)

lemma surplus_val_upd [surplus_simps]:
  "surplus tok (val_upd addr v st)
     = surplus tok st + nat_only tok (val_funds v - fmval val_funds (fmlookup (st_Validators st) addr))"
  by (simp add: surplus_defs val_upd_def nat_only_def fmsum_upd)

lemma surplus_del_validator [surplus_simps]:
  "surplus tok (del_validator addr st)
     = surplus tok st - nat_only tok (fmval val_funds (fmlookup (st_Validators st) addr))"
  by (simp add: surplus_defs del_validator_def nat_only_def fmsum_drop)

lemma surplus_add_unbonding [surplus_simps]:
  "surplus tok (add_unbonding addr x blockTime st) = surplus tok st + nat_only tok x"
  by (simp add: surplus_defs add_unbonding_def unbond_entry_def nat_only_def)

lemma surplus_unbond_delegators [surplus_simps]:
  "surplus tok (unbond_delegators as v blockTime st)
     = surplus tok st + nat_only tok (sum_list (map (mget (va_Delegators v)) as))"
  by (simp add: surplus_defs unbond_delegators_def unbond_entry_def nat_only_def comp_def)

lemma surplus_ctr_upd [surplus_simps]:
  "surplus tok (ctr_upd i c st)
     = surplus tok st + (locked_in tok c - fmval (locked_in tok) (fmlookup (st_Contracts st) i))"
  by (simp add: surplus_defs ctr_upd_def fmsum_upd)

lemma surplus_set_pool [surplus_simps]:
  "surplus tok (set_pool pool st) = surplus tok st + nat_only tok (sh_Balance pool - pool_balance st)"
  by (simp add: surplus_defs set_pool_def nat_only_def)

text \<open>Updates of one table leave the others alone.\<close>

lemma tables_simps [simp]:
  "st_Validators (acct_upd a f st) = st_Validators st" "st_Contracts (acct_upd a f st) = st_Contracts st"
  "st_Tokens (acct_upd a f st) = st_Tokens st" "st_WasmContracts (acct_upd a f st) = st_WasmContracts st"
  "st_Shielded (acct_upd a f st) = st_Shielded st" "st_Unbonding (acct_upd a f st) = st_Unbonding st"
  "st_Params (acct_upd a f st) = st_Params st" "st_Supply (acct_upd a f st) = st_Supply st"
  "st_BaseFee (acct_upd a f st) = st_BaseFee st" "st_Slashed (acct_upd a f st) = st_Slashed st"
  "st_Height (acct_upd a f st) = st_Height st" "st_FinalizedHeight (acct_upd a f st) = st_FinalizedHeight st"
  by (simp_all add: acct_upd_def)

lemma bal_tables [simp]:
  "st_Validators (bal_add a t x st) = st_Validators st" "st_Contracts (bal_add a t x st) = st_Contracts st"
  "st_Tokens (bal_add a t x st) = st_Tokens st" "st_WasmContracts (bal_add a t x st) = st_WasmContracts st"
  "st_Shielded (bal_add a t x st) = st_Shielded st" "st_Unbonding (bal_add a t x st) = st_Unbonding st"
  "st_Params (bal_add a t x st) = st_Params st" "st_Supply (bal_add a t x st) = st_Supply st"
  "st_BaseFee (bal_add a t x st) = st_BaseFee st" "st_Slashed (bal_add a t x st) = st_Slashed st"
  "st_Validators (bal_sub a t x st) = st_Validators st" "st_Contracts (bal_sub a t x st) = st_Contracts st"
  "st_Tokens (bal_sub a t x st) = st_Tokens st" "st_WasmContracts (bal_sub a t x st) = st_WasmContracts st"
  "st_Shielded (bal_sub a t x st) = st_Shielded st" "st_Unbonding (bal_sub a t x st) = st_Unbonding st"
  "st_Params (bal_sub a t x st) = st_Params st" "st_Supply (bal_sub a t x st) = st_Supply st"
  "st_BaseFee (bal_sub a t x st) = st_BaseFee st" "st_Slashed (bal_sub a t x st) = st_Slashed st"
  by (simp_all add: bal_add_def bal_sub_def)

lemma touch_tables [simp]:
  "st_Validators (touch a st) = st_Validators st" "st_Contracts (touch a st) = st_Contracts st"
  "st_Tokens (touch a st) = st_Tokens st" "st_WasmContracts (touch a st) = st_WasmContracts st"
  "st_Shielded (touch a st) = st_Shielded st" "st_Unbonding (touch a st) = st_Unbonding st"
  "st_Params (touch a st) = st_Params st" "st_Supply (touch a st) = st_Supply st"
  "st_BaseFee (touch a st) = st_BaseFee st" "st_Slashed (touch a st) = st_Slashed st"
  by (simp_all add: touch_def)

lemma supply_tables [simp]:
  "st_Validators (burn_supply x st) = st_Validators st" "st_Contracts (burn_supply x st) = st_Contracts st"
  "st_Accounts (burn_supply x st) = st_Accounts st" "st_Tokens (burn_supply x st) = st_Tokens st"
  "st_Params (burn_supply x st) = st_Params st"
  "st_Validators (mint_supply x st) = st_Validators st" "st_Contracts (mint_supply x st) = st_Contracts st"
  "st_Accounts (mint_supply x st) = st_Accounts st" "st_Tokens (mint_supply x st) = st_Tokens st"
  "st_Params (mint_supply x st) = st_Params st"
  by (simp_all add: burn_supply_def mint_supply_def)

lemma unbonding_tables [simp]:
  "st_Validators (add_unbonding a x t st) = st_Validators st"
  "st_Validators (unbond_delegators as v t st) = st_Validators st"
  "st_Contracts (add_unbonding a x t st) = st_Contracts st"
  "st_Contracts (unbond_delegators as v t st) = st_Contracts st"
  "st_Accounts (add_unbonding a x t st) = st_Accounts st"
  "st_Accounts (unbond_delegators as v t st) = st_Accounts st"
  "st_Tokens (add_unbonding a x t st) = st_Tokens st"
  "st_Tokens (unbond_delegators as v t st) = st_Tokens st"
  by (simp_all add: add_unbonding_def unbond_delegators_def)

subsection \<open>Begin of a block: unbonding, slashing, downtime\<close>

lemma surplus_set_unbonding [surplus_simps]:
  "surplus tok (st\<lparr>st_Unbonding := us\<rparr>)
     = surplus tok st + nat_only tok (sum_list (map ub_Amount us) - sum_list (map ub_Amount (st_Unbonding st)))"
  by (simp add: surplus_defs nat_only_def)

lemma sum_list_filter_split:
  "sum_list (map f (filter P xs)) + sum_list (map f (filter (\<lambda>x. \<not> P x) xs)) = (sum_list (map f xs) :: u64)"
  by (induction xs) (auto simp: algebra_simps)

lemma fold_release:
  "surplus tok (fold release_one us st) = surplus tok st + nat_only tok (sum_list (map ub_Amount us))
   \<and> st_Unbonding (fold release_one us st) = st_Unbonding st"
  by (induction us arbitrary: st) (auto simp: release_one_def surplus_simps nat_only_def)

lemma surplus_release_unbonded [surplus_simps]: "surplus tok (release_unbonded blockTime st) = surplus tok st"
  using sum_list_filter_split [of ub_Amount "\<lambda>u. i64_le (ub_ReleaseAt u) blockTime" "st_Unbonding st"]
  by (simp add: release_unbonded_def surplus_simps fold_release nat_only_def add_diff_eq add.assoc)

lemma slash_delegator_funds:
  "val_funds (fst (slash_delegator bps a r)) + snd (slash_delegator bps a r) = val_funds (fst r) + snd r"
  by (simp add: slash_delegator_def val_funds_def Let_def split: prod.split)

lemma fold_slash_funds:
  "val_funds (fst (fold (slash_delegator bps) as r)) + snd (fold (slash_delegator bps) as r)
     = val_funds (fst r) + snd r"
  by (induction as arbitrary: r) (simp_all add: slash_delegator_funds)

lemma slash_weight_surplus:
  assumes "slash_weight v bps st = (v', st')"
  shows "surplus tok st' = surplus tok st + nat_only tok (val_funds v - val_funds v')"
    and "st_Validators st' = st_Validators st" and "st_Params st' = st_Params st"
proof -
  let ?c = "mul_div (va_Stake v) bps 10000"
  let ?r = "fold (slash_delegator bps) (sorted_keys (va_Delegators v)) (v\<lparr>va_Stake := va_Stake v - ?c\<rparr>, ?c)"
  have v': "v' = fst ?r" and st': "st' = burn_supply (snd ?r)
      (if fmlookup (st_Accounts st) (va_Address v) = None then st else acct_upd (va_Address v) (lower_staked ?c) st)"
    using assms by (auto simp: slash_weight_def Let_def split: prod.splits)
  have "val_funds v' + snd ?r = val_funds v"
    using fold_slash_funds [of bps "sorted_keys (va_Delegators v)" "(v\<lparr>va_Stake := va_Stake v - ?c\<rparr>, ?c)"]
    by (simp add: v' val_funds_def)
  then have "snd ?r = val_funds v - val_funds v'" by (simp add: algebra_simps)
  then show "surplus tok st' = surplus tok st + nat_only tok (val_funds v - val_funds v')"
    by (simp add: st' surplus_simps lower_staked_def)
  show "st_Validators st' = st_Validators st" "st_Params st' = st_Params st" by (simp_all add: st')
qed

definition range_ok :: "'z chain_ext_scheme \<Rightarrow> bool" where
  "range_ok E \<longleftrightarrow> (\<forall>m. distinct (x_range E m) \<and> set (x_range E m) = fset (fmdom m))"

lemma sum_list_keys:
  assumes "distinct ks" "set ks = fset (fmdom m)"
  shows "sum_list (map (mget m) ks) = fmsum (\<lambda>x. x) m"
proof -
  have "(\<Sum>k\<in>fset (fmdom m). mget m k) = (\<Sum>k\<in>fset (fmdom m). the (fmlookup m k))"
    by (rule sum.cong) (auto simp: mget_def fmlookup_dom_iff)
  then show ?thesis using assms by (simp add: sum_list_distinct_conv_sum_set fmsum_def)
qed

lemma surplus_set_slashed [surplus_simps]: "surplus tok (st\<lparr>st_Slashed := x\<rparr>) = surplus tok st"
  by (simp add: surplus_defs)

lemma surplus_slash:
  assumes "range_ok E"
  shows "surplus tok (slash E voter height blockTime st) = surplus tok st"
proof -
  have ord: "sum_list (map (mget m) (x_range E m)) = fmsum (\<lambda>x. x) m" for m
    using assms by (intro sum_list_keys) (auto simp: range_ok_def)
  show ?thesis
    by (auto simp: slash_def Let_def surplus_simps slash_weight_surplus(1) [of _ _ "st\<lparr>st_Slashed := _\<rparr>"]
        slash_weight_surplus(2) ord nat_only_def val_funds_def split: option.split prod.split)
qed

lemma surplus_miss_slot [surplus_simps]: "surplus tok (miss_slot blockTime addr st) = surplus tok st"
  by (auto simp: miss_slot_def Let_def surplus_simps slash_weight_surplus nat_only_def val_funds_def
      split: option.split prod.split)

lemma surplus_fold_miss [surplus_simps]: "surplus tok (fold (miss_slot blockTime) as st) = surplus tok st"
  by (induction as arbitrary: st) (simp_all add: surplus_simps)

lemma surplus_apply_downtime [surplus_simps]:
  "surplus tok (apply_downtime proposer absent blockTime st) = surplus tok st"
  by (auto simp: apply_downtime_def surplus_simps nat_only_def val_funds_def split: option.split)

subsection \<open>The block reward\<close>

lemma surplus_mint [surplus_simps]: "surplus tok (mint addr x st) = surplus tok st"
  by (simp add: mint_def surplus_simps nat_only_def)

lemma credit_share_surplus:
  "surplus tok (fst (fold (credit_share pool v) as r))
     = surplus tok (fst r) + nat_only tok (snd (fold (credit_share pool v) as r) - snd r)
   \<and> st_Validators (fst (fold (credit_share pool v) as r)) = st_Validators (fst r)"
  by (induction as arbitrary: r) (auto simp: credit_share_def Let_def surplus_simps nat_only_def split: prod.split)

lemma surplus_distribute [surplus_simps]: "surplus tok (distribute_reward proposer reward st) = surplus tok st"
proof (cases "fmlookup (st_Validators st) proposer")
  case None
  then show ?thesis by (simp add: distribute_reward_def surplus_simps)
next
  case (Some v)
  show ?thesis
  proof (cases "va_Delegated v = 0")
    case True
    with Some show ?thesis by (simp add: distribute_reward_def surplus_simps val_funds_def mint_def nat_only_def)
  next
    case False
    let ?d = "mul_div reward (va_Delegated v) (weight v)"
    let ?p = "?d - mul_div ?d (p_DelegationCommissionBps (st_Params st)) 10000"
    obtain st1 dist where r: "fold (credit_share ?p v) (sorted_keys (va_Delegators v)) (st, 0) = (st1, dist)"
      by fastforce
    have "surplus tok st1 = surplus tok st + nat_only tok dist" "st_Validators st1 = st_Validators st"
      using credit_share_surplus [of tok ?p v "sorted_keys (va_Delegators v)" "(st, 0)"] by (simp_all add: r)
    with Some False r show ?thesis
      by (simp add: distribute_reward_def Let_def surplus_simps val_funds_def nat_only_def algebra_simps)
  qed
qed

lemma surplus_pay_reward [surplus_simps]: "surplus tok (pay_reward proposer st) = surplus tok st"
  by (simp add: pay_reward_def Let_def surplus_simps)

subsection \<open>Transactions\<close>

definition native_unlisted :: "state \<Rightarrow> bool" where
  "native_unlisted st \<longleftrightarrow> fmlookup (st_Tokens st) NativeToken = None"

text \<open>
  What the stateless checks and the hash give: the symbol of a created token is not the native
  one (\<^verbatim>\<open>ValidateBasic\<close>), and the identifier of a created contract is new (it is the hash of a
  transaction that carries the sender and the nonce).
\<close>

definition tx_sane :: "'z chain_ext_scheme \<Rightarrow> state \<Rightarrow> transaction \<Rightarrow> bool" where
  "tx_sane E st tx \<longleftrightarrow>
     (\<forall>tp. tx_Token tx = Some tp \<longrightarrow> tp_Symbol tp \<noteq> NativeToken)
     \<and> (tx_Type tx = TxContractCreate \<longrightarrow> fmlookup (st_Contracts st) (tx_hash E tx) = None)"

lemma surplus_tokens [surplus_simps]:
  "surplus tok (st\<lparr>st_Tokens := fmupd k t (st_Tokens st)\<rparr>)
     = surplus tok st - (if tok \<noteq> NativeToken \<and> tok = k
         then tk_TotalSupply t - fmval tk_TotalSupply (fmlookup (st_Tokens st) k) else 0)"
  by (auto simp: surplus_defs)

lemma conserve_transfer: "tx_transfer st tx = TxOk st' \<Longrightarrow> surplus tok st' = surplus tok st"
  by (auto simp: tx_transfer_def surplus_simps split: if_splits)

lemma conserve_create_token:
  "tx_create_token st tx = TxOk st' \<Longrightarrow> tx_sane E st tx \<Longrightarrow> surplus tok st' = surplus tok st"
  by (auto simp: tx_create_token_def tx_sane_def surplus_simps split: option.splits if_splits)

lemma conserve_mint:
  "tx_mint st tx = TxOk st' \<Longrightarrow> native_unlisted st \<Longrightarrow> surplus tok st' = surplus tok st"
  by (auto simp: tx_mint_def native_unlisted_def surplus_simps Let_def split: option.splits if_splits)

lemma conserve_stake: "tx_stake st tx = TxOk st' \<Longrightarrow> surplus tok st' = surplus tok st"
  by (auto simp: tx_stake_def surplus_simps Let_def validator_or_new_def fresh_validator_def
      val_funds_def nat_only_def split: option.splits if_splits)

lemma conserve_unjail: "tx_unjail st tx blockTime = TxOk st' \<Longrightarrow> surplus tok st' = surplus tok st"
  by (auto simp: tx_unjail_def surplus_simps val_funds_def nat_only_def split: option.splits if_splits)

lemma conserve_profile: "tx_validator_profile st tx = TxOk st' \<Longrightarrow> surplus tok st' = surplus tok st"
  by (auto simp: tx_validator_profile_def surplus_simps val_funds_def nat_only_def split: option.splits)

lemma sum_delegators [simp]: "sum_list (map (mget (va_Delegators v)) (sorted_keys (va_Delegators v))) = fmsum (\<lambda>x. x) (va_Delegators v)"
  by (rule sum_list_keys) simp_all

lemma conserve_unstake: "tx_unstake st tx blockTime = TxOk st' \<Longrightarrow> surplus tok st' = surplus tok st"
  by (auto simp: tx_unstake_def surplus_simps Let_def val_funds_def nat_only_def split: option.splits if_splits)

lemma conserve_delegate: "tx_delegate st tx = TxOk st' \<Longrightarrow> surplus tok st' = surplus tok st"
  by (auto simp: tx_delegate_def surplus_simps Let_def val_funds_def nat_only_def split: option.splits if_splits)

lemma conserve_undelegate: "tx_undelegate st tx blockTime = TxOk st' \<Longrightarrow> surplus tok st' = surplus tok st"
  by (auto simp: tx_undelegate_def surplus_simps Let_def val_funds_def nat_only_def fmsum_drop
      fmsum_id_upd fmval_id_mget split: option.splits if_splits)

lemma conserve_contract_create:
  "tx_contract_create E st tx = TxOk st' \<Longrightarrow> tx_sane E st tx \<Longrightarrow> tx_Type tx = TxContractCreate
     \<Longrightarrow> surplus tok st' = surplus tok st"
  by (auto simp: tx_contract_create_def tx_sane_def surplus_simps new_contract_def locked_in_def locked_def
      split: option.splits if_splits)

subsection \<open>Contract actions\<close>

lemma locked_release:
  assumes "ct_Status c = Active"
  shows "locked (c\<lparr>ct_Released := ct_Released c + x,
           ct_Status := (if ct_Released c + x = ct_Amount c then Completed else ct_Status c)\<rparr>) = locked c - x"
proof (cases "ct_Released c + x = ct_Amount c")
  case True
  then have "ct_Amount c = ct_Released c + x" by simp
  with assms show ?thesis by (simp add: locked_def)
next
  case False
  with assms show ?thesis by (simp add: locked_def)
qed

text \<open>A payment out of an active contract moves what it releases.\<close>

lemma pay_proposal_contracts: "pay_proposal c p st = (c', p', st') \<Longrightarrow> st_Contracts st' = st_Contracts st"
  by (auto simp: pay_proposal_def Let_def)

lemma pay_proposal_surplus:
  assumes "pay_proposal c p st = (c', p', st')" "ct_Status c = Active"
  shows "surplus tok st' + locked_in tok c' = surplus tok st + locked_in tok c"
proof -
  have c': "c' = c\<lparr>ct_Released := ct_Released c + mp_Amount p,
           ct_Status := (if ct_Released c + mp_Amount p = ct_Amount c then Completed else ct_Status c)\<rparr>"
    and st': "st' = bal_add (mp_To p) (ct_TokenID c) (mp_Amount p) st"
    using assms(1) by (auto simp: pay_proposal_def Let_def)
  have "ct_TokenID c' = ct_TokenID c" by (simp add: c')
  moreover have "locked c' = locked c - mp_Amount p" unfolding c' by (rule locked_release) (rule assms(2))
  ultimately show ?thesis by (simp add: st' surplus_simps locked_in_def)
qed

lemma multisig_surplus:
  assumes "maybe_execute_multisig c p st = (c', p', st')" "ct_Status c = Active"
  shows "surplus tok st' + locked_in tok c' = surplus tok st + locked_in tok c \<and> st_Contracts st' = st_Contracts st"
  using assms pay_proposal_surplus [of c p st c' p' st' tok] pay_proposal_contracts [of c p st c' p' st']
  by (auto simp: maybe_execute_multisig_def split: if_splits)

lemma dao_surplus:
  assumes "maybe_resolve_dao c p st = (c', p', st')" "ct_Status c = Active"
  shows "surplus tok st' + locked_in tok c' = surplus tok st + locked_in tok c \<and> st_Contracts st' = st_Contracts st"
  using assms pay_proposal_surplus [of c p st c' p' st' tok] pay_proposal_contracts [of c p st c' p' st']
  by (auto simp: maybe_resolve_dao_def split: if_splits)

lemma locked_in_proposals [simp]:
  "locked_in tok (c\<lparr>ct_Proposals := ps\<rparr>) = locked_in tok c" "locked_in tok (add_proposal c p) = locked_in tok c"
  by (simp_all add: locked_in_def locked_def add_proposal_def)

lemma store_proposal_surplus:
  assumes "surplus tok st' + locked_in tok c' = surplus tok st + locked_in tok c \<and> st_Contracts st' = st_Contracts st"
    and "fmlookup (st_Contracts st) cid = Some c"
  shows "surplus tok (store_proposal cid i (c', p', st')) = surplus tok st"
  using assms by (simp add: store_proposal_def surplus_simps add_diff_eq)

lemma conserve_multisig_propose:
  assumes "multisig_propose st tx c = TxOk st'" "fmlookup (st_Contracts st) (tx_ContractID tx) = Some c" "ct_Status c = Active"
  shows "surplus tok st' = surplus tok st"
proof -
  define p where "p = new_proposal (tx_To tx) (tx_Amount tx) (tx_From tx)"
  obtain c' p' st1 where r: "maybe_execute_multisig (add_proposal c p) p st = (c', p', st1)" by (rule prod_cases3)
  have st': "st' = store_proposal (tx_ContractID tx) (length (ct_Proposals c)) (c', p', st1)"
    using assms(1) r by (auto simp: multisig_propose_def p_def Let_def split: if_splits)
  have "ct_Status (add_proposal c p) = Active" using assms(3) by (simp add: add_proposal_def)
  from multisig_surplus [OF r this] show ?thesis
    unfolding st' by (intro store_proposal_surplus [OF _ assms(2)]) simp
qed

lemma conserve_multisig_approve:
  assumes "multisig_approve st tx c = TxOk st'" "fmlookup (st_Contracts st) (tx_ContractID tx) = Some c" "ct_Status c = Active"
  shows "surplus tok st' = surplus tok st"
proof -
  define p where "p = (ct_Proposals c ! unat (tx_Proposal tx))"
  obtain c' p' st1 where r: "maybe_execute_multisig c (p\<lparr>mp_Approvals := mp_Approvals p @ [tx_From tx]\<rparr>) st = (c', p', st1)"
    by (rule prod_cases3)
  have st': "st' = store_proposal (tx_ContractID tx) (unat (tx_Proposal tx)) (c', p', st1)"
    using assms(1) r by (auto simp: multisig_approve_def p_def Let_def split: if_splits)
  from multisig_surplus [OF r assms(3)] show ?thesis
    unfolding st' by (intro store_proposal_surplus [OF _ assms(2)])
qed

lemma conserve_dao_propose:
  assumes "dao_propose st tx c = TxOk st'" "fmlookup (st_Contracts st) (tx_ContractID tx) = Some c" "ct_Status c = Active"
  shows "surplus tok st' = surplus tok st"
proof -
  define p where "p = new_proposal (tx_To tx) (tx_Amount tx) (tx_From tx)"
  obtain c' p' st1 where r: "maybe_resolve_dao (add_proposal c p) p st = (c', p', st1)" by (rule prod_cases3)
  have st': "st' = store_proposal (tx_ContractID tx) (length (ct_Proposals c)) (c', p', st1)"
    using assms(1) r by (auto simp: dao_propose_def p_def Let_def split: if_splits)
  have "ct_Status (add_proposal c p) = Active" using assms(3) by (simp add: add_proposal_def)
  from dao_surplus [OF r this] show ?thesis
    unfolding st' by (intro store_proposal_surplus [OF _ assms(2)]) simp
qed

lemma conserve_dao_vote:
  assumes "dao_vote st tx c = TxOk st'" "fmlookup (st_Contracts st) (tx_ContractID tx) = Some c" "ct_Status c = Active"
  shows "surplus tok st' = surplus tok st"
proof -
  define p where "p = (ct_Proposals c ! unat (tx_Proposal tx))"
  define p1 where "p1 = (if tx_Action tx = ActionApprove
                    then p\<lparr>mp_Approvals := mp_Approvals p @ [tx_From tx]\<rparr>
                    else p\<lparr>mp_Against := mp_Against p @ [tx_From tx]\<rparr>)"
  obtain c' p' st1 where r: "maybe_resolve_dao c p1 st = (c', p', st1)" by (rule prod_cases3)
  have st': "st' = store_proposal (tx_ContractID tx) (unat (tx_Proposal tx)) (c', p', st1)"
    using assms(1) r by (simp add: dao_vote_def p_def p1_def Let_def split: if_splits)
  from dao_surplus [OF r assms(3)] show ?thesis
    unfolding st' by (intro store_proposal_surplus [OF _ assms(2)])
qed

lemma conserve_vesting:
  assumes "vesting_claim st tx blockTime c = TxOk st'" "fmlookup (st_Contracts st) (tx_ContractID tx) = Some c" "ct_Status c = Active"
  shows "surplus tok st' = surplus tok st"
proof -
  define x where "x = vested_amount c blockTime - ct_Released c"
  define c' where "c' = c\<lparr>ct_Released := ct_Released c + x,
           ct_Status := (if ct_Released c + x = ct_Amount c then Completed else ct_Status c)\<rparr>"
  have st': "st' = ctr_upd (tx_ContractID tx) c' (bal_add (ct_Beneficiary c) (ct_TokenID c) x st)"
    using assms(1) by (auto simp: vesting_claim_def x_def c'_def Let_def split: if_splits)
  have "ct_TokenID c' = ct_TokenID c" by (simp add: c'_def)
  moreover have "locked c' = locked c - x" unfolding c'_def by (rule locked_release) (rule assms(3))
  ultimately show ?thesis by (simp add: st' surplus_simps locked_in_def assms(2))
qed

text \<open>An escrow that is active has released nothing.\<close>

definition escrow_unreleased :: "state \<Rightarrow> bool" where
  "escrow_unreleased st \<longleftrightarrow> (\<forall>i c. fmlookup (st_Contracts st) i = Some c \<longrightarrow> ct_Template c = TemplateEscrow
     \<longrightarrow> ct_Status c = Active \<longrightarrow> ct_Released c = 0)"

lemma conserve_escrow:
  assumes "escrow_release st tx c = TxOk st' \<or> escrow_refund st tx c = TxOk st'"
    "fmlookup (st_Contracts st) (tx_ContractID tx) = Some c" "ct_Status c = Active" "ct_Released c = 0"
  shows "surplus tok st' = surplus tok st"
  using assms by (auto simp: escrow_release_def escrow_refund_def surplus_simps locked_in_def locked_def split: if_splits)

lemma conserve_exec:
  assumes "tx_contract_exec st tx blockTime = TxOk st'" "escrow_unreleased st"
  shows "surplus tok st' = surplus tok st"
proof -
  obtain c where c: "fmlookup (st_Contracts st) (tx_ContractID tx) = Some c" and a: "ct_Status c = Active"
    using assms(1) by (auto simp: tx_contract_exec_def Let_def split: option.splits if_splits)
  have e: "ct_Template c = TemplateEscrow \<Longrightarrow> ct_Released c = 0"
    using assms(2) c a by (auto simp: escrow_unreleased_def)
  show ?thesis
    using assms(1) c a conserve_vesting [OF _ c a] conserve_escrow [OF _ c a e] conserve_multisig_propose [OF _ c a]
      conserve_multisig_approve [OF _ c a] conserve_dao_propose [OF _ c a] conserve_dao_vote [OF _ c a]
    by (simp add: tx_contract_exec_def Let_def split: if_splits)
qed

subsection \<open>The shielded pool and WASM calls\<close>

lemma set_pool_tables [simp]:
  "pool_balance (bal_sub a t x st) = pool_balance st" "pool_balance (set_pool p st) = sh_Balance p"
  by (simp_all add: pool_balance_def set_pool_def)

lemma ensure_shielded_balance: "sh_Balance (ensure_shielded st) = pool_balance st"
  by (simp add: ensure_shielded_def pool_balance_def empty_pool_def split: option.split)

lemma conserve_shield: "tx_shield E st tx = TxOk st' \<Longrightarrow> surplus tok st' = surplus tok st"
  by (auto simp: tx_shield_def shield_res_TxOk Let_def surplus_simps ensure_shielded_balance nat_only_def
      split: if_splits)

lemma verify_spend_pool: "verify_spend E st tx = Inr (pub, pool) \<Longrightarrow> st_Shielded st = Some pool"
  by (auto simp: verify_spend_def rbind_eq_Inr split: option.splits if_splits sum.splits)

lemma insert_outputs_balance: "insert_outputs E pub pool = Inr pool' \<Longrightarrow> sh_Balance pool' = sh_Balance pool"
  by (auto simp: insert_outputs_def Let_def rbind_eq_Inr split: if_splits)

lemma conserve_shielded_transfer: "tx_shielded_transfer E st tx = TxOk st' \<Longrightarrow> surplus tok st' = surplus tok st"
  by (auto simp: tx_shielded_transfer_def shield_res_TxOk surplus_simps pool_balance_def nat_only_def
      dest!: verify_spend_pool insert_outputs_balance split: if_splits)

lemma conserve_unshield: "tx_unshield E st tx = TxOk st' \<Longrightarrow> surplus tok st' = surplus tok st"
  by (auto simp: tx_unshield_def shield_res_TxOk surplus_simps pool_balance_def nat_only_def
      dest!: verify_spend_pool insert_outputs_balance split: if_splits)

lemma surplus_wasm_table [surplus_simps]:
  "surplus tok (st\<lparr>st_WasmContracts := m\<rparr>)
     = surplus tok st + nat_only tok (fmsum wc_Balance m - fmsum wc_Balance (st_WasmContracts st))"
  by (simp add: surplus_defs nat_only_def)

lemma conserve_wasm_deploy: "tx_wasm_deploy E st tx = TxOk st' \<Longrightarrow> surplus tok st' = surplus tok st"
  by (auto simp: tx_wasm_deploy_def Let_def surplus_simps nat_only_def fmsum_upd split: if_splits wres.splits)

lemma host_amounts:
  "\<forall>(to, a) \<in> set (sb_Transfers s). 0 \<le> sint a
    \<Longrightarrow> \<forall>(to, a) \<in> set (sb_Transfers (fold host_step cs s)). 0 \<le> sint a"
proof (induction cs arbitrary: s)
  case (Cons c cs)
  have "\<forall>(to, a) \<in> set (sb_Transfers (host_step c s)). 0 \<le> sint a"
    using Cons.prems by (cases c) (auto simp: sb_transfer_def storage_write_def i64_less_def)
  with Cons.IH show ?case by simp
qed simp

lemma fold_credit:
  "\<forall>(to, a) \<in> set ts. 0 \<le> sint a \<Longrightarrow>
     surplus tok (fold credit_transfer ts st) = surplus tok st + nat_only tok (sum_list (map snd ts))
     \<and> st_WasmContracts (fold credit_transfer ts st) = st_WasmContracts st"
proof (induction ts arbitrary: st)
  case (Cons t ts)
  obtain to a where t: "t = (to, a)" by (cases t)
  have "\<not> 0 < sint a \<Longrightarrow> a = 0" using Cons.prems t by (auto simp: signed_eq_0_iff)
  with Cons t show ?case
    by (auto simp: credit_transfer_def i64_less_def surplus_simps nat_only_def)
qed (simp add: nat_only_def)

lemma conserve_wasm_call: "tx_wasm_call E st tx = TxOk st' \<Longrightarrow> surplus tok st' = surplus tok st"
proof -
  assume ok: "tx_wasm_call E st tx = TxOk st'"
  then obtain wc where wc: "fmlookup (st_WasmContracts st) (tx_ContractID tx) = Some wc"
    by (auto simp: tx_wasm_call_def split: if_splits option.splits)
  let ?run = "sb_run (x_vm E) (wc_Code wc) (tx_Action tx) (call_gas st tx) (tx_Args tx) (call_sandbox tx wc)"
  obtain sb r where run: "?run = (sb, r)" by fastforce
  obtain cs where cs: "fst ?run = fold host_step cs (call_sandbox tx wc)" by (rule sb_run_cases)
  then have sb: "sb = fold host_step cs (call_sandbox tx wc)" using run by simp
  have tot: "transferred sb = wc_Balance wc + tx_Amount tx - sb_Balance sb"
    using host_steps_total [of cs "call_sandbox tx wc"]
    by (simp add: sb call_sandbox_def new_sandbox_def transferred_def eq_diff_eq add.commute)
  have amounts: "\<forall>(to, a) \<in> set (sb_Transfers sb). 0 \<le> sint a"
    unfolding sb by (rule host_amounts) (simp add: call_sandbox_def new_sandbox_def)
  have "st' = st \<or> st' = commit_call tx wc sb st"
    using ok wc run by (auto simp: tx_wasm_call_def split: if_splits wres.splits)
  moreover have "surplus tok (commit_call tx wc sb st) = surplus tok st"
    using fold_credit [OF amounts, of tok "bal_sub (tx_From tx) NativeToken (tx_Amount tx) st"] tot wc
    by (auto simp: commit_call_def Let_def surplus_simps nat_only_def fmsum_upd algebra_simps simp flip: transferred_def)
  ultimately show ?thesis by auto
qed

subsection \<open>applyTx and Execute\<close>

text \<open>A successful dispatch is the success of the handler of the transaction's type.\<close>

lemma dispatch_cases:
  assumes "tx_dispatch E st tx blockTime = TxOk st'"
    and "tx_Type tx = TxTransfer \<Longrightarrow> tx_transfer st tx = TxOk st' \<Longrightarrow> Q"
    and "tx_Type tx = TxCreateToken \<Longrightarrow> tx_create_token st tx = TxOk st' \<Longrightarrow> Q"
    and "tx_Type tx = TxMint \<Longrightarrow> tx_mint st tx = TxOk st' \<Longrightarrow> Q"
    and "tx_Type tx = TxStake \<Longrightarrow> tx_stake st tx = TxOk st' \<Longrightarrow> Q"
    and "tx_Type tx = TxUnjail \<Longrightarrow> tx_unjail st tx blockTime = TxOk st' \<Longrightarrow> Q"
    and "tx_Type tx = TxValidatorProfile \<Longrightarrow> tx_validator_profile st tx = TxOk st' \<Longrightarrow> Q"
    and "tx_Type tx = TxUnstake \<Longrightarrow> tx_unstake st tx blockTime = TxOk st' \<Longrightarrow> Q"
    and "tx_Type tx = TxDelegate \<Longrightarrow> tx_delegate st tx = TxOk st' \<Longrightarrow> Q"
    and "tx_Type tx = TxUndelegate \<Longrightarrow> tx_undelegate st tx blockTime = TxOk st' \<Longrightarrow> Q"
    and "tx_Type tx = TxContractCreate \<Longrightarrow> tx_contract_create E st tx = TxOk st' \<Longrightarrow> Q"
    and "tx_Type tx = TxContractExec \<Longrightarrow> tx_contract_exec st tx blockTime = TxOk st' \<Longrightarrow> Q"
    and "tx_Type tx = TxShield \<Longrightarrow> tx_shield E st tx = TxOk st' \<Longrightarrow> Q"
    and "tx_Type tx = TxShieldedTransfer \<Longrightarrow> tx_shielded_transfer E st tx = TxOk st' \<Longrightarrow> Q"
    and "tx_Type tx = TxUnshield \<Longrightarrow> tx_unshield E st tx = TxOk st' \<Longrightarrow> Q"
    and "tx_Type tx = TxWasmDeploy \<Longrightarrow> tx_wasm_deploy E st tx = TxOk st' \<Longrightarrow> Q"
    and "tx_Type tx = TxWasmCall \<Longrightarrow> tx_wasm_call E st tx = TxOk st' \<Longrightarrow> Q"
  shows Q
  using assms(1) unfolding tx_dispatch_def Let_def
  by (simp only: split: if_split_asm) ((rule assms(2-); assumption) | simp)+

lemma conserve_charge [surplus_simps]: "surplus tok (charge_fees tx proposer burn st) = surplus tok st"
  by (simp add: charge_fees_def Let_def surplus_simps nat_only_def)

definition ledger_ok :: "state \<Rightarrow> bool" where
  "ledger_ok st \<longleftrightarrow> native_unlisted st \<and> escrow_unreleased st"

lemma conserve_dispatch:
  assumes "tx_dispatch E st tx blockTime = TxOk st'" "tx_sane E st tx" "ledger_ok st"
  shows "surplus tok st' = surplus tok st"
proof -
  have l: "native_unlisted st" "escrow_unreleased st" using assms(3) by (simp_all add: ledger_ok_def)
  note facts = conserve_create_token [OF _ assms(2)] conserve_contract_create [OF _ assms(2)]
    conserve_mint [OF _ l(1)] conserve_transfer conserve_stake conserve_unjail conserve_profile
    conserve_unstake conserve_delegate conserve_undelegate conserve_exec [OF _ l(2)] conserve_shield
    conserve_shielded_transfer conserve_unshield conserve_wasm_deploy conserve_wasm_call
  from assms(1) show ?thesis by (rule dispatch_cases) (blast intro: facts)+
qed

text \<open>The two invariants the argument needs are kept.\<close>

lemma native_unlisted_simps [simp]:
  "native_unlisted (acct_upd a f st) = native_unlisted st" "native_unlisted (bal_add a t x st) = native_unlisted st"
  "native_unlisted (bal_sub a t x st) = native_unlisted st" "native_unlisted (touch a st) = native_unlisted st"
  "native_unlisted (val_upd a v st) = native_unlisted st" "native_unlisted (burn_supply x st) = native_unlisted st"
  "native_unlisted (mint_supply x st) = native_unlisted st" "native_unlisted (ctr_upd i c st) = native_unlisted st"
  "native_unlisted (del_validator a st) = native_unlisted st" "native_unlisted (set_pool p st) = native_unlisted st"
  "native_unlisted (add_unbonding a x b st) = native_unlisted st"
  "native_unlisted (unbond_delegators as v b st) = native_unlisted st"
  by (simp_all add: native_unlisted_def val_upd_def ctr_upd_def del_validator_def set_pool_def)

lemma escrow_unreleased_cong: "st_Contracts st' = st_Contracts st \<Longrightarrow> escrow_unreleased st' = escrow_unreleased st"
  by (simp add: escrow_unreleased_def)

lemma contracts_simps [simp]:
  "st_Contracts (val_upd a v st) = st_Contracts st" "st_Contracts (del_validator a st) = st_Contracts st"
  "st_Contracts (set_pool p st) = st_Contracts st" "st_Tokens (val_upd a v st) = st_Tokens st"
  "st_Tokens (del_validator a st) = st_Tokens st" "st_Tokens (set_pool p st) = st_Tokens st"
  "st_Tokens (ctr_upd i c st) = st_Tokens st" "st_Contracts (bump_nonce a st) = st_Contracts st"
  "st_Tokens (bump_nonce a st) = st_Tokens st"
  by (simp_all add: val_upd_def del_validator_def set_pool_def ctr_upd_def bump_nonce_def)

lemma fold_credit_tables:
  "st_Contracts (fold credit_transfer ts st) = st_Contracts st \<and> st_Tokens (fold credit_transfer ts st) = st_Tokens st"
  by (induction ts arbitrary: st) (auto simp: credit_transfer_def split: prod.split)

lemma escrow_ctr_upd:
  "escrow_unreleased st \<Longrightarrow> (ct_Template c = TemplateEscrow \<Longrightarrow> ct_Status c = Active \<Longrightarrow> ct_Released c = 0)
    \<Longrightarrow> escrow_unreleased (ctr_upd i c st)"
  by (auto simp: escrow_unreleased_def ctr_upd_def)

text \<open>Which handlers change the token table or the contract table.\<close>

definition same_tables :: "state \<Rightarrow> state \<Rightarrow> bool" where
  "same_tables st st' \<longleftrightarrow> st_Tokens st' = st_Tokens st \<and> st_Contracts st' = st_Contracts st"

lemma same_tables_handlers:
  "tx_transfer st tx = TxOk st' \<Longrightarrow> same_tables st st'"
  "tx_stake st tx = TxOk st' \<Longrightarrow> same_tables st st'"
  "tx_unjail st tx blockTime = TxOk st' \<Longrightarrow> same_tables st st'"
  "tx_validator_profile st tx = TxOk st' \<Longrightarrow> same_tables st st'"
  "tx_unstake st tx blockTime = TxOk st' \<Longrightarrow> same_tables st st'"
  "tx_delegate st tx = TxOk st' \<Longrightarrow> same_tables st st'"
  "tx_undelegate st tx blockTime = TxOk st' \<Longrightarrow> same_tables st st'"
  by (auto simp: tx_transfer_def tx_stake_def tx_unjail_def tx_validator_profile_def tx_unstake_def
      tx_delegate_def tx_undelegate_def Let_def same_tables_def split: if_splits option.splits)

lemma same_tables_shielded:
  "tx_shield E st tx = TxOk st' \<Longrightarrow> same_tables st st'"
  "tx_shielded_transfer E st tx = TxOk st' \<Longrightarrow> same_tables st st'"
  "tx_unshield E st tx = TxOk st' \<Longrightarrow> same_tables st st'"
  by (auto simp: tx_shield_def tx_shielded_transfer_def tx_unshield_def shield_res_TxOk Let_def
      same_tables_def split: if_splits)

lemma same_tables_wasm:
  "tx_wasm_deploy E st tx = TxOk st' \<Longrightarrow> same_tables st st'"
  "tx_wasm_call E st tx = TxOk st' \<Longrightarrow> same_tables st st'"
  by (auto simp: tx_wasm_deploy_def tx_wasm_call_def Let_def commit_call_def same_tables_def
      fold_credit_tables split: if_splits option.splits wres.splits prod.splits)

lemma tokens_create:
  "tx_create_token st tx = TxOk st' \<Longrightarrow> st_Contracts st' = st_Contracts st
     \<and> (tx_sane E st tx \<longrightarrow> native_unlisted st \<longrightarrow> native_unlisted st')"
  by (auto simp: tx_create_token_def native_unlisted_def tx_sane_def split: if_splits option.splits)

lemma tokens_mint:
  "tx_mint st tx = TxOk st' \<Longrightarrow> st_Contracts st' = st_Contracts st \<and> (native_unlisted st \<longrightarrow> native_unlisted st')"
  by (auto simp: tx_mint_def native_unlisted_def Let_def split: if_splits option.splits)

lemma contract_create_tables:
  "tx_contract_create E st tx = TxOk st' \<Longrightarrow> st_Tokens st' = st_Tokens st
     \<and> (escrow_unreleased st \<longrightarrow> escrow_unreleased st')"
  by (auto simp: tx_contract_create_def escrow_unreleased_def ctr_upd_def new_contract_def
      split: if_splits option.splits)

text \<open>An executed action changes one contract, and no escrow but into a closed one.\<close>

lemma proposal_frame:
  assumes "(c', p', st') = maybe_execute_multisig c p st \<or> (c', p', st') = maybe_resolve_dao c p st"
  shows "ct_Template c' = ct_Template c \<and> same_tables st st'"
  using assms
  by (auto simp: maybe_execute_multisig_def maybe_resolve_dao_def pay_proposal_def Let_def same_tables_def
      split: if_splits)

lemma store_proposal_escrow:
  assumes "escrow_unreleased st" "ct_Template c \<noteq> TemplateEscrow"
    and "r = maybe_execute_multisig c p st \<or> r = maybe_resolve_dao c p st"
  shows "escrow_unreleased (store_proposal i k r) \<and> st_Tokens (store_proposal i k r) = st_Tokens st"
proof -
  obtain c' p' st' where r: "r = (c', p', st')" by (rule prod_cases3)
  have "ct_Template c' = ct_Template c" "same_tables st st'"
    using proposal_frame [of c' p' st' c p st] assms(3) r by auto
  with assms(1,2) show ?thesis
    by (auto simp: r store_proposal_def same_tables_def escrow_unreleased_def ctr_upd_def)
qed

lemma exec_tables:
  assumes "tx_contract_exec st tx blockTime = TxOk st'" "escrow_unreleased st"
  shows "st_Tokens st' = st_Tokens st \<and> escrow_unreleased st'"
proof -
  obtain c where c: "fmlookup (st_Contracts st) (tx_ContractID tx) = Some c" and a: "ct_Status c = Active"
    using assms(1) by (auto simp: tx_contract_exec_def Let_def split: option.splits if_splits)
  have add: "ct_Template (add_proposal c p) = ct_Template c" for p by (simp add: add_proposal_def)
  have d: "TemplateVesting \<noteq> TemplateEscrow" "TemplateMultisig \<noteq> TemplateEscrow" "TemplateDAO \<noteq> TemplateEscrow"
    using templates_distinct by auto
  have v: "vesting_claim st tx blockTime c = TxOk st' \<Longrightarrow> ct_Template c = TemplateVesting \<Longrightarrow> ?thesis"
    using assms(2) d by (auto simp: vesting_claim_def Let_def escrow_unreleased_def ctr_upd_def split: if_splits)
  have e: "escrow_release st tx c = TxOk st' \<Longrightarrow> ?thesis" "escrow_refund st tx c = TxOk st' \<Longrightarrow> ?thesis"
    using assms(2) by (auto simp: escrow_release_def escrow_refund_def escrow_unreleased_def ctr_upd_def split: if_splits)
  note store = store_proposal_escrow [OF assms(2) _ disjI1 [OF refl]] store_proposal_escrow [OF assms(2) _ disjI2 [OF refl]]
  have m: "multisig_propose st tx c = TxOk st' \<Longrightarrow> ct_Template c = TemplateMultisig \<Longrightarrow> ?thesis"
    "multisig_approve st tx c = TxOk st' \<Longrightarrow> ct_Template c = TemplateMultisig \<Longrightarrow> ?thesis"
    using d by (auto simp: store add multisig_propose_def multisig_approve_def Let_def split: if_splits)
  have da: "dao_propose st tx c = TxOk st' \<Longrightarrow> ct_Template c = TemplateDAO \<Longrightarrow> ?thesis"
    "dao_vote st tx c = TxOk st' \<Longrightarrow> ct_Template c = TemplateDAO \<Longrightarrow> ?thesis"
    using d by (auto simp: store add dao_propose_def dao_vote_def Let_def split: if_splits)
  from assms(1) c a show ?thesis
    by (simp only: tx_contract_exec_def Let_def option.case split: if_split_asm) ((rule v e m da; assumption) | simp)+
qed

lemma ledger_ok_same: "same_tables st st' \<Longrightarrow> ledger_ok st \<Longrightarrow> ledger_ok st'"
  by (simp add: same_tables_def ledger_ok_def native_unlisted_def escrow_unreleased_def)

lemma ledger_ok_dispatch:
  assumes "tx_dispatch E st tx blockTime = TxOk st'" "tx_sane E st tx" "ledger_ok st"
  shows "ledger_ok st'"
proof -
  note same = ledger_ok_same [OF _ assms(3)]
  have create: "tx_create_token st tx = TxOk st' \<Longrightarrow> ledger_ok st'"
    using tokens_create [of st tx st' E] assms(2,3) by (auto simp: ledger_ok_def escrow_unreleased_def)
  have mint: "tx_mint st tx = TxOk st' \<Longrightarrow> ledger_ok st'"
    using tokens_mint [of st tx st'] assms(3) by (auto simp: ledger_ok_def escrow_unreleased_def)
  have new: "tx_contract_create E st tx = TxOk st' \<Longrightarrow> ledger_ok st'"
    using contract_create_tables [of E st tx st'] assms(3) by (auto simp: ledger_ok_def native_unlisted_def)
  have exec: "tx_contract_exec st tx blockTime = TxOk st' \<Longrightarrow> ledger_ok st'"
    using exec_tables [of st tx blockTime st'] assms(3) by (auto simp: ledger_ok_def native_unlisted_def)
  from assms(1) show ?thesis
    by (rule dispatch_cases) (blast intro: create mint new exec same same_tables_handlers same_tables_shielded same_tables_wasm)+
qed

text \<open>The identifiers in the contract table after a transaction.\<close>

definition ctr_ids :: "state \<Rightarrow> string set" where
  "ctr_ids st = fset (fmdom (st_Contracts st))"

lemma ctr_ids_upd: "ctr_ids (ctr_upd i c st) = insert i (ctr_ids st)"
  by (simp add: ctr_ids_def ctr_upd_def)

lemma ctr_ids_store:
  assumes "r = maybe_execute_multisig c p st \<or> r = maybe_resolve_dao c p st"
  shows "ctr_ids (store_proposal i k r) = insert i (ctr_ids st)"
proof -
  obtain c' p' st' where r: "r = (c', p', st')" by (rule prod_cases3)
  have "same_tables st st'" using proposal_frame [of c' p' st' c p st] assms r by auto
  then show ?thesis by (simp add: r store_proposal_def ctr_ids_upd) (simp add: ctr_ids_def same_tables_def)
qed

lemma ctr_ids_exec: "tx_contract_exec st tx blockTime = TxOk st' \<Longrightarrow> ctr_ids st' = ctr_ids st"
proof -
  assume ok: "tx_contract_exec st tx blockTime = TxOk st'"
  then obtain c where c: "fmlookup (st_Contracts st) (tx_ContractID tx) = Some c" and a: "ct_Status c = Active"
    by (auto simp: tx_contract_exec_def Let_def split: option.splits if_splits)
  have ins: "insert (tx_ContractID tx) (ctr_ids st) = ctr_ids st"
    using c by (auto simp: ctr_ids_def fmlookup_dom_iff)
  have bal: "ctr_ids (bal_add u t x st) = ctr_ids st" for u t x by (simp add: ctr_ids_def)
  note store = ctr_ids_store [OF disjI1 [OF refl]] ctr_ids_store [OF disjI2 [OF refl]]
  have v: "vesting_claim st tx blockTime c = TxOk st' \<Longrightarrow> ?thesis"
    by (auto simp: vesting_claim_def Let_def ctr_ids_upd bal ins split: if_splits)
  have e: "escrow_release st tx c = TxOk st' \<Longrightarrow> ?thesis" "escrow_refund st tx c = TxOk st' \<Longrightarrow> ?thesis"
    by (auto simp: escrow_release_def escrow_refund_def ctr_ids_upd bal ins split: if_splits)
  have m: "multisig_propose st tx c = TxOk st' \<Longrightarrow> ?thesis" "multisig_approve st tx c = TxOk st' \<Longrightarrow> ?thesis"
    "dao_propose st tx c = TxOk st' \<Longrightarrow> ?thesis" "dao_vote st tx c = TxOk st' \<Longrightarrow> ?thesis"
    by (auto simp: store multisig_propose_def multisig_approve_def dao_propose_def dao_vote_def Let_def ins split: if_splits)
  from ok c a show ?thesis
    by (simp only: tx_contract_exec_def Let_def option.case split: if_split_asm) ((rule v e m; assumption) | simp)+
qed

lemma ctr_ids_dispatch:
  assumes "tx_dispatch E st tx blockTime = TxOk st'"
  shows "ctr_ids st' \<subseteq> ctr_ids st \<union> (if tx_Type tx = TxContractCreate then {tx_hash E tx} else {})"
proof -
  define Q where "Q \<longleftrightarrow> ctr_ids st' \<subseteq> ctr_ids st \<union> (if tx_Type tx = TxContractCreate then {tx_hash E tx} else {})"
  have same: "same_tables st st' \<Longrightarrow> Q" by (auto simp: Q_def same_tables_def ctr_ids_def)
  have create: "tx_create_token st tx = TxOk st' \<Longrightarrow> Q"
    using tokens_create [of st tx st' E] by (auto simp: Q_def ctr_ids_def)
  have mint: "tx_mint st tx = TxOk st' \<Longrightarrow> Q"
    using tokens_mint [of st tx st'] by (auto simp: Q_def ctr_ids_def)
  have new: "tx_contract_create E st tx = TxOk st' \<Longrightarrow> tx_Type tx = TxContractCreate \<Longrightarrow> Q"
    by (auto simp: Q_def tx_contract_create_def ctr_ids_upd split: option.splits if_splits) (simp_all add: ctr_ids_def)
  have exec: "tx_contract_exec st tx blockTime = TxOk st' \<Longrightarrow> Q"
    using ctr_ids_exec [of st tx blockTime st'] by (auto simp: Q_def)
  from assms have Q
    by (rule dispatch_cases) (blast intro: create mint new exec same same_tables_handlers same_tables_shielded same_tables_wasm)+
  then show ?thesis by (simp add: Q_def)
qed

lemma charge_frame:
  "ledger_ok (charge_fees tx proposer burn st) = ledger_ok st" "ctr_ids (charge_fees tx proposer burn st) = ctr_ids st"
proof -
  have "st_Tokens (charge_fees tx proposer burn st) = st_Tokens st" "st_Contracts (charge_fees tx proposer burn st) = st_Contracts st"
    by (simp_all add: charge_fees_def Let_def)
  then show "ledger_ok (charge_fees tx proposer burn st) = ledger_ok st" "ctr_ids (charge_fees tx proposer burn st) = ctr_ids st"
    by (simp_all add: ledger_ok_def native_unlisted_def escrow_unreleased_def ctr_ids_def)
qed

lemma touch_frame [simp]:
  "ledger_ok (touch a st) = ledger_ok st" "ctr_ids (touch a st) = ctr_ids st" "tx_sane E (touch a st) tx = tx_sane E st tx"
  by (simp_all add: ledger_ok_def native_unlisted_def escrow_unreleased_def ctr_ids_def tx_sane_def)

text \<open>One transaction, whatever its outcome.\<close>

definition outcome_state :: "outcome \<Rightarrow> state option" where
  "outcome_state r = (case r of Applied st \<Rightarrow> Some st | Rejected _ st \<Rightarrow> Some st | _ \<Rightarrow> None)"

lemma apply_tx_cases:
  assumes "outcome_state (apply_tx E st tx proposer blockTime) = Some st'"
  obtains "apply_tx E st tx proposer blockTime = Applied st'"
      and "\<exists>st1. tx_dispatch E (touch (tx_From tx) st) tx blockTime = TxOk st1
             \<and> st' = charge_fees tx proposer (tx_burn (touch (tx_From tx) st) tx) st1"
    | e where "apply_tx E st tx proposer blockTime = Rejected e st'" and "st' = touch (tx_From tx) st"
  using assms by (auto simp: outcome_state_def apply_tx_def Let_def split: tx_res.splits)

lemma apply_tx_step:
  assumes "outcome_state (apply_tx E st tx proposer blockTime) = Some st'" "tx_sane E st tx" "ledger_ok st"
  shows "surplus tok st' = surplus tok st \<and> ledger_ok st'
    \<and> ctr_ids st' \<subseteq> ctr_ids st \<union> (if tx_Type tx = TxContractCreate then {tx_hash E tx} else {})"
  using assms(1)
proof (cases rule: apply_tx_cases)
  case 1
  then obtain st1 where d: "tx_dispatch E (touch (tx_From tx) st) tx blockTime = TxOk st1"
    and st': "st' = charge_fees tx proposer (tx_burn (touch (tx_From tx) st) tx) st1" by blast
  have s: "tx_sane E (touch (tx_From tx) st) tx" "ledger_ok (touch (tx_From tx) st)" using assms(2,3) by simp_all
  show ?thesis
    using conserve_dispatch [OF d s] ledger_ok_dispatch [OF d s] ctr_ids_dispatch [OF d]
    by (simp add: st' surplus_simps charge_frame)
next
  case 2
  with assms(3) show ?thesis by (simp add: surplus_simps)
qed

subsection \<open>A block\<close>

text \<open>The contracts a list of transactions creates are new and distinct.\<close>

definition created_ids :: "'z chain_ext_scheme \<Rightarrow> transaction list \<Rightarrow> string list" where
  "created_ids E txs = map (tx_hash E) (filter (\<lambda>tx. tx_Type tx = TxContractCreate) txs)"

definition txs_sane :: "'z chain_ext_scheme \<Rightarrow> state \<Rightarrow> transaction list \<Rightarrow> bool" where
  "txs_sane E st txs \<longleftrightarrow>
     (\<forall>tx \<in> set txs. \<forall>tp. tx_Token tx = Some tp \<longrightarrow> tp_Symbol tp \<noteq> NativeToken)
     \<and> distinct (created_ids E txs) \<and> set (created_ids E txs) \<inter> ctr_ids st = {}"

lemma txs_sane_Cons:
  assumes "txs_sane E st (tx # txs)"
  shows "tx_sane E st tx"
    and "ctr_ids st' \<subseteq> ctr_ids st \<union> (if tx_Type tx = TxContractCreate then {tx_hash E tx} else {}) \<Longrightarrow> txs_sane E st' txs"
proof -
  show "tx_sane E st tx"
    using assms by (auto simp: txs_sane_def tx_sane_def created_ids_def ctr_ids_def fmlookup_dom_iff)
  show "txs_sane E st' txs" if "ctr_ids st' \<subseteq> ctr_ids st \<union> (if tx_Type tx = TxContractCreate then {tx_hash E tx} else {})"
  proof -
    have "created_ids E (tx # txs) = (if tx_Type tx = TxContractCreate then [tx_hash E tx] else []) @ created_ids E txs"
      by (simp add: created_ids_def)
    with assms that show ?thesis unfolding txs_sane_def
      by (cases "tx_Type tx = TxContractCreate") (simp_all, blast+)
  qed
qed

lemma run_txs_surplus:
  "run_txs E proposer blockTime strict txs applied failed st = Ran applied' failed' st'
     \<or> run_txs E proposer blockTime strict txs applied failed st = Stopped h e st'
   \<Longrightarrow> txs_sane E st txs \<Longrightarrow> ledger_ok st \<Longrightarrow> surplus tok st' = surplus tok st \<and> ledger_ok st'"
proof (induction txs arbitrary: applied failed st)
  case (Cons tx txs)
  have step: "outcome_state (apply_tx E st tx proposer blockTime) = Some st1 \<Longrightarrow>
      surplus tok st1 = surplus tok st \<and> ledger_ok st1 \<and> txs_sane E st1 txs" for st1
    using apply_tx_step [OF _ txs_sane_Cons(1) [OF Cons.prems(2)] Cons.prems(3), of proposer blockTime st1 tok]
      txs_sane_Cons(2) [OF Cons.prems(2), of st1] by blast
  show ?case
  proof (cases "apply_tx E st tx proposer blockTime")
    case (Applied st1)
    with Cons.IH [of "applied @ [tx]" failed st1] Cons.prems step [of st1] show ?thesis
      by (simp add: outcome_state_def)
  next
    case (Rejected e1 st1)
    with Cons.IH [of applied "failed @ [(tx_hash E tx, e1)]" st1] Cons.prems step [of st1] show ?thesis
      by (auto simp: outcome_state_def split: if_splits)
  qed (use Cons.prems in simp_all)
qed simp

lemma slash_frame: "st_Tokens (slash E w h b st) = st_Tokens st \<and> st_Contracts (slash E w h b st) = st_Contracts st"
  by (auto simp: slash_def slash_weight_def Let_def split: option.split prod.split)

lemma miss_frame: "st_Tokens (miss_slot b a st) = st_Tokens st \<and> st_Contracts (miss_slot b a st) = st_Contracts st"
  by (auto simp: miss_slot_def slash_weight_def Let_def split: option.split prod.split)

lemma fold_release_frame:
  "st_Tokens (fold release_one us st) = st_Tokens st \<and> st_Contracts (fold release_one us st) = st_Contracts st"
  by (induction us arbitrary: st) (auto simp: release_one_def)

lemma begin_block_frame:
  "st_Tokens (begin_block E evs absent proposer blockTime st) = st_Tokens st
   \<and> st_Contracts (begin_block E evs absent proposer blockTime st) = st_Contracts st"
proof -
  have s: "st_Tokens (fold (\<lambda>ev. slash E (ev_Voter ev) (ev_Height ev) blockTime) evs st) = st_Tokens st
    \<and> st_Contracts (fold (\<lambda>ev. slash E (ev_Voter ev) (ev_Height ev) blockTime) evs st) = st_Contracts st" for st
    by (induction evs arbitrary: st) (simp_all add: slash_frame)
  have m: "st_Tokens (fold (miss_slot blockTime) absent st) = st_Tokens st
    \<and> st_Contracts (fold (miss_slot blockTime) absent st) = st_Contracts st" for st
    by (induction absent arbitrary: st) (simp_all add: miss_frame)
  show ?thesis
    by (simp add: begin_block_def Let_def apply_downtime_def m s release_unbonded_def fold_release_frame split: option.split)
qed

lemma surplus_begin_block:
  assumes "range_ok E"
  shows "surplus tok (begin_block E evs absent proposer blockTime st) = surplus tok st"
proof -
  have "surplus tok (fold (\<lambda>ev. slash E (ev_Voter ev) (ev_Height ev) blockTime) evs st) = surplus tok st" for st
    by (induction evs arbitrary: st) (simp_all add: surplus_slash assms)
  then show ?thesis by (simp add: begin_block_def Let_def surplus_simps)
qed

lemma surplus_base_fee [surplus_simps]: "surplus tok (st\<lparr>st_BaseFee := f\<rparr>) = surplus tok st"
  by (simp add: surplus_defs)

lemma execute_conserves:
  assumes "execute E txs evs absent proposer blockTime strict st = Executed applied failed root st'"
    and "range_ok E" "txs_sane E st txs" "ledger_ok st"
  shows "surplus tok st' = surplus tok st"
proof -
  let ?b = "begin_block E evs absent proposer blockTime st"
  obtain st1 where r: "run_txs E proposer blockTime strict txs [] [] ?b = Ran applied failed st1"
    and s: "surplus tok st' = surplus tok (pay_reward proposer st1)"
    using assms(1) by (auto simp: execute_def Let_def surplus_simps split: run_txs_result.splits option.splits)
  have "txs_sane E ?b txs" "ledger_ok ?b"
    using assms(3,4) begin_block_frame [of E evs absent proposer blockTime st]
    by (simp_all add: txs_sane_def ctr_ids_def ledger_ok_def native_unlisted_def escrow_unreleased_def)
  then have "surplus tok st1 = surplus tok ?b" using run_txs_surplus r by blast
  then show ?thesis by (simp add: s surplus_simps surplus_begin_block [OF assms(2)])
qed

end
