(* ===== verification/Frames.thy ===== *)
theory Frames
  imports Conserve
begin

text \<open>
  What the transactions leave alone: nonces, existing accounts, spent nullifiers, slashed faults.
  Each collection gives the effect of the primitive updates; the handlers follow by simplification
  and \<open>tx_dispatch\<close> by its case rule.
\<close>

named_theorems frame_simps \<open>nonces and accounts under the primitive updates\<close>

definition acct_ex :: "state \<Rightarrow> string \<Rightarrow> bool" where
  "acct_ex st a \<longleftrightarrow> fmlookup (st_Accounts st) a \<noteq> None"

lemma nonce_acct: "nonce_of st a = ac_Nonce (acct st a)"
  by (simp add: nonce_of_def acct_def fresh_account_def split: option.split)

lemma acct_acct_upd [simp]: "acct (acct_upd u f st) a = (if a = u then f (acct st u) else acct st a)"
  by (simp add: acct_def acct_upd_def)

lemma acct_touch [simp]: "acct (touch u st) a = acct st a"
  by (auto simp: touch_def acct_def acct_upd_def fresh_account_def split: option.split)

lemma nonce_acct_upd [frame_simps]:
  "(\<And>x. ac_Nonce (f x) = ac_Nonce x) \<Longrightarrow> nonce_of (acct_upd u f st) a = nonce_of st a"
  by (simp add: nonce_acct)

lemma acct_ex_upd [frame_simps]: "acct_ex (acct_upd u f st) a \<longleftrightarrow> a = u \<or> acct_ex st a"
  by (simp add: acct_ex_def acct_upd_def)

lemma nonce_prims [frame_simps]:
  "nonce_of (bal_add u t x st) a = nonce_of st a" "nonce_of (bal_sub u t x st) a = nonce_of st a"
  "nonce_of (touch u st) a = nonce_of st a"
  by (simp_all add: bal_add_def bal_sub_def nonce_acct)

lemma acct_ex_prims [frame_simps]:
  "acct_ex (bal_add u t x st) a \<longleftrightarrow> a = u \<or> acct_ex st a" "acct_ex (bal_sub u t x st) a \<longleftrightarrow> a = u \<or> acct_ex st a"
  "acct_ex (touch u st) a \<longleftrightarrow> a = u \<or> acct_ex st a"
  by (auto simp: bal_add_def bal_sub_def touch_def frame_simps) (auto simp: acct_ex_def)

lemma accounts_same:
  "st_Accounts st' = st_Accounts st \<Longrightarrow> nonce_of st' a = nonce_of st a"
  "st_Accounts st' = st_Accounts st \<Longrightarrow> acct_ex st' a = acct_ex st a"
  by (simp_all add: nonce_of_def acct_ex_def)

lemma accounts_prims [simp]:
  "st_Accounts (val_upd u v st) = st_Accounts st" "st_Accounts (del_validator u st) = st_Accounts st"
  "st_Accounts (ctr_upd i c st) = st_Accounts st" "st_Accounts (set_pool p st) = st_Accounts st"
  by (simp_all add: val_upd_def del_validator_def ctr_upd_def set_pool_def)

text \<open>\<open>keeps st st'\<close>: nonces are unchanged and no account disappears.\<close>

definition keeps :: "state \<Rightarrow> state \<Rightarrow> bool" where
  "keeps st st' \<longleftrightarrow> (\<forall>a. nonce_of st' a = nonce_of st a \<and> (acct_ex st a \<longrightarrow> acct_ex st' a))"

lemma keeps_refl [simp]: "keeps st st"
  by (simp add: keeps_def)

lemma keeps_trans: "keeps st st' \<Longrightarrow> keeps st' st'' \<Longrightarrow> keeps st st''"
  by (simp add: keeps_def)

lemma keeps_same: "st_Accounts st' = st_Accounts st \<Longrightarrow> keeps st st'"
  by (simp add: keeps_def nonce_of_def acct_ex_def)

lemma keeps_cong: "st_Accounts st2 = st_Accounts st1 \<Longrightarrow> keeps st' st2 = keeps st' st1"
  by (simp add: keeps_def nonce_of_def acct_ex_def)

lemma keeps_prims [simp]:
  "keeps st' (val_upd u v st) = keeps st' st" "keeps st' (del_validator u st) = keeps st' st"
  "keeps st' (ctr_upd i c st) = keeps st' st" "keeps st' (set_pool p st) = keeps st' st"
  "keeps st' (burn_supply x st) = keeps st' st" "keeps st' (mint_supply x st) = keeps st' st"
  "keeps st' (add_unbonding u x b st) = keeps st' st" "keeps st' (unbond_delegators as v b st) = keeps st' st"
  by (rule keeps_cong, simp)+

lemma keeps_bal [simp]:
  "keeps st' st \<Longrightarrow> keeps st' (bal_add u t x st)" "keeps st' st \<Longrightarrow> keeps st' (bal_sub u t x st)"
  "keeps st' st \<Longrightarrow> keeps st' (touch u st)"
  by (simp_all add: keeps_def frame_simps)

lemma keeps_acct_upd [simp]:
  "(\<And>x. ac_Nonce (f x) = ac_Nonce x) \<Longrightarrow> keeps st' st \<Longrightarrow> keeps st' (acct_upd u f st)"
  by (simp add: keeps_def frame_simps)

lemma keeps_tables [simp]:
  "keeps st' (st\<lparr>st_Tokens := m\<rparr>) = keeps st' st" "keeps st' (st\<lparr>st_WasmContracts := w\<rparr>) = keeps st' st"
  by (simp_all add: keeps_def nonce_of_def acct_ex_def)

lemma keeps_proposal:
  assumes "r = maybe_execute_multisig c p st \<or> r = maybe_resolve_dao c p st"
  shows "keeps st (store_proposal i k r)"
proof -
  obtain c' p' st' where r: "r = (c', p', st')" by (rule prod_cases3)
  have "keeps st st'"
    using assms r by (auto simp: maybe_execute_multisig_def maybe_resolve_dao_def pay_proposal_def Let_def split: if_splits)
  then show ?thesis by (simp add: r store_proposal_def)
qed

lemma keeps_fold_credit: "keeps st' st \<Longrightarrow> keeps st' (fold credit_transfer ts st)"
  by (induction ts arbitrary: st) (auto simp: credit_transfer_def split: prod.split)

lemma keeps_tokens:
  "tx_transfer st tx = TxOk st' \<Longrightarrow> keeps st st'" "tx_create_token st tx = TxOk st' \<Longrightarrow> keeps st st'"
  "tx_mint st tx = TxOk st' \<Longrightarrow> keeps st st'"
  by (auto simp: tx_transfer_def tx_create_token_def tx_mint_def Let_def split: if_splits option.splits)

lemma keeps_validators:
  "tx_stake st tx = TxOk st' \<Longrightarrow> keeps st st'" "tx_unjail st tx blockTime = TxOk st' \<Longrightarrow> keeps st st'"
  "tx_validator_profile st tx = TxOk st' \<Longrightarrow> keeps st st'" "tx_unstake st tx blockTime = TxOk st' \<Longrightarrow> keeps st st'"
  "tx_delegate st tx = TxOk st' \<Longrightarrow> keeps st st'" "tx_undelegate st tx blockTime = TxOk st' \<Longrightarrow> keeps st st'"
  by (auto simp: tx_stake_def tx_unjail_def tx_validator_profile_def tx_unstake_def tx_delegate_def
      tx_undelegate_def Let_def split: if_splits option.splits)

lemma keeps_contracts:
  "tx_contract_create E st tx = TxOk st' \<Longrightarrow> keeps st st'"
  "tx_contract_exec st tx blockTime = TxOk st' \<Longrightarrow> keeps st st'"
proof -
  show "tx_contract_create E st tx = TxOk st' \<Longrightarrow> keeps st st'"
    by (auto simp: tx_contract_create_def split: if_splits option.splits)
  note store = keeps_proposal [OF disjI1 [OF refl]] keeps_proposal [OF disjI2 [OF refl]]
  have parts: "vesting_claim st tx blockTime c = TxOk st' \<Longrightarrow> keeps st st'" "escrow_release st tx c = TxOk st' \<Longrightarrow> keeps st st'"
    "escrow_refund st tx c = TxOk st' \<Longrightarrow> keeps st st'" "multisig_propose st tx c = TxOk st' \<Longrightarrow> keeps st st'"
    "multisig_approve st tx c = TxOk st' \<Longrightarrow> keeps st st'" "dao_propose st tx c = TxOk st' \<Longrightarrow> keeps st st'"
    "dao_vote st tx c = TxOk st' \<Longrightarrow> keeps st st'" for c
    by (auto simp: vesting_claim_def escrow_release_def escrow_refund_def multisig_propose_def
        multisig_approve_def dao_propose_def dao_vote_def Let_def store split: if_splits)
  show "tx_contract_exec st tx blockTime = TxOk st' \<Longrightarrow> keeps st st'"
    unfolding tx_contract_exec_def Let_def
    by (simp only: split: option.split_asm if_split_asm) ((rule parts; assumption) | simp)+
qed

lemma keeps_shielded:
  "tx_shield E st tx = TxOk st' \<Longrightarrow> keeps st st'" "tx_shielded_transfer E st tx = TxOk st' \<Longrightarrow> keeps st st'"
  "tx_unshield E st tx = TxOk st' \<Longrightarrow> keeps st st'"
  by (auto simp: tx_shield_def tx_shielded_transfer_def tx_unshield_def shield_res_TxOk Let_def split: if_splits)

lemma keeps_wasm:
  "tx_wasm_deploy E st tx = TxOk st' \<Longrightarrow> keeps st st'" "tx_wasm_call E st tx = TxOk st' \<Longrightarrow> keeps st st'"
  by (auto simp: tx_wasm_deploy_def tx_wasm_call_def commit_call_def Let_def keeps_fold_credit
      split: if_splits option.splits wres.splits prod.splits)

lemma keeps_dispatch: "tx_dispatch E st tx blockTime = TxOk st' \<Longrightarrow> keeps st st'"
  by (erule dispatch_cases) (blast intro: keeps_tokens keeps_validators keeps_contracts keeps_shielded keeps_wasm)+

lemma charge_accounts:
  "nonce_of (charge_fees tx proposer burn st) a = nonce_of st a + (if a = tx_From tx then 1 else 0)"
  "acct_ex st a \<Longrightarrow> acct_ex (charge_fees tx proposer burn st) a"
proof -
  define st1 where "st1 = burn_supply burn (bal_sub (tx_From tx) NativeToken (burn + tx_Tip tx) st)"
  define st2 where "st2 = (if proposer \<noteq> [] then bal_add proposer NativeToken (tx_Tip tx) st1 else burn_supply (tx_Tip tx) st1)"
  have c: "charge_fees tx proposer burn st = bump_nonce (tx_From tx) st2"
    by (simp add: charge_fees_def st1_def st2_def)
  have k: "keeps st st2" by (simp add: st1_def st2_def)
  show "nonce_of (charge_fees tx proposer burn st) a = nonce_of st a + (if a = tx_From tx then 1 else 0)"
    using k by (simp add: c bump_nonce_def keeps_def nonce_acct)
  show "acct_ex st a \<Longrightarrow> acct_ex (charge_fees tx proposer burn st) a"
    using k by (simp add: c bump_nonce_def keeps_def frame_simps)
qed

lemma apply_tx_nonce:
  assumes "apply_tx E st tx proposer blockTime = Applied st'"
  shows "tx_Nonce tx = nonce_of st (tx_From tx)"
    and "nonce_of st' a = nonce_of st a + (if a = tx_From tx then 1 else 0)"
    and "acct_ex st a \<Longrightarrow> acct_ex st' a"
proof -
  let ?t = "touch (tx_From tx) st"
  obtain st1 where g: "tx_guards ?t tx = TxOk ()" and d: "tx_dispatch E ?t tx blockTime = TxOk st1"
    and st': "st' = charge_fees tx proposer (tx_burn ?t tx) st1"
    using assms by (auto simp: apply_tx_def Let_def split: tx_res.splits)
  show "tx_Nonce tx = nonce_of st (tx_From tx)"
    using g by (auto simp: tx_guards_def nonce_acct split: if_splits)
  have k: "keeps ?t st1" using d by (rule keeps_dispatch)
  show "nonce_of st' a = nonce_of st a + (if a = tx_From tx then 1 else 0)"
    using k by (simp add: st' charge_accounts keeps_def frame_simps)
  show "acct_ex st a \<Longrightarrow> acct_ex st' a"
    using k unfolding st' by (intro charge_accounts(2)) (simp add: keeps_def frame_simps)
qed

end
