(* ===== verification/LedgerProps.thy ===== *)
theory LedgerProps
  imports Frames
begin

text \<open>
  Properties of the state machine (\<^verbatim>\<open>internal/state/state.go\<close>), and a small concrete chain on which
  their witnesses run it.
\<close>

subsection \<open>A concrete chain\<close>

definition sample_ext :: chain_ext where
  "sample_ext = \<lparr>x_sha3 = (\<lambda>b. take 32 (b @ replicate 32 0)), x_pub_ok = (\<lambda>_. True), x_verify = (\<lambda>_ _ _. True),
     x_tx_json = (\<lambda>tx. be64 (tx_Nonce tx) @ str_bytes (tx_From tx)), x_vote_json = (\<lambda>v. []),
     x_evidence_json = (\<lambda>e. []), x_header_json = (\<lambda>h. []),
     x_vm = (\<lambda>m f args s. VmReturn [HTransfer (str_bytes ''cg02'') 5] [] (Some 0)),
     x_poseidon = \<lparr>pp_points = [], pp_rc = []\<rparr>, x_spend_proof_ok = (\<lambda>_. True), x_verify_spend = (\<lambda>_ _. True),
     x_range = sorted_keys, x_state_json = (\<lambda>st. map (\<lambda>_. 1) (sorted_keys (st_Accounts st))), x_item_json = (\<lambda>_. [])\<rparr>"

definition sample_account :: "string \<Rightarrow> u64 \<Rightarrow> account" where
  "sample_account a x = \<lparr>ac_Address = a, ac_Balances = fmap_of_list [(NativeToken, x)], ac_Nonce = 0, ac_Staked = 0\<rparr>"

definition sample_validator :: validator where
  "sample_validator = (fresh_validator ''val1'')\<lparr>va_Stake := 10000 * Unit\<rparr>"

definition sample_state :: state where
  "sample_state = (new_state default_params)\<lparr>
     st_Accounts := fmap_of_list [(''cg01'', sample_account ''cg01'' (100 * Unit))],
     st_Validators := fmap_of_list [(''val1'', sample_validator)],
     st_Supply := \<lparr>su_Total = 10100 * Unit, su_Minted = 10100 * Unit, su_Burned = 0\<rparr>,
     st_BaseFee := 100000\<rparr>"

definition transfer_of :: "string \<Rightarrow> string \<Rightarrow> u64 \<Rightarrow> u64 \<Rightarrow> transaction" where
  "transfer_of from to amount nonce = \<lparr>tx_ChainID = ''c'', tx_Type = TxTransfer, tx_From = from, tx_FromPubKey = [],
     tx_To = to, tx_TokenID = NativeToken, tx_Amount = amount, tx_Nonce = nonce, tx_MaxBaseFee = 100000, tx_Tip = 7,
     tx_Private = False, tx_Memo = '''', tx_Token = None, tx_Contract = None, tx_ContractID = '''',
     tx_Action = '''', tx_Proposal = 0, tx_Code = [], tx_Args = [], tx_Gas = 0,
     tx_ShieldCommitment = [], tx_ShieldNote = [], tx_SpendProof = [], tx_SpendPublic = [],
     tx_Timestamp = 0, tx_Signature = []\<rparr>"

definition was_applied :: "outcome \<Rightarrow> bool" where
  "was_applied r \<longleftrightarrow> (case r of Applied _ \<Rightarrow> True | _ \<Rightarrow> False)"

lemma was_appliedE: "was_applied r \<Longrightarrow> (\<And>st. r = Applied st \<Longrightarrow> P) \<Longrightarrow> P"
  by (cases r) (auto simp: was_applied_def)

definition was_executed :: "exec_result \<Rightarrow> bool" where
  "was_executed r \<longleftrightarrow> (case r of Executed _ _ _ _ \<Rightarrow> True | _ \<Rightarrow> False)"

lemma sample_transfer_applied:
  "was_applied (apply_tx sample_ext sample_state (transfer_of ''cg01'' ''cg02'' 5000 0) ''val1'' 0)"
  by code_simp

lemma sample_executed:
  "was_executed (execute sample_ext [transfer_of ''cg01'' ''cg02'' 5000 0, transfer_of ''cg01'' ''cg03'' 1 1] [] [] ''val1'' 1000 False sample_state)"
  by code_simp

subsection \<open>Conservation\<close>

lemma sample_sane:
  "tx_sane sample_ext sample_state (transfer_of from to x n)" "ledger_ok sample_state"
  by (simp_all add: tx_sane_def transfer_of_def ledger_ok_def native_unlisted_def escrow_unreleased_def
      sample_state_def new_state_def tx_type_defs)





subsection \<open>Rejection and replay\<close>

lemma apply_tx_Rejected: "apply_tx E st tx proposer blockTime = Rejected e st' \<Longrightarrow> st' = touch (tx_From tx) st"
  by (auto simp: apply_tx_def Let_def split: tx_res.splits)

lemma same_accounts: "st' = st\<lparr>st_Accounts := A\<rparr> \<Longrightarrow> A = st_Accounts st \<Longrightarrow> st' = st"
  by simp



text \<open>
  C4. An applied transaction carried the sender's current nonce, moves that nonce and no other by
  one, and can therefore not be applied to the resulting state a second time.
\<close>

theorem applied_cannot_be_replayed:
  assumes "apply_tx E st tx proposer blockTime = Applied st'"
  shows "tx_Nonce tx = nonce_of st (tx_From tx)
    \<and> (\<forall>a. nonce_of st' a = nonce_of st a + (if a = tx_From tx then 1 else 0))
    \<and> apply_tx E st' tx proposer' blockTime' = Rejected EBadNonce (touch (tx_From tx) st')"
proof -
  have n: "nonce_of st' (tx_From tx) = tx_Nonce tx + 1"
    using apply_tx_nonce(1,2) [OF assms] by simp
  then have "tx_Nonce tx \<noteq> ac_Nonce (acct st' (tx_From tx))" by (simp add: nonce_acct [symmetric])
  then have "apply_tx E st' tx proposer' blockTime' = Rejected EBadNonce (touch (tx_From tx) st')"
    by (simp add: apply_tx_def Let_def tx_guards_def)
  with apply_tx_nonce [OF assms] show ?thesis by simp
qed

theorem applied_cannot_be_replayed_witness:
  "\<exists>st'. apply_tx sample_ext sample_state (transfer_of ''cg01'' ''cg02'' 5000 0) ''val1'' 0 = Applied st'
     \<and> nonce_of st' ''cg01'' = nonce_of sample_state ''cg01'' + 1"
proof -
  obtain st' where st': "apply_tx sample_ext sample_state (transfer_of ''cg01'' ''cg02'' 5000 0) ''val1'' 0 = Applied st'"
    using sample_transfer_applied by (rule was_appliedE)
  from applied_cannot_be_replayed [OF st'] have "nonce_of st' ''cg01'' = nonce_of sample_state ''cg01'' + 1"
    by (auto simp: transfer_of_def)
  with st' show ?thesis by blast
qed

end
