(* ===== verification/Replay.thy ===== *)
theory Replay
  imports LedgerProps
begin

text \<open>
  Proposer and follower: a proposer runs the mempool's transactions with \<open>strict = False\<close> and puts
  the applied ones in the block, the other nodes run that block with \<open>strict = True\<close>. The theory
  shows when the two runs agree, when they cannot, and what unchecked sums in the fees allow.
\<close>

subsection \<open>Accounts never disappear\<close>

lemma keeps_fold: "(\<And>x s. keeps s (f x s)) \<Longrightarrow> keeps st (fold f xs st)"
  by (induction xs arbitrary: st) (auto intro: keeps_trans)

lemma keeps_slashed [simp]:
  "keeps st' (st\<lparr>st_Slashed := x\<rparr>) = keeps st' st" "keeps (st\<lparr>st_Slashed := x\<rparr>) st' = keeps st st'"
  by (simp_all add: keeps_def nonce_of_def acct_ex_def)

lemma keeps_begin:
  "keeps st (release_unbonded t st)" "keeps st (slash E v h t st)" "keeps st (apply_downtime p miss t st)"
proof -
  have "keeps st (fold release_one us st)" for us
    by (rule keeps_fold) (simp add: release_one_def)
  then show "keeps st (release_unbonded t st)"
    unfolding release_unbonded_def by (rule keeps_trans) (rule keeps_same, simp)
  have sw: "keeps s s'" if "slash_weight v bps s = (v', s')" for v bps s v' s'
    using that by (auto simp: slash_weight_def Let_def lower_staked_def intro!: keeps_acct_upd split: prod.splits if_splits)
  show "keeps st (slash E v h t st)"
    by (auto simp: slash_def Let_def split: option.split prod.split dest!: sw)
  have "keeps s (miss_slot t a s)" for a s
    by (auto simp: miss_slot_def Let_def split: option.split prod.split dest!: sw)
  then have "keeps s (fold (miss_slot t) miss s)" for s by (rule keeps_fold)
  then show "keeps st (apply_downtime p miss t st)"
    unfolding apply_downtime_def by (rule keeps_trans [rotated]) (auto split: option.split)
qed

lemma acct_ex_begin: "acct_ex st a \<Longrightarrow> acct_ex (begin_block E evs absent proposer blockTime st) a"
proof -
  let ?st2 = "fold (\<lambda>ev. slash E (ev_Voter ev) (ev_Height ev) blockTime) evs (release_unbonded blockTime st)"
  have "keeps (release_unbonded blockTime st) ?st2" by (rule keeps_fold) (rule keeps_begin)
  then have k: "keeps st ?st2" by (rule keeps_trans [OF keeps_begin(1)])
  then have "keeps st (apply_downtime proposer absent blockTime ?st2)" by (rule keeps_trans [OF _ keeps_begin(3)])
  with k have "keeps st (begin_block E evs absent proposer blockTime st)" by (simp add: begin_block_def Let_def)
  then show "acct_ex st a \<Longrightarrow> acct_ex (begin_block E evs absent proposer blockTime st) a" by (simp add: keeps_def)
qed

subsection \<open>The strict run of the applied transactions\<close>

lemma touch_ex [simp]: "acct_ex st a \<Longrightarrow> touch a st = st"
  by (auto simp: touch_def acct_ex_def)

lemma run_txs_replay:
  assumes "run_txs E p t False txs ap fl st = Ran applied failed st'" and "\<forall>tx \<in> set txs. acct_ex st (tx_From tx)"
  shows "\<exists>new. applied = ap @ new \<and> (\<forall>ap2 fl2. run_txs E p t True new ap2 fl2 st = Ran (ap2 @ new) fl2 st')"
  using assms
proof (induction txs arbitrary: ap fl st)
  case (Cons tx txs)
  show ?case
  proof (cases "apply_tx E st tx p t")
    case (Applied st1)
    have "\<forall>tx' \<in> set txs. acct_ex st1 (tx_From tx')" using Cons.prems(2) apply_tx_nonce(3) [OF Applied] by simp
    moreover have "run_txs E p t False txs (ap @ [tx]) fl st1 = Ran applied failed st'"
      using Cons.prems(1) Applied by simp
    ultimately obtain new where "applied = (ap @ [tx]) @ new"
      "\<forall>ap2 fl2. run_txs E p t True new ap2 fl2 st1 = Ran (ap2 @ new) fl2 st'" using Cons.IH by blast
    then have "applied = ap @ tx # new"
      "\<forall>ap2 fl2. run_txs E p t True (tx # new) ap2 fl2 st = Ran (ap2 @ tx # new) fl2 st'"
      by (simp_all add: Applied)
    then show ?thesis by blast
  next
    case (Rejected e st1)
    then have "st1 = st" using apply_tx_Rejected [OF Rejected] Cons.prems(2) by simp
    then show ?thesis using Cons.IH Cons.prems Rejected by simp
  qed (use Cons.prems(1) in simp_all)
qed simp

lemma follower_run:
  assumes "execute E txs evs absent proposer blockTime False st = Executed applied failed root st'"
    and "\<forall>tx \<in> set txs. acct_ex st (tx_From tx)"
  shows "execute E applied evs absent proposer blockTime True st = Executed applied [] root st'"
proof -
  let ?st1 = "begin_block E evs absent proposer blockTime st"
  obtain st2 where r: "run_txs E proposer blockTime False txs [] [] ?st1 = Ran applied failed st2"
    and tail: "execute E txs evs absent proposer blockTime False st = Executed applied failed root st'"
    using assms(1) by (auto simp: execute_def Let_def split: run_txs_result.splits option.splits)
  have "\<forall>tx \<in> set txs. acct_ex ?st1 (tx_From tx)" using assms(2) acct_ex_begin by blast
  from run_txs_replay [OF r this] have "run_txs E proposer blockTime True applied [] [] ?st1 = Ran applied [] st2"
    by auto
  with r tail show ?thesis by (auto simp: execute_def Let_def split: option.splits)
qed



definition executed_root :: "exec_result \<Rightarrow> string option" where
  "executed_root r = (case r of Executed _ _ root _ \<Rightarrow> Some root | _ \<Rightarrow> None)"


subsection \<open>Sums that wrap\<close>

lemma touch_fields [simp]: "st_Params (touch a st) = st_Params st" "st_BaseFee (touch a st) = st_BaseFee st"
  by (simp_all add: touch_def acct_upd_def)

lemma bal_prims [simp]:
  "bal (touch u st) a t = bal st a t" "bal (burn_supply x st) a t = bal st a t" "bal (bump_nonce u st) a t = bal st a t"
  "bal (bal_add u t' x st) a t = bal st a t + (if a = u \<and> t = t' then x else 0)"
  "bal (bal_sub u t' x st) a t = bal st a t - (if a = u \<and> t = t' then x else 0)"
  by (auto simp: bal_def bal_add_def bal_sub_def bump_nonce_def burn_supply_def acct_def [of "st\<lparr>st_Supply := _\<rparr>"] acct_def [of st])

text \<open>
  C20. The amount and the fee are added without an overflow check. A valid-looking transfer of
  \<open>2 ^ 64 - fee\<close> needs a balance of 0, so anybody, with any balance, can have it applied, and the
  receiver is credited with coins that were never issued.
\<close>

theorem wrapped_transfer_mints:
  assumes "tx_Type tx = TxTransfer" and "tx_TokenID tx = NativeToken" and "tx_Nonce tx = nonce_of st (tx_From tx)"
    and "st_BaseFee st \<le> tx_MaxBaseFee tx" and "tx_Amount tx = - tx_fee st tx"
    and "tx_From tx \<noteq> tx_To tx" and "proposer \<noteq> tx_To tx"
  shows "\<exists>st'. apply_tx E st tx proposer blockTime = Applied st'
    \<and> bal st' (tx_To tx) NativeToken = bal st (tx_To tx) NativeToken + tx_Amount tx"
proof -
  let ?st = "touch (tx_From tx) st"
  have frame: "tx_fee ?st tx = tx_fee st tx" "st_BaseFee ?st = st_BaseFee st"
    by (simp_all add: tx_fee_def tx_burn_def Let_def)
  have "tx_need_native ?st tx = Some 0" using assms(1,2,5) frame by (simp add: tx_need_native_def tx_type_defs)
  then have "tx_guards ?st tx = TxOk ()" using assms(3,4) frame by (simp add: tx_guards_def nonce_acct)
  then have "apply_tx E st tx proposer blockTime =
      Applied (charge_fees tx proposer (tx_burn ?st tx) (bal_add (tx_To tx) NativeToken (tx_Amount tx)
        (bal_sub (tx_From tx) NativeToken (tx_Amount tx) ?st)))"
    using assms(1,2) by (simp add: apply_tx_def tx_dispatch_def tx_transfer_def Let_def)
  moreover have "bal (charge_fees tx proposer b s) (tx_To tx) NativeToken = bal s (tx_To tx) NativeToken" for b s
    using assms(6,7) by (simp add: charge_fees_def Let_def)
  ultimately show ?thesis using assms(6) by simp
qed

theorem wrapped_transfer_mints_witness:
  "\<exists>st'. apply_tx sample_ext sample_state (transfer_of ''cg09'' ''cg02'' (- 100007) 0) ''val1'' 0 = Applied st'
     \<and> bal sample_state ''cg09'' NativeToken = 0 \<and> bal st' ''cg02'' NativeToken = - 100007"
proof -
  let ?tx = "transfer_of ''cg09'' ''cg02'' (- 100007) 0"
  have f: "tx_Type ?tx = TxTransfer" "tx_TokenID ?tx = NativeToken" "tx_From ?tx = ''cg09''" "tx_To ?tx = ''cg02''"
    "tx_Amount ?tx = - 100007" "tx_Nonce ?tx = 0" "tx_MaxBaseFee ?tx = 100000" by (simp_all add: transfer_of_def)
  have v: "nonce_of sample_state ''cg09'' = 0" "tx_fee sample_state ?tx = 100007" "st_BaseFee sample_state = 100000"
    "bal sample_state ''cg09'' NativeToken = 0" "bal sample_state ''cg02'' NativeToken = 0" by code_simp+
  have "\<exists>st'. apply_tx sample_ext sample_state ?tx ''val1'' 0 = Applied st'
    \<and> bal st' (tx_To ?tx) NativeToken = bal sample_state (tx_To ?tx) NativeToken + tx_Amount ?tx"
    by (rule wrapped_transfer_mints) (simp_all add: f v)
  then show ?thesis by (simp add: f v)
qed

end
