(* ===== verification/Chain.thy ===== *)
theory Chain
  imports Replay
begin

text \<open>
  The life of a ledger: the genesis operations, then blocks, and the finality marker. A property
  that the genesis operations establish and that every handler and every step of a block keeps
  holds in every state of the chain; the locales \<open>execution_invariant\<close> and \<open>block_invariant\<close> prove
  that once, and the theories that provide an invariant interpret them on the model.
\<close>

subsection \<open>States of a chain\<close>

text \<open>
  \<open>seeded\<close> are the states \<^verbatim>\<open>genesis.Apply\<close> passes through; \<open>reachable\<close> the states a node passes
  through when it commits blocks on top of them.
\<close>

inductive seeded :: "state \<Rightarrow> bool" where
  start: "seeded (set_params p (new_state p'))"
| allocate: "seeded st \<Longrightarrow> seeded (mint addr amount st)"
| stake: "seeded st \<Longrightarrow> seeded (bootstrap_stake addr amount st)"
| vest: "seeded st \<Longrightarrow> seeded (bootstrap_vesting i beneficiary amount startMs endMs st)"

inductive reachable :: "'z chain_ext_scheme \<Rightarrow> state \<Rightarrow> bool" for E where
  genesis: "seeded st \<Longrightarrow> reachable E (commit_block 0 h st)"
| block: "reachable E st \<Longrightarrow> execute E txs evs absent proposer blockTime strict st = Executed applied failed root st'
    \<Longrightarrow> reachable E (commit_block height h st')"
| finalize: "reachable E st \<Longrightarrow> reachable E (set_finalized height st)"

subsection \<open>Invariants of the blocks\<close>

locale execution_invariant =
  fixes E :: "'z chain_ext_scheme" and I :: "state \<Rightarrow> bool"
  assumes touch_I: "I st \<Longrightarrow> I (touch a st)"
    and dispatch_I: "I st \<Longrightarrow> tx_dispatch E st tx blockTime = TxOk st' \<Longrightarrow> I st'"
    and charge_I: "I st \<Longrightarrow> I (charge_fees tx proposer burn st)"
    and release_I: "I st \<Longrightarrow> I (release_unbonded blockTime st)"
    and slash_I: "I st \<Longrightarrow> I (slash E voter height blockTime st)"
    and present_I: "I st \<Longrightarrow> fmlookup (st_Validators st) a = Some v \<Longrightarrow> I (val_upd a (v\<lparr>va_Missed := 0\<rparr>) st)"
    and miss_I: "I st \<Longrightarrow> I (miss_slot blockTime a st)"
    and reward_I: "I st \<Longrightarrow> I (distribute_reward proposer amount st)"
    and fee_I: "I st \<Longrightarrow> I (st\<lparr>st_BaseFee := fee\<rparr>)"
begin

lemma tx_I:
  assumes "I st" and "apply_tx E st tx proposer blockTime \<in> {Applied st', Rejected e st'}"
  shows "I st'"
proof -
  have t: "I (touch (tx_From tx) st)" by (rule touch_I) (rule assms(1))
  show ?thesis
    using assms(2) t
    by (auto simp: apply_tx_def Let_def split: tx_res.splits dest!: dispatch_I [OF t] intro: charge_I)
qed

lemma run_I:
  "I st \<Longrightarrow> run_txs E proposer blockTime strict txs applied failed st = Ran applied' failed' st' \<Longrightarrow> I st'"
  by (induction txs arbitrary: applied failed st) (auto split: outcome.splits if_splits dest: tx_I)

lemma begin_I: "I st \<Longrightarrow> I (begin_block E evs absent proposer blockTime st)"
proof -
  assume "I st"
  then have r: "I (release_unbonded blockTime st)" by (rule release_I)
  have "I s \<Longrightarrow> I (fold (\<lambda>ev. slash E (ev_Voter ev) (ev_Height ev) blockTime) evs s)" for s
    by (induction evs arbitrary: s) (auto intro: slash_I)
  moreover have "I s \<Longrightarrow> I (fold (miss_slot blockTime) absent s)" for s
    by (induction absent arbitrary: s) (auto intro: miss_I)
  ultimately show ?thesis using r
    by (auto simp: begin_block_def apply_downtime_def Let_def intro: present_I split: option.split)
qed

lemma execute_I:
  assumes "I st" and "execute E txs evs absent proposer blockTime strict st = Executed applied failed root st'"
  shows "I st'"
proof -
  obtain ap fl st1 fee where r: "run_txs E proposer blockTime strict txs [] [] (begin_block E evs absent proposer blockTime st) = Ran ap fl st1"
    and st': "st' = (pay_reward proposer st1)\<lparr>st_BaseFee := fee\<rparr>"
    using assms(2) by (auto simp: execute_def Let_def split: run_txs_result.splits option.splits)
  have "I st1" using begin_I [OF assms(1)] r by (rule run_I)
  then have "I (pay_reward proposer st1)" by (simp add: pay_reward_def Let_def reward_I)
  then show ?thesis unfolding st' by (rule fee_I)
qed

end

text \<open>What the genesis operations and the block headers add.\<close>

locale block_invariant = execution_invariant +
  assumes headers_I: "I st \<Longrightarrow> I (commit_block height h st)" "I st \<Longrightarrow> I (set_finalized height st)"
    and start_I: "I (set_params p (new_state p'))"
    and mint_I: "I st \<Longrightarrow> I (mint addr amount st)"
    and stake_I: "I st \<Longrightarrow> I (bootstrap_stake addr amount st)"
    and vest_I: "I st \<Longrightarrow> I (bootstrap_vesting i beneficiary amount startMs endMs st)"
begin

lemma seeded_I: "seeded st \<Longrightarrow> I st"
  by (induction rule: seeded.induct) (auto intro: start_I mint_I stake_I vest_I)

lemma reachable_I: "reachable E st \<Longrightarrow> I st"
  by (induction rule: reachable.induct) (auto intro: headers_I seeded_I dest: execute_I)

end

end
