(* ===== verification/Stakes.thy ===== *)
theory Stakes
  imports Chain
begin

text \<open>
  The validator table: every entry is filed under its own address and its \<^verbatim>\<open>Delegated\<close> total is the
  sum of its delegations (in 64-bit arithmetic). Election, rewards and slashing rely on it; the
  theory shows that every transaction and every step of a block keeps it.
\<close>

definition validator_ok :: "string \<Rightarrow> validator \<Rightarrow> bool" where
  "validator_ok k v \<longleftrightarrow> va_Address v = k \<and> va_Delegated v = fmsum (\<lambda>x. x) (va_Delegators v)"

definition validators_ok :: "state \<Rightarrow> bool" where
  "validators_ok st \<longleftrightarrow> (\<forall>k v. fmlookup (st_Validators st) k = Some v \<longrightarrow> validator_ok k v)"

lemma validators_okD: "validators_ok st \<Longrightarrow> fmlookup (st_Validators st) k = Some v \<Longrightarrow> validator_ok k v"
  by (simp add: validators_ok_def)

lemma validators_ok_cong: "st_Validators st' = st_Validators st \<Longrightarrow> validators_ok st' = validators_ok st"
  by (simp add: validators_ok_def)

lemma st_validators_upd [simp]:
  "st_Validators (val_upd a v st) = fmupd a v (st_Validators st)"
  "st_Validators (del_validator a st) = fmdrop a (st_Validators st)"
  "st_Validators (ctr_upd i c st) = st_Validators st" "st_Validators (set_pool p st) = st_Validators st"
  "st_Validators (bump_nonce a st) = st_Validators st"
  by (simp_all add: val_upd_def del_validator_def ctr_upd_def set_pool_def bump_nonce_def)

lemma validators_ok_upd: "validators_ok st \<Longrightarrow> validator_ok a v \<Longrightarrow> validators_ok (val_upd a v st)"
  by (simp add: validators_ok_def)

lemma validators_ok_del: "validators_ok st \<Longrightarrow> validators_ok (del_validator a st)"
  by (simp add: validators_ok_def)

lemma validators_ok_same [simp]:
  "validators_ok (bal_add a t x st) = validators_ok st" "validators_ok (bal_sub a t x st) = validators_ok st"
  "validators_ok (acct_upd a f st) = validators_ok st" "validators_ok (touch a st) = validators_ok st"
  "validators_ok (burn_supply x st) = validators_ok st" "validators_ok (mint_supply x st) = validators_ok st"
  "validators_ok (add_unbonding a x b st) = validators_ok st"
  "validators_ok (unbond_delegators as v b st) = validators_ok st"
  "validators_ok (bump_nonce a st) = validators_ok st"
  "validators_ok (st\<lparr>st_Slashed := s\<rparr>) = validators_ok st"
  by (rule validators_ok_cong, simp)+

subsection \<open>Handlers that leave the table alone\<close>

lemma validators_kept:
  "tx_transfer st tx = TxOk st' \<Longrightarrow> st_Validators st' = st_Validators st"
  "tx_create_token st tx = TxOk st' \<Longrightarrow> st_Validators st' = st_Validators st"
  "tx_mint st tx = TxOk st' \<Longrightarrow> st_Validators st' = st_Validators st"
  "tx_contract_create E st tx = TxOk st' \<Longrightarrow> st_Validators st' = st_Validators st"
  "tx_shield E st tx = TxOk st' \<Longrightarrow> st_Validators st' = st_Validators st"
  "tx_shielded_transfer E st tx = TxOk st' \<Longrightarrow> st_Validators st' = st_Validators st"
  "tx_unshield E st tx = TxOk st' \<Longrightarrow> st_Validators st' = st_Validators st"
  "tx_wasm_deploy E st tx = TxOk st' \<Longrightarrow> st_Validators st' = st_Validators st"
  by (auto simp: tx_transfer_def tx_create_token_def tx_mint_def tx_contract_create_def tx_shield_def
      tx_shielded_transfer_def tx_unshield_def tx_wasm_deploy_def shield_res_TxOk Let_def
      split: if_splits option.splits wres.splits)

lemma validators_fold_credit [simp]: "st_Validators (fold credit_transfer ts st) = st_Validators st"
  by (induction ts arbitrary: st) (auto simp: credit_transfer_def split: prod.split)

lemma validators_call: "tx_wasm_call E st tx = TxOk st' \<Longrightarrow> st_Validators st' = st_Validators st"
  by (auto simp: tx_wasm_call_def commit_call_def Let_def split: if_splits option.splits prod.splits wres.splits)

lemma validators_proposal:
  assumes "r = maybe_execute_multisig c p st \<or> r = maybe_resolve_dao c p st"
  shows "st_Validators (store_proposal i k r) = st_Validators st"
proof -
  obtain c' p' st' where r: "r = (c', p', st')" by (rule prod_cases3)
  with assms show ?thesis
    by (auto simp: store_proposal_def maybe_execute_multisig_def maybe_resolve_dao_def pay_proposal_def Let_def
        split: if_splits)
qed

lemma validators_exec: "tx_contract_exec st tx blockTime = TxOk st' \<Longrightarrow> st_Validators st' = st_Validators st"
  by (auto simp: tx_contract_exec_def vesting_claim_def escrow_release_def escrow_refund_def multisig_propose_def
      multisig_approve_def dao_propose_def dao_vote_def Let_def
      validators_proposal [OF disjI1 [OF refl]] validators_proposal [OF disjI2 [OF refl]]
      split: if_splits option.splits)

subsection \<open>Handlers of the table\<close>

lemma validator_or_new_ok: "validators_ok st \<Longrightarrow> validator_ok a (validator_or_new st a)"
  by (auto simp: validator_or_new_def validator_ok_def fresh_validator_def split: option.split dest: validators_okD)

lemma stakes_handlers:
  assumes ok: "validators_ok st"
  shows "tx_stake st tx = TxOk st' \<Longrightarrow> validators_ok st'" "tx_unjail st tx blockTime = TxOk st' \<Longrightarrow> validators_ok st'"
    "tx_validator_profile st tx = TxOk st' \<Longrightarrow> validators_ok st'" "tx_unstake st tx blockTime = TxOk st' \<Longrightarrow> validators_ok st'"
    "tx_delegate st tx = TxOk st' \<Longrightarrow> validators_ok st'" "tx_undelegate st tx blockTime = TxOk st' \<Longrightarrow> validators_ok st'"
proof -
  note upd = validators_ok_upd validators_ok_del validators_okD [OF ok]
  show "tx_stake st tx = TxOk st' \<Longrightarrow> validators_ok st'"
    using ok validator_or_new_ok [of "acct_upd (tx_From tx) f (bal_sub (tx_From tx) NativeToken x st)" "tx_From tx" for f x]
    by (auto simp: tx_stake_def Let_def validator_ok_def intro!: validators_ok_upd split: if_splits)
  show "tx_unjail st tx blockTime = TxOk st' \<Longrightarrow> validators_ok st'" "tx_validator_profile st tx = TxOk st' \<Longrightarrow> validators_ok st'"
    "tx_unstake st tx blockTime = TxOk st' \<Longrightarrow> validators_ok st'" "tx_delegate st tx = TxOk st' \<Longrightarrow> validators_ok st'"
    "tx_undelegate st tx blockTime = TxOk st' \<Longrightarrow> validators_ok st'"
    using ok by (auto simp: tx_unjail_def tx_validator_profile_def tx_unstake_def tx_delegate_def tx_undelegate_def
        Let_def validator_ok_def fmsum_id_upd fmsum_drop fmval_id_mget intro!: validators_ok_upd validators_ok_del
        dest!: validators_okD [OF ok] split: if_splits option.splits)
qed

subsection \<open>The steps of a block\<close>

lemma fold_slash_ok:
  "va_Delegated v = fmsum (\<lambda>x. x) (va_Delegators v) \<Longrightarrow> fold (slash_delegator bps) as (v, burn) = (v', burn')
     \<Longrightarrow> va_Delegated v' = fmsum (\<lambda>x. x) (va_Delegators v') \<and> va_Address v' = va_Address v"
proof (induction as arbitrary: v burn)
  case (Cons a as)
  let ?c = "mul_div (mget (va_Delegators v) a) bps 10000"
  have "slash_delegator bps a (v, burn) = (v\<lparr>va_Delegators := msub (va_Delegators v) a ?c, va_Delegated := va_Delegated v - ?c\<rparr>, burn + ?c)"
    by (simp add: slash_delegator_def Let_def)
  with Cons.prems Cons.IH [of "v\<lparr>va_Delegators := msub (va_Delegators v) a ?c, va_Delegated := va_Delegated v - ?c\<rparr>" "burn + ?c"]
  show ?case by simp
qed simp

lemma slash_weight_ok:
  assumes "slash_weight v bps st = (v', st')" and "validator_ok a v" and "validators_ok st"
  shows "validator_ok a v' \<and> validators_ok st'"
  using assms by (auto simp: slash_weight_def Let_def validator_ok_def split: prod.splits if_splits dest!: fold_slash_ok [rotated])

lemma stakes_slash:
  assumes ok: "validators_ok st"
  shows "validators_ok (slash E voter height blockTime st)"
proof (cases "fmlookup (st_Validators st) voter")
  case (Some v)
  let ?st1 = "st\<lparr>st_Slashed := finsert (slash_key voter height) (st_Slashed st)\<rparr>"
  obtain v2 st2 where sw: "slash_weight v (p_SlashDoubleSignBps (st_Params st)) ?st1 = (v2, st2)" by (rule prod.exhaust)
  have "validators_ok ?st1" using ok by simp
  from slash_weight_ok [OF sw validators_okD [OF ok Some] this] have "validator_ok voter v2" "validators_ok st2" by simp_all
  with Some sw ok show ?thesis
    by (auto simp: slash_def Let_def intro!: validators_ok_upd validators_ok_del)
qed (simp add: slash_def Let_def ok)

lemma stakes_miss:
  assumes ok: "validators_ok st"
  shows "validators_ok (miss_slot blockTime a st)"
proof (cases "fmlookup (st_Validators st) a")
  case (Some v)
  obtain v2 st2 where sw: "slash_weight (v\<lparr>va_Missed := va_Missed v + 1\<rparr>) (p_SlashDowntimeBps (st_Params st)) st = (v2, st2)"
    by (rule prod.exhaust)
  have v: "validator_ok a (v\<lparr>va_Missed := va_Missed v + 1\<rparr>)"
    using validators_okD [OF ok Some] by (simp add: validator_ok_def)
  from slash_weight_ok [OF sw v ok] have "validator_ok a v2" "validators_ok st2" by simp_all
  with Some sw v ok show ?thesis
    by (auto simp: miss_slot_def Let_def intro!: validators_ok_upd) (simp add: validator_ok_def)
qed (simp add: miss_slot_def ok)

lemma credit_share_table: "st_Validators (fst (fold (credit_share pool v) as x)) = st_Validators (fst x)"
  by (induction as arbitrary: x) (simp_all add: credit_share_def Let_def split: prod.split)

lemma credit_share_ok: "validators_ok st \<Longrightarrow> fold (credit_share pool v) as (st, d) = (st', d') \<Longrightarrow> validators_ok st'"
  using credit_share_table [of pool v as "(st, d)"] by (simp add: validators_ok_def)

lemma stakes_reward: "validators_ok st \<Longrightarrow> validators_ok (distribute_reward proposer amount st)"
proof -
  assume ok: "validators_ok st"
  have m: "validators_ok (mint proposer amount st)" using ok by (simp add: mint_def)
  show ?thesis
  proof (cases "fmlookup (st_Validators st) proposer")
    case (Some v)
    have "validator_ok proposer v" using validators_okD [OF ok Some] .
    with Some m ok show ?thesis
      by (auto simp: distribute_reward_def Let_def validator_ok_def split: prod.split
          intro!: validators_ok_upd dest: credit_share_ok)
  qed (simp add: distribute_reward_def m)
qed

interpretation stakes: block_invariant E validators_ok for E :: "'z chain_ext_scheme"
proof
  fix st st' :: state and a tx blockTime
  assume ok: "validators_ok st" and d: "tx_dispatch E st tx blockTime = TxOk st'"
  note same = validators_ok_cong [THEN iffD2, OF _ ok]
  from d show "validators_ok st'"
    by (rule dispatch_cases)
      (blast intro: stakes_handlers [OF ok] same validators_kept validators_call validators_exec)+
next
  fix st :: state and blockTime
  assume "validators_ok st"
  moreover have "st_Validators (fold release_one us st) = st_Validators st" for us st
    by (induction us arbitrary: st) (simp_all add: release_one_def)
  ultimately show "validators_ok (release_unbonded blockTime st)"
    by (simp add: release_unbonded_def validators_ok_def)
next
  fix st :: state and a v
  assume ok: "validators_ok st" and v: "fmlookup (st_Validators st) a = Some v"
  from ok show "validators_ok (val_upd a (v\<lparr>va_Missed := 0\<rparr>) st)"
    by (rule validators_ok_upd) (use validators_okD [OF ok v] in \<open>simp add: validator_ok_def\<close>)
next
  fix st :: state and addr amount
  assume ok: "validators_ok st"
  then have "validator_ok addr (validator_or_new (mint_supply amount (acct_upd addr f st)) addr)" for f
    by (intro validator_or_new_ok) simp
  with ok show "validators_ok (bootstrap_stake addr amount st)"
    by (auto simp: bootstrap_stake_def Let_def validator_ok_def intro!: validators_ok_upd)
qed (simp_all add: stakes_slash stakes_miss stakes_reward charge_fees_def Let_def mint_def,
    simp_all add: commit_block_def set_finalized_def set_params_def new_state_def bootstrap_vesting_def
      validators_ok_def)

end
