(* ===== verification/Vaults.thy ===== *)
theory Vaults
  imports Chain
begin

text \<open>
  Multisig and DAO vaults: what the contract has paid out is the sum of its executed proposals and
  never more than it holds, every ballot is cast by a distinct signer, and a proposal is executed
  only with the approvals its threshold asks for.
\<close>

definition is_vault :: "contract \<Rightarrow> bool" where
  "is_vault c \<longleftrightarrow> ct_Template c = TemplateMultisig \<or> ct_Template c = TemplateDAO"

definition paid :: "proposal \<Rightarrow> nat" where
  "paid p = (if mp_Executed p then unat (mp_Amount p) else 0)"

definition ballot_ok :: "contract \<Rightarrow> proposal \<Rightarrow> bool" where
  "ballot_ok c p \<longleftrightarrow>
     distinct (mp_Approvals p @ mp_Against p) \<and> set (mp_Approvals p @ mp_Against p) \<subseteq> set (ct_Signers c)
     \<and> (mp_Executed p \<longrightarrow> ct_Threshold c \<le> of_nat (length (mp_Approvals p)) \<and> \<not> mp_Rejected p)
     \<and> (ct_Template c = TemplateMultisig \<longrightarrow> mp_Against p = [] \<and> \<not> mp_Rejected p)"

definition vault_ok :: "contract \<Rightarrow> bool" where
  "vault_ok c \<longleftrightarrow> (is_vault c \<longrightarrow>
     ct_Released c \<le> ct_Amount c
     \<and> sum_list (map paid (ct_Proposals c)) = unat (ct_Released c)
     \<and> (\<forall>p \<in> set (ct_Proposals c). ballot_ok c p))"

definition vaults_ok :: "state \<Rightarrow> bool" where
  "vaults_ok st \<longleftrightarrow> (\<forall>i c. fmlookup (st_Contracts st) i = Some c \<longrightarrow> vault_ok c)"

lemma vaults_ok_cong: "st_Contracts st' = st_Contracts st \<Longrightarrow> vaults_ok st' = vaults_ok st"
  by (simp add: vaults_ok_def)

lemma vaults_okD: "vaults_ok st \<Longrightarrow> fmlookup (st_Contracts st) i = Some c \<Longrightarrow> vault_ok c"
  by (simp add: vaults_ok_def)

lemma vaults_ok_upd: "vaults_ok st \<Longrightarrow> vault_ok c \<Longrightarrow> vaults_ok (ctr_upd i c st)"
  by (simp add: vaults_ok_def ctr_upd_def)

lemma vault_fields [simp]:
  "ballot_ok (c\<lparr>ct_Proposals := ps\<rparr>) p = ballot_ok c p" "ballot_ok (c\<lparr>ct_Released := x\<rparr>) p = ballot_ok c p"
  "ballot_ok (c\<lparr>ct_Status := s\<rparr>) p = ballot_ok c p"
  "is_vault (c\<lparr>ct_Proposals := ps\<rparr>) = is_vault c" "is_vault (c\<lparr>ct_Released := x\<rparr>) = is_vault c"
  "is_vault (c\<lparr>ct_Status := s\<rparr>) = is_vault c"
  by (simp_all add: ballot_ok_def is_vault_def)

lemma not_vault_ok: "\<not> is_vault c \<Longrightarrow> vault_ok c"
  by (simp add: vault_ok_def)

lemma not_vault [simp]:
  "ct_Template c = TemplateVesting \<Longrightarrow> \<not> is_vault c" "ct_Template c = TemplateEscrow \<Longrightarrow> \<not> is_vault c"
  by (simp_all add: is_vault_def TemplateVesting_def TemplateEscrow_def TemplateMultisig_def TemplateDAO_def)

subsection \<open>Resolving a proposal\<close>

lemma vault_okD:
  assumes "vault_ok c" "is_vault c"
  shows "ct_Released c \<le> ct_Amount c" "sum_list (map paid (ct_Proposals c)) = unat (ct_Released c)"
    "p \<in> set (ct_Proposals c) \<Longrightarrow> ballot_ok c p"
  using assms by (simp_all add: vault_ok_def)

lemma vault_okI:
  "ct_Released c \<le> ct_Amount c \<Longrightarrow> sum_list (map paid (ct_Proposals c)) = unat (ct_Released c)
    \<Longrightarrow> (\<And>p. p \<in> set (ct_Proposals c) \<Longrightarrow> ballot_ok c p) \<Longrightarrow> vault_ok c"
  by (simp add: vault_ok_def)

lemma set_update_cases: "q \<in> set (xs[i := p]) \<Longrightarrow> q = p \<or> q \<in> set xs"
  using set_update_subset_insert by fast

lemma sum_paid_update:
  assumes "i < length ps" "\<not> mp_Executed (ps ! i)"
  shows "sum_list (map paid (ps[i := p])) = sum_list (map paid ps) + paid p"
proof -
  have "paid (ps ! i) = 0" using assms(2) by (simp add: paid_def)
  then show ?thesis using assms(1) by (simp add: map_update sum_list_update)
qed

text \<open>A proposal \<open>p\<close> that is not executed, or that is paid, replaces the one at \<open>i\<close>.\<close>

lemma stored_ok:
  assumes c: "vault_ok c" "is_vault c" "i < length (ct_Proposals c)" "\<not> mp_Executed (ct_Proposals c ! i)"
    and p: "ballot_ok c p" "paid p = 0"
  shows "vault_ok (c\<lparr>ct_Proposals := (ct_Proposals c)[i := p]\<rparr>)"
  by (rule vault_okI) (use vault_okD [OF c(1,2)] sum_paid_update [OF c(3,4)] p in \<open>auto dest: set_update_cases\<close>)

lemma paid_ok:
  assumes c: "vault_ok c" "is_vault c" "i < length (ct_Proposals c)" "\<not> mp_Executed (ct_Proposals c ! i)"
    and p: "ballot_ok c p" "\<not> mp_Rejected p" "ct_Threshold c \<le> of_nat (length (mp_Approvals p))"
    and funds: "mp_Amount p \<le> ct_Amount c - ct_Released c"
  shows "vault_ok (c\<lparr>ct_Released := ct_Released c + mp_Amount p, ct_Status := s,
            ct_Proposals := (ct_Proposals c)[i := p\<lparr>mp_Executed := True\<rparr>]\<rparr>)"
proof (rule vault_okI)
  have le: "ct_Released c \<le> ct_Amount c" using vault_okD(1) [OF c(1,2)] .
  then have sum: "unat (ct_Released c) + unat (mp_Amount p) \<le> unat (ct_Amount c)"
    using funds by (simp add: word_le_nat_alt unat_sub)
  then have add: "unat (ct_Released c + mp_Amount p) = unat (ct_Released c) + unat (mp_Amount p)"
    using unat_word_ariths(1) [of "ct_Released c" "mp_Amount p"] unsigned_less [of "ct_Amount c", where ?'a = nat]
    by simp
  have "paid (p\<lparr>mp_Executed := True\<rparr>) = unat (mp_Amount p)" by (simp add: paid_def)
  then show "sum_list (map paid (ct_Proposals (c\<lparr>ct_Released := ct_Released c + mp_Amount p, ct_Status := s,
        ct_Proposals := (ct_Proposals c)[i := p\<lparr>mp_Executed := True\<rparr>]\<rparr>)))
      = unat (ct_Released (c\<lparr>ct_Released := ct_Released c + mp_Amount p, ct_Status := s,
        ct_Proposals := (ct_Proposals c)[i := p\<lparr>mp_Executed := True\<rparr>]\<rparr>))"
    using vault_okD(2) [OF c(1,2)] sum_paid_update [OF c(3,4)] add by simp
  show "ct_Released (c\<lparr>ct_Released := ct_Released c + mp_Amount p, ct_Status := s,
        ct_Proposals := (ct_Proposals c)[i := p\<lparr>mp_Executed := True\<rparr>]\<rparr>)
      \<le> ct_Amount (c\<lparr>ct_Released := ct_Released c + mp_Amount p, ct_Status := s,
        ct_Proposals := (ct_Proposals c)[i := p\<lparr>mp_Executed := True\<rparr>]\<rparr>)"
    using sum add by (simp add: word_le_nat_alt)
next
  fix q assume "q \<in> set (ct_Proposals (c\<lparr>ct_Released := ct_Released c + mp_Amount p, ct_Status := s,
        ct_Proposals := (ct_Proposals c)[i := p\<lparr>mp_Executed := True\<rparr>]\<rparr>))"
  then have "q = p\<lparr>mp_Executed := True\<rparr> \<or> ballot_ok c q" using vault_okD(3) [OF c(1,2)] by (auto dest: set_update_cases)
  moreover have "ballot_ok c (p\<lparr>mp_Executed := True\<rparr>)" using p by (simp add: ballot_ok_def)
  ultimately show "ballot_ok (c\<lparr>ct_Released := ct_Released c + mp_Amount p, ct_Status := s,
        ct_Proposals := (ct_Proposals c)[i := p\<lparr>mp_Executed := True\<rparr>]\<rparr>) q" by auto
qed

lemma resolve_cases:
  assumes "r = maybe_execute_multisig c p st \<and> \<not> mp_Rejected p \<or> r = maybe_resolve_dao c p st \<and> ct_Template c = TemplateDAO"
  obtains "r = (c, p, st)"
    | "r = (c, p\<lparr>mp_Rejected := True\<rparr>, st)" "ct_Template c = TemplateDAO"
    | "r = pay_proposal c p st" "\<not> mp_Rejected p" "ct_Threshold c \<le> of_nat (length (mp_Approvals p))"
      "mp_Amount p \<le> ct_Amount c - ct_Released c"
  using assms by (auto simp: maybe_execute_multisig_def maybe_resolve_dao_def not_less split: if_splits)

lemma resolve_ok:
  assumes c: "vault_ok c" "is_vault c" "i < length (ct_Proposals c)" "\<not> mp_Executed (ct_Proposals c ! i)"
    and p: "ballot_ok c p" "\<not> mp_Executed p"
    and r: "r = maybe_execute_multisig c p st \<and> \<not> mp_Rejected p \<or> r = maybe_resolve_dao c p st \<and> ct_Template c = TemplateDAO"
    and st: "vaults_ok st"
  shows "vaults_ok (store_proposal cid i r)"
  using r
proof (cases rule: resolve_cases)
  case 1
  have "paid p = 0" using p(2) by (simp add: paid_def)
  with stored_ok [OF c p(1)] st show ?thesis by (simp add: 1 store_proposal_def vaults_ok_upd)
next
  case 2
  have "TemplateDAO \<noteq> TemplateMultisig" by (simp add: TemplateMultisig_def TemplateDAO_def)
  then have "ballot_ok c (p\<lparr>mp_Rejected := True\<rparr>)" "paid (p\<lparr>mp_Rejected := True\<rparr>) = 0"
    using p 2(2) by (simp_all add: ballot_ok_def paid_def)
  with stored_ok [OF c] st show ?thesis by (simp add: 2(1) store_proposal_def vaults_ok_upd)
next
  case 3
  have "vaults_ok (bal_add a t x st)" for a t x using st by (simp add: vaults_ok_def)
  with paid_ok [OF c p(1) 3(2-4)] show ?thesis
    unfolding 3(1) pay_proposal_def Let_def store_proposal_def prod.case by (intro vaults_ok_upd) simp_all
qed

subsection \<open>The handlers\<close>

lemma new_proposal_ok:
  assumes "vault_ok c" "is_vault c" "is_signer c u"
  shows "vault_ok (add_proposal c (new_proposal to x u))" "is_vault (add_proposal c (new_proposal to x u))"
    "ballot_ok (add_proposal c (new_proposal to x u)) (new_proposal to x u)"
  using assms by (auto simp: vault_ok_def is_vault_def add_proposal_def new_proposal_def paid_def ballot_ok_def is_signer_def)

lemma vaults_propose:
  assumes "vaults_ok st" "vault_ok c" "is_vault c" "is_signer c u"
    and "r = maybe_execute_multisig (add_proposal c (new_proposal to x u)) (new_proposal to x u) st
       \<or> r = maybe_resolve_dao (add_proposal c (new_proposal to x u)) (new_proposal to x u) st \<and> ct_Template c = TemplateDAO"
  shows "vaults_ok (store_proposal cid (length (ct_Proposals c)) r)"
proof (rule resolve_ok [OF new_proposal_ok(1,2) [OF assms(2-4)] _ _ new_proposal_ok(3) [OF assms(2-4)] _ _ assms(1)])
  show "length (ct_Proposals c) < length (ct_Proposals (add_proposal c (new_proposal to x u)))"
    "\<not> mp_Executed (ct_Proposals (add_proposal c (new_proposal to x u)) ! length (ct_Proposals c))"
    "\<not> mp_Executed (new_proposal to x u)"
    by (simp_all add: add_proposal_def new_proposal_def)
  show "r = maybe_execute_multisig (add_proposal c (new_proposal to x u)) (new_proposal to x u) st
       \<and> \<not> mp_Rejected (new_proposal to x u)
     \<or> r = maybe_resolve_dao (add_proposal c (new_proposal to x u)) (new_proposal to x u) st
       \<and> ct_Template (add_proposal c (new_proposal to x u)) = TemplateDAO"
    using assms(5) by (auto simp: add_proposal_def new_proposal_def)
qed

lemma vaults_vote:
  assumes st: "vaults_ok st" and c: "vault_ok c" "is_vault c" and i: "i < length (ct_Proposals c)"
    and q: "q = ct_Proposals c ! i" "\<not> mp_Executed q" "\<not> mp_Rejected q \<or> ct_Template c = TemplateMultisig"
    and u: "is_signer c u" "u \<notin> set (mp_Approvals q @ mp_Against q)"
    and p: "p = q\<lparr>mp_Approvals := mp_Approvals q @ [u]\<rparr>
      \<or> p = q\<lparr>mp_Against := mp_Against q @ [u]\<rparr> \<and> ct_Template c = TemplateDAO"
    and r: "r = maybe_execute_multisig c p st \<and> ct_Template c = TemplateMultisig
      \<or> r = maybe_resolve_dao c p st \<and> ct_Template c = TemplateDAO"
  shows "vaults_ok (store_proposal cid i r)"
proof -
  have d: "TemplateDAO \<noteq> TemplateMultisig" by (simp add: TemplateMultisig_def TemplateDAO_def)
  have "ballot_ok c q" using c i q(1) by (simp add: vault_ok_def)
  then have b: "ballot_ok c p" "\<not> mp_Rejected p \<or> ct_Template c = TemplateDAO" and e: "\<not> mp_Executed p"
    using p q u d c(2) by (auto simp: ballot_ok_def is_signer_def is_vault_def)
  show ?thesis
    by (rule resolve_ok [OF c i _ b(1) e _ st]) (use q r b(2) d in auto)
qed

lemma proposal_index: "\<not> (of_nat (length xs) :: u64) \<le> k \<Longrightarrow> unat k < length xs"
proof -
  assume "\<not> (of_nat (length xs) :: u64) \<le> k"
  then have "unat k < unat (of_nat (length xs) :: u64)" by (simp add: word_less_nat_alt word_le_nat_alt not_le)
  also have "\<dots> \<le> length xs" by (simp add: unat_of_nat)
  finally show ?thesis .
qed

lemma vaults_exec:
  assumes st: "vaults_ok st" and ok: "tx_contract_exec st tx blockTime = TxOk st'"
  shows "vaults_ok st'"
proof -
  obtain c where l: "fmlookup (st_Contracts st) (tx_ContractID tx) = Some c"
    using ok by (auto simp: tx_contract_exec_def split: option.splits)
  have c: "vault_ok c" using vaults_okD [OF st l] .
  have b: "vaults_ok (bal_add a t x st)" for a t x using st by (simp add: vaults_ok_def)
  have plain: "vaults_ok (ctr_upd i c' (bal_add a t x st))"
    if "ct_Template c' = TemplateVesting \<or> ct_Template c' = TemplateEscrow" for i c' a t x
    using that by (intro vaults_ok_upd b not_vault_ok) auto
  note vote = vaults_vote [OF st c _ proposal_index refl]
  have vm: "ct_Template c = TemplateMultisig \<Longrightarrow> is_vault c" "ct_Template c = TemplateDAO \<Longrightarrow> is_vault c"
    by (simp_all add: is_vault_def)
  have m: "vaults_ok st'" if "multisig_propose st tx c = TxOk st'" "ct_Template c = TemplateMultisig"
    using that(1) vaults_propose [OF st c vm(1) [OF that(2)] _ disjI1 [OF refl]]
    by (auto simp: multisig_propose_def Let_def split: if_splits)
  have d: "vaults_ok st'" if "dao_propose st tx c = TxOk st'" "ct_Template c = TemplateDAO"
    using that(1) vaults_propose [OF st c vm(2) [OF that(2)] _ disjI2 [OF conjI [OF refl that(2)]]]
    by (auto simp: dao_propose_def Let_def split: if_splits)
  have ma: "vaults_ok st'" if "multisig_approve st tx c = TxOk st'" "ct_Template c = TemplateMultisig"
  proof -
    let ?q = "ct_Proposals c ! unat (tx_Proposal tx)"
    have g: "is_signer c (tx_From tx)" "\<not> of_nat (length (ct_Proposals c)) \<le> tx_Proposal tx" "\<not> mp_Executed ?q"
      "tx_From tx \<notin> set (mp_Approvals ?q)"
      and st': "st' = store_proposal (tx_ContractID tx) (unat (tx_Proposal tx))
        (maybe_execute_multisig c (?q\<lparr>mp_Approvals := mp_Approvals ?q @ [tx_From tx]\<rparr>) st)"
      using that(1) by (auto simp: multisig_approve_def Let_def split: if_splits)
    have i: "unat (tx_Proposal tx) < length (ct_Proposals c)" using g(2) by (rule proposal_index)
    have "mp_Against ?q = []" using vault_okD(3) [OF c vm(1) [OF that(2)]] i that(2) by (simp add: ballot_ok_def)
    then show ?thesis unfolding st'
      by (intro vaults_vote [OF st c vm(1) [OF that(2)] i refl g(3) _ g(1) _ disjI1 [OF refl] disjI1 [OF conjI [OF refl that(2)]]])
        (use g(4) that(2) in simp_all)
  qed
  have dv: "vaults_ok st'" if "dao_vote st tx c = TxOk st'" "ct_Template c = TemplateDAO"
  proof -
    let ?q = "ct_Proposals c ! unat (tx_Proposal tx)"
    let ?p = "if tx_Action tx = ActionApprove then ?q\<lparr>mp_Approvals := mp_Approvals ?q @ [tx_From tx]\<rparr>
      else ?q\<lparr>mp_Against := mp_Against ?q @ [tx_From tx]\<rparr>"
    have g: "is_signer c (tx_From tx)" "\<not> of_nat (length (ct_Proposals c)) \<le> tx_Proposal tx" "\<not> mp_Executed ?q"
      "\<not> mp_Rejected ?q" "tx_From tx \<notin> set (mp_Approvals ?q @ mp_Against ?q)"
      and st': "st' = store_proposal (tx_ContractID tx) (unat (tx_Proposal tx)) (maybe_resolve_dao c ?p st)"
      using that(1) by (auto simp: dao_vote_def Let_def proposal_has_voter_def split: if_splits)
    have i: "unat (tx_Proposal tx) < length (ct_Proposals c)" using g(2) by (rule proposal_index)
    show ?thesis unfolding st'
      by (intro vaults_vote [OF st c vm(2) [OF that(2)] i refl g(3) _ g(1) g(5) _ disjI2 [OF conjI [OF refl that(2)]]])
        (use g(4) that(2) in simp_all)
  qed
  show ?thesis
    using ok l plain [of c] m d ma dv
    by (auto simp: tx_contract_exec_def vesting_claim_def escrow_release_def escrow_refund_def Let_def
        intro!: plain split: if_splits)
qed

subsection \<open>In every state of the chain\<close>

lemma vaults_create:
  assumes "vaults_ok st" "tx_contract_create E st tx = TxOk st'"
  shows "vaults_ok st'"
proof -
  have n: "vault_ok (new_contract i c u h)" for i c u h
    by (simp add: vault_ok_def new_contract_def)
  have "vaults_ok (bal_sub a t x st)" for a t x using assms(1) by (simp add: vaults_ok_def)
  with assms(2) n show ?thesis
    by (auto simp: tx_contract_create_def intro!: vaults_ok_upd split: option.splits if_splits)
qed

lemma same_tables_vaults: "vaults_ok st \<Longrightarrow> same_tables st st' \<Longrightarrow> vaults_ok st'"
  by (simp add: vaults_ok_def same_tables_def)

lemma reward_contracts [simp]: "st_Contracts (distribute_reward p x st) = st_Contracts st"
proof -
  have "st_Contracts (fst (fold (credit_share pool v) as y)) = st_Contracts (fst y)" for pool v as y
    by (induction as arbitrary: y) (simp_all add: credit_share_def Let_def split: prod.split)
  from this [of _ _ _ "(st, 0)"] show ?thesis
    by (simp add: distribute_reward_def mint_def Let_def split: option.split prod.split) (metis fst_conv)
qed

interpretation vaults: block_invariant E vaults_ok for E :: "'z chain_ext_scheme"
proof
  fix st st' :: state and tx blockTime
  assume ok: "vaults_ok st" and d: "tx_dispatch E st tx blockTime = TxOk st'"
  have tok: "vaults_ok st'" if "st_Contracts st' = st_Contracts st" using ok that by (simp add: vaults_ok_def)
  from d show "vaults_ok st'"
    by (rule dispatch_cases)
      (blast intro: same_tables_vaults [OF ok] same_tables_handlers same_tables_shielded same_tables_wasm
        vaults_exec [OF ok] vaults_create [OF ok] tok tokens_create [THEN conjunct1] tokens_mint [THEN conjunct1])+
next
  fix st :: state and blockTime
  assume "vaults_ok st"
  then show "vaults_ok (release_unbonded blockTime st)"
    by (simp add: release_unbonded_def vaults_ok_def fold_release_frame)
next
  fix st :: state and voter height blockTime a
  assume ok: "vaults_ok st"
  then show "vaults_ok (slash E voter height blockTime st)" "vaults_ok (miss_slot blockTime a st)"
    by (simp_all add: vaults_ok_def slash_frame miss_frame)
next
  fix st :: state and i beneficiary amount startMs endMs
  assume "vaults_ok st"
  then show "vaults_ok (bootstrap_vesting i beneficiary amount startMs endMs st)"
    by (auto simp: bootstrap_vesting_def vaults_ok_def intro!: not_vault_ok)
qed (auto simp: vaults_ok_def charge_fees_def Let_def commit_block_def set_finalized_def set_params_def new_state_def
    mint_def bootstrap_stake_def split: if_splits)

end
