(* ===== verification/Pool.thy ===== *)
theory Pool
  imports Chain
begin

text \<open>
  The shielded pool: it never holds more notes than the proving circuit can address, its root is
  the Poseidon root of its notes, and a nullifier once spent stays spent, so that no note is spent
  twice.
\<close>

definition pool_ok :: "'z chain_ext_scheme \<Rightarrow> state \<Rightarrow> bool" where
  "pool_ok E st \<longleftrightarrow> (\<forall>pool. st_Shielded st = Some pool \<longrightarrow>
     length (sh_Commitments pool) \<le> pool_capacity \<and> pool_root E (sh_Commitments pool) = Inr (sh_Root pool))"

definition spent :: "state \<Rightarrow> string set" where
  "spent st = (case st_Shielded st of None \<Rightarrow> {} | Some pool \<Rightarrow> fset (sh_Nullifiers pool))"

text \<open>The nullifiers a spend declares.\<close>

definition spend_keys :: "'z chain_ext_scheme \<Rightarrow> transaction \<Rightarrow> string list" where
  "spend_keys E tx =
     (if tx_Type tx = TxShieldedTransfer \<or> tx_Type tx = TxUnshield
      then (case unmarshal_spend_public (tx_SpendPublic tx) of Inl _ \<Rightarrow> [] | Inr p \<Rightarrow> map (nullifier_key E) (sp_Nfs p))
      else [])"

subsection \<open>What keeps the pool\<close>

lemma shielded_upd [simp]:
  "st_Shielded (set_pool q st) = Some q" "st_Shielded (val_upd a v st) = st_Shielded st"
  "st_Shielded (del_validator a st) = st_Shielded st" "st_Shielded (ctr_upd i c st) = st_Shielded st"
  "st_Shielded (bump_nonce a st) = st_Shielded st" "st_Shielded (burn_supply x st) = st_Shielded st"
  "st_Shielded (mint_supply x st) = st_Shielded st" "st_Shielded (add_unbonding a x b st) = st_Shielded st"
  "st_Shielded (unbond_delegators as w b st) = st_Shielded st" "st_Shielded (charge_fees tx p burn st) = st_Shielded st"
  by (simp_all add: set_pool_def val_upd_def del_validator_def ctr_upd_def bump_nonce_def burn_supply_def
      mint_supply_def add_unbonding_def unbond_delegators_def charge_fees_def Let_def)

lemma shielded_kept:
  "tx_transfer st tx = TxOk st' \<Longrightarrow> st_Shielded st' = st_Shielded st"
  "tx_create_token st tx = TxOk st' \<Longrightarrow> st_Shielded st' = st_Shielded st"
  "tx_mint st tx = TxOk st' \<Longrightarrow> st_Shielded st' = st_Shielded st"
  "tx_stake st tx = TxOk st' \<Longrightarrow> st_Shielded st' = st_Shielded st"
  "tx_unjail st tx blockTime = TxOk st' \<Longrightarrow> st_Shielded st' = st_Shielded st"
  "tx_validator_profile st tx = TxOk st' \<Longrightarrow> st_Shielded st' = st_Shielded st"
  "tx_unstake st tx blockTime = TxOk st' \<Longrightarrow> st_Shielded st' = st_Shielded st"
  "tx_delegate st tx = TxOk st' \<Longrightarrow> st_Shielded st' = st_Shielded st"
  "tx_undelegate st tx blockTime = TxOk st' \<Longrightarrow> st_Shielded st' = st_Shielded st"
  "tx_contract_create E st tx = TxOk st' \<Longrightarrow> st_Shielded st' = st_Shielded st"
  "tx_wasm_deploy E st tx = TxOk st' \<Longrightarrow> st_Shielded st' = st_Shielded st"
  by (auto simp: tx_transfer_def tx_create_token_def tx_mint_def tx_stake_def tx_unjail_def
      tx_validator_profile_def tx_unstake_def tx_delegate_def tx_undelegate_def tx_contract_create_def
      tx_wasm_deploy_def Let_def split: if_splits option.splits wres.splits)

lemma shielded_call: "tx_wasm_call E st tx = TxOk st' \<Longrightarrow> st_Shielded st' = st_Shielded st"
proof -
  have "st_Shielded (fold credit_transfer ts s) = st_Shielded s" for ts s
    by (induction ts arbitrary: s) (auto simp: credit_transfer_def split: prod.split)
  then show "tx_wasm_call E st tx = TxOk st' \<Longrightarrow> st_Shielded st' = st_Shielded st"
    by (auto simp: tx_wasm_call_def commit_call_def Let_def split: if_splits option.splits prod.splits wres.splits)
qed

lemma shielded_proposal:
  assumes "r = maybe_execute_multisig c p st \<or> r = maybe_resolve_dao c p st"
  shows "st_Shielded (store_proposal i k r) = st_Shielded st"
proof -
  obtain c' p' st' where r: "r = (c', p', st')" by (rule prod_cases3)
  with assms show ?thesis
    by (auto simp: store_proposal_def maybe_execute_multisig_def maybe_resolve_dao_def pay_proposal_def Let_def
        split: if_splits)
qed

lemma shielded_exec: "tx_contract_exec st tx blockTime = TxOk st' \<Longrightarrow> st_Shielded st' = st_Shielded st"
  by (auto simp: tx_contract_exec_def vesting_claim_def escrow_release_def escrow_refund_def multisig_propose_def
      multisig_approve_def dao_propose_def dao_vote_def Let_def
      shielded_proposal [OF disjI1 [OF refl]] shielded_proposal [OF disjI2 [OF refl]]
      split: if_splits option.splits)

lemma shielded_block:
  "st_Shielded (release_unbonded blockTime st) = st_Shielded st" "st_Shielded (slash E voter height blockTime st) = st_Shielded st"
  "st_Shielded (miss_slot blockTime a st) = st_Shielded st" "st_Shielded (distribute_reward p x st) = st_Shielded st"
proof -
  have "st_Shielded (fold release_one us s) = st_Shielded s" for us s
    by (induction us arbitrary: s) (simp_all add: release_one_def)
  then show "st_Shielded (release_unbonded blockTime st) = st_Shielded st" by (simp add: release_unbonded_def)
  show "st_Shielded (slash E voter height blockTime st) = st_Shielded st" "st_Shielded (miss_slot blockTime a st) = st_Shielded st"
    by (auto simp: slash_def miss_slot_def slash_weight_def Let_def split: option.split prod.split)
  have "st_Shielded (fst (fold (credit_share pool v) as y)) = st_Shielded (fst y)" for pool v as y
    by (induction as arbitrary: y) (simp_all add: credit_share_def Let_def split: prod.split)
  from this [of _ _ _ "(st, 0)"] show "st_Shielded (distribute_reward p x st) = st_Shielded st"
    by (simp add: distribute_reward_def mint_def Let_def split: option.split prod.split) (metis fst_conv)
qed

subsection \<open>The shielded handlers\<close>

lemma pool_root_bound: "pool_root E cms = Inr r \<Longrightarrow> length cms \<le> pool_capacity"
  by (simp add: pool_root_def split: if_splits)

lemma insert_outputs_ok:
  assumes "insert_outputs E pub pool = Inr pool'"
  shows "pool_root E (sh_Commitments pool') = Inr (sh_Root pool')"
    and "fset (sh_Nullifiers pool') = fset (sh_Nullifiers pool) \<union> set (map (nullifier_key E) (sp_Nfs pub))"
  using assms by (auto simp: insert_outputs_def Let_def rbind_eq_Inr fset_of_list.rep_eq split: if_splits)

lemma check_nullifiers_ok:
  "check_nullifiers used seen keys = Inr () \<Longrightarrow> distinct keys \<and> set keys \<inter> fset used = {} \<and> set keys \<inter> set seen = {}"
  by (induction used seen keys rule: check_nullifiers.induct) (auto split: if_splits)

lemma verify_spend_ok:
  assumes "verify_spend E st tx = Inr (pub, pool)"
  shows "st_Shielded st = Some pool" and "unmarshal_spend_public (tx_SpendPublic tx) = Inr pub"
    and "distinct (map (nullifier_key E) (sp_Nfs pub))" and "set (map (nullifier_key E) (sp_Nfs pub)) \<inter> spent st = {}"
    and "x_verify_spend E pub (tx_SpendProof tx)" and "digest_to_bytes (sp_MerkleRoot pub) = sh_Root pool"
  using assms by (auto simp: verify_spend_def rbind_eq_Inr spent_def split: option.splits sum.splits if_splits
      dest!: check_nullifiers_ok) blast

lemma shield_pool:
  assumes "tx_shield E st tx = TxOk st'"
  shows "pool_ok E st' \<and> spent st' = spent st"
  using assms
  by (auto simp: tx_shield_def shield_res_TxOk pool_ok_def spent_def ensure_shielded_def empty_pool_def Let_def
      dest: pool_root_bound split: if_splits option.splits)

lemma spend_pool:
  assumes "tx_shielded_transfer E st tx = TxOk st' \<and> tx_Type tx = TxShieldedTransfer
    \<or> tx_unshield E st tx = TxOk st' \<and> tx_Type tx = TxUnshield"
  shows "pool_ok E st'" "spent st' = spent st \<union> set (spend_keys E tx)" "distinct (spend_keys E tx)"
    "set (spend_keys E tx) \<inter> spent st = {}"
proof -
  obtain pub pool pool1 pool' where v: "verify_spend E st tx = Inr (pub, pool)"
    and i: "insert_outputs E pub pool = Inr pool1"
    and st': "st_Shielded st' = Some pool'" "sh_Commitments pool' = sh_Commitments pool1" "sh_Root pool' = sh_Root pool1"
      "sh_Nullifiers pool' = sh_Nullifiers pool1"
    using assms by (auto simp: tx_shielded_transfer_def tx_unshield_def shield_res_TxOk split: if_splits)
  have k: "spend_keys E tx = map (nullifier_key E) (sp_Nfs pub)"
    using assms verify_spend_ok(2) [OF v] by (auto simp: spend_keys_def)
  show "distinct (spend_keys E tx)" "set (spend_keys E tx) \<inter> spent st = {}"
    using verify_spend_ok(3,4) [OF v] by (simp_all only: k)
  show "pool_ok E st'"
    using insert_outputs_ok(1) [OF i] pool_root_bound by (auto simp: pool_ok_def st')
  show "spent st' = spent st \<union> set (spend_keys E tx)"
    using insert_outputs_ok(2) [OF i] verify_spend_ok(1) [OF v] by (simp add: spent_def st' k)
qed

lemma pool_cong: "st_Shielded st' = st_Shielded st \<Longrightarrow> pool_ok E st' = pool_ok E st"
  "st_Shielded st' = st_Shielded st \<Longrightarrow> spent st' = spent st"
  by (simp_all add: pool_ok_def spent_def)

lemmas shielded_same = shielded_kept shielded_call shielded_exec

interpretation pools: block_invariant E "pool_ok E" for E :: "'z chain_ext_scheme"
proof
  fix st st' :: state and tx blockTime
  assume ok: "pool_ok E st" and d: "tx_dispatch E st tx blockTime = TxOk st'"
  note same = pool_cong(1) [THEN iffD2, OF _ ok]
  have sp: "tx_shielded_transfer E st tx = TxOk st' \<Longrightarrow> tx_Type tx = TxShieldedTransfer \<Longrightarrow> pool_ok E st'"
    "tx_unshield E st tx = TxOk st' \<Longrightarrow> tx_Type tx = TxUnshield \<Longrightarrow> pool_ok E st'"
    using spend_pool(1) by blast+
  from d show "pool_ok E st'"
    by (rule dispatch_cases) (blast intro: same shielded_same shield_pool [THEN conjunct1] sp)+
qed (simp_all add: pool_ok_def shielded_block mint_def bootstrap_stake_def bootstrap_vesting_def commit_block_def
    set_finalized_def set_params_def new_state_def Let_def)

subsection \<open>No double spend\<close>

lemma dispatch_spent:
  assumes d: "tx_dispatch E st tx blockTime = TxOk st'"
  shows "spent st' = spent st \<union> set (spend_keys E tx) \<and> distinct (spend_keys E tx) \<and> set (spend_keys E tx) \<inter> spent st = {}"
proof -
  define Q where "Q \<longleftrightarrow> spent st' = spent st \<union> set (spend_keys E tx) \<and> distinct (spend_keys E tx) \<and> set (spend_keys E tx) \<inter> spent st = {}"
  have plain: "spend_keys E tx = []" if "tx_Type tx \<in> {TxTransfer, TxCreateToken, TxMint, TxStake, TxUnjail, TxValidatorProfile,
      TxUnstake, TxDelegate, TxUndelegate, TxContractCreate, TxContractExec, TxShield, TxWasmDeploy, TxWasmCall}"
    using that by (auto simp: spend_keys_def tx_type_defs)
  have none: "spend_keys E tx = [] \<Longrightarrow> st_Shielded st' = st_Shielded st \<Longrightarrow> Q"
    using pool_cong(2) [of st' st] by (simp add: Q_def)
  have sh: "tx_shield E st tx = TxOk st' \<Longrightarrow> tx_Type tx = TxShield \<Longrightarrow> Q"
    using plain shield_pool [of E st tx st'] by (simp add: Q_def)
  have sp: "tx_shielded_transfer E st tx = TxOk st' \<Longrightarrow> tx_Type tx = TxShieldedTransfer \<Longrightarrow> Q"
    "tx_unshield E st tx = TxOk st' \<Longrightarrow> tx_Type tx = TxUnshield \<Longrightarrow> Q"
    using spend_pool(2-4) [of E st tx st'] by (simp_all add: Q_def)
  from d have Q
    by (rule dispatch_cases)
      ((rule sh sp; assumption) | (rule none, simp only: plain insert_iff simp_thms, erule shielded_same))+
  then show ?thesis by (simp add: Q_def)
qed

lemma apply_spent:
  assumes "apply_tx E st tx proposer blockTime = Applied st'"
  shows "spent st' = spent st \<union> set (spend_keys E tx)" "distinct (spend_keys E tx)" "set (spend_keys E tx) \<inter> spent st = {}"
proof -
  obtain st1 where d: "tx_dispatch E (touch (tx_From tx) st) tx blockTime = TxOk st1"
    and st': "st' = charge_fees tx proposer (tx_burn (touch (tx_From tx) st) tx) st1"
    using assms by (auto simp: apply_tx_def Let_def split: tx_res.splits)
  have "spent (touch (tx_From tx) st) = spent st" "spent st' = spent st1" by (simp_all add: spent_def st')
  with dispatch_spent [OF d] show "spent st' = spent st \<union> set (spend_keys E tx)" "distinct (spend_keys E tx)"
    "set (spend_keys E tx) \<inter> spent st = {}" by simp_all
qed

lemma run_txs_spent:
  assumes "run_txs E p t strict txs ap fl st = Ran applied failed st'"
  shows "\<exists>new. applied = ap @ new \<and> distinct (concat (map (spend_keys E) new))
    \<and> set (concat (map (spend_keys E) new)) \<inter> spent st = {}
    \<and> spent st' = spent st \<union> set (concat (map (spend_keys E) new))"
  using assms
proof (induction txs arbitrary: ap fl st)
  case (Cons tx txs)
  show ?case
  proof (cases "apply_tx E st tx p t")
    case (Applied st1)
    then have "run_txs E p t strict txs (ap @ [tx]) fl st1 = Ran applied failed st'" using Cons.prems by simp
    from Cons.IH [OF this] obtain new where n: "applied = (ap @ [tx]) @ new" "distinct (concat (map (spend_keys E) new))"
      "set (concat (map (spend_keys E) new)) \<inter> spent st1 = {}"
      "spent st' = spent st1 \<union> set (concat (map (spend_keys E) new))" by blast
    have "applied = ap @ (tx # new)" "distinct (concat (map (spend_keys E) (tx # new)))"
      "set (concat (map (spend_keys E) (tx # new))) \<inter> spent st = {}"
      "spent st' = spent st \<union> set (concat (map (spend_keys E) (tx # new)))"
      using n apply_spent [OF Applied] by (auto simp del: distinct_concat_iff)
    then show ?thesis by blast
  next
    case (Rejected e st1)
    have "spent st1 = spent st" using apply_tx_Rejected [OF Rejected] by (simp add: spent_def)
    moreover have "run_txs E p t strict txs ap (fl @ [(tx_hash E tx, e)]) st1 = Ran applied failed st'"
      using Cons.prems Rejected by (simp split: if_splits)
    ultimately show ?thesis using Cons.IH by metis
  qed (use Cons.prems in simp_all)
qed simp

end
