(* ===== verification/Genesis.thy ===== *)
theory Genesis
  imports Chain "HOL-Library.Multiset"
begin

text \<open>
  \<^verbatim>\<open>internal/genesis/genesis.go\<close>: the genesis document, its validation with the supply it declares,
  and its application to an empty state. The two allocation maps are visited in Go's map order,
  \<open>x_range E\<close>; \<^verbatim>\<open>sort.Slice\<close> is not stable, so the sorted order of the grants is the parameter
  \<open>x_sort_grants\<close>. The theory shows that the map order does not matter and what the supply is.
\<close>

subsection \<open>The document\<close>

record vesting_grant =
  vg_Beneficiary :: string
  vg_Amount :: u64
  vg_StartMs :: i64
  vg_EndMs :: i64

record genesis =
  gn_ChainID :: string
  gn_Timestamp :: i64
  gn_Params :: "params option"
  gn_Alloc :: "(string, u64) fmap"
  gn_Stakes :: "(string, u64) fmap"
  gn_Vesting :: "vesting_grant list"

record genesis_ext = chain_ext +
  x_sort_grants :: "vesting_grant list \<Rightarrow> vesting_grant list"

definition genesis_params :: "genesis \<Rightarrow> params" where
  "genesis_params g = (case gn_Params g of Some p \<Rightarrow> p | None \<Rightarrow> default_params)"

subsection \<open>Apply\<close>

definition grant_id :: "nat \<Rightarrow> string" where
  "grant_id i = ''genesis-vesting-'' @ dec_string i"

definition apply_grant :: "nat \<times> vesting_grant \<Rightarrow> state \<Rightarrow> state" where
  "apply_grant = (\<lambda>(i, gr). bootstrap_vesting (grant_id i) (vg_Beneficiary gr) (vg_Amount gr) (vg_StartMs gr) (vg_EndMs gr))"

definition mint_alloc :: "(string, u64) fmap \<Rightarrow> string \<Rightarrow> state \<Rightarrow> state" where
  "mint_alloc m addr = mint addr (mget m addr)"

definition stake_alloc :: "(string, u64) fmap \<Rightarrow> string \<Rightarrow> state \<Rightarrow> state" where
  "stake_alloc m addr = bootstrap_stake addr (mget m addr)"

text \<open>The state before the block is built, from the orders in which the two maps are visited.\<close>

definition seed_state :: "genesis \<Rightarrow> string list \<Rightarrow> string list \<Rightarrow> vesting_grant list \<Rightarrow> state \<Rightarrow> state" where
  "seed_state g allocs stakes grants st =
     fold apply_grant (List.enumerate 0 grants)
       (fold (stake_alloc (gn_Stakes g)) stakes
         (fold (mint_alloc (gn_Alloc g)) allocs
           (set_params (genesis_params g) st)))"

definition genesis_header :: "'z chain_ext_scheme \<Rightarrow> genesis \<Rightarrow> state \<Rightarrow> block_header" where
  "genesis_header E g st =
     \<lparr>h_Height = 0, h_PrevHash = [], h_Timestamp = gn_Timestamp g, h_Proposer = [], h_Round = 0,
      h_TxRoot = tx_root E [], h_EvidenceRoot = evidence_root E [], h_LastCommitRoot = commit_root E [],
      h_StateRoot = state_root E st\<rparr>"

text \<open>The body of \<^verbatim>\<open>Apply\<close> for given orders, and \<^verbatim>\<open>Apply\<close> itself.\<close>

definition genesis_build :: "'z chain_ext_scheme \<Rightarrow> genesis \<Rightarrow> string list \<Rightarrow> string list \<Rightarrow> vesting_grant list
    \<Rightarrow> state \<Rightarrow> block \<times> state" where
  "genesis_build E g allocs stakes grants st =
     (let st1 = seed_state g allocs stakes grants st;
          b = \<lparr>b_Header = genesis_header E g st1, b_Txs = [], b_Evidence = [], b_LastCommit = [], b_Hash = [],
               b_ProposerPubKey = [], b_ProposerSignature = []\<rparr>;
          b = b\<lparr>b_Hash := block_compute_hash E b\<rparr>
      in (b, commit_block 0 (b_Hash b) st1))"

definition genesis_apply :: "'z genesis_ext_scheme \<Rightarrow> genesis \<Rightarrow> state \<Rightarrow> block \<times> state" where
  "genesis_apply E g st =
     genesis_build E g (x_range E (gn_Alloc g)) (x_range E (gn_Stakes g)) (x_sort_grants E (gn_Vesting g)) st"

subsection \<open>Validate\<close>

record genesis_summary =
  gs_ChainID :: string
  gs_Liquid :: u64
  gs_Staked :: u64
  gs_Vested :: u64
  gs_TotalSupply :: u64
  gs_Validators :: nat
  gs_VestingN :: nat

datatype genesis_err =
    GNoChainID | GBadParams | GAllocAddress string | GAllocZero string | GStakeAddress string | GStakeMin string
  | GGrantBeneficiary nat | GGrantZero nat | GGrantWindow nat | GNoValidator

fun check_allocs :: "(string, u64) fmap \<Rightarrow> string list \<Rightarrow> u64 \<Rightarrow> genesis_err + u64" where
  "check_allocs m [] tot = Inr tot"
| "check_allocs m (addr # addrs) tot =
     (if \<not> valid_address addr then Inl (GAllocAddress addr)
      else if mget m addr = 0 then Inl (GAllocZero addr)
      else check_allocs m addrs (tot + mget m addr))"

fun check_stakes :: "u64 \<Rightarrow> (string, u64) fmap \<Rightarrow> string list \<Rightarrow> u64 \<Rightarrow> nat \<Rightarrow> genesis_err + u64 \<times> nat" where
  "check_stakes least m [] tot n = Inr (tot, n)"
| "check_stakes least m (addr # addrs) tot n =
     (if \<not> valid_address addr then Inl (GStakeAddress addr)
      else if mget m addr < least then Inl (GStakeMin addr)
      else check_stakes least m addrs (tot + mget m addr) (n + 1))"

fun check_grants :: "nat \<Rightarrow> vesting_grant list \<Rightarrow> u64 \<Rightarrow> genesis_err + u64" where
  "check_grants i [] tot = Inr tot"
| "check_grants i (gr # grs) tot =
     (if \<not> valid_address (vg_Beneficiary gr) then Inl (GGrantBeneficiary i)
      else if vg_Amount gr = 0 then Inl (GGrantZero i)
      else if i64_le (vg_StartMs gr) 0 \<or> i64_le (vg_EndMs gr) (vg_StartMs gr) then Inl (GGrantWindow i)
      else check_grants (i + 1) grs (tot + vg_Amount gr))"

definition genesis_validate :: "'z chain_ext_scheme \<Rightarrow> genesis \<Rightarrow> genesis_err + genesis_summary" where
  "genesis_validate E g =
     (let p = genesis_params g in
      if gn_ChainID g = [] then Inl GNoChainID
      else if i64_le (p_BlockIntervalMs p) 0 \<or> p_MaxBlockTxs p = 0 \<or> p_MinValidatorStake p = 0 then Inl GBadParams
      else
        rbind (check_allocs (gn_Alloc g) (x_range E (gn_Alloc g)) 0) (\<lambda>liquid.
        rbind (check_stakes (p_MinValidatorStake p) (gn_Stakes g) (x_range E (gn_Stakes g)) 0 0) (\<lambda>(staked, n).
        rbind (check_grants 0 (gn_Vesting g) 0) (\<lambda>vested.
          if n = 0 then Inl GNoValidator
          else Inr \<lparr>gs_ChainID = gn_ChainID g, gs_Liquid = liquid, gs_Staked = staked, gs_Vested = vested,
                    gs_TotalSupply = liquid + staked + vested, gs_Validators = n,
                    gs_VestingN = length (gn_Vesting g)\<rparr>))))"

subsection \<open>The order of the maps\<close>

lemma acct_upd_commute:
  assumes "a \<noteq> b"
  shows "acct_upd a f (acct_upd b g st) = acct_upd b g (acct_upd a f st)"
  using assms by (simp add: acct_upd_def acct_def fmupd_reorder_neq)

lemma mint_supply_commute: "mint_supply x (mint_supply y st) = mint_supply y (mint_supply x st)"
  by (simp add: mint_supply_def ac_simps)

lemma mint_acct: "mint_supply x (acct_upd a f st) = acct_upd a f (mint_supply x st)"
  by (simp add: mint_supply_def acct_upd_def acct_def)

lemma mint_alloc_commute: "mint_alloc m a \<circ> mint_alloc m b = mint_alloc m b \<circ> mint_alloc m a"
proof (cases "a = b")
  case False
  then show ?thesis
    by (simp add: fun_eq_iff mint_alloc_def mint_def bal_add_def mint_acct acct_upd_commute [OF False] mint_supply_commute [of "mget m a"])
qed simp

definition bump_stake :: "string \<Rightarrow> u64 \<Rightarrow> state \<Rightarrow> state" where
  "bump_stake a x st = val_upd a ((validator_or_new st a)\<lparr>va_Stake := va_Stake (validator_or_new st a) + x\<rparr>) st"

lemma bump_stake_commute:
  "a \<noteq> b \<Longrightarrow> bump_stake a x (bump_stake b y st) = bump_stake b y (bump_stake a x st)"
  "bump_stake a x (mint_supply y st) = mint_supply y (bump_stake a x st)"
  "bump_stake a x (acct_upd b f st) = acct_upd b f (bump_stake a x st)"
  by (simp_all add: bump_stake_def val_upd_def validator_or_new_def fmupd_reorder_neq mint_supply_def acct_upd_def acct_def)

lemma stake_alloc_eq:
  "stake_alloc m a st = bump_stake a (mget m a)
     (mint_supply (mget m a) (acct_upd a (\<lambda>ac. ac\<lparr>ac_Staked := ac_Staked ac + mget m a\<rparr>) st))"
  by (simp add: stake_alloc_def bootstrap_stake_def bump_stake_def Let_def)

lemma stake_alloc_commute: "stake_alloc m a \<circ> stake_alloc m b = stake_alloc m b \<circ> stake_alloc m a"
proof (cases "a = b")
  case False
  then show ?thesis
    by (simp add: fun_eq_iff stake_alloc_eq mint_acct bump_stake_commute(2,3) [symmetric] mint_supply_commute [of "mget m a"])
      (simp add: bump_stake_commute mint_acct acct_upd_commute [OF False] mint_supply_commute [of "mget m a"])
qed simp

text \<open>Any two orders of the two maps lead to the same state.\<close>

lemma seed_state_order:
  assumes "mset allocs = mset allocs'" and "mset stakes = mset stakes'"
  shows "seed_state g allocs stakes grants st = seed_state g allocs' stakes' grants st"
proof -
  have "fold (mint_alloc m) allocs = fold (mint_alloc m) allocs'" for m
    by (rule fold_multiset_equiv [OF mint_alloc_commute assms(1)])
  moreover have "fold (stake_alloc m) stakes = fold (stake_alloc m) stakes'" for m
    by (rule fold_multiset_equiv [OF stake_alloc_commute assms(2)])
  ultimately show ?thesis by (simp add: seed_state_def)
qed

subsection \<open>A genesis state is the start of a chain\<close>

lemma seeded_fold: "(\<And>x st. seeded st \<Longrightarrow> seeded (f x st)) \<Longrightarrow> seeded st \<Longrightarrow> seeded (fold f xs st)"
  by (induction xs arbitrary: st) auto

lemma seeded_state: "seeded (seed_state g allocs stakes grants (new_state p))"
  unfolding seed_state_def
  by (intro seeded_fold)
    (auto simp: apply_grant_def stake_alloc_def mint_alloc_def intro: seeded.intros)

lemma genesis_reachable: "genesis_apply E g (new_state p) = (b, st) \<Longrightarrow> reachable E st"
  by (auto simp: genesis_apply_def genesis_build_def Let_def intro: reachable.genesis seeded_state)

subsection \<open>The supply\<close>

lemma supply_fold:
  assumes "\<And>x st. su_Total (st_Supply (f x st)) = su_Total (st_Supply st) + w x"
  shows "su_Total (st_Supply (fold f xs st)) = su_Total (st_Supply st) + sum_list (map w xs)"
  by (induction xs arbitrary: st) (simp_all add: assms ac_simps)

lemma supply_steps [simp]:
  "su_Total (st_Supply (mint_alloc m a st)) = su_Total (st_Supply st) + mget m a"
  "su_Total (st_Supply (stake_alloc m a st)) = su_Total (st_Supply st) + mget m a"
  "su_Total (st_Supply (apply_grant (i, gr) st)) = su_Total (st_Supply st) + vg_Amount gr"
  by (simp_all add: mint_alloc_def mint_def mint_supply_def stake_alloc_def bootstrap_stake_def apply_grant_def
      bootstrap_vesting_def val_upd_def Let_def)

lemma seed_state_supply:
  "su_Total (st_Supply (seed_state g allocs stakes grants (new_state p)))
     = sum_list (map (mget (gn_Alloc g)) allocs) + sum_list (map (mget (gn_Stakes g)) stakes)
       + sum_list (map vg_Amount grants)"
proof -
  have "su_Total (st_Supply (fold apply_grant (List.enumerate k gs) st)) = su_Total (st_Supply st) + sum_list (map vg_Amount gs)"
    for k gs st by (induction gs arbitrary: k st) (simp_all add: ac_simps)
  then show ?thesis
    by (simp add: seed_state_def supply_fold [where w = "mget _"] set_params_def new_state_def)
qed

lemma check_allocs_sum: "check_allocs m addrs tot = Inr t \<Longrightarrow> t = tot + sum_list (map (mget m) addrs)"
  by (induction addrs arbitrary: tot) (auto simp flip: add.assoc split: if_splits)

lemma check_stakes_sum: "check_stakes least m addrs tot n = Inr (t, n') \<Longrightarrow> t = tot + sum_list (map (mget m) addrs)"
  by (induction addrs arbitrary: tot n) (auto simp flip: add.assoc split: if_splits)

lemma check_grants_sum: "check_grants i grs tot = Inr t \<Longrightarrow> t = tot + sum_list (map vg_Amount grs)"
  by (induction grs arbitrary: tot i) (auto simp flip: add.assoc split: if_splits)

end
