(* ===== verification/ChainProps.thy ===== *)
theory ChainProps
  imports Stakes Vaults Pool Genesis
begin

text \<open>
  Properties of every state of a chain, by the invariants of \<open>Stakes\<close>, \<open>Vaults\<close> and \<open>Pool\<close>, and of
  the genesis document.
\<close>

subsection \<open>A concrete chain\<close>

definition sample_genesis_ext :: "genesis_ext" where
  "sample_genesis_ext = chain_ext.extend sample_ext \<lparr>x_sort_grants = (\<lambda>gs. gs)\<rparr>"

definition sample_grant :: vesting_grant where
  "sample_grant = \<lparr>vg_Beneficiary = ''cg01'', vg_Amount = 7, vg_StartMs = 10, vg_EndMs = 20\<rparr>"

definition sample_genesis :: genesis where
  "sample_genesis = \<lparr>gn_ChainID = ''c'', gn_Timestamp = 1, gn_Params = None,
     gn_Alloc = fmap_of_list [(''cg01'', 100 * Unit)], gn_Stakes = fmap_of_list [(''val1'', 10000 * Unit)],
     gn_Vesting = [sample_grant]\<rparr>"

definition sample_start :: state where
  "sample_start = commit_block 0 ''h'' (seed_state sample_genesis [''cg01''] [''val1''] [sample_grant] (new_state default_params))"

lemma sample_start_reachable: "reachable sample_ext sample_start"
  unfolding sample_start_def by (intro reachable.genesis seeded_state)

text \<open>A vault of two signers, created by a block on top of the genesis state.\<close>

definition sample_vault :: contract_params where
  "sample_vault = \<lparr>cp_Template = TemplateMultisig, cp_TokenID = NativeToken, cp_Amount = 1000, cp_Beneficiary = '''',
     cp_StartMs = 0, cp_EndMs = 0, cp_Seller = '''', cp_Arbiter = '''', cp_Signers = [''cg01'', ''cg02''], cp_Threshold = 1\<rparr>"

definition sample_create :: transaction where
  "sample_create = (transfer_of ''cg01'' '''' 0 0)\<lparr>tx_Type := TxContractCreate, tx_Contract := Some sample_vault\<rparr>"

definition sample_propose :: transaction where
  "sample_propose = (transfer_of ''cg01'' ''cg09'' 300 1)\<lparr>tx_Type := TxContractExec,
     tx_ContractID := tx_hash sample_ext sample_create, tx_Action := ActionPropose\<rparr>"

definition executed_state :: "exec_result \<Rightarrow> state option" where
  "executed_state r = (case r of Executed _ _ _ st \<Rightarrow> Some st | _ \<Rightarrow> None)"

definition sample_vault_block :: "state option" where
  "sample_vault_block = executed_state (execute sample_ext [sample_create, sample_propose] [] [] ''val1'' 1000 False sample_start)"

lemma executed_stateE:
  assumes "executed_state r = Some st"
  obtains applied failed root where "r = Executed applied failed root st"
  using assms by (cases r) (auto simp: executed_state_def)

lemma sample_vault_block:
  obtains st c where "reachable sample_ext st"
    "fmlookup (st_Contracts st) (tx_hash sample_ext sample_create) = Some c"
    "ct_Template c = TemplateMultisig" "ct_Released c = 300"
proof -
  have "(case sample_vault_block of None \<Rightarrow> False
    | Some st \<Rightarrow> (case fmlookup (st_Contracts st) (tx_hash sample_ext sample_create) of None \<Rightarrow> False
        | Some c \<Rightarrow> ct_Template c = TemplateMultisig \<and> ct_Released c = 300))" by code_simp
  then obtain st c where s: "sample_vault_block = Some st"
    "fmlookup (st_Contracts st) (tx_hash sample_ext sample_create) = Some c"
    "ct_Template c = TemplateMultisig" "ct_Released c = 300" by (auto split: option.splits)
  from s(1) obtain applied failed root where
    "execute sample_ext [sample_create, sample_propose] [] [] ''val1'' 1000 False sample_start = Executed applied failed root st"
    unfolding sample_vault_block_def by (rule executed_stateE)
  then have "reachable sample_ext (commit_block 1 ''h1'' st)" by (rule reachable.block [OF sample_start_reachable])
  with s(2-) show thesis using that [of "commit_block 1 ''h1'' st" c] by (simp add: commit_block_def)
qed

text \<open>A chain with the shielded pool switched on, and a note shielded by its first block.\<close>

definition shield_params :: params where
  "shield_params = default_params\<lparr>p_PrivacyEnabled := True\<rparr>"

definition shield_start :: state where
  "shield_start = commit_block 0 ''h'' (mint ''cg01'' (100 * Unit) (set_params shield_params (new_state default_params)))"

definition sample_shield :: transaction where
  "sample_shield = (transfer_of ''cg01'' '''' 500 0)\<lparr>tx_Type := TxShield, tx_ShieldCommitment := replicate 32 0\<rparr>"

lemma shield_start_reachable: "reachable sample_ext shield_start"
  unfolding shield_start_def by (intro reachable.genesis seeded.intros)

lemma pool_leaves_Inr: "\<forall>cm \<in> set cms. length cm = 32 \<Longrightarrow> \<exists>ds. pool_leaves cms = Inr ds"
  by (induction cms) (auto simp: cm_to_digest_def poseidonDigestBytes_def)

lemma pool_root_Inr: "\<forall>cm \<in> set cms. length cm = 32 \<Longrightarrow> length cms \<le> 4096 \<Longrightarrow> \<exists>r. pool_root E cms = Inr r"
  using pool_leaves_Inr [of cms] by (auto simp: pool_root_def pool_capacity_def spendDepth_def)

lemma sample_pool:
  obtains st pool where "reachable sample_ext st" "st_Shielded st = Some pool" "sh_Commitments pool = [replicate 32 0]"
proof -
  let ?st = "touch ''cg01'' shield_start"
  have p: "st_Params shield_start = shield_params" "st_Shielded shield_start = None" "st_Unbonding shield_start = []"
    by (simp_all add: shield_start_def commit_block_def mint_def mint_supply_def bal_add_def acct_upd_def set_params_def new_state_def)
  obtain r where r: "pool_root sample_ext [replicate 32 0] = Inr r" using pool_root_Inr [of "[replicate 32 0]" sample_ext] by auto
  have g: "tx_guards ?st sample_shield = TxOk ()" by code_simp
  have t: "tx_From sample_shield = ''cg01''" "tx_Type sample_shield = TxShield" "tx_ShieldCommitment sample_shield = replicate 32 0"
    by (simp_all add: sample_shield_def transfer_of_def)
  obtain st1 pool where d: "tx_shield sample_ext ?st sample_shield = TxOk st1" and q: "st_Shielded st1 = Some pool"
    "sh_Commitments pool = [replicate 32 0]" and sp: "st_Params st1 = shield_params"
    by (auto simp: tx_shield_def tx_check_def shield_res_def t p r shield_params_def cm_to_digest_def poseidonDigestBytes_def
        pool_capacity_def spendDepth_def set_pool_def Let_def)
  have dd: "tx_dispatch sample_ext ?st sample_shield 1000 = TxOk st1"
    using d by (simp add: tx_dispatch_def t tx_type_defs)
  define st2 where "st2 = charge_fees sample_shield [] (tx_burn ?st sample_shield) st1"
  have "begin_block sample_ext [] [] [] 1000 shield_start = shield_start"
    by (simp add: begin_block_def release_unbonded_def p)
  then have run: "run_txs sample_ext [] 1000 False [sample_shield] [] []
      (begin_block sample_ext [] [] [] 1000 shield_start) = Ran [sample_shield] [] st2"
    using g dd by (simp add: apply_tx_def t st2_def)
  have k: "st_Shielded st2 = Some pool" "st_Params st2 = shield_params"
    using q sp by (simp_all add: st2_def charge_fees_def bump_nonce_def Let_def)
  obtain fee where "next_base_fee (st_BaseFee st2) 1 (st_Params st2) = Some fee"
    by (simp add: k next_base_fee_def shield_params_def default_params_def Let_def) (metis option.distinct(1))
  with run have "execute sample_ext [sample_shield] [] [] [] 1000 False shield_start
      = Executed [sample_shield] [] (state_root sample_ext (st2\<lparr>st_BaseFee := fee\<rparr>)) (st2\<lparr>st_BaseFee := fee\<rparr>)"
    by (simp add: execute_def pay_reward_def Let_def)
  from reachable.block [OF shield_start_reachable this, of 1 "''h1''"] q k show thesis
    using that [of "commit_block 1 ''h1'' (st2\<lparr>st_BaseFee := fee\<rparr>)" pool] by (simp add: commit_block_def)
qed

subsection \<open>Invariants\<close>

text \<open>
  C7. In every state of a chain each validator is filed under its own address and its delegated
  total is the sum of its delegations, whatever stakes, delegations, slashing, jailing and rewards
  have happened.
\<close>

theorem delegations_add_up:
  assumes "reachable E st" and "fmlookup (st_Validators st) k = Some v"
  shows "va_Address v = k \<and> va_Delegated v = fmsum (\<lambda>x. x) (va_Delegators v)"
  using validators_okD [OF stakes.reachable_I [OF assms(1)] assms(2)] by (simp add: validator_ok_def)

theorem delegations_add_up_witness:
  "\<exists>v. fmlookup (st_Validators sample_start) ''val1'' = Some v \<and> va_Address v = ''val1''
     \<and> va_Delegated v = fmsum (\<lambda>x. x) (va_Delegators v)"
proof -
  have "fmlookup (st_Validators sample_start) ''val1'' \<noteq> None" by code_simp
  then obtain v where "fmlookup (st_Validators sample_start) ''val1'' = Some v" by blast
  with delegations_add_up [OF sample_start_reachable this] show ?thesis by blast
qed

text \<open>
  C6. In every state of a chain a multisig or DAO vault has paid out exactly the sum of its executed
  proposals, never more than it was funded with; every ballot was cast by a distinct signer, and
  every executed proposal has the approvals of its threshold and was not rejected.
\<close>

theorem vaults_never_overpay:
  assumes "reachable E st" and "fmlookup (st_Contracts st) i = Some c"
    and "ct_Template c = TemplateMultisig \<or> ct_Template c = TemplateDAO"
  shows "ct_Released c \<le> ct_Amount c
    \<and> (\<Sum>p\<leftarrow>ct_Proposals c. if mp_Executed p then unat (mp_Amount p) else 0) = unat (ct_Released c)
    \<and> (\<forall>p \<in> set (ct_Proposals c). distinct (mp_Approvals p @ mp_Against p)
        \<and> set (mp_Approvals p @ mp_Against p) \<subseteq> set (ct_Signers c)
        \<and> (mp_Executed p \<longrightarrow> ct_Threshold c \<le> of_nat (length (mp_Approvals p)) \<and> \<not> mp_Rejected p))"
proof -
  have ok: "vault_ok c" using vaults_okD [OF vaults.reachable_I [OF assms(1)] assms(2)] .
  have "is_vault c" using assms(3) by (simp add: is_vault_def)
  from vault_okD [OF ok this] show ?thesis by (simp add: paid_def [abs_def] ballot_ok_def)
qed

theorem vaults_never_overpay_witness:
  "\<exists>st c. reachable sample_ext st \<and> fmlookup (st_Contracts st) (tx_hash sample_ext sample_create) = Some c
     \<and> (\<Sum>p\<leftarrow>ct_Proposals c. if mp_Executed p then unat (mp_Amount p) else 0) = 300"
proof -
  obtain st c where r: "reachable sample_ext st" and c: "fmlookup (st_Contracts st) (tx_hash sample_ext sample_create) = Some c"
    and t: "ct_Template c = TemplateMultisig" "ct_Released c = 300" by (rule sample_vault_block)
  from vaults_never_overpay [OF r c disjI1 [OF t(1)]] t(2)
  have "(\<Sum>p\<leftarrow>ct_Proposals c. if mp_Executed p then unat (mp_Amount p) else 0) = 300" by simp
  with r c show ?thesis by blast
qed

text \<open>
  C8. In every state of a chain the shielded pool holds at most \<open>2 ^ 12\<close> notes, as many as the spend
  circuit can address, and its stored root is the Poseidon root of exactly these notes.
\<close>

theorem pool_root_current:
  assumes "reachable E st" and "st_Shielded st = Some pool"
  shows "length (sh_Commitments pool) \<le> 4096 \<and> pool_root E (sh_Commitments pool) = Inr (sh_Root pool)"
  using pools.reachable_I [OF assms(1)] assms(2) by (simp add: pool_ok_def pool_capacity_def spendDepth_def)

theorem pool_root_current_witness:
  "\<exists>st pool. reachable sample_ext st \<and> st_Shielded st = Some pool \<and> sh_Commitments pool = [replicate 32 0]
     \<and> pool_root sample_ext [replicate 32 0] = Inr (sh_Root pool)"
proof -
  obtain st pool where r: "reachable sample_ext st" "st_Shielded st = Some pool" "sh_Commitments pool = [replicate 32 0]"
    by (rule sample_pool)
  with pool_root_current [OF r(1,2)] show ?thesis by auto
qed

text \<open>
  C3. No note is spent twice. In a run of a block the nullifiers of all applied spends are pairwise
  different and none was spent before; afterwards exactly they have been added to the spent set.
\<close>

theorem no_double_spend:
  assumes "run_txs E proposer blockTime strict txs [] [] st = Ran applied failed st'"
  shows "distinct (concat (map (spend_keys E) applied))
    \<and> set (concat (map (spend_keys E) applied)) \<inter> spent st = {}
    \<and> spent st' = spent st \<union> set (concat (map (spend_keys E) applied))"
  using run_txs_spent [OF assms] by auto

definition sample_public :: spend_public where
  "sample_public = \<lparr>sp_MerkleRoot = [0, 0, 0, 0], sp_Nfs = [[1, 2, 3, 4]], sp_OutCms = [[5, 6, 7, 8]], sp_Fee = 0\<rparr>"

definition sample_spend :: transaction where
  "sample_spend = (transfer_of ''cg01'' ''cg02'' 0 0)\<lparr>tx_Type := TxUnshield, tx_SpendPublic := marshal_spend_public sample_public\<rparr>"

definition spend_start :: state where
  "spend_start = (set_pool (empty_pool\<lparr>sh_Commitments := [replicate 32 0], sh_Root := digest_to_bytes [0, 0, 0, 0]\<rparr>) sample_state)
     \<lparr>st_Params := shield_params\<rparr>"

lemma sample_public_ok: "spend_public_ok sample_public"
  by code_simp

lemma sample_spend_runs:
  "\<exists>st'. run_txs sample_ext ''val1'' 0 True [sample_spend] [] [] spend_start = Ran [sample_spend] [] st'"
proof -
  let ?st = "touch ''cg01'' spend_start"
  have t: "tx_From sample_spend = ''cg01''" "tx_Type sample_spend = TxUnshield" "tx_SpendPublic sample_spend = marshal_spend_public sample_public"
    by (simp_all add: sample_spend_def transfer_of_def)
  have g: "tx_guards ?st sample_spend = TxOk ()" by code_simp
  let ?q = "empty_pool\<lparr>sh_Commitments := [replicate 32 0], sh_Root := digest_to_bytes [0, 0, 0, 0]\<rparr>"
  have s: "st_Shielded spend_start = Some ?q" "st_Params spend_start = shield_params"
    by (simp_all add: spend_start_def set_pool_def)
  have e: "x_spend_proof_ok sample_ext p" "x_verify_spend sample_ext q p" for p q by (simp_all add: sample_ext_def)
  have q: "sp_MerkleRoot sample_public = [0, 0, 0, 0]" "sp_Nfs sample_public = [[1, 2, 3, 4]]" "sp_OutCms sample_public = [[5, 6, 7, 8]]"
    "sp_Fee sample_public = 0" by (simp_all add: sample_public_def)
  have v: "verify_spend sample_ext ?st sample_spend = Inr (sample_public, ?q)"
    by (simp add: verify_spend_def s t e q unmarshal_marshal_spend [OF sample_public_ok] empty_pool_def)
  obtain r where r: "pool_root sample_ext [replicate 32 0, digest_to_bytes [5, 6, 7, 8]] = Inr r"
    using pool_root_Inr [of "[replicate 32 0, digest_to_bytes [5, 6, 7, 8]]" sample_ext]
    by (auto simp: digest_to_bytes_def codec_simps)
  obtain st1 where d: "tx_unshield sample_ext ?st sample_spend = TxOk st1"
    by (simp add: tx_unshield_def tx_check_def shield_res_def v s q insert_outputs_def Let_def r empty_pool_def
        pool_capacity_def spendDepth_def shield_params_def)
  then have "tx_dispatch sample_ext ?st sample_spend 0 = TxOk st1"
    by (simp add: tx_dispatch_def t tx_type_defs)
  with g show ?thesis by (simp add: apply_tx_def t)
qed

theorem no_double_spend_witness:
  "\<exists>st'. run_txs sample_ext ''val1'' 0 True [sample_spend] [] [] spend_start = Ran [sample_spend] [] st'
     \<and> spent spend_start = {} \<and> spent st' = {nullifier_key sample_ext [1, 2, 3, 4]}"
proof -
  have k: "spend_keys sample_ext sample_spend = [nullifier_key sample_ext [1, 2, 3, 4]]"
    by (simp add: spend_keys_def sample_spend_def unmarshal_marshal_spend [OF sample_public_ok]) (simp add: sample_public_def)
  have e: "spent spend_start = {}" by (simp add: spent_def spend_start_def set_pool_def empty_pool_def)
  obtain st' where r: "run_txs sample_ext ''val1'' 0 True [sample_spend] [] [] spend_start = Ran [sample_spend] [] st'"
    using sample_spend_runs by blast
  from no_double_spend [OF r] r e k show ?thesis by simp
qed

subsection \<open>Genesis\<close>

text \<open>
  Applying a genesis document gives the same block and the same state on every node, whatever
  order Go's runtime visits the two allocation maps in; the state is the start of a chain.
\<close>

theorem genesis_deterministic:
  assumes "mset allocs = mset (x_range E (gn_Alloc g))" and "mset stakes = mset (x_range E (gn_Stakes g))"
  shows "genesis_build E g allocs stakes (x_sort_grants E (gn_Vesting g)) (new_state p) = genesis_apply E g (new_state p)
    \<and> reachable E (snd (genesis_apply E g (new_state p)))"
proof
  show "genesis_build E g allocs stakes (x_sort_grants E (gn_Vesting g)) (new_state p) = genesis_apply E g (new_state p)"
    unfolding genesis_apply_def genesis_build_def by (simp only: seed_state_order [OF assms])
  show "reachable E (snd (genesis_apply E g (new_state p)))"
    using genesis_reachable [of E g p] by (metis prod.collapse)
qed

lemma sample_genesis_orders:
  "x_range sample_genesis_ext (gn_Alloc sample_genesis) = [''cg01'']"
  "x_range sample_genesis_ext (gn_Stakes sample_genesis) = [''val1'']"
  "x_sort_grants sample_genesis_ext (gn_Vesting sample_genesis) = [sample_grant]"
  by (simp_all add: sample_genesis_ext_def sample_genesis_def sample_ext_def chain_ext.extend_def sorted_keys_def
      sorted_list_of_fset_def)

theorem genesis_deterministic_witness:
  "genesis_build sample_genesis_ext sample_genesis [''cg01''] [''val1''] [sample_grant] (new_state default_params)
     = genesis_apply sample_genesis_ext sample_genesis (new_state default_params)"
  using genesis_deterministic [of "[''cg01'']" sample_genesis_ext sample_genesis "[''val1'']" default_params]
  by (simp add: sample_genesis_orders)

text \<open>
  A validated genesis document declares the supply the genesis state starts with: liquid
  allocations, stakes and vesting grants together.
\<close>

theorem genesis_supply:
  assumes "genesis_validate E g = Inr s" and "mset (x_sort_grants E (gn_Vesting g)) = mset (gn_Vesting g)"
  shows "su_Total (st_Supply (snd (genesis_apply E g (new_state p)))) = gs_TotalSupply s"
proof -
  have "sum_list (map vg_Amount (x_sort_grants E (gn_Vesting g))) = sum_list (map vg_Amount (gn_Vesting g))"
    using assms(2) by (metis mset_map sum_mset_sum_list)
  moreover have "gs_TotalSupply s = sum_list (map (mget (gn_Alloc g)) (x_range E (gn_Alloc g)))
      + sum_list (map (mget (gn_Stakes g)) (x_range E (gn_Stakes g))) + sum_list (map vg_Amount (gn_Vesting g))"
    using assms(1) by (auto simp: genesis_validate_def Let_def rbind_eq_Inr split: if_splits
        dest!: check_allocs_sum check_stakes_sum check_grants_sum)
  ultimately show ?thesis
    by (simp add: genesis_apply_def genesis_build_def Let_def commit_block_def seed_state_supply)
qed

definition full_address :: "char \<Rightarrow> string" where
  "full_address c = ''cg'' @ replicate 40 c"

definition full_genesis :: genesis where
  "full_genesis = \<lparr>gn_ChainID = ''c'', gn_Timestamp = 1, gn_Params = None,
     gn_Alloc = fmap_of_list [(full_address CHR ''1'', 100 * Unit)],
     gn_Stakes = fmap_of_list [(full_address CHR ''2'', 10000 * Unit)],
     gn_Vesting = [\<lparr>vg_Beneficiary = full_address CHR ''1'', vg_Amount = 7, vg_StartMs = 10, vg_EndMs = 20\<rparr>]\<rparr>"

theorem genesis_supply_witness:
  "su_Total (st_Supply (snd (genesis_apply sample_genesis_ext full_genesis (new_state default_params)))) = 10100 * Unit + 7"
proof -
  have "(case genesis_validate sample_genesis_ext full_genesis of Inr s \<Rightarrow> gs_TotalSupply s = 10100 * Unit + 7 | Inl _ \<Rightarrow> False)"
    by code_simp
  then obtain s where v: "genesis_validate sample_genesis_ext full_genesis = Inr s" and t: "gs_TotalSupply s = 10100 * Unit + 7"
    by (auto split: sum.splits)
  have "mset (x_sort_grants sample_genesis_ext (gn_Vesting full_genesis)) = mset (gn_Vesting full_genesis)"
    by (simp add: sample_genesis_ext_def chain_ext.extend_def)
  from genesis_supply [OF v this] t show ?thesis by simp
qed

end
