(* ===== verification/Votes.thy ===== *)
theory Votes
  imports ChainState
begin

text \<open>
  \<^verbatim>\<open>internal/consensus/finality.go\<close>: the pool of BFT votes, with its nested Go maps as nested finite
  maps, and the quorum test. The lemmas say what a vote added is found under, that the pool holds
  only votes it was given, and that a conflict it reports is one.
\<close>

subsection \<open>Nested maps\<close>

text \<open>Reading a missing inner map gives the nil map, which is empty.\<close>

definition sub_map :: "('a, ('b, 'c) fmap) fmap \<Rightarrow> 'a \<Rightarrow> ('b, 'c) fmap" where
  "sub_map m k = (case fmlookup m k of None \<Rightarrow> fmempty | Some x \<Rightarrow> x)"

lemma sub_map_simps [simp]:
  "sub_map (fmupd k x m) k' = (if k = k' then x else sub_map m k')"
  "sub_map (fmdrop k m) k' = (if k = k' then fmempty else sub_map m k')"
  "sub_map fmempty k = fmempty"
  by (simp_all add: sub_map_def)

subsection \<open>The pool\<close>

record vote_pool =
  vp_votes :: "(u64, (string, (string, (string, vote) fmap) fmap) fmap) fmap"
  vp_seen :: "string fset"
  vp_first :: "(u64, (string, (string, vote) fmap) fmap) fmap"

definition rk_key :: "u32 \<Rightarrow> string \<Rightarrow> string" where
  "rk_key rnd kind = kind @ ''@'' @ dec_string (unat rnd)"

definition new_vote_pool :: vote_pool where
  "new_vote_pool = \<lparr>vp_votes = fmempty, vp_seen = {||}, vp_first = fmempty\<rparr>"

definition votes_at :: "vote_pool \<Rightarrow> u64 \<Rightarrow> string \<Rightarrow> string \<Rightarrow> (string, vote) fmap" where
  "votes_at q height kind hash = sub_map (sub_map (sub_map (vp_votes q) height) kind) hash"

definition first_at :: "vote_pool \<Rightarrow> u64 \<Rightarrow> string \<Rightarrow> (string, vote) fmap" where
  "first_at q height rk = sub_map (sub_map (vp_first q) height) rk"

text \<open>The first vote of a voter for a height, round and kind is kept; a later one may conflict.\<close>

definition note_first :: "vote \<Rightarrow> vote_pool \<Rightarrow> vote option \<times> vote_pool" where
  "note_first v q =
     (let rk = rk_key (v_Round v) (v_Kind v); inner = first_at q (v_Height v) rk in
      case fmlookup inner (v_Voter v) of
        Some prev \<Rightarrow> (if v_BlockHash prev \<noteq> v_BlockHash v then Some prev else None, q)
      | None \<Rightarrow> (None, q\<lparr>vp_first := fmupd (v_Height v)
            (fmupd rk (fmupd (v_Voter v) v inner) (sub_map (vp_first q) (v_Height v))) (vp_first q)\<rparr>))"

definition store_vote :: "vote \<Rightarrow> vote_pool \<Rightarrow> vote_pool" where
  "store_vote v q =
     (let byKind = sub_map (vp_votes q) (v_Height v); byHash = sub_map byKind (v_Kind v);
          byVoter = sub_map byHash (v_BlockHash v)
      in q\<lparr>vp_votes := fmupd (v_Height v) (fmupd (v_Kind v) (fmupd (v_BlockHash v) (fmupd (v_Voter v) v byVoter) byHash) byKind)
            (vp_votes q)\<rparr>)"

definition vote_add :: "'z ext_scheme \<Rightarrow> vote \<Rightarrow> vote_pool \<Rightarrow> bool \<times> vote option \<times> vote_pool" where
  "vote_add E v q =
     (let h = vote_hash E v in
      if h |\<in>| vp_seen q then (False, None, q)
      else
        let (conf, q1) = note_first v (q\<lparr>vp_seen := finsert h (vp_seen q)\<rparr>)
        in (True, conf, store_vote v q1))"

text \<open>
  The source ranges over the voters in any order; its only caller adds up their powers. Here they
  come in the order of their addresses.
\<close>

definition in_key_order :: "(string, 'v) fmap \<Rightarrow> 'v list" where
  "in_key_order m = map (\<lambda>k. the (fmlookup m k)) (sorted_keys m)"

definition prevoters :: "vote_pool \<Rightarrow> u64 \<Rightarrow> u32 \<Rightarrow> string \<Rightarrow> vote list" where
  "prevoters q height rnd hash = filter (\<lambda>v. v_Round v = rnd) (in_key_order (votes_at q height PrevoteKind hash))"

definition commit_votes :: "vote_pool \<Rightarrow> u64 \<Rightarrow> string \<Rightarrow> vote list" where
  "commit_votes q height hash = in_key_order (votes_at q height PrecommitKind hash)"

definition vote_prune :: "u64 \<Rightarrow> vote_pool \<Rightarrow> vote_pool" where
  "vote_prune upTo q =
     (let gone = fmdom (fmfilter (\<lambda>h. h \<le> upTo) (vp_votes q))
      in q\<lparr>vp_votes := fmdrop_fset gone (vp_votes q), vp_first := fmdrop_fset gone (vp_first q)\<rparr>)"

definition has_quorum :: "u64 \<Rightarrow> u64 \<Rightarrow> bool" where
  "has_quorum pw tot \<longleftrightarrow> 0 < tot \<and> tot * 2 < pw * 3"

subsection \<open>What the pool holds\<close>

text \<open>Every vote is filed under its own height, kind, hash and voter, and satisfies \<open>V\<close>.\<close>

definition votes_ok :: "(vote \<Rightarrow> bool) \<Rightarrow> vote_pool \<Rightarrow> bool" where
  "votes_ok V q \<longleftrightarrow>
     (\<forall>height kind hash voter v. fmlookup (votes_at q height kind hash) voter = Some v
        \<longrightarrow> v_Height v = height \<and> v_Kind v = kind \<and> v_BlockHash v = hash \<and> v_Voter v = voter \<and> V v)
     \<and> (\<forall>height rk voter v. fmlookup (first_at q height rk) voter = Some v
        \<longrightarrow> v_Height v = height \<and> rk_key (v_Round v) (v_Kind v) = rk \<and> v_Voter v = voter \<and> V v)"

lemma votes_okD:
  assumes "votes_ok V q"
  shows "fmlookup (votes_at q height kind hash) voter = Some v
      \<Longrightarrow> v_Height v = height \<and> v_Kind v = kind \<and> v_BlockHash v = hash \<and> v_Voter v = voter \<and> V v"
    and "fmlookup (first_at q height rk) voter = Some v
      \<Longrightarrow> v_Height v = height \<and> rk_key (v_Round v) (v_Kind v) = rk \<and> v_Voter v = voter \<and> V v"
  using assms by (auto simp: votes_ok_def)

lemma votes_ok_new [simp]: "votes_ok V new_vote_pool"
  by (simp add: votes_ok_def new_vote_pool_def votes_at_def first_at_def)

lemma votes_at_store:
  "votes_at (store_vote v q) height kind hash =
     (if v_Height v = height \<and> v_Kind v = kind \<and> v_BlockHash v = hash
      then fmupd (v_Voter v) v (votes_at q height kind hash) else votes_at q height kind hash)"
  "first_at (store_vote v q) height rk = first_at q height rk"
  by (auto simp: votes_at_def first_at_def store_vote_def Let_def)

lemma at_seen [simp]:
  "votes_at (q\<lparr>vp_seen := s\<rparr>) height kind hash = votes_at q height kind hash"
  "first_at (q\<lparr>vp_seen := s\<rparr>) height rk = first_at q height rk"
  by (simp_all add: votes_at_def first_at_def)

lemma note_first_at:
  assumes "note_first v q = (conf, q')"
  shows "votes_at q' height kind hash = votes_at q height kind hash"
    and "first_at q' height rk = (if height = v_Height v \<and> rk = rk_key (v_Round v) (v_Kind v) \<and> fmlookup (first_at q height rk) (v_Voter v) = None
      then fmupd (v_Voter v) v (first_at q height rk) else first_at q height rk)"
    and "conf = Some prev \<Longrightarrow> fmlookup (first_at q (v_Height v) (rk_key (v_Round v) (v_Kind v))) (v_Voter v) = Some prev
      \<and> v_BlockHash prev \<noteq> v_BlockHash v"
  using assms by (auto simp: note_first_def Let_def votes_at_def first_at_def split: option.splits if_splits)

lemma vote_add_ok:
  assumes "votes_ok V q" and "V v"
  shows "votes_ok V (snd (snd (vote_add E v q)))"
proof (cases "vote_hash E v |\<in>| vp_seen q")
  case False
  obtain conf q1 where n: "note_first v (q\<lparr>vp_seen := finsert (vote_hash E v) (vp_seen q)\<rparr>) = (conf, q1)"
    by (rule prod.exhaust)
  then have r: "snd (snd (vote_add E v q)) = store_vote v q1" using False by (simp add: vote_add_def Let_def)
  show ?thesis
    unfolding r votes_ok_def votes_at_store note_first_at(1,2) [OF n]
    using votes_okD [OF assms(1)] assms(2) by (auto split: if_splits)
qed (simp add: vote_add_def assms(1))

text \<open>A reported conflict: another vote of the same voter, height, round and kind, for another block.\<close>

lemma vote_add_conflict:
  assumes "votes_ok V q" and "vote_add E v q = (new, Some prev, q')"
  shows "v_Height prev = v_Height v \<and> rk_key (v_Round prev) (v_Kind prev) = rk_key (v_Round v) (v_Kind v)
    \<and> v_Voter prev = v_Voter v \<and> v_BlockHash prev \<noteq> v_BlockHash v \<and> V prev"
proof (cases "vote_hash E v |\<in>| vp_seen q")
  case False
  obtain conf q1 where n: "note_first v (q\<lparr>vp_seen := finsert (vote_hash E v) (vp_seen q)\<rparr>) = (conf, q1)"
    by (rule prod.exhaust)
  then have "conf = Some prev" using False assms(2) by (simp add: vote_add_def Let_def)
  from note_first_at(3) [OF n this] votes_okD(2) [OF assms(1)] show ?thesis by fastforce
qed (use assms(2) in \<open>simp add: vote_add_def\<close>)

lemma fmdrop_at [simp]:
  "sub_map (fmdrop_fset s m) k = (if k |\<in>| s then fmempty else sub_map m k)"
  by (simp add: sub_map_def)

lemma vote_prune_ok: "votes_ok V q \<Longrightarrow> votes_ok V (vote_prune upTo q)"
  by (auto simp: votes_ok_def vote_prune_def votes_at_def first_at_def Let_def split: if_splits)

subsection \<open>The key of a round and a kind\<close>

text \<open>The decimal digits of a number determine it, and contain no \<open>@\<close>.\<close>

lemma dec_digit_val: "of_char (dec_digit n) = (48 + n mod 10 :: nat)"
  unfolding dec_digit_def by (subst of_char_of) simp

lemma dec_string_digits: "c \<in> set (dec_string n) \<Longrightarrow> (48 :: nat) \<le> of_char c \<and> (of_char c :: nat) \<le> 57"
proof (induction n rule: dec_string.induct)
  case (1 n)
  have d: "(48 :: nat) \<le> of_char (dec_digit k) \<and> (of_char (dec_digit k) :: nat) \<le> 57" for k
    by (simp add: dec_digit_val)
  show ?case using 1 d by (subst (asm) (2) dec_string.simps) (auto split: if_splits)
qed

definition dec_value :: "string \<Rightarrow> nat" where
  "dec_value s = foldl (\<lambda>acc c. acc * 10 + (of_char c - 48)) 0 s"

lemma dec_value_string: "dec_value (dec_string n) = n"
proof (induction n rule: dec_string.induct)
  case (1 n)
  show ?case using 1 by (subst dec_string.simps) (auto simp: dec_value_def dec_digit_val)
qed

lemma dec_string_inj: "dec_string m = dec_string n \<longleftrightarrow> m = n"
  by (metis dec_value_string)

lemma last_split_unique:
  assumes "a @ x # b = a' @ x # b'" and "x \<notin> set b" and "x \<notin> set b'"
  shows "a = a' \<and> b = b'"
proof -
  have "takeWhile (\<lambda>y. y \<noteq> x) (rev (a @ x # b)) = rev b" if "x \<notin> set b" for a b
    using that by (subst rev_append, subst rev.simps) (auto simp: takeWhile_tail)
  then have "rev b = rev b'" using assms by metis
  with assms(1) show ?thesis by simp
qed

lemma at_not_digit: "CHR ''@'' \<notin> set (dec_string n)"
  using dec_string_digits [of "CHR ''@''" n] by auto

lemma rk_key_inj: "rk_key r k = rk_key r' k' \<longleftrightarrow> r = r' \<and> k = k'"
proof
  assume "rk_key r k = rk_key r' k'"
  then have "k @ CHR ''@'' # dec_string (unat r) = k' @ CHR ''@'' # dec_string (unat r')" by (simp add: rk_key_def)
  from last_split_unique [OF this at_not_digit at_not_digit]
  show "r = r' \<and> k = k'" by (simp add: dec_string_inj word_unat_eq_iff)
qed simp

end
