(* ===== verification/Mempool.thy ===== *)
theory Mempool
  imports ChainTypes "HOL-Library.Multiset"
begin

text \<open>
  \<^verbatim>\<open>internal/mempool/mempool.go\<close>: the queue of pending transactions, by hash. The clock is an argument
  (\<open>now\<close>, in nanoseconds); the mutex makes every operation atomic. Where the source ranges over the
  map, the order of the hashes is an argument, and the lemmas hold for every order.
\<close>

record entry =
  me_tx :: transaction
  me_addedAt :: int

record mempool =
  pl_txs :: "(string, entry) fmap"
  pl_max :: int

definition new_mempool :: "int \<Rightarrow> mempool" where
  "new_mempool mx = \<lparr>pl_txs = fmempty, pl_max = mx\<rparr>"

datatype pool_err = ErrInvalid vb_err | ErrDuplicate | ErrFull

definition pool_size :: "mempool \<Rightarrow> nat" where
  "pool_size m = fcard (fmdom (pl_txs m))"

definition pool_add :: "'z ext_scheme \<Rightarrow> int \<Rightarrow> transaction \<Rightarrow> mempool \<Rightarrow> pool_err + mempool" where
  "pool_add E now tx m =
     (case validate_basic E tx of
        Inl e \<Rightarrow> Inl (ErrInvalid e)
      | Inr _ \<Rightarrow>
          let h = tx_hash E tx in
          if fmlookup (pl_txs m) h \<noteq> None then Inl ErrDuplicate
          else if pl_max m \<le> int (pool_size m) then Inl ErrFull
          else Inr (m\<lparr>pl_txs := fmupd h \<lparr>me_tx = tx, me_addedAt = now\<rparr> (pl_txs m)\<rparr>))"

definition pool_drop :: "string \<Rightarrow> mempool \<Rightarrow> mempool" where
  "pool_drop h m = m\<lparr>pl_txs := fmdrop h (pl_txs m)\<rparr>"

text \<open>The entries older than the cutoff go; the source also counts them.\<close>

definition is_expired :: "int \<Rightarrow> int \<Rightarrow> entry \<Rightarrow> bool" where
  "is_expired now maxAge en \<longleftrightarrow> me_addedAt en < now - maxAge"

definition purge_expired :: "int \<Rightarrow> int \<Rightarrow> mempool \<Rightarrow> nat \<times> mempool" where
  "purge_expired now maxAge m =
     (let keep = fmfilter (\<lambda>h. case fmlookup (pl_txs m) h of None \<Rightarrow> False | Some en \<Rightarrow> \<not> is_expired now maxAge en) (pl_txs m)
      in (pool_size m - fcard (fmdom keep), m\<lparr>pl_txs := keep\<rparr>))"

subsection \<open>The diagnostic view\<close>

record pending_info =
  pi_Hash :: string
  pi_From :: string
  pi_Type :: string
  pi_Nonce :: u64
  pi_Tip :: u64
  pi_AgeSecs :: int

definition pending_of :: "int \<Rightarrow> mempool \<Rightarrow> string \<Rightarrow> pending_info list" where
  "pending_of now m h = (case fmlookup (pl_txs m) h of
     None \<Rightarrow> []
   | Some en \<Rightarrow> [\<lparr>pi_Hash = h, pi_From = tx_From (me_tx en), pi_Type = tx_Type (me_tx en),
       pi_Nonce = tx_Nonce (me_tx en), pi_Tip = tx_Tip (me_tx en),
       pi_AgeSecs = (now - me_addedAt en) div 1000000000\<rparr>])"

text \<open>Every outcome of the unstable sort of some visit order is the stable sort of another one.\<close>

definition pool_snapshot :: "string list \<Rightarrow> int \<Rightarrow> int \<Rightarrow> mempool \<Rightarrow> pending_info list" where
  "pool_snapshot order now mx m =
     (let out = sort_key (\<lambda>i. - pi_AgeSecs i) (concat (map (pending_of now m) order))
      in if 0 < mx \<and> mx < int (length out) then take (nat mx) out else out)"

subsection \<open>Take\<close>

text \<open>The transactions in the order of a visit, and those of one account sorted by nonce.\<close>

definition visited :: "string list \<Rightarrow> mempool \<Rightarrow> transaction list" where
  "visited order m = map me_tx (List.map_filter (fmlookup (pl_txs m)) order)"

definition group_of :: "transaction list \<Rightarrow> string \<Rightarrow> transaction list" where
  "group_of txs from = sort_key tx_Nonce (filter (\<lambda>tx. tx_From tx = from) txs)"

text \<open>The chain of consecutive nonces that starts at the expected one; others are skipped.\<close>

fun ready :: "u64 \<Rightarrow> transaction list \<Rightarrow> transaction list" where
  "ready ex [] = []"
| "ready ex (tx # txs) = (if tx_Nonce tx \<noteq> ex then ready ex txs else tx # ready (ex + 1) txs)"

definition chains_of :: "(string \<Rightarrow> u64) \<Rightarrow> transaction list \<Rightarrow> transaction list list" where
  "chains_of nonceOf txs =
     filter (\<lambda>c. c \<noteq> []) (map (\<lambda>from. ready (nonceOf from) (group_of txs from)) (remdups (map tx_From txs)))"

text \<open>
  Highest tip of the head first, then by account. No two chains have the same account, so the
  order of the accounts in the map does not matter.
\<close>

definition rank_chains :: "transaction list list \<Rightarrow> transaction list list" where
  "rank_chains cs = sort_key (\<lambda>c. - uint (tx_Tip (hd c))) (sort_key (\<lambda>c. tx_From (hd c)) cs)"

definition pool_take :: "string list \<Rightarrow> int \<Rightarrow> (string \<Rightarrow> u64) \<Rightarrow> mempool \<Rightarrow> transaction list" where
  "pool_take order mx nonceOf m = take (nat mx) (concat (rank_chains (chains_of nonceOf (visited order m))))"

subsection \<open>The pool holds valid transactions under their hashes\<close>

definition pool_wf :: "'z ext_scheme \<Rightarrow> mempool \<Rightarrow> bool" where
  "pool_wf E m \<longleftrightarrow> (\<forall>h en. fmlookup (pl_txs m) h = Some en \<longrightarrow>
     h = tx_hash E (me_tx en) \<and> validate_basic E (me_tx en) = Inr ())"

lemma pool_wfD: "pool_wf E m \<Longrightarrow> fmlookup (pl_txs m) h = Some en \<Longrightarrow> validate_basic E (me_tx en) = Inr () \<and> h = tx_hash E (me_tx en)"
  by (simp add: pool_wf_def)

lemma pool_wf_new [simp]: "pool_wf E (new_mempool mx)"
  by (simp add: pool_wf_def new_mempool_def)

lemma pool_wf_add: "pool_wf E m \<Longrightarrow> pool_add E now tx m = Inr m' \<Longrightarrow> pool_wf E m'"
  by (auto simp: pool_add_def pool_wf_def Let_def split: sum.splits if_splits)

lemma pool_wf_drop [simp]: "pool_wf E m \<Longrightarrow> pool_wf E (pool_drop h m)"
  by (simp add: pool_wf_def pool_drop_def)

lemma pool_wf_drops [simp]: "pool_wf E m \<Longrightarrow> pool_wf E (fold pool_drop hs m)"
  by (induction hs arbitrary: m) simp_all

lemma pool_wf_purge [simp]: "pool_wf E m \<Longrightarrow> pool_wf E (snd (purge_expired now age m))"
  by (auto simp: pool_wf_def purge_expired_def Let_def split: if_splits)

lemma set_visited: "tx \<in> set (visited order m) \<Longrightarrow> \<exists>h en. fmlookup (pl_txs m) h = Some en \<and> me_tx en = tx"
  by (fastforce simp: visited_def List.map_filter_def)

lemma set_ready: "set (ready ex txs) \<subseteq> set txs"
  by (induction txs arbitrary: ex) auto

lemma set_group: "set (group_of txs from) = {tx \<in> set txs. tx_From tx = from}"
  by (auto simp: group_of_def)

lemma set_chains: "c \<in> set (chains_of nonceOf txs) \<Longrightarrow> tx \<in> set c \<Longrightarrow> tx \<in> set txs"
  using set_ready set_group by (auto simp: chains_of_def) blast

lemma set_take: "tx \<in> set (pool_take order mx nonceOf m) \<Longrightarrow> tx \<in> set (visited order m)"
  by (auto simp: pool_take_def rank_chains_def dest!: in_set_takeD intro: set_chains)

lemma take_valid: "pool_wf E m \<Longrightarrow> verify_all E (pool_take order mx nonceOf m)"
  by (auto simp: verify_all_def list_all_iff dest!: set_take set_visited dest: pool_wfD)

subsection \<open>What Take returns for one account\<close>

lemma ready_nonces: "map tx_Nonce (ready ex txs) = map (\<lambda>i. ex + of_nat i) [0 ..< length (ready ex txs)]"
proof (induction txs arbitrary: ex)
  case (Cons tx txs)
  show ?case
  proof (cases "tx_Nonce tx = ex")
    case True
    have "map (\<lambda>i. ex + of_nat i) [0 ..< Suc n] = ex # map (\<lambda>i. ex + 1 + of_nat i) [0 ..< n]" for n
      by (simp add: upt_conv_Cons map_Suc_upt [symmetric] ac_simps del: upt_Suc)
    with True Cons.IH [of "ex + 1"] show ?thesis by simp
  qed (simp add: Cons.IH)
qed simp

definition of_account :: "string \<Rightarrow> transaction list \<Rightarrow> transaction list" where
  "of_account a = filter (\<lambda>tx. tx_From tx = a)"

lemma of_account_concat: "of_account a (concat cs) = concat (map (of_account a) cs)"
  by (simp add: of_account_def filter_concat)

text \<open>At most one chain belongs to the account, so it appears whole, or not at all.\<close>

lemma concat_single:
  assumes "distinct (map f cs)" and "\<And>c x. c \<in> set cs \<Longrightarrow> g c \<noteq> [] \<Longrightarrow> f c = a"
  shows "concat (map g cs) = [] \<or> (\<exists>c \<in> set cs. f c = a \<and> concat (map g cs) = g c)"
  using assms
proof (induction cs)
  case (Cons c cs)
  then have IH: "concat (map g cs) = [] \<or> (\<exists>c' \<in> set cs. f c' = a \<and> concat (map g cs) = g c')" by simp
  show ?case
  proof (cases "g c = []")
    case False
    then have "f c = a" using Cons.prems(2) by simp
    moreover have "f c' \<noteq> f c" if "c' \<in> set cs" for c' using Cons.prems(1) that by (auto simp: image_iff)
    ultimately have "concat (map g cs) = []" using IH by auto
    with False \<open>f c = a\<close> show ?thesis by simp
  qed (use IH in auto)
qed simp

lemma chain_account: "c \<in> set (chains_of nonceOf txs) \<Longrightarrow> tx \<in> set c \<Longrightarrow> tx_From tx = tx_From (hd c)"
proof -
  assume c: "c \<in> set (chains_of nonceOf txs)" and tx: "tx \<in> set c"
  then obtain fr where "c = ready (nonceOf fr) (group_of txs fr)" by (auto simp: chains_of_def)
  with set_ready set_group have "\<forall>t \<in> set c. tx_From t = fr" by blast
  moreover have "hd c \<in> set c" using tx by (cases c) auto
  ultimately show ?thesis using tx by simp
qed

lemma ready_from: "ready ex (group_of txs from) \<noteq> [] \<Longrightarrow> tx_From (hd (ready ex (group_of txs from))) = from"
proof -
  assume "ready ex (group_of txs from) \<noteq> []"
  then have "hd (ready ex (group_of txs from)) \<in> set (ready ex (group_of txs from))" by simp
  with set_ready set_group show ?thesis by blast
qed

lemma chains_distinct: "distinct (map (\<lambda>c. tx_From (hd c)) (chains_of nonceOf txs))"
proof -
  have "map (\<lambda>c. tx_From (hd c)) (filter (\<lambda>c. c \<noteq> []) (map (\<lambda>from. ready (nonceOf from) (group_of txs from)) fs))
      = filter (\<lambda>from. ready (nonceOf from) (group_of txs from) \<noteq> []) fs" for fs
    by (induction fs) (simp_all add: ready_from)
  then show ?thesis by (simp add: chains_of_def)
qed

lemma chain_nonces:
  assumes "c \<in> set (chains_of nonceOf txs)"
  shows "map tx_Nonce c = map (\<lambda>i. nonceOf (tx_From (hd c)) + of_nat i) [0 ..< length c]"
proof -
  obtain fr where c: "c = ready (nonceOf fr) (group_of txs fr)" and ne: "c \<noteq> []"
    using assms by (auto simp: chains_of_def)
  have "tx_From (hd c) = fr" using ready_from ne by (simp add: c)
  then show ?thesis using ready_nonces [of "nonceOf fr" "group_of txs fr"] by (simp add: c [symmetric])
qed

text \<open>\<^verbatim>\<open>Take\<close> cuts the concatenation; the part of one account is a prefix of its chain.\<close>

lemma of_account_take: "\<exists>k. of_account a (take n xs) = take k (of_account a xs)"
proof -
  have "of_account a xs = of_account a (take n xs) @ of_account a (drop n xs)"
    by (metis append_take_drop_id filter_append of_account_def)
  then have "of_account a (take n xs) = take (length (of_account a (take n xs))) (of_account a xs)" by simp
  then show ?thesis by blast
qed

lemma take_account:
  "\<exists>n. map tx_Nonce (of_account a (pool_take order mx nonceOf m)) = map (\<lambda>i. nonceOf a + of_nat i) [0 ..< n]"
proof -
  let ?cs = "rank_chains (chains_of nonceOf (visited order m))"
  have s: "set ?cs = set (chains_of nonceOf (visited order m))" by (simp add: rank_chains_def)
  have "mset ?cs = mset (chains_of nonceOf (visited order m))" by (simp add: rank_chains_def)
  then have d: "distinct (map (\<lambda>c. tx_From (hd c)) ?cs)"
    using chains_distinct by (metis mset_eq_imp_distinct_iff mset_map)
  have "tx_From (hd c) = a" if c: "c \<in> set ?cs" and ne: "of_account a c \<noteq> []" for c
  proof -
    from ne obtain tx where tx: "tx \<in> set c" "tx_From tx = a" by (auto simp: of_account_def filter_empty_conv)
    from c have "c \<in> set (chains_of nonceOf (visited order m))" by (simp add: s)
    from chain_account [OF this tx(1)] tx(2) show ?thesis by simp
  qed
  from concat_single [OF d this] consider "of_account a (concat ?cs) = []"
    | c where "c \<in> set ?cs" "tx_From (hd c) = a" "of_account a (concat ?cs) = of_account a c"
    by (auto simp: of_account_concat)
  then have "\<exists>n. map tx_Nonce (of_account a (concat ?cs)) = map (\<lambda>i. nonceOf a + of_nat i) [0 ..< n]"
  proof cases
    case 1
    then have "map tx_Nonce (of_account a (concat ?cs)) = map (\<lambda>i. nonceOf a + of_nat i) [0 ..< 0]" by simp
    then show ?thesis by blast
  next
    case 2
    then have c: "c \<in> set (chains_of nonceOf (visited order m))" by (simp add: s)
    have "of_account a c = c" using chain_account [OF c] 2(2) by (auto simp: of_account_def filter_id_conv)
    then have "map tx_Nonce (of_account a (concat ?cs)) = map (\<lambda>i. nonceOf a + of_nat i) [0 ..< length c]"
      using chain_nonces [OF c] 2 by simp
    then show ?thesis by blast
  qed
  then obtain n where n: "map tx_Nonce (of_account a (concat ?cs)) = map (\<lambda>i. nonceOf a + of_nat i) [0 ..< n]" by blast
  obtain k where "of_account a (pool_take order mx nonceOf m) = take k (of_account a (concat ?cs))"
    using of_account_take unfolding pool_take_def by blast
  then have "map tx_Nonce (of_account a (pool_take order mx nonceOf m)) = map (\<lambda>i. nonceOf a + of_nat i) [0 ..< min k n]"
    using n by (simp add: take_map [symmetric]) (simp add: take_map min_def)
  then show ?thesis by blast
qed

lemma take_length: "0 \<le> mx \<Longrightarrow> int (length (pool_take order mx nonceOf m)) \<le> mx"
  by (simp add: pool_take_def)

end
