(* ===== verification/Engine.thy ===== *)
theory Engine
  imports Votes Mempool StateTx "HOL-Library.Signed_Division"
begin

text \<open>
  \<^verbatim>\<open>internal/consensus/engine.go\<close>: block production, import of blocks and votes, the BFT votes of the
  node with their lock rule, and the reorganisations. The fields of \<^verbatim>\<open>Engine\<close> are the fields of the
  record \<open>engine\<close>; \<open>e_sentVotes\<close> and \<open>e_sentBlocks\<close> collect the calls of the hooks \<^verbatim>\<open>OnVote\<close> and
  \<^verbatim>\<open>OnBlock\<close>, \<open>e_db\<close> what \<^verbatim>\<open>persist\<close> hands to the store. Every handler holds the mutex for its whole
  body and reads the clock as the argument \<open>now\<close> (nanoseconds). The JSON bytes of the state, the
  signature scheme and the visit order of the mempool are parameters.
\<close>

subsection \<open>Keys and signatures\<close>

record keypair =
  kp_Pub :: bytes
  kp_Priv :: bytes

record bft_ext = chain_ext +
  x_sign :: "bytes \<Rightarrow> bytes \<Rightarrow> bytes"
  x_dump :: "state \<Rightarrow> bytes"
  x_load :: "bytes \<Rightarrow> state option"
  x_visit :: "(string, entry) fmap \<Rightarrow> string list"

definition key_address :: "'z ext_scheme \<Rightarrow> keypair \<Rightarrow> string" where
  "key_address E kp = address_from_pub E (kp_Pub kp)"

definition sign_vote :: "'z bft_ext_scheme \<Rightarrow> keypair \<Rightarrow> vote \<Rightarrow> vote" where
  "sign_vote E kp v =
     (let v1 = v\<lparr>v_Voter := key_address E kp, v_VoterPub := kp_Pub kp\<rparr>
      in v1\<lparr>v_Signature := x_sign E (kp_Priv kp) (vote_signing_bytes E v1)\<rparr>)"

subsection \<open>The engine\<close>

record lock =
  lk_round :: u32
  lk_hash :: string

record engine =
  e_st :: state
  e_pool :: mempool
  e_db :: "(block \<times> bytes) list option"
  e_key :: "keypair option"
  e_addr :: string
  e_interval :: i64
  e_maxTxs :: int
  e_heartbeat :: int
  e_tick :: int
  e_lastProgress :: int
  e_votes :: vote_pool
  e_chainID :: string
  e_voted :: "(u64, (string, string) fmap) fmap"
  e_setByHeight :: "(u64, validator_set) fmap"
  e_locked :: "(u64, lock) fmap"
  e_snapshots :: "(u64, bytes) fmap"
  e_forks :: "(u64, block list) fmap"
  e_evidence :: "(string, evidence) fmap"
  e_sentVotes :: "vote list"
  e_sentBlocks :: "block list"

definition MaxRounds :: u32 where "MaxRounds = 64"

definition new_engine :: "'z ext_scheme \<Rightarrow> state \<Rightarrow> mempool \<Rightarrow> (block \<times> bytes) list option \<Rightarrow> keypair option
    \<Rightarrow> i64 \<Rightarrow> int \<Rightarrow> int \<Rightarrow> engine" where
  "new_engine E st pool db key interval maxTxs now =
     \<lparr>e_st = st, e_pool = pool, e_db = db, e_key = key,
      e_addr = (case key of None \<Rightarrow> [] | Some kp \<Rightarrow> key_address E kp),
      e_interval = interval, e_maxTxs = maxTxs, e_heartbeat = 20, e_tick = 0, e_lastProgress = now,
      e_votes = new_vote_pool, e_chainID = [], e_voted = fmempty, e_setByHeight = fmempty, e_locked = fmempty,
      e_snapshots = fmempty, e_forks = fmempty, e_evidence = fmempty, e_sentVotes = [], e_sentBlocks = []\<rparr>"

definition set_chain_id :: "string \<Rightarrow> engine \<Rightarrow> engine" where
  "set_chain_id i e = e\<lparr>e_chainID := i\<rparr>"

definition evidence_key :: "string \<Rightarrow> u64 \<Rightarrow> string" where
  "evidence_key voter height = voter @ ''@'' @ dec_string (unat height)"

subsection \<open>Frozen validator sets\<close>

definition freeze_set :: "u64 \<Rightarrow> engine \<Rightarrow> engine" where
  "freeze_set height e =
     (if fmlookup (e_setByHeight e) height = None
      then e\<lparr>e_setByHeight := fmupd height (snapshot_active_set (e_st e)) (e_setByHeight e)\<rparr> else e)"

definition set_for_height :: "engine \<Rightarrow> u64 \<Rightarrow> validator_set" where
  "set_for_height e height =
     (case fmlookup (e_setByHeight e) height of Some vs \<Rightarrow> vs | None \<Rightarrow> snapshot_active_set (e_st e))"

subsection \<open>Polka and commit\<close>

fun polka_power :: "'z ext_scheme \<Rightarrow> validator_set \<Rightarrow> u64 \<Rightarrow> u32 \<Rightarrow> string \<Rightarrow> string list \<Rightarrow> u64 \<Rightarrow> vote list \<Rightarrow> u64" where
  "polka_power E vs height rnd hash seen pw [] = pw"
| "polka_power E vs height rnd hash seen pw (v # votes) =
     (if v_Kind v \<noteq> PrevoteKind \<or> v_Height v \<noteq> height \<or> v_Round v \<noteq> rnd \<or> v_BlockHash v \<noteq> hash
      then polka_power E vs height rnd hash seen pw votes
      else if v_Voter v \<in> set seen then polka_power E vs height rnd hash seen pw votes
      else if set_power_of (Some vs) (v_Voter v) = 0 then polka_power E vs height rnd hash seen pw votes
      else if vote_verify E v \<noteq> Inr () then polka_power E vs height rnd hash seen pw votes
      else polka_power E vs height rnd hash (v_Voter v # seen) (pw + set_power_of (Some vs) (v_Voter v)) votes)"

definition has_polka :: "'z ext_scheme \<Rightarrow> u64 \<Rightarrow> u32 \<Rightarrow> string \<Rightarrow> engine \<Rightarrow> bool" where
  "has_polka E height rnd hash e =
     (let cand = prevoters (e_votes e) height rnd hash; vs = set_for_height e height
      in cand \<noteq> [] \<and> has_quorum (polka_power E vs height rnd hash [] 0 cand) (vs_Total vs))"

datatype commit_err = CWrongChain | CKind | CMismatch | CDuplicate | CNotInSet | CVote vote_err

fun commit_power :: "'z ext_scheme \<Rightarrow> string \<Rightarrow> validator_set \<Rightarrow> u64 \<Rightarrow> string \<Rightarrow> string list \<Rightarrow> u64 \<Rightarrow> vote list
    \<Rightarrow> commit_err + u64" where
  "commit_power E chain vs height hash seen pw [] = Inr pw"
| "commit_power E chain vs height hash seen pw (v # votes) =
     (if chain \<noteq> [] \<and> v_ChainID v \<noteq> chain then Inl CWrongChain
      else if v_Kind v \<noteq> PrecommitKind then Inl CKind
      else if v_Height v \<noteq> height \<or> v_BlockHash v \<noteq> hash then Inl CMismatch
      else if v_Voter v \<in> set seen then Inl CDuplicate
      else if set_power_of (Some vs) (v_Voter v) = 0 then Inl CNotInSet
      else case vote_verify E v of
             Inl err \<Rightarrow> Inl (CVote err)
           | Inr _ \<Rightarrow> commit_power E chain vs height hash (v_Voter v # seen) (pw + set_power_of (Some vs) (v_Voter v)) votes)"

definition verify_commit :: "'z ext_scheme \<Rightarrow> vote list \<Rightarrow> u64 \<Rightarrow> string \<Rightarrow> engine \<Rightarrow> commit_err + u64" where
  "verify_commit E votes height hash e = commit_power E (e_chainID e) (set_for_height e height) height hash [] 0 votes"

definition build_last_commit :: "'z ext_scheme \<Rightarrow> u64 \<Rightarrow> string \<Rightarrow> engine \<Rightarrow> vote list" where
  "build_last_commit E height hash e =
     (if height = 0 then []
      else
        let cand = commit_votes (e_votes e) height hash in
        if cand = [] then []
        else case verify_commit E cand height hash e of
               Inl _ \<Rightarrow> []
             | Inr pw \<Rightarrow> if has_quorum pw (vs_Total (set_for_height e height)) then cand else [])"

subsection \<open>Casting votes\<close>

definition voted_at :: "engine \<Rightarrow> u64 \<Rightarrow> (string, string) fmap" where
  "voted_at e height = sub_map (e_voted e) height"

text \<open>The lock on another block, unless a polka of a later round justifies the change.\<close>

definition lock_refuses :: "'z ext_scheme \<Rightarrow> u64 \<Rightarrow> u32 \<Rightarrow> string \<Rightarrow> engine \<Rightarrow> bool" where
  "lock_refuses E height rnd hash e =
     (case fmlookup (e_locked e) height of
        None \<Rightarrow> False
      | Some lk \<Rightarrow> lk_hash lk \<noteq> hash \<and> \<not> (lk_round lk < rnd \<and> has_polka E height rnd hash e))"

definition own_vote :: "engine \<Rightarrow> u64 \<Rightarrow> u32 \<Rightarrow> string \<Rightarrow> string \<Rightarrow> vote" where
  "own_vote e height rnd kind hash =
     \<lparr>v_ChainID = e_chainID e, v_Height = height, v_Round = rnd, v_Kind = kind, v_BlockHash = hash,
      v_Voter = [], v_VoterPub = [], v_Signature = []\<rparr>"

definition cast_vote_kind :: "'z bft_ext_scheme \<Rightarrow> u64 \<Rightarrow> u32 \<Rightarrow> string \<Rightarrow> string \<Rightarrow> engine \<Rightarrow> engine" where
  "cast_vote_kind E height rnd kind hash e =
     (case e_key e of
        None \<Rightarrow> e
      | Some kp \<Rightarrow>
          let rk = rk_key rnd kind;
              e0 = e\<lparr>e_voted := fmupd height (voted_at e height) (e_voted e)\<rparr>
          in if fmlookup (voted_at e height) rk \<noteq> None then e0
             else if lock_refuses E height rnd hash e0 then e0
             else
               let e1 = (if kind = PrecommitKind
                         then e0\<lparr>e_locked := fmupd height \<lparr>lk_round = rnd, lk_hash = hash\<rparr> (e_locked e0)\<rparr> else e0);
                   v = sign_vote E kp (own_vote e1 height rnd kind hash)
               in e1\<lparr>e_voted := fmupd height (fmupd rk hash (voted_at e1 height)) (e_voted e1),
                     e_votes := snd (snd (vote_add E v (e_votes e1))),
                     e_sentVotes := e_sentVotes e1 @ [v]\<rparr>)"

definition cast_vote :: "'z bft_ext_scheme \<Rightarrow> u64 \<Rightarrow> u32 \<Rightarrow> string \<Rightarrow> engine \<Rightarrow> engine" where
  "cast_vote E height rnd hash e =
     cast_vote_kind E height rnd PrecommitKind hash (cast_vote_kind E height rnd PrevoteKind hash e)"

subsection \<open>Pruning below the finalized height\<close>

definition drop_upto :: "u64 \<Rightarrow> (u64, 'v) fmap \<Rightarrow> (u64, 'v) fmap" where
  "drop_upto upTo m = fmfilter (\<lambda>h. \<not> h \<le> upTo) m"

definition drop_below :: "u64 \<Rightarrow> (u64, 'v) fmap \<Rightarrow> (u64, 'v) fmap" where
  "drop_below keep m = fmfilter (\<lambda>h. \<not> h < keep) m"

definition prune_voted :: "u64 \<Rightarrow> engine \<Rightarrow> engine" where
  "prune_voted upTo e = e\<lparr>e_voted := drop_upto upTo (e_voted e), e_locked := drop_upto upTo (e_locked e)\<rparr>"

definition prune_sets :: "u64 \<Rightarrow> engine \<Rightarrow> engine" where
  "prune_sets upTo e = e\<lparr>e_setByHeight := drop_upto upTo (e_setByHeight e)\<rparr>"

definition prune_snapshots_below :: "u64 \<Rightarrow> engine \<Rightarrow> engine" where
  "prune_snapshots_below keep e = e\<lparr>e_snapshots := drop_below keep (e_snapshots e)\<rparr>"

definition prune_forks_below :: "u64 \<Rightarrow> engine \<Rightarrow> engine" where
  "prune_forks_below keep e = e\<lparr>e_forks := drop_below keep (e_forks e)\<rparr>"

text \<open>The block that every handler runs when a block carries a commit of its parent.\<close>

definition finalize_parent :: "u64 \<Rightarrow> engine \<Rightarrow> engine" where
  "finalize_parent height e =
     prune_forks_below (height - 1) (prune_snapshots_below (height - 1) (prune_sets (height - 1) (prune_voted (height - 1)
       (e\<lparr>e_st := set_finalized (height - 1) (e_st e), e_votes := vote_prune (height - 1) (e_votes e)\<rparr>))))"

definition snapshot_state :: "'z bft_ext_scheme \<Rightarrow> u64 \<Rightarrow> engine \<Rightarrow> engine" where
  "snapshot_state E height e = e\<lparr>e_snapshots := fmupd height (x_dump E (e_st e)) (e_snapshots e)\<rparr>"

definition persist :: "'z bft_ext_scheme \<Rightarrow> block \<Rightarrow> engine \<Rightarrow> engine" where
  "persist E b e = e\<lparr>e_db := map_option (\<lambda>db. db @ [(b, x_dump E (e_st e))]) (e_db e)\<rparr>"

text \<open>From the executed state to the persisted block: commit, snapshot, finality, clock, store.\<close>

definition adopt :: "'z bft_ext_scheme \<Rightarrow> int \<Rightarrow> block \<Rightarrow> bool \<Rightarrow> engine \<Rightarrow> engine" where
  "adopt E now b finalizes e =
     (let height = h_Height (b_Header b);
          e1 = snapshot_state E height (e\<lparr>e_st := commit_block height (b_Hash b) (e_st e)\<rparr>);
          e2 = (if finalizes then finalize_parent height e1 else e1)
      in persist E b (e2\<lparr>e_lastProgress := now\<rparr>))"

definition drop_txs :: "string list \<Rightarrow> engine \<Rightarrow> engine" where
  "drop_txs hs e = e\<lparr>e_pool := fold pool_drop hs (e_pool e)\<rparr>"

subsection \<open>Evidence\<close>

definition record_equivocation :: "vote \<Rightarrow> vote \<Rightarrow> engine \<Rightarrow> engine" where
  "record_equivocation prev cur e =
     (if v_Kind cur \<noteq> PrecommitKind \<and> v_Kind cur \<noteq> PrevoteKind then e
      else
        let key = evidence_key (v_Voter cur) (v_Height cur) in
        if fmlookup (e_evidence e) key \<noteq> None \<or> is_slashed (e_st e) (v_Voter cur) (v_Height cur) then e
        else e\<lparr>e_evidence := fmupd key
                 \<lparr>ev_Height = v_Height cur, ev_Voter = v_Voter cur, ev_VoteA = Some prev, ev_VoteB = Some cur\<rparr>
                 (e_evidence e)\<rparr>)"

definition drain_evidence :: "engine \<Rightarrow> evidence list \<times> engine" where
  "drain_evidence e =
     (filter (\<lambda>ev. \<not> is_slashed (e_st e) (ev_Voter ev) (ev_Height ev)) (in_key_order (e_evidence e)),
      e\<lparr>e_evidence := fmempty\<rparr>)"

subsection \<open>Validation of a block\<close>

text \<open>The distinct proposers of the rounds that were skipped.\<close>

definition absent_proposers :: "'z ext_scheme \<Rightarrow> state \<Rightarrow> u64 \<Rightarrow> string \<Rightarrow> u32 \<Rightarrow> string \<Rightarrow> string list" where
  "absent_proposers E st height prev rnd proposer =
     fold (\<lambda>r out. let a = select_proposer E st height prev (of_nat r)
                   in if a = [] \<or> a = proposer \<or> a \<in> set out then out else out @ [a]) [0 ..< unat rnd] []"

datatype engine_err =
    ErrGap | EPrevHash | ERound | EWrongProposer | EBlockHash | EProposerSig proposer_err | ETxRoot
  | EEvidenceRoot | EEvidence evidence_err | ECommitRoot | ECommit commit_err | ENoQuorum | ETxs
  | EExec tx_err | EStateRoot | ENoSnapshot | ERestore | EBelowFinal | EWrongVoteChain | EVoteKind
  | ENotInSet | EVote vote_err

fun check_evidence :: "'z ext_scheme \<Rightarrow> string \<Rightarrow> evidence list \<Rightarrow> engine_err + unit" where
  "check_evidence E chain [] = Inr ()"
| "check_evidence E chain (ev # evs) =
     (case evidence_verify E chain ev of Inl err \<Rightarrow> Inl (EEvidence err) | Inr _ \<Rightarrow> check_evidence E chain evs)"

definition check_last_commit :: "'z ext_scheme \<Rightarrow> block \<Rightarrow> engine \<Rightarrow> engine_err + bool" where
  "check_last_commit E b e =
     (if b_LastCommit b = [] then Inr False
      else
        let parent = h_Height (b_Header b) - 1 in
        case verify_commit E (b_LastCommit b) parent (h_PrevHash (b_Header b)) e of
          Inl err \<Rightarrow> Inl (ECommit err)
        | Inr pw \<Rightarrow> if has_quorum pw (vs_Total (set_for_height e parent)) then Inr True else Inl ENoQuorum)"

definition check_block :: "'z ext_scheme \<Rightarrow> block \<Rightarrow> string \<Rightarrow> engine \<Rightarrow> engine_err + bool" where
  "check_block E b prev e =
     (let hd = b_Header b in
      rbind (guard_err (h_Round hd < MaxRounds) ERound) (\<lambda>_.
      rbind (guard_err (select_proposer E (e_st e) (h_Height hd) prev (h_Round hd) = h_Proposer hd) EWrongProposer) (\<lambda>_.
      rbind (guard_err (block_compute_hash E b = b_Hash b) EBlockHash) (\<lambda>_.
      rbind (case verify_proposer_sig E b of Inl err \<Rightarrow> Inl (EProposerSig err) | Inr u \<Rightarrow> Inr u) (\<lambda>_.
      rbind (guard_err (tx_root E (b_Txs b) = h_TxRoot hd) ETxRoot) (\<lambda>_.
      rbind (guard_err (evidence_root E (b_Evidence b) = h_EvidenceRoot hd) EEvidenceRoot) (\<lambda>_.
      rbind (check_evidence E (e_chainID e) (b_Evidence b)) (\<lambda>_.
      rbind (guard_err (commit_root E (b_LastCommit b) = h_LastCommitRoot hd) ECommitRoot) (\<lambda>_.
      rbind (check_last_commit E b e) (\<lambda>fin.
      rbind (guard_err (verify_all E (b_Txs b)) ETxs) (\<lambda>_. Inr fin)))))))))))"

definition validate_block :: "'z ext_scheme \<Rightarrow> block \<Rightarrow> string \<Rightarrow> engine \<Rightarrow> (engine_err + bool) \<times> engine" where
  "validate_block E b prev e =
     (if h_PrevHash (b_Header b) \<noteq> prev then (Inl EPrevHash, e)
      else let e1 = freeze_set (h_Height (b_Header b)) e in (check_block E b prev e1, e1))"

subsection \<open>Results of the handlers\<close>

text \<open>\<open>Panicked\<close> and \<open>NoReturn\<close> come from the execution of transactions and from a zero interval.\<close>

datatype 'a handled = Returned 'a engine | Panicked | NoReturn

definition restore_state :: "'z bft_ext_scheme \<Rightarrow> bytes \<Rightarrow> engine \<Rightarrow> engine" where
  "restore_state E data e = (case x_load E data of None \<Rightarrow> e | Some st \<Rightarrow> e\<lparr>e_st := st\<rparr>)"

text \<open>The strict execution of a received block, with the restoration of \<open>backup\<close> when it fails.\<close>

definition run_block :: "'z bft_ext_scheme \<Rightarrow> block \<Rightarrow> string \<Rightarrow> bytes \<Rightarrow> engine \<Rightarrow> (engine_err + unit) handled" where
  "run_block E b prev backup e =
     (let hd = b_Header b;
          absent = absent_proposers E (e_st e) (h_Height hd) prev (h_Round hd) (h_Proposer hd)
      in case execute E (b_Txs b) (b_Evidence b) absent (h_Proposer hd) (h_Timestamp hd) True (e_st e) of
           ExecFailed _ err st \<Rightarrow> Returned (Inl (EExec err)) (restore_state E backup (e\<lparr>e_st := st\<rparr>))
         | ExecCrashed \<Rightarrow> Panicked
         | ExecHung \<Rightarrow> NoReturn
         | Executed _ _ root st \<Rightarrow>
             if root \<noteq> h_StateRoot hd then Returned (Inl EStateRoot) (restore_state E backup (e\<lparr>e_st := st\<rparr>))
             else Returned (Inr ()) (e\<lparr>e_st := st\<rparr>))"

subsection \<open>Reorganisation\<close>

definition rewind_to :: "'z bft_ext_scheme \<Rightarrow> u64 \<Rightarrow> engine \<Rightarrow> (engine_err + unit) \<times> engine" where
  "rewind_to E height e =
     (if height < st_FinalizedHeight (e_st e) then (Inl EBelowFinal, e)
      else case fmlookup (e_snapshots e) height of
             None \<Rightarrow> (Inl ENoSnapshot, e)
           | Some snap \<Rightarrow>
               (case x_load E snap of
                  None \<Rightarrow> (Inl ERestore, e)
                | Some st \<Rightarrow> (Inr (), e\<lparr>e_st := st,
                    e_voted := fmfilter (\<lambda>h. \<not> height < h) (e_voted e),
                    e_locked := fmfilter (\<lambda>h. \<not> height < h) (e_locked e),
                    e_snapshots := fmfilter (\<lambda>h. \<not> height < h) (e_snapshots e)\<rparr>)))"

text \<open>The loop \<^verbatim>\<open>for h := H; h <= oldTip; h++\<close>.\<close>

definition abandon :: "u64 \<Rightarrow> u64 \<Rightarrow> engine \<Rightarrow> engine" where
  "abandon H oldTip e =
     e\<lparr>e_voted := fmfilter (\<lambda>h. \<not> (H \<le> h \<and> h \<le> oldTip)) (e_voted e),
       e_locked := fmfilter (\<lambda>h. \<not> (H \<le> h \<and> h \<le> oldTip)) (e_locked e),
       e_snapshots := fmfilter (\<lambda>h. \<not> (H \<le> h \<and> h \<le> oldTip)) (e_snapshots e)\<rparr>"

definition forget_vote :: "u64 \<Rightarrow> engine \<Rightarrow> engine" where
  "forget_vote H e = e\<lparr>e_voted := fmdrop H (e_voted e), e_locked := fmdrop H (e_locked e)\<rparr>"

definition reorg_to :: "'z bft_ext_scheme \<Rightarrow> int \<Rightarrow> block \<Rightarrow> engine \<Rightarrow> (engine_err + unit) handled" where
  "reorg_to E now b e =
     (let H = h_Height (b_Header b) in
      if H - 1 < st_FinalizedHeight (e_st e) then Returned (Inr ()) e
      else case fmlookup (e_snapshots e) (H - 1) of
        None \<Rightarrow> Returned (Inl ENoSnapshot) e
      | Some forkSnap \<Rightarrow>
        let oldTip = st_Height (e_st e); backup = x_dump E (e_st e) in
        (case x_load E forkSnap of
           None \<Rightarrow> Returned (Inl ERestore) e
         | Some st \<Rightarrow>
           let prev = st_LastHash st in
           (case validate_block E b prev (e\<lparr>e_st := st\<rparr>) of
              (Inl err, e2) \<Rightarrow> Returned (Inl err) (restore_state E backup e2)
            | (Inr fin, e2) \<Rightarrow>
                (case run_block E b prev backup e2 of
                   Panicked \<Rightarrow> Panicked
                 | NoReturn \<Rightarrow> NoReturn
                 | Returned (Inl err) e3 \<Rightarrow> Returned (Inl err) e3
                 | Returned (Inr _) e3 \<Rightarrow>
                     let e4 = adopt E now b fin (abandon H oldTip e3);
                         e5 = drop_txs (map (tx_hash E) (b_Txs b)) e4
                     in Returned (Inr ()) (cast_vote E H (h_Round (b_Header b)) (b_Hash b) (forget_vote H e5))))))"

text \<open>The first buffered block of a later round with a polka wins.\<close>

definition reorg_candidate :: "'z ext_scheme \<Rightarrow> u64 \<Rightarrow> engine \<Rightarrow> block option" where
  "reorg_candidate E H e =
     (let ourRound = (case fmlookup (e_locked e) H of None \<Rightarrow> 0 | Some lk \<Rightarrow> lk_round lk)
      in find (\<lambda>b. \<not> (H = st_Height (e_st e) \<and> b_Hash b = st_LastHash (e_st e))
                   \<and> ourRound < h_Round (b_Header b)
                   \<and> has_polka E H (h_Round (b_Header b)) (b_Hash b) e)
          (case fmlookup (e_forks e) H of None \<Rightarrow> [] | Some bs \<Rightarrow> bs))"

definition try_reorg :: "'z bft_ext_scheme \<Rightarrow> int \<Rightarrow> u64 \<Rightarrow> engine \<Rightarrow> (engine_err + unit) handled" where
  "try_reorg E now H e =
     (if st_Height (e_st e) < H \<or> H \<le> st_FinalizedHeight (e_st e) then Returned (Inr ()) e
      else case reorg_candidate E H e of
             None \<Rightarrow> Returned (Inr ()) e
           | Some b \<Rightarrow> reorg_to E now b e)"

definition buffer_fork :: "block \<Rightarrow> engine \<Rightarrow> engine" where
  "buffer_fork b e =
     (let H = h_Height (b_Header b);
          bs = (case fmlookup (e_forks e) H of None \<Rightarrow> [] | Some bs \<Rightarrow> bs)
      in if list_ex (\<lambda>f. b_Hash f = b_Hash b) bs then e else e\<lparr>e_forks := fmupd H (bs @ [b]) (e_forks e)\<rparr>)"

definition consider_fork :: "'z bft_ext_scheme \<Rightarrow> int \<Rightarrow> block \<Rightarrow> u64 \<Rightarrow> engine \<Rightarrow> (engine_err + unit) handled" where
  "consider_fork E now b cur e =
     (let H = h_Height (b_Header b) in
      if H \<le> st_FinalizedHeight (e_st e) then Returned (Inr ()) e
      else if cur < H then Returned (Inr ()) e
      else if H = cur \<and> b_Hash b = st_LastHash (e_st e) then Returned (Inr ()) e
      else try_reorg E now H (buffer_fork b e))"

subsection \<open>Import of blocks and votes\<close>

definition apply_external_block :: "'z bft_ext_scheme \<Rightarrow> int \<Rightarrow> block \<Rightarrow> engine \<Rightarrow> (engine_err + unit) handled" where
  "apply_external_block E now b e =
     (let cur = st_Height (e_st e); H = h_Height (b_Header b) in
      if H \<le> cur then consider_fork E now b cur e
      else if cur + 1 < H then Returned (Inl ErrGap) e
      else
        let prev = st_LastHash (e_st e) in
        (case validate_block E b prev e of
           (Inl err, e1) \<Rightarrow> Returned (Inl err) e1
         | (Inr fin, e1) \<Rightarrow>
             (case run_block E b prev (x_dump E (e_st e1)) e1 of
                Panicked \<Rightarrow> Panicked
              | NoReturn \<Rightarrow> NoReturn
              | Returned (Inl err) e2 \<Rightarrow> Returned (Inl err) e2
              | Returned (Inr _) e2 \<Rightarrow>
                  let e3 = drop_txs (map (tx_hash E) (b_Txs b)) (adopt E now b fin e2);
                      e4 = e3\<lparr>e_evidence := fold (\<lambda>ev. fmdrop (evidence_key (ev_Voter ev) (ev_Height ev))) (b_Evidence b) (e_evidence e3)\<rparr>
                  in Returned (Inr ()) (cast_vote E H (h_Round (b_Header b)) (b_Hash b) e4))))"

text \<open>\<^verbatim>\<open>AddVote\<close>; the error of a reorganisation that the vote triggers is only logged.\<close>

definition add_vote :: "'z bft_ext_scheme \<Rightarrow> int \<Rightarrow> vote \<Rightarrow> engine \<Rightarrow> (engine_err + bool) handled" where
  "add_vote E now v e =
     (if e_chainID e \<noteq> [] \<and> v_ChainID v \<noteq> e_chainID e then Returned (Inl EWrongVoteChain) e
      else if v_Kind v \<noteq> PrecommitKind \<and> v_Kind v \<noteq> PrevoteKind then Returned (Inl EVoteKind) e
      else if v_Height v \<le> st_FinalizedHeight (e_st e) then Returned (Inr False) e
      else if set_power_of (Some (set_for_height e (v_Height v))) (v_Voter v) = 0 then Returned (Inl ENotInSet) e
      else case vote_verify E v of
        Inl err \<Rightarrow> Returned (Inl (EVote err)) e
      | Inr _ \<Rightarrow>
        (case vote_add E v (e_votes e) of
           (False, _, q) \<Rightarrow> Returned (Inr False) (e\<lparr>e_votes := q\<rparr>)
         | (True, conf, q) \<Rightarrow>
             let e1 = e\<lparr>e_votes := q\<rparr>;
                 e2 = (case conf of None \<Rightarrow> e1 | Some prev \<Rightarrow> record_equivocation prev v e1)
             in if v_Kind v = PrevoteKind
                then (case try_reorg E now (v_Height v) e2 of
                        Panicked \<Rightarrow> Panicked
                      | NoReturn \<Rightarrow> NoReturn
                      | Returned _ e3 \<Rightarrow> Returned (Inr True) e3)
                else Returned (Inr True) e2))"

subsection \<open>Production\<close>

text \<open>
  \<^verbatim>\<open>time.Since\<close> saturates at the bounds of \<^verbatim>\<open>int64\<close>; the quotient of the durations truncates towards
  zero and is cut to 32 bits. \<open>None\<close> is the division by a zero interval.
\<close>

definition clamp64 :: "int \<Rightarrow> int" where
  "clamp64 d = max (- (2 ^ 63)) (min (2 ^ 63 - 1) d)"

definition current_round :: "int \<Rightarrow> engine \<Rightarrow> u32 option" where
  "current_round now e =
     (if e_interval e = 0 then None
      else let r = word_of_int (clamp64 (now - e_lastProgress e) sdiv sint (e_interval e)) :: u32
           in Some (if MaxRounds \<le> r then MaxRounds - 1 else r))"

definition tx_ttl :: int where "tx_ttl = 10 * 60 * 1000000000"

text \<open>The block a proposer builds from the outcome of the execution.\<close>

definition build_block :: "'z bft_ext_scheme \<Rightarrow> keypair \<Rightarrow> u64 \<Rightarrow> string \<Rightarrow> i64 \<Rightarrow> string \<Rightarrow> u32 \<Rightarrow> transaction list
    \<Rightarrow> evidence list \<Rightarrow> vote list \<Rightarrow> string \<Rightarrow> block" where
  "build_block E kp height prev blockTime addr rnd applied evid lastCommit root =
     (let hd = \<lparr>h_Height = height, h_PrevHash = prev, h_Timestamp = blockTime, h_Proposer = addr, h_Round = rnd,
                h_TxRoot = tx_root E applied, h_EvidenceRoot = evidence_root E evid,
                h_LastCommitRoot = commit_root E lastCommit, h_StateRoot = root\<rparr>
      in \<lparr>b_Header = hd, b_Txs = applied, b_Evidence = evid, b_LastCommit = lastCommit,
          b_Hash = hash_hex E [x_header_json E hd], b_ProposerPubKey = kp_Pub kp,
          b_ProposerSignature = x_sign E (kp_Priv kp) (x_header_json E hd)\<rparr>)"

definition executed_parts :: "exec_result \<Rightarrow> (transaction list \<times> string list \<times> string \<times> state) option" where
  "executed_parts r = (case r of
     Executed applied failed root st \<Rightarrow> Some (applied, map fst failed, root, st)
   | ExecFailed _ _ st \<Rightarrow> Some ([], [], [], st)
   | _ \<Rightarrow> None)"

text \<open>The tail of \<^verbatim>\<open>ProduceOnce\<close>, once the transactions and the evidence have been chosen.\<close>

definition forge_block :: "'z bft_ext_scheme \<Rightarrow> int \<Rightarrow> keypair \<Rightarrow> u32 \<Rightarrow> transaction list \<Rightarrow> evidence list \<Rightarrow> engine
    \<Rightarrow> block option handled" where
  "forge_block E now kp rnd txs evid e =
     (let height = st_Height (e_st e) + 1; prev = st_LastHash (e_st e);
          blockTime = word_of_int (now div 1000000);
          lastCommit = build_last_commit E (height - 1) prev e;
          absent = absent_proposers E (e_st e) height prev rnd (e_addr e);
          r = execute E txs evid absent (e_addr e) blockTime False (e_st e)
      in case executed_parts r of
           None \<Rightarrow> (if r = ExecHung then NoReturn else Panicked)
         | Some (applied, failed, root, st) \<Rightarrow>
             let e1 = drop_txs (map (tx_hash E) applied) (drop_txs failed (e\<lparr>e_st := st\<rparr>));
                 b = build_block E kp height prev blockTime (e_addr e) rnd applied evid lastCommit root;
                 e2 = adopt E now b (lastCommit \<noteq> []) e1;
                 e3 = e2\<lparr>e_sentBlocks := e_sentBlocks e2 @ [b]\<rparr>
             in Returned (Some b) (cast_vote E height rnd (b_Hash b) e3))"

text \<open>What an elected proposer does: purge and read the mempool, drain the evidence.\<close>

definition propose :: "'z bft_ext_scheme \<Rightarrow> int \<Rightarrow> bool \<Rightarrow> keypair \<Rightarrow> u32 \<Rightarrow> engine \<Rightarrow> block option handled" where
  "propose E now force kp rnd e =
     (let e1 = e\<lparr>e_pool := snd (purge_expired now tx_ttl (e_pool e))\<rparr>;
          txs = pool_take (x_visit E (pl_txs (e_pool e1))) (e_maxTxs e1) (nonce_of (e_st e1)) (e_pool e1);
          (evid, e2) = drain_evidence e1
      in if txs = [] \<and> evid = [] \<and> \<not> force then Returned None e2
         else forge_block E now kp rnd txs evid e2)"

definition produce_once :: "'z bft_ext_scheme \<Rightarrow> int \<Rightarrow> bool \<Rightarrow> engine \<Rightarrow> block option handled" where
  "produce_once E now force e =
     (case e_key e of
        None \<Rightarrow> Returned None e
      | Some kp \<Rightarrow>
        let height = st_Height (e_st e) + 1; e1 = freeze_set height e in
        (case current_round now e1 of
           None \<Rightarrow> Panicked
         | Some rnd \<Rightarrow>
           if select_proposer E (e_st e1) height (st_LastHash (e_st e1)) rnd \<noteq> e_addr e1 then Returned None e1
           else propose E now force kp rnd e1))"

text \<open>One tick of the loop in \<^verbatim>\<open>Start\<close>; every twentieth forces a block.\<close>

definition on_tick :: "'z bft_ext_scheme \<Rightarrow> int \<Rightarrow> engine \<Rightarrow> block option handled" where
  "on_tick E now e =
     (let e1 = e\<lparr>e_tick := e_tick e + 1\<rparr> in produce_once E now (e_tick e1 mod e_heartbeat e1 = 0) e1)"

end
