(* ===== verification/EngineRuns.thy ===== *)
theory EngineRuns
  imports Engine
begin

text \<open>
  Runs of the engine: a step is one call a node makes (a tick of its clock, a block or a vote from
  the network, a transaction submitted). The theory shows which votes a node signs over a run in
  which its height never goes back, as the ledger of what it has voted and locked allows.
\<close>

subsection \<open>Steps\<close>

text \<open>\<open>rewind_to\<close> has no caller in the repository besides tests.\<close>

inductive engine_step :: "'z bft_ext_scheme \<Rightarrow> engine \<Rightarrow> engine \<Rightarrow> bool" for E where
  tick: "on_tick E now e = Returned ob e' \<Longrightarrow> engine_step E e e'"
| block: "apply_external_block E now b e = Returned r e' \<Longrightarrow> engine_step E e e'"
| vote: "add_vote E now v e = Returned rv e' \<Longrightarrow> engine_step E e e'"
| submit: "pool_add E now tx (e_pool e) = Inr m \<Longrightarrow> engine_step E e (e\<lparr>e_pool := m\<rparr>)"

inductive forward_run :: "'z bft_ext_scheme \<Rightarrow> engine \<Rightarrow> engine \<Rightarrow> bool" for E e0 where
  start: "forward_run E e0 e0"
| step: "forward_run E e0 e \<Longrightarrow> engine_step E e e' \<Longrightarrow> st_Height (e_st e) \<le> st_Height (e_st e') \<Longrightarrow> forward_run E e0 e'"

inductive_cases engine_stepE: "engine_step E e e'"

subsection \<open>The ledger of own votes\<close>

text \<open>What a handler that casts no vote leaves alone.\<close>

definition ballots :: "engine \<Rightarrow> vote list \<times> (u64, (string, string) fmap) fmap \<times> (u64, lock) fmap \<times> (u64, block list) fmap \<times> keypair option" where
  "ballots e = (e_sentVotes e, e_voted e, e_locked e, e_forks e, e_key e)"

lemma kinds_differ [simp]: "PrevoteKind \<noteq> PrecommitKind" "PrecommitKind \<noteq> PrevoteKind"
  by (simp_all add: PrevoteKind_def PrecommitKind_def)

lemma ballots_simps [simp]:
  "ballots (e\<lparr>e_st := a\<rparr>) = ballots e" "ballots (e\<lparr>e_pool := b\<rparr>) = ballots e" "ballots (e\<lparr>e_votes := c\<rparr>) = ballots e"
  "ballots (e\<lparr>e_evidence := d\<rparr>) = ballots e" "ballots (e\<lparr>e_tick := t\<rparr>) = ballots e" "ballots (e\<lparr>e_lastProgress := p\<rparr>) = ballots e"
  "ballots (e\<lparr>e_sentBlocks := f\<rparr>) = ballots e" "ballots (freeze_set h e) = ballots e" "ballots (drop_txs hs e) = ballots e"
  "ballots (snapshot_state E h e) = ballots e" "ballots (persist E bl e) = ballots e" "ballots (restore_state E x e) = ballots e"
  "ballots (snd (drain_evidence e)) = ballots e" "ballots (record_equivocation v w e) = ballots e"
  by (auto simp: ballots_def freeze_set_def drop_txs_def snapshot_state_def persist_def restore_state_def
      drain_evidence_def record_equivocation_def Let_def split: option.splits)

lemma height_simps [simp]:
  "st_Height (e_st (snapshot_state E h e)) = st_Height (e_st e)" "st_Height (e_st (persist E bl e)) = st_Height (e_st e)"
  "e_st (finalize_parent h e) = set_finalized (h - 1) (e_st e)" "e_st (drop_txs hs e) = e_st e" "e_st (freeze_set h e) = e_st e"
  "st_Height (set_finalized h st) = st_Height st" "st_LastHash (set_finalized h st) = st_LastHash st"
  "e_st (forget_vote h e) = e_st e" "e_st (abandon h t e) = e_st e"
  by (simp_all add: snapshot_state_def persist_def finalize_parent_def prune_forks_below_def prune_snapshots_below_def
      prune_sets_def prune_voted_def drop_txs_def freeze_set_def set_finalized_def forget_vote_def abandon_def)

lemma adopt_height [simp]: "st_Height (e_st (adopt E now b fin e)) = h_Height (b_Header b)"
  by (simp add: adopt_def Let_def commit_block_def)

lemma sub_map_filter [simp]: "sub_map (fmfilter f m) k = (if f k then sub_map m k else fmempty)"
  by (simp add: sub_map_def)

lemma height_above: "H \<noteq> 0 \<Longrightarrow> H \<le> h \<Longrightarrow> \<not> h \<le> H - 1" for H h :: u64
proof -
  assume "H \<noteq> 0" "H \<le> h"
  then have "unat (H - 1) = unat H - 1" "0 < unat H" by (simp_all add: unat_minus_one unat_gt_0)
  then show ?thesis using \<open>H \<le> h\<close> by (simp add: word_le_nat_alt)
qed

text \<open>Adopting a block may prune the ledger below its height, and changes nothing else in it.\<close>

lemma adopt_ballots:
  "e_sentVotes (adopt E now b fin e) = e_sentVotes e"
  "h_Height (b_Header b) \<noteq> 0 \<Longrightarrow> h_Height (b_Header b) \<le> h \<Longrightarrow> voted_at (adopt E now b fin e) h = voted_at e h"
  "h_Height (b_Header b) \<noteq> 0 \<Longrightarrow> h_Height (b_Header b) \<le> h \<Longrightarrow> fmlookup (e_locked (adopt E now b fin e)) h = fmlookup (e_locked e) h"
proof -
  show "e_sentVotes (adopt E now b fin e) = e_sentVotes e"
    by (simp add: adopt_def Let_def snapshot_state_def persist_def finalize_parent_def prune_forks_below_def
        prune_snapshots_below_def prune_sets_def prune_voted_def)
  show "voted_at (adopt E now b fin e) h = voted_at e h"
    "fmlookup (e_locked (adopt E now b fin e)) h = fmlookup (e_locked e) h"
    if "h_Height (b_Header b) \<noteq> 0" "h_Height (b_Header b) \<le> h" for h
    using height_above [OF that]
    by (simp_all add: adopt_def Let_def snapshot_state_def persist_def finalize_parent_def prune_forks_below_def
        prune_snapshots_below_def prune_sets_def prune_voted_def voted_at_def drop_upto_def)
qed

subsection \<open>Casting on a height without votes and lock\<close>

lemma cast_kind_fresh:
  assumes "e_key e = Some kp" and "fmlookup (voted_at e H) (rk_key r k) = None" and "fmlookup (e_locked e) H = None"
  shows "\<exists>v. v_Height v = H \<and> v_Round v = r \<and> v_Kind v = k \<and> v_BlockHash v = hash
      \<and> e_sentVotes (cast_vote_kind E H r k hash e) = e_sentVotes e @ [v]"
    and "voted_at (cast_vote_kind E H r k hash e) h = (if h = H then fmupd (rk_key r k) hash (voted_at e H) else voted_at e h)"
    and "fmlookup (e_locked (cast_vote_kind E H r k hash e)) h =
      (if h = H \<and> k = PrecommitKind then Some \<lparr>lk_round = r, lk_hash = hash\<rparr> else fmlookup (e_locked e) h)"
    and "e_key (cast_vote_kind E H r k hash e) = Some kp"
  using assms
  by (auto simp: cast_vote_kind_def lock_refuses_def Let_def voted_at_def sign_vote_def own_vote_def)

lemma cast_vote_st [simp]: "e_st (cast_vote E H r hash e) = e_st e"
  by (simp add: cast_vote_def cast_vote_kind_def Let_def split: option.split)

lemma cast_vote_nokey: "e_key e = None \<Longrightarrow> cast_vote E H r hash e = e"
  by (simp add: cast_vote_def cast_vote_kind_def)

lemma cast_vote_fresh:
  assumes "e_key e = Some kp" and "voted_at e H = fmempty" and "fmlookup (e_locked e) H = None"
  shows "\<exists>v w. v_Height v = H \<and> v_Round v = r \<and> v_Kind v = PrevoteKind \<and> v_BlockHash v = hash
      \<and> v_Height w = H \<and> v_Round w = r \<and> v_Kind w = PrecommitKind \<and> v_BlockHash w = hash
      \<and> e_sentVotes (cast_vote E H r hash e) = e_sentVotes e @ [v, w]"
    and "h \<noteq> H \<Longrightarrow> voted_at (cast_vote E H r hash e) h = voted_at e h"
    and "fmlookup (e_locked (cast_vote E H r hash e)) h =
      (if h = H then Some \<lparr>lk_round = r, lk_hash = hash\<rparr> else fmlookup (e_locked e) h)"
proof -
  let ?e1 = "cast_vote_kind E H r PrevoteKind hash e"
  have n: "fmlookup (voted_at e H) (rk_key r PrevoteKind) = None" by (simp add: assms(2))
  note one = cast_kind_fresh [OF assms(1) n assms(3), where hash = hash and E = E]
  have m: "fmlookup (voted_at ?e1 H) (rk_key r PrecommitKind) = None" "fmlookup (e_locked ?e1) H = None"
    by (simp_all add: one(2,3) assms rk_key_inj)
  note two = cast_kind_fresh [OF one(4) m, where hash = hash and E = E]
  from one(1) two(1) show "\<exists>v w. v_Height v = H \<and> v_Round v = r \<and> v_Kind v = PrevoteKind \<and> v_BlockHash v = hash
      \<and> v_Height w = H \<and> v_Round w = r \<and> v_Kind w = PrecommitKind \<and> v_BlockHash w = hash
      \<and> e_sentVotes (cast_vote E H r hash e) = e_sentVotes e @ [v, w]"
    unfolding cast_vote_def by force
  show "h \<noteq> H \<Longrightarrow> voted_at (cast_vote E H r hash e) h = voted_at e h"
    by (simp add: cast_vote_def two(2) one(2))
  show "fmlookup (e_locked (cast_vote E H r hash e)) h =
      (if h = H then Some \<lparr>lk_round = r, lk_hash = hash\<rparr> else fmlookup (e_locked e) h)"
    by (simp add: cast_vote_def two(3) one(3))
qed

subsection \<open>Never two votes for one height, round and kind\<close>

definition forks_ok :: "engine \<Rightarrow> bool" where
  "forks_ok e \<longleftrightarrow> (\<forall>H bs. fmlookup (e_forks e) H = Some bs \<longrightarrow> (\<forall>b \<in> set bs. h_Height (b_Header b) = H))"

text \<open>
  Nothing is voted or locked above the height of the node; the lock at its height carries the
  highest round it has signed there.
\<close>

definition sent_ok :: "engine \<Rightarrow> bool" where
  "sent_ok e \<longleftrightarrow>
     (\<forall>v \<in> set (e_sentVotes e). v_Height v \<le> st_Height (e_st e)
        \<and> (v_Height v = st_Height (e_st e) \<longrightarrow>
             (\<exists>lk. fmlookup (e_locked e) (st_Height (e_st e)) = Some lk \<and> v_Round v \<le> lk_round lk)))
     \<and> (\<forall>h > st_Height (e_st e). voted_at e h = fmempty \<and> fmlookup (e_locked e) h = None)
     \<and> (\<forall>v \<in> set (e_sentVotes e). \<forall>w \<in> set (e_sentVotes e).
          v_Height v = v_Height w \<and> v_Round v = v_Round w \<and> v_Kind v = v_Kind w \<longrightarrow> v = w)
     \<and> forks_ok e \<and> (e_key e = None \<longrightarrow> e_sentVotes e = [])"

lemma sent_okD:
  assumes "sent_ok e"
  shows "v \<in> set (e_sentVotes e) \<Longrightarrow> v_Height v \<le> st_Height (e_st e)"
    and "v \<in> set (e_sentVotes e) \<Longrightarrow> v_Height v = st_Height (e_st e)
      \<Longrightarrow> \<exists>lk. fmlookup (e_locked e) (st_Height (e_st e)) = Some lk \<and> v_Round v \<le> lk_round lk"
    and "st_Height (e_st e) < h \<Longrightarrow> voted_at e h = fmempty \<and> fmlookup (e_locked e) h = None"
    and "v \<in> set (e_sentVotes e) \<Longrightarrow> w \<in> set (e_sentVotes e) \<Longrightarrow> v_Height v = v_Height w \<Longrightarrow> v_Round v = v_Round w
      \<Longrightarrow> v_Kind v = v_Kind w \<Longrightarrow> v = w"
    and "forks_ok e" and "e_key e = None \<Longrightarrow> e_sentVotes e = []"
  using assms by (auto simp: sent_ok_def)

lemma sent_ok_quiet:
  assumes "sent_ok e" and "ballots e' = ballots e" and "st_Height (e_st e) \<le> st_Height (e_st e')"
  shows "sent_ok e'"
proof -
  have eq: "e_sentVotes e' = e_sentVotes e" "e_locked e' = e_locked e" "voted_at e' = voted_at e" "forks_ok e' = forks_ok e" "e_key e' = e_key e"
    using assms(2) by (auto simp: ballots_def voted_at_def fun_eq_iff forks_ok_def)
  note d = sent_okD [OF assms(1)]
  have "v_Height v \<le> st_Height (e_st e') \<and> (v_Height v = st_Height (e_st e') \<longrightarrow>
      (\<exists>lk. fmlookup (e_locked e) (st_Height (e_st e')) = Some lk \<and> v_Round v \<le> lk_round lk))"
    if v: "v \<in> set (e_sentVotes e)" for v
  proof (cases "st_Height (e_st e') = st_Height (e_st e)")
    case True
    then show ?thesis using d(1,2) [OF v] by auto
  next
    case False
    then show ?thesis using d(1) [OF v] assms(3) by auto
  qed
  then show ?thesis using d(3-6) assms(3) unfolding sent_ok_def eq by (meson order_le_less_trans)
qed

lemma sent_ok_adopted:
  assumes ok: "sent_ok e" and sent: "e_sentVotes e1 = e_sentVotes e" and key: "e_key e1 = e_key e"
    and H: "st_Height (e_st e1) = H" "st_Height (e_st e) \<le> H"
    and fresh: "voted_at e1 H = fmempty" "fmlookup (e_locked e1) H = None"
    and above: "\<And>h. H < h \<Longrightarrow> voted_at e1 h = fmempty \<and> fmlookup (e_locked e1) h = None"
    and later: "\<And>v. v \<in> set (e_sentVotes e) \<Longrightarrow> v_Height v = H \<Longrightarrow> v_Round v < r"
    and forks: "forks_ok e1"
  shows "sent_ok (cast_vote E H r hash e1)"
proof (cases "e_key e1")
  case None
  then have "e_sentVotes e1 = []" using sent_okD(6) [OF ok] key sent by simp
  with None fresh above forks H(1) show ?thesis
    unfolding cast_vote_nokey [OF None] sent_ok_def by simp
next
  case (Some kp)
  note d = sent_okD [OF ok]
  have le: "v_Height v \<le> H" if "v \<in> set (e_sentVotes e)" for v using d(1) [OF that] H(2) by simp
  have forks': "forks_ok (cast_vote E H r hash e1)" "e_key (cast_vote E H r hash e1) = e_key e1"
    using forks by (auto simp: forks_ok_def cast_vote_def cast_vote_kind_def Let_def split: option.split)
  note c = cast_vote_fresh [OF Some fresh, where hash = hash and E = E and r = r]
  from c(1) obtain v0 w0 where v0: "v_Height v0 = H" "v_Round v0 = r" "v_Kind v0 = PrevoteKind"
    and w0: "v_Height w0 = H" "v_Round w0 = r" "v_Kind w0 = PrecommitKind"
    and s: "e_sentVotes (cast_vote E H r hash e1) = e_sentVotes e @ [v0, w0]" by (auto simp: sent)
  have new: "\<not> (v_Height v = H \<and> v_Round v = r)" if "v \<in> set (e_sentVotes e)" for v using later [OF that] by auto
  have one: "v_Height v \<le> H \<and> (v_Height v = H \<longrightarrow> v_Round v \<le> r)" if "v \<in> set (e_sentVotes e @ [v0, w0])" for v
    using that le later v0 w0 by (auto intro: order.strict_implies_order)
  have two: "v = w" if "v \<in> set (e_sentVotes e @ [v0, w0])" "w \<in> set (e_sentVotes e @ [v0, w0])"
    "v_Height v = v_Height w" "v_Round v = v_Round w" "v_Kind v = v_Kind w" for v w
    using that d(4) new [of v] new [of w] v0 w0 by auto
  have lk: "fmlookup (e_locked (cast_vote E H r hash e1)) H = Some \<lparr>lk_round = r, lk_hash = hash\<rparr>"
    using c(3) [of H] by simp
  have ab: "voted_at (cast_vote E H r hash e1) h = fmempty \<and> fmlookup (e_locked (cast_vote E H r hash e1)) h = None" if "H < h" for h
    using above [OF that] c(2,3) that by (metis less_irrefl)
  show ?thesis
    unfolding sent_ok_def s cast_vote_st H(1)
  proof (intro conjI ballI allI impI)
    show "\<exists>k. fmlookup (e_locked (cast_vote E H r hash e1)) H = Some k \<and> v_Round v \<le> lk_round k"
      if "v \<in> set (e_sentVotes e @ [v0, w0])" "v_Height v = H" for v
      using one [OF that(1)] that(2) lk by simp
  qed (use one two ab forks' Some in \<open>auto simp del: set_append\<close>)
qed

lemma sent_ok_buffer: "sent_ok e \<Longrightarrow> sent_ok (buffer_fork b e)"
proof -
  assume ok: "sent_ok e"
  have f: "forks_ok (buffer_fork b e)" using sent_okD(5) [OF ok]
    by (auto simp: forks_ok_def buffer_fork_def Let_def split: option.splits if_splits)
  have same: "e_sentVotes (buffer_fork b e) = e_sentVotes e" "e_st (buffer_fork b e) = e_st e" "e_locked (buffer_fork b e) = e_locked e"
    "voted_at (buffer_fork b e) = voted_at e" "e_key (buffer_fork b e) = e_key e"
    by (auto simp: buffer_fork_def Let_def voted_at_def fun_eq_iff)
  show ?thesis using ok f by (simp add: sent_ok_def same)
qed

subsection \<open>The handlers\<close>

lemma validate_block_quiet:
  assumes "validate_block E b prev e = (res, e')"
  shows "ballots e' = ballots e \<and> e_st e' = e_st e"
  using assms by (auto simp: validate_block_def Let_def split: if_splits)

lemma run_block_quiet: "run_block E b prev backup e = Returned res e' \<Longrightarrow> ballots e' = ballots e"
  by (auto simp: run_block_def Let_def split: exec_result.splits if_splits)

lemma ballotsD:
  assumes "ballots e' = ballots e"
  shows "e_sentVotes e' = e_sentVotes e" "voted_at e' h = voted_at e h" "e_locked e' = e_locked e" "e_key e' = e_key e"
    "forks_ok e' = forks_ok e"
  using assms by (auto simp: ballots_def voted_at_def forks_ok_def)

lemma adopt_key [simp]: "e_key (adopt E now b fin e) = e_key e"
  by (simp add: adopt_def Let_def snapshot_state_def persist_def finalize_parent_def prune_forks_below_def
      prune_snapshots_below_def prune_sets_def prune_voted_def)

lemma adopt_forks: "forks_ok e \<Longrightarrow> forks_ok (adopt E now b fin e)"
  by (auto simp: adopt_def Let_def snapshot_state_def persist_def finalize_parent_def prune_forks_below_def
      prune_snapshots_below_def prune_sets_def prune_voted_def forks_ok_def drop_below_def split: if_splits)

lemma voted_simps [simp]:
  "voted_at (e\<lparr>e_st := a\<rparr>) h = voted_at e h"
  "voted_at (forget_vote H e) h = (if h = H then fmempty else voted_at e h)"
  "fmlookup (e_locked (forget_vote H e)) h = (if h = H then None else fmlookup (e_locked e) h)"
  "e_sentVotes (forget_vote H e) = e_sentVotes e" "e_key (forget_vote H e) = e_key e" "forks_ok (forget_vote H e) = forks_ok e"
  "e_sentVotes (abandon H t e) = e_sentVotes e" "e_key (abandon H t e) = e_key e" "forks_ok (abandon H t e) = forks_ok e"
  "voted_at (abandon H t e) h = (if H \<le> h \<and> h \<le> t then fmempty else voted_at e h)"
  "fmlookup (e_locked (abandon H t e)) h = (if H \<le> h \<and> h \<le> t then None else fmlookup (e_locked e) h)"
  by (simp_all add: voted_at_def forget_vote_def abandon_def forks_ok_def)

text \<open>A block on top of the node's own: nothing was voted at its height before.\<close>

lemma sent_ok_extend:
  assumes ok: "sent_ok e" and q: "ballots e2 = ballots e" and H: "h_Height (b_Header b) = H" "st_Height (e_st e) < H"
    and e4: "ballots e4 = ballots (adopt E now b fin e2)" "st_Height (e_st e4) = H"
  shows "sent_ok (cast_vote E H r hash e4)"
proof (rule sent_ok_adopted [OF ok])
  note d = sent_okD [OF ok]
  have nz: "h_Height (b_Header b) \<noteq> 0" using H by auto
  have v: "voted_at e4 h = fmempty \<and> fmlookup (e_locked e4) h = None" if "H \<le> h" for h
  proof -
    have "st_Height (e_st e) < h" using H(2) that by simp
    from d(3) [OF this] show ?thesis
      using adopt_ballots(2,3) [OF nz, of h E now fin e2] that H(1) ballotsD [OF e4(1)] ballotsD [OF q] by simp
  qed
  show "e_sentVotes e4 = e_sentVotes e" using ballotsD(1) [OF e4(1)] ballotsD(1) [OF q] by (simp add: adopt_ballots)
  show "e_key e4 = e_key e" using ballotsD(4) [OF e4(1)] ballotsD(4) [OF q] by simp
  show "st_Height (e_st e4) = H" "st_Height (e_st e) \<le> H" using e4(2) H by auto
  show "voted_at e4 H = fmempty" "fmlookup (e_locked e4) H = None" using v by auto
  show "voted_at e4 h = fmempty \<and> fmlookup (e_locked e4) h = None" if "H < h" for h using v that by simp
  show "v_Round v < r" if "v \<in> set (e_sentVotes e)" "v_Height v = H" for v using d(1) [OF that(1)] that(2) H by auto
  show "forks_ok e4" using d(5) ballotsD(5) [OF q] ballotsD(5) [OF e4(1)] adopt_forks by simp
qed

definition reorg_done :: "'z bft_ext_scheme \<Rightarrow> int \<Rightarrow> block \<Rightarrow> bool \<Rightarrow> u64 \<Rightarrow> engine \<Rightarrow> engine" where
  "reorg_done E now b fin oldTip e3 =
     (let H = h_Height (b_Header b) in
      cast_vote E H (h_Round (b_Header b)) (b_Hash b)
        (forget_vote H (drop_txs (map (tx_hash E) (b_Txs b)) (adopt E now b fin (abandon H oldTip e3)))))"

text \<open>A reorganisation leaves the ledger of votes alone, or has validated and run the new block.\<close>

lemma reorg_to_cases:
  assumes r: "reorg_to E now b e = Returned res e'"
  obtains "ballots e' = ballots e" "res = Inr () \<longrightarrow> e' = e"
  | fin e3 snap st e2 where "ballots e3 = ballots e" "fmlookup (e_snapshots e) (h_Height (b_Header b) - 1) = Some snap" "x_load E snap = Some st"
      "validate_block E b (st_LastHash st) (e\<lparr>e_st := st\<rparr>) = (Inr fin, e2)"
      "run_block E b (st_LastHash st) (x_dump E (e_st e)) e2 = Returned (Inr ()) e3"
      "e' = reorg_done E now b fin (st_Height (e_st e)) e3"
proof -
  let ?H = "h_Height (b_Header b)"
  consider "e' = e" | snap st where "\<not> ?H - 1 < st_FinalizedHeight (e_st e)" "fmlookup (e_snapshots e) (?H - 1) = Some snap" "x_load E snap = Some st"
    using r by (auto simp: reorg_to_def Let_def split: if_splits option.splits)
  then show thesis
  proof cases
    case 2
    obtain vr e2 where v: "validate_block E b (st_LastHash st) (e\<lparr>e_st := st\<rparr>) = (vr, e2)" by (rule prod.exhaust)
    note q1 = validate_block_quiet [OF v, THEN conjunct1]
    let ?run = "run_block E b (st_LastHash st) (x_dump E (e_st e)) e2"
    show thesis
    proof (cases vr)
      case (Inl err)
      then have "e' = restore_state E (x_dump E (e_st e)) e2" "res = Inl err" using r 2 v by (simp_all add: reorg_to_def Let_def)
      with q1 that(1) show thesis by simp
    next
      case (Inr fin)
      then obtain rr e3 where run: "?run = Returned rr e3"
        using r 2 v by (cases ?run) (simp_all add: reorg_to_def Let_def)
      note q2 = run_block_quiet [OF run]
      show thesis
      proof (cases rr)
        case (Inl err)
        then have "e' = e3" "res = Inl err" using r 2 v Inr run by (simp_all add: reorg_to_def Let_def)
        with q1 q2 that(1) show thesis by simp
      next
        case ok: (Inr u)
        have "e' = reorg_done E now b fin (st_Height (e_st e)) e3"
          using r 2 v Inr run ok by (simp add: reorg_to_def reorg_done_def Let_def)
        with that(2) [OF _ 2(2,3) _ _ this] q1 q2 v Inr run ok show thesis by simp
      qed
    qed
  qed (use that(1) in simp)
qed

text \<open>A reorganisation that does not lower the height replaces the tip, at a later round.\<close>

lemma sent_ok_reorg:
  assumes ok: "sent_ok e" and r: "reorg_to E now b e = Returned res e'"
    and mono: "st_Height (e_st e) \<le> st_Height (e_st e')"
    and later: "\<And>v. v \<in> set (e_sentVotes e) \<Longrightarrow> v_Height v = h_Height (b_Header b) \<Longrightarrow> v_Height v = st_Height (e_st e)
      \<Longrightarrow> v_Round v < h_Round (b_Header b)"
    and le: "h_Height (b_Header b) \<le> st_Height (e_st e)" and pos: "h_Height (b_Header b) \<noteq> 0"
  shows "sent_ok e'"
proof -
  let ?H = "h_Height (b_Header b)"
  note d = sent_okD [OF ok]
  consider "ballots e' = ballots e"
    | fin e3 where "ballots e3 = ballots e"
      "e' = cast_vote E ?H (h_Round (b_Header b)) (b_Hash b)
        (forget_vote ?H (drop_txs (map (tx_hash E) (b_Txs b)) (adopt E now b fin (abandon ?H (st_Height (e_st e)) e3))))"
    using r by (rule reorg_to_cases) (simp_all add: reorg_done_def Let_def)
  then show ?thesis
  proof cases
    case 1
    then show ?thesis by (rule sent_ok_quiet [OF ok _ mono])
  next
    case 2
    let ?a = "adopt E now b fin (abandon ?H (st_Height (e_st e)) e3)"
    note q = ballotsD [OF 2(1)]
    have eqH: "?H = st_Height (e_st e)" using mono le unfolding 2(2) by simp
    have dt: "e_sentVotes (drop_txs hs x) = e_sentVotes x" "voted_at (drop_txs hs x) = voted_at x" "e_key (drop_txs hs x) = e_key x"
      "e_locked (drop_txs hs x) = e_locked x" "forks_ok (drop_txs hs x) = forks_ok x" for hs x
      by (auto simp: drop_txs_def voted_at_def fun_eq_iff forks_ok_def)
    have above: "voted_at ?a h = fmempty \<and> fmlookup (e_locked ?a) h = None" if "?H < h" for h
    proof -
      have "st_Height (e_st e) < h" using that eqH by simp
      from d(3) [OF this] show ?thesis
        using adopt_ballots(2,3) [OF pos order.strict_implies_order [OF that], of E now fin "abandon ?H (st_Height (e_st e)) e3"] q
        by (auto split: if_splits)
    qed
    show ?thesis
      unfolding 2(2)
      by (rule sent_ok_adopted [OF ok])
        (use q d(5) above later eqH in \<open>auto simp: dt adopt_ballots adopt_forks\<close>)
  qed
qed

lemma find_SomeD: "find f xs = Some x \<Longrightarrow> x \<in> set xs \<and> f x"
  by (induction xs) (auto split: if_splits)

lemma sent_ok_try:
  assumes ok: "sent_ok e" and r: "try_reorg E now H e = Returned res e'" and mono: "st_Height (e_st e) \<le> st_Height (e_st e')"
  shows "sent_ok e'"
proof (cases "st_Height (e_st e) < H \<or> H \<le> st_FinalizedHeight (e_st e) \<or> reorg_candidate E H e = None")
  case True
  then have "e' = e" using r by (auto simp: try_reorg_def split: if_splits)
  with ok show ?thesis by simp
next
  case False
  then obtain b where b: "reorg_candidate E H e = Some b" by auto
  let ?bs = "case fmlookup (e_forks e) H of None \<Rightarrow> [] | Some bs \<Rightarrow> bs"
  have "b \<in> set ?bs" and rnd: "(case fmlookup (e_locked e) H of None \<Rightarrow> 0 | Some lk \<Rightarrow> lk_round lk) < h_Round (b_Header b)"
    using b unfolding reorg_candidate_def Let_def by (auto dest: find_SomeD)
  then obtain bs where "fmlookup (e_forks e) H = Some bs" "b \<in> set bs" by (cases "fmlookup (e_forks e) H") auto
  then have hb: "h_Height (b_Header b) = H" using sent_okD(5) [OF ok] by (simp add: forks_ok_def)
  have "v_Round v < h_Round (b_Header b)" if v: "v \<in> set (e_sentVotes e)" "v_Height v = H" "v_Height v = st_Height (e_st e)" for v
  proof -
    obtain lk where "fmlookup (e_locked e) H = Some lk" "v_Round v \<le> lk_round lk"
      using sent_okD(2) [OF ok v(1)] v(2,3) by auto
    with rnd show ?thesis by simp
  qed
  moreover have "reorg_to E now b e = Returned res e'" using r False b by (simp add: try_reorg_def)
  moreover have "H \<noteq> 0" "H \<le> st_Height (e_st e)" using False by auto
  ultimately show ?thesis by (intro sent_ok_reorg [OF ok _ mono]) (auto simp: hb)
qed

lemma sent_ok_apply:
  assumes ok: "sent_ok e" and r: "apply_external_block E now b e = Returned res e'"
    and mono: "st_Height (e_st e) \<le> st_Height (e_st e')"
  shows "sent_ok e'"
proof (cases "h_Height (b_Header b) \<le> st_Height (e_st e)")
  case True
  then have "consider_fork E now b (st_Height (e_st e)) e = Returned res e'"
    using r by (simp add: apply_external_block_def Let_def)
  then consider "e' = e" | "try_reorg E now (h_Height (b_Header b)) (buffer_fork b e) = Returned res e'"
    by (auto simp: consider_fork_def Let_def split: if_splits)
  then show ?thesis
  proof cases
    case 2
    have "e_st (buffer_fork b e) = e_st e" by (simp add: buffer_fork_def Let_def)
    with sent_ok_try [OF sent_ok_buffer [OF ok] 2] mono show ?thesis by simp
  qed (use ok in simp)
next
  case False
  let ?H = "h_Height (b_Header b)"
  obtain vr e1 where v: "validate_block E b (st_LastHash (e_st e)) e = (vr, e1)" by (rule prod.exhaust)
  note q1 = validate_block_quiet [OF v]
  consider "ballots e' = ballots e"
    | fin e2 e4 where "ballots e2 = ballots e" "ballots e4 = ballots (adopt E now b fin e2)" "st_Height (e_st e4) = ?H"
      "e' = cast_vote E ?H (h_Round (b_Header b)) (b_Hash b) e4"
  proof (cases vr)
    case (Inl err)
    then have "e' = e \<or> e' = e1" using r False v by (auto simp: apply_external_block_def Let_def split: if_splits)
    with q1 that(1) show thesis by auto
  next
    case (Inr fin)
    let ?run = "run_block E b (st_LastHash (e_st e)) (x_dump E (e_st e1)) e1"
    show thesis
    proof (cases "st_Height (e_st e) + 1 < ?H")
      case True
      then have "e' = e" using r False by (simp add: apply_external_block_def Let_def)
      with that(1) show thesis by simp
    next
      case gap: False
      then obtain rr e2 where run: "?run = Returned rr e2"
        using r False v Inr by (cases ?run) (auto simp: apply_external_block_def Let_def)
      note q2 = run_block_quiet [OF run]
      show thesis
      proof (cases rr)
        case (Inl err)
        then have "e' = e2" using r False gap v Inr run by (simp add: apply_external_block_def Let_def)
        with q1 q2 that(1) show thesis by simp
      next
        case (Inr u)
        have "e' = cast_vote E ?H (h_Round (b_Header b)) (b_Hash b)
            ((drop_txs (map (tx_hash E) (b_Txs b)) (adopt E now b fin e2))\<lparr>e_evidence :=
              fold (\<lambda>ev. fmdrop (evidence_key (ev_Voter ev) (ev_Height ev))) (b_Evidence b)
                (e_evidence (drop_txs (map (tx_hash E) (b_Txs b)) (adopt E now b fin e2)))\<rparr>)"
          using r False gap v \<open>vr = Inr fin\<close> run Inr by (simp add: apply_external_block_def Let_def)
        from that(2) [OF _ _ _ this, of e2 fin] q1 q2 show thesis by simp
      qed
    qed
  qed
  then show ?thesis
  proof cases
    case 1
    then show ?thesis by (rule sent_ok_quiet [OF ok _ mono])
  next
    case 2
    with sent_ok_extend [OF ok 2(1) refl _ 2(2,3)] False show ?thesis by simp
  qed
qed

lemma sent_ok_vote:
  assumes ok: "sent_ok e" and r: "add_vote E now v e = Returned res e'" and mono: "st_Height (e_st e) \<le> st_Height (e_st e')"
  shows "sent_ok e'"
proof -
  have "ballots e' = ballots e \<or> (\<exists>e2 res2. ballots e2 = ballots e \<and> e_st e2 = e_st e \<and> try_reorg E now (v_Height v) e2 = Returned res2 e')"
  proof (cases "vote_add E v (e_votes e)")
    case (fields new conf q)
    let ?e2 = "case conf of None \<Rightarrow> e\<lparr>e_votes := q\<rparr> | Some prev \<Rightarrow> record_equivocation prev v (e\<lparr>e_votes := q\<rparr>)"
    have "ballots ?e2 = ballots e" "e_st ?e2 = e_st e"
      by (simp_all add: record_equivocation_def Let_def split: option.split)
    then show ?thesis
      using r by (auto simp: add_vote_def Let_def fields split: if_splits sum.splits handled.splits bool.splits)
  qed
  then consider "ballots e' = ballots e"
    | e2 res2 where "ballots e2 = ballots e" "e_st e2 = e_st e" "try_reorg E now (v_Height v) e2 = Returned res2 e'" by blast
  then show ?thesis
  proof cases
    case 1
    then show ?thesis by (rule sent_ok_quiet [OF ok _ mono])
  next
    case 2
    have "sent_ok e2" by (rule sent_ok_quiet [OF ok 2(1)]) (simp add: 2(2))
    from sent_ok_try [OF this 2(3)] mono show ?thesis by (simp add: 2(2))
  qed
qed

text \<open>Production: either no vote is cast, or the node extends its own chain.\<close>

lemma forge_cases:
  assumes "forge_block E now kp rnd txs evid e = Returned ob e'"
  obtains applied failed root st b fin e2 where
    "executed_parts (execute E txs evid (absent_proposers E (e_st e) (st_Height (e_st e) + 1) (st_LastHash (e_st e)) rnd (e_addr e))
       (e_addr e) (word_of_int (now div 1000000)) False (e_st e)) = Some (applied, failed, root, st)"
    "b = build_block E kp (st_Height (e_st e) + 1) (st_LastHash (e_st e)) (word_of_int (now div 1000000)) (e_addr e) rnd applied evid
       (build_last_commit E (st_Height (e_st e) + 1 - 1) (st_LastHash (e_st e)) e) root"
    "fin = (build_last_commit E (st_Height (e_st e) + 1 - 1) (st_LastHash (e_st e)) e \<noteq> [])"
    "e2 = adopt E now b fin (drop_txs (map (tx_hash E) applied) (drop_txs failed (e\<lparr>e_st := st\<rparr>)))"
    "ob = Some b" "e' = cast_vote E (st_Height (e_st e) + 1) rnd (b_Hash b) (e2\<lparr>e_sentBlocks := e_sentBlocks e2 @ [b]\<rparr>)"
  using assms unfolding forge_block_def Let_def by (auto split: option.splits if_splits)

lemma produce_cases:
  assumes "produce_once E now force e = Returned ob e'"
  obtains "ballots e' = ballots e" "e_st e' = e_st e" "ob = None"
  | kp rnd txs evid e1 e2 where "e_key e = Some kp" "e1 = freeze_set (st_Height (e_st e) + 1) e" "current_round now e1 = Some rnd"
      "select_proposer E (e_st e) (st_Height (e_st e) + 1) (st_LastHash (e_st e)) rnd = e_addr e"
      "drain_evidence (e1\<lparr>e_pool := snd (purge_expired now tx_ttl (e_pool e))\<rparr>) = (evid, e2)"
      "txs = pool_take (x_visit E (pl_txs (e_pool e2))) (e_maxTxs e2) (nonce_of (e_st e2)) (e_pool e2)"
      "forge_block E now kp rnd txs evid e2 = Returned ob e'"
proof -
  let ?e1 = "freeze_set (st_Height (e_st e) + 1) e"
  let ?p = "?e1\<lparr>e_pool := snd (purge_expired now tx_ttl (e_pool e))\<rparr>"
  have fr: "e_pool ?e1 = e_pool e" "e_addr ?e1 = e_addr e" by (simp_all add: freeze_set_def)
  obtain evid e2 where dr: "drain_evidence ?p = (evid, e2)" by (rule prod.exhaust)
  then have e2: "ballots e2 = ballots e" "e_st e2 = e_st e" "e_pool e2 = e_pool ?p" "e_maxTxs e2 = e_maxTxs ?p"
    by (auto simp: drain_evidence_def ballots_def freeze_set_def)
  consider "e' = e" "ob = None" | "e' = ?e1" "ob = None"
    | kp rnd where "e_key e = Some kp" "current_round now ?e1 = Some rnd"
      "select_proposer E (e_st e) (st_Height (e_st e) + 1) (st_LastHash (e_st e)) rnd = e_addr e" "propose E now force kp rnd ?e1 = Returned ob e'"
    using assms by (auto simp: produce_once_def Let_def fr split: option.splits if_splits)
  then show thesis
  proof cases
    case 3
    let ?txs = "pool_take (x_visit E (pl_txs (e_pool e2))) (e_maxTxs e2) (nonce_of (e_st e2)) (e_pool e2)"
    have "propose E now force kp rnd ?e1 = (if ?txs = [] \<and> evid = [] \<and> \<not> force then Returned None e2 else forge_block E now kp rnd ?txs evid e2)"
      unfolding propose_def Let_def fr dr by (simp add: e2)
    then have p: "(if ?txs = [] \<and> evid = [] \<and> \<not> force then Returned None e2 else forge_block E now kp rnd ?txs evid e2) = Returned ob e'"
      using 3(4) by (rule trans [OF sym])
    show thesis
    proof (cases "?txs = [] \<and> evid = [] \<and> \<not> force")
      case True
      with p e2 that(1) show thesis by simp
    next
      case False
      then have "forge_block E now kp rnd ?txs evid e2 = Returned ob e'" using p by (simp only: if_False)
      from that(2) [OF 3(1) refl 3(2,3) dr refl this] show thesis .
    qed
  qed (use that(1) in simp_all)
qed

lemma sent_ok_produce:
  assumes ok: "sent_ok e" and r: "produce_once E now force e = Returned ob e'" and mono: "st_Height (e_st e) \<le> st_Height (e_st e')"
  shows "sent_ok e'"
  using r
proof (rule produce_cases)
  assume "ballots e' = ballots e"
  then show ?thesis by (rule sent_ok_quiet [OF ok _ mono])
next
  fix kp rnd txs evid e1 e2
  assume e1: "e1 = freeze_set (st_Height (e_st e) + 1) e"
    and dr: "drain_evidence (e1\<lparr>e_pool := snd (purge_expired now tx_ttl (e_pool e))\<rparr>) = (evid, e2)"
    and f: "forge_block E now kp rnd txs evid e2 = Returned ob e'"
  have e2: "ballots e2 = ballots e" "e_st e2 = e_st e"
    using dr by (auto simp: e1 drain_evidence_def ballots_def freeze_set_def)
  from f show ?thesis
  proof (rule forge_cases)
    fix applied failed root st b fin e3
    assume b: "b = build_block E kp (st_Height (e_st e2) + 1) (st_LastHash (e_st e2)) (word_of_int (now div 1000000)) (e_addr e2) rnd applied evid
       (build_last_commit E (st_Height (e_st e2) + 1 - 1) (st_LastHash (e_st e2)) e2) root"
      and e3: "e3 = adopt E now b fin (drop_txs (map (tx_hash E) applied) (drop_txs failed (e2\<lparr>e_st := st\<rparr>)))"
      and e': "e' = cast_vote E (st_Height (e_st e2) + 1) rnd (b_Hash b) (e3\<lparr>e_sentBlocks := e_sentBlocks e3 @ [b]\<rparr>)"
    have H: "h_Height (b_Header b) = st_Height (e_st e) + 1" by (simp add: b build_block_def Let_def e2)
    then have "st_Height (e_st e') = st_Height (e_st e) + 1" by (simp add: e' e3)
    with mono have less: "st_Height (e_st e) < st_Height (e_st e) + 1"
      by (metis add_cancel_right_right order_le_less zero_neq_one)
    show ?thesis
      unfolding e' e2(2) by (rule sent_ok_extend [OF ok _ H less]) (simp_all add: e3 e2 H)
  qed
qed

lemma sent_ok_step:
  assumes "engine_step E e e'" and "sent_ok e" and "st_Height (e_st e) \<le> st_Height (e_st e')"
  shows "sent_ok e'"
  using assms(1)
proof cases
  case (tick now ob)
  let ?e = "e\<lparr>e_tick := e_tick e + 1\<rparr>"
  have ok: "sent_ok ?e" by (rule sent_ok_quiet [OF assms(2)]) simp_all
  have "produce_once E now (e_tick ?e mod e_heartbeat ?e = 0) ?e = Returned ob e'"
    using tick by (simp add: on_tick_def Let_def)
  from sent_ok_produce [OF ok this] assms(3) show ?thesis by simp
next
  case (block now b r)
  from sent_ok_apply [OF assms(2) this assms(3)] show ?thesis .
next
  case (vote now v rv)
  from sent_ok_vote [OF assms(2) this assms(3)] show ?thesis .
next
  case (submit now tx m)
  show ?thesis unfolding submit(1) by (rule sent_ok_quiet [OF assms(2)]) simp_all
qed

text \<open>An engine that has signed nothing yet, as \<^verbatim>\<open>New\<close> makes it.\<close>

definition fresh_engine :: "engine \<Rightarrow> bool" where
  "fresh_engine e \<longleftrightarrow> e_sentVotes e = [] \<and> e_voted e = fmempty \<and> e_locked e = fmempty \<and> e_forks e = fmempty"

lemma fresh_new [simp]: "fresh_engine (set_chain_id i (new_engine E st pool db key interval maxTxs now))"
  by (simp add: fresh_engine_def set_chain_id_def new_engine_def)

lemma sent_ok_fresh: "fresh_engine e \<Longrightarrow> sent_ok e"
  by (simp add: sent_ok_def fresh_engine_def voted_at_def forks_ok_def)

lemma forward_run_sent_ok: "forward_run E e0 e \<Longrightarrow> sent_ok e0 \<Longrightarrow> sent_ok e"
  by (induction rule: forward_run.induct) (auto intro: sent_ok_step)

end
