(* ===== verification/Forge.thy ===== *)
theory Forge
  imports EngineRuns Replay
begin

text \<open>
  The block a proposer builds, seen by another node: it passes \<^verbatim>\<open>validateBlockLocked\<close>, and its strict
  execution repeats what the proposer did.
\<close>

subsection \<open>Signatures\<close>

text \<open>What the engine relies on: the scheme verifies the signatures it makes.\<close>

definition sign_ok :: "'z bft_ext_scheme \<Rightarrow> keypair \<Rightarrow> bool" where
  "sign_ok E kp \<longleftrightarrow> x_pub_ok E (kp_Pub kp) \<and> (\<forall>m. x_verify E (kp_Pub kp) m (x_sign E (kp_Priv kp) m))"

lemma sign_vote_verify: "sign_ok E kp \<Longrightarrow> vote_verify E (sign_vote E kp v) = Inr ()"
  by (simp add: sign_ok_def vote_verify_def sign_vote_def Let_def key_address_def crypto_verify_def vote_signing_bytes_def)

lemma sign_vote_fields [simp]:
  "v_ChainID (sign_vote E kp v) = v_ChainID v" "v_Height (sign_vote E kp v) = v_Height v" "v_Round (sign_vote E kp v) = v_Round v"
  "v_Kind (sign_vote E kp v) = v_Kind v" "v_BlockHash (sign_vote E kp v) = v_BlockHash v" "v_Voter (sign_vote E kp v) = key_address E kp"
  by (simp_all add: sign_vote_def Let_def)

subsection \<open>Validation of an own block\<close>

lemma check_own_block:
  assumes "sign_ok E kp" and "addr = key_address E kp" and "rnd < MaxRounds" and "select_proposer E (e_st e) height prev rnd = addr"
    and "check_evidence E (e_chainID e) evid = Inr ()" and "verify_all E applied"
    and "b = build_block E kp height prev blockTime addr rnd applied evid lastCommit root"
    and "check_last_commit E b e = Inr fin"
  shows "check_block E b prev e = Inr fin"
proof -
  have f: "h_Height (b_Header b) = height" "h_Round (b_Header b) = rnd" "h_Proposer (b_Header b) = addr" "b_Txs b = applied"
    "b_Evidence b = evid" "b_LastCommit b = lastCommit" "h_TxRoot (b_Header b) = tx_root E applied"
    "h_EvidenceRoot (b_Header b) = evidence_root E evid" "h_LastCommitRoot (b_Header b) = commit_root E lastCommit"
    "block_compute_hash E b = b_Hash b"
    by (simp_all add: assms(7) build_block_def block_compute_hash_def Let_def)
  have "verify_proposer_sig E b = Inr ()"
    using assms(1) by (simp add: assms(2,7) build_block_def Let_def verify_proposer_sig_def key_address_def sign_ok_def crypto_verify_def)
  with f assms(3-6,8) show ?thesis by (simp add: check_block_def Let_def guard_err_def)
qed

subsection \<open>Where the parts of a proposal come from\<close>

lemma run_txs_never_stops: "run_txs E p t False txs ap fl st \<noteq> Stopped h err st'"
  by (induction txs arbitrary: ap fl st) (auto split: outcome.split)

lemma run_txs_applied: "run_txs E p t strict txs ap fl st = Ran applied failed st' \<Longrightarrow> set applied \<subseteq> set ap \<union> set txs"
  by (induction txs arbitrary: ap fl st) (fastforce split: outcome.splits if_splits)+

lemma executed_parts_nonstrict:
  assumes "executed_parts (execute E txs evs absent p t False st) = Some (applied, failed, root, st')"
  shows "\<exists>fl. execute E txs evs absent p t False st = Executed applied fl root st'" and "set applied \<subseteq> set txs"
proof -
  show x: "\<exists>fl. execute E txs evs absent p t False st = Executed applied fl root st'"
    using assms run_txs_never_stops [of E p t txs "[]" "[]" "begin_block E evs absent p t st"]
    by (auto simp: executed_parts_def execute_def Let_def split: exec_result.splits run_txs_result.splits option.splits)
  then obtain fl st1 where "run_txs E p t False txs [] [] (begin_block E evs absent p t st) = Ran applied fl st1"
    by (auto simp: execute_def Let_def split: run_txs_result.splits option.splits)
  from run_txs_applied [OF this] show "set applied \<subseteq> set txs" by simp
qed

lemma purge_lookup: "fmlookup (pl_txs (snd (purge_expired now age m))) h = Some en \<Longrightarrow> fmlookup (pl_txs m) h = Some en"
  by (auto simp: purge_expired_def Let_def split: if_splits)

lemma take_from_pool: "tx \<in> set (pool_take order mx ex m) \<Longrightarrow> \<exists>h en. fmlookup (pl_txs m) h = Some en \<and> me_tx en = tx"
  by (rule set_visited [OF set_take])

definition evidence_ok :: "'z ext_scheme \<Rightarrow> string \<Rightarrow> engine \<Rightarrow> bool" where
  "evidence_ok E chain e \<longleftrightarrow> (\<forall>k ev. fmlookup (e_evidence e) k = Some ev \<longrightarrow> evidence_verify E chain ev = Inr ())"

lemma check_evidence_all: "(\<And>ev. ev \<in> set evs \<Longrightarrow> evidence_verify E chain ev = Inr ()) \<Longrightarrow> check_evidence E chain evs = Inr ()"
  by (induction evs) simp_all

lemma drained_ok:
  assumes "evidence_ok E chain e" and "drain_evidence e = (evid, e')"
  shows "check_evidence E chain evid = Inr ()"
proof (rule check_evidence_all)
  fix ev assume "ev \<in> set evid"
  then obtain k where k: "k |\<in>| fmdom (e_evidence e)" "ev = the (fmlookup (e_evidence e) k)"
    using assms(2) by (auto simp: drain_evidence_def in_key_order_def)
  then have "fmlookup (e_evidence e) k = Some ev" by (auto simp: fmlookup_dom_iff)
  with assms(1) show "evidence_verify E chain ev = Inr ()" by (simp add: evidence_ok_def)
qed

text \<open>A block without transactions fails only if the base fee cannot be adjusted.\<close>

lemma execute_empty:
  assumes "next_base_fee (st_BaseFee (pay_reward proposer (begin_block E evs absent proposer blockTime st))) 0
      (st_Params (pay_reward proposer (begin_block E evs absent proposer blockTime st))) \<noteq> None"
  obtains root st' where "execute E [] evs absent proposer blockTime strict st = Executed [] [] root st'"
  using assms by (auto simp: execute_def Let_def split: option.split)

subsection \<open>Two engines with the same view\<close>

definition same_view :: "engine \<Rightarrow> engine \<Rightarrow> bool" where
  "same_view f e \<longleftrightarrow> e_st f = e_st e \<and> e_chainID f = e_chainID e \<and> e_setByHeight f = e_setByHeight e"

lemma same_viewD:
  assumes "same_view f e"
  shows "e_st f = e_st e" "e_chainID f = e_chainID e" "set_for_height f h = set_for_height e h"
    "verify_commit E votes h hash f = verify_commit E votes h hash e"
proof -
  show st: "e_st f = e_st e" and "e_chainID f = e_chainID e" using assms by (simp_all add: same_view_def)
  show s: "set_for_height f h = set_for_height e h" for h
    using assms by (cases "fmlookup (e_setByHeight e) h") (simp_all add: same_view_def set_for_height_def)
  show "verify_commit E votes h hash f = verify_commit E votes h hash e" by (simp add: verify_commit_def s assms [unfolded same_view_def])
qed

lemma same_view_freeze: "same_view f e \<Longrightarrow> same_view (freeze_set h f) (freeze_set h e)"
  by (simp add: same_view_def freeze_set_def)

text \<open>The commit a proposer builds is the commit the others check.\<close>

lemma built_commit_checks:
  assumes "same_view f e" and "b_LastCommit b = build_last_commit E (h_Height (b_Header b) - 1) (h_PrevHash (b_Header b)) e"
  shows "check_last_commit E b f = Inr (b_LastCommit b \<noteq> [])"
  using assms(2)
  by (auto simp: check_last_commit_def build_last_commit_def Let_def same_viewD(3,4) [OF assms(1)] split: if_splits sum.splits)

lemma adopt_st: "e_st (adopt E now b fin e) =
   (if fin then set_finalized (h_Height (b_Header b) - 1) (commit_block (h_Height (b_Header b)) (b_Hash b) (e_st e))
    else commit_block (h_Height (b_Header b)) (b_Hash b) (e_st e))"
  by (simp add: adopt_def Let_def snapshot_state_def persist_def)

text \<open>A follower with the same view accepts the block and ends in the same ledger.\<close>

lemma forged_accepted:
  assumes forge: "forge_block E now kp rnd txs evid e = Returned (Some b) e'" and key: "sign_ok E kp" "e_addr e = key_address E kp"
    and rnd: "rnd < MaxRounds" "select_proposer E (e_st e) (st_Height (e_st e) + 1) (st_LastHash (e_st e)) rnd = e_addr e"
    and txs: "verify_all E txs" "\<forall>tx \<in> set txs. acct_ex (e_st e) (tx_From tx)"
    and ev: "check_evidence E (e_chainID e) evid = Inr ()"
    and view: "same_view (freeze_set (st_Height (e_st e) + 1) f) e" and top: "st_Height (e_st e) \<noteq> - 1"
  shows "\<exists>f'. apply_external_block E now' b f = Returned (Inr ()) f' \<and> e_st f' = e_st e'"
proof -
  let ?H = "st_Height (e_st e) + 1" and ?prev = "st_LastHash (e_st e)" and ?t = "word_of_int (now div 1000000)"
  let ?f = "freeze_set ?H f"
  from forge obtain applied failed root st fin e2 where
    parts: "executed_parts (execute E txs evid (absent_proposers E (e_st e) ?H ?prev rnd (e_addr e)) (e_addr e) ?t False (e_st e)) = Some (applied, failed, root, st)"
    and b: "b = build_block E kp ?H ?prev ?t (e_addr e) rnd applied evid (build_last_commit E (?H - 1) ?prev e) root"
    and fin: "fin = (build_last_commit E (?H - 1) ?prev e \<noteq> [])"
    and e2: "e2 = adopt E now b fin (drop_txs (map (tx_hash E) applied) (drop_txs failed (e\<lparr>e_st := st\<rparr>)))"
    and e': "e' = cast_vote E ?H rnd (b_Hash b) (e2\<lparr>e_sentBlocks := e_sentBlocks e2 @ [b]\<rparr>)"
    by (rule forge_cases) blast
  have hd: "h_Height (b_Header b) = ?H" "h_PrevHash (b_Header b) = ?prev" "h_Round (b_Header b) = rnd" "h_Proposer (b_Header b) = e_addr e"
    "h_Timestamp (b_Header b) = ?t" "h_StateRoot (b_Header b) = root" "b_Txs b = applied" "b_Evidence b = evid"
    "b_LastCommit b = build_last_commit E (?H - 1) ?prev e"
    by (simp_all add: b build_block_def Let_def)
  have fe: "e_st f = e_st e" using view by (simp add: same_view_def)
  obtain fl where x: "execute E txs evid (absent_proposers E (e_st e) ?H ?prev rnd (e_addr e)) (e_addr e) ?t False (e_st e) = Executed applied fl root st"
    using executed_parts_nonstrict(1) [OF parts] by blast
  have sub: "set applied \<subseteq> set txs" by (rule executed_parts_nonstrict(2) [OF parts])
  have y: "execute E applied evid (absent_proposers E (e_st e) ?H ?prev rnd (e_addr e)) (e_addr e) ?t True (e_st e) = Executed applied [] root st"
    by (rule follower_run [OF x txs(2)])
  have "check_block E b ?prev ?f = Inr fin"
  proof (rule check_own_block [OF key])
    show "rnd < MaxRounds" by (rule rnd(1))
    show "select_proposer E (e_st ?f) ?H ?prev rnd = e_addr e" using rnd(2) by (simp add: fe)
    show "check_evidence E (e_chainID ?f) evid = Inr ()" using ev view by (simp add: same_view_def)
    show "verify_all E applied" using txs(1) sub by (auto simp: verify_all_def list_all_iff)
    show "b = build_block E kp ?H ?prev ?t (e_addr e) rnd applied evid (build_last_commit E (?H - 1) ?prev e) root" by (rule b)
    show "check_last_commit E b ?f = Inr fin"
      using built_commit_checks [OF view, of b E] by (simp add: hd fin)
  qed
  then have v: "validate_block E b ?prev f = (Inr fin, ?f)" by (simp add: validate_block_def Let_def hd)
  have r: "run_block E b ?prev d ?f = Returned (Inr ()) (?f\<lparr>e_st := st\<rparr>)" for d
    by (simp add: run_block_def Let_def hd fe y)
  have gt: "\<not> ?H \<le> st_Height (e_st e)"
    using top by (metis add_diff_cancel_right' height_above order_refl add_eq_0_iff2)
  obtain f' where f': "apply_external_block E now' b f = Returned (Inr ()) f'" "e_st f' = e_st (adopt E now' b fin (?f\<lparr>e_st := st\<rparr>))"
    by (simp add: apply_external_block_def Let_def hd fe gt v r)
  have "e_st e' = e_st (adopt E now' b fin (?f\<lparr>e_st := st\<rparr>))" by (simp add: e' e2 adopt_st hd)
  with f' show ?thesis by auto
qed

end
