(* ===== verification/EngineSound.thy ===== *)
theory EngineSound
  imports Forge
begin

text \<open>
  Invariants of the engine. The locale \<open>engine_invariant\<close> lists what the handlers do to the vote pool,
  the evidence and the mempool; whatever these primitive changes keep, every step of the engine keeps.
\<close>

inductive engine_run :: "'z bft_ext_scheme \<Rightarrow> engine \<Rightarrow> engine \<Rightarrow> bool" for E e0 where
  start: "engine_run E e0 e0"
| step: "engine_run E e0 e \<Longrightarrow> engine_step E e e' \<Longrightarrow> engine_run E e0 e'"

subsection \<open>The interface\<close>

definition core :: "engine \<Rightarrow> vote_pool \<times> (string, evidence) fmap \<times> mempool \<times> string \<times> keypair option \<times> string" where
  "core e = (e_votes e, e_evidence e, e_pool e, e_chainID e, e_key e, e_addr e)"

lemma core_simps [simp]:
  "core (e\<lparr>e_st := a\<rparr>) = core e" "core (e\<lparr>e_tick := t\<rparr>) = core e" "core (e\<lparr>e_lastProgress := p\<rparr>) = core e"
  "core (e\<lparr>e_sentBlocks := f\<rparr>) = core e" "core (freeze_set h e) = core e" "core (snapshot_state E h e) = core e"
  "core (persist E bl e) = core e" "core (restore_state E x e) = core e" "core (abandon H u e) = core e"
  "core (forget_vote H e) = core e" "core (buffer_fork b e) = core e" "core (prune_voted h e) = core e" "core (prune_sets h e) = core e"
  "core (prune_snapshots_below h e) = core e" "core (prune_forks_below h e) = core e"
  by (auto simp: core_def freeze_set_def snapshot_state_def persist_def restore_state_def abandon_def forget_vote_def
      buffer_fork_def prune_voted_def prune_sets_def prune_snapshots_below_def prune_forks_below_def Let_def split: option.splits)

definition note_vote :: "vote \<Rightarrow> vote option \<Rightarrow> vote_pool \<Rightarrow> engine \<Rightarrow> engine" where
  "note_vote v conf q e = (case conf of None \<Rightarrow> e\<lparr>e_votes := q\<rparr> | Some prev \<Rightarrow> record_equivocation prev v (e\<lparr>e_votes := q\<rparr>))"

definition admissible :: "'z ext_scheme \<Rightarrow> string \<Rightarrow> vote \<Rightarrow> bool" where
  "admissible E chain v \<longleftrightarrow> vote_verify E v = Inr () \<and> (chain \<noteq> [] \<longrightarrow> v_ChainID v = chain)
     \<and> (v_Kind v = PrevoteKind \<or> v_Kind v = PrecommitKind)"

locale engine_invariant =
  fixes E :: "'z bft_ext_scheme" and I :: "engine \<Rightarrow> bool"
  assumes frame: "I e \<Longrightarrow> core e' = core e \<Longrightarrow> I e'"
    and own: "I e \<Longrightarrow> e_key e = Some kp \<Longrightarrow> k = PrevoteKind \<or> k = PrecommitKind \<Longrightarrow>
      I (e\<lparr>e_votes := snd (snd (vote_add E (sign_vote E kp (own_vote e h r k hash)) (e_votes e)))\<rparr>)"
    and prune: "I e \<Longrightarrow> I (e\<lparr>e_votes := vote_prune h (e_votes e)\<rparr>)"
    and drop: "I e \<Longrightarrow> I (e\<lparr>e_pool := pool_drop hash (e_pool e)\<rparr>)"
    and purge: "I e \<Longrightarrow> I (e\<lparr>e_pool := snd (purge_expired now age (e_pool e))\<rparr>)"
    and drain: "I e \<Longrightarrow> I (e\<lparr>e_evidence := fmempty\<rparr>)"
    and settle: "I e \<Longrightarrow> I (e\<lparr>e_evidence := fmdrop key (e_evidence e)\<rparr>)"
    and receive: "I e \<Longrightarrow> admissible E (e_chainID e) v \<Longrightarrow> vote_add E v (e_votes e) = (new, conf, q) \<Longrightarrow> I (note_vote v conf q e)"
    and submit: "I e \<Longrightarrow> pool_add E now tx (e_pool e) = Inr m \<Longrightarrow> I (e\<lparr>e_pool := m\<rparr>)"
begin

lemma keep_cast_kind:
  assumes "I e" and "k = PrevoteKind \<or> k = PrecommitKind"
  shows "I (cast_vote_kind E h r k hash e)"
proof (cases "e_key e")
  case (Some kp)
  let ?v = "sign_vote E kp (own_vote e h r k hash)"
  let ?o = "e\<lparr>e_votes := snd (snd (vote_add E ?v (e_votes e)))\<rparr>"
  have o: "I ?o" using own [OF assms(1) Some assms(2)] .
  have own: "own_vote (e\<lparr>e_voted := x\<rparr>) h r k' hash = own_vote e h r k' hash"
    "own_vote (e\<lparr>e_voted := x, e_locked := y\<rparr>) h r k' hash = own_vote e h r k' hash" for x y k'
    by (simp_all add: own_vote_def)
  have "core (cast_vote_kind E h r k hash e) = core e \<or> core (cast_vote_kind E h r k hash e) = core ?o"
    by (simp add: cast_vote_kind_def Some Let_def own core_def)
  with frame [OF assms(1)] frame [OF o] show ?thesis by blast
qed (simp add: cast_vote_kind_def assms(1))

lemma keep_cast: "I e \<Longrightarrow> I (cast_vote E h r hash e)"
  by (simp add: cast_vote_def keep_cast_kind)

lemma keep_finalize: "I e \<Longrightarrow> I (finalize_parent h e)"
  by (rule frame [OF prune [where h = "h - 1"]]) (simp_all add: finalize_parent_def core_def prune_voted_def prune_sets_def
      prune_snapshots_below_def prune_forks_below_def)

lemma keep_adopt:
  assumes "I e"
  shows "I (adopt E now b fin e)"
proof -
  let ?s = "snapshot_state E (h_Height (b_Header b)) (e\<lparr>e_st := commit_block (h_Height (b_Header b)) (b_Hash b) (e_st e)\<rparr>)"
  let ?f = "if fin then finalize_parent (h_Height (b_Header b)) ?s else ?s"
  have "I ?s" by (rule frame [OF assms]) simp
  then have "I ?f" by (simp add: keep_finalize)
  from frame [OF this] show ?thesis by (simp add: adopt_def Let_def)
qed

lemma keep_drop_txs: "I e \<Longrightarrow> I (drop_txs hs e)"
proof (induction hs arbitrary: e)
  case (Cons x hs)
  have "drop_txs (x # hs) e = drop_txs hs (e\<lparr>e_pool := pool_drop x (e_pool e)\<rparr>)" by (simp add: drop_txs_def)
  with Cons.IH [OF drop [OF Cons.prems, of x]] show ?case by simp
qed (simp add: drop_txs_def)

lemma keep_settle: "I e \<Longrightarrow> I (e\<lparr>e_evidence := fold (\<lambda>ev. fmdrop (key ev)) evs (e_evidence e)\<rparr>)"
proof (induction evs arbitrary: e)
  case (Cons ev evs)
  from Cons.IH [OF settle [OF Cons.prems, of "key ev"]] show ?case by simp
qed simp

lemma keep_validate: "validate_block E b prev e = (res, e') \<Longrightarrow> I e \<Longrightarrow> I e'"
  by (erule frame) (auto simp: validate_block_def Let_def split: if_splits)

lemma keep_run: "run_block E b prev backup e = Returned res e' \<Longrightarrow> I e \<Longrightarrow> I e'"
  by (erule frame) (auto simp: run_block_def Let_def split: exec_result.splits if_splits)

lemma keep_reorg:
  assumes r: "reorg_to E now b e = Returned res e'" and i: "I e"
  shows "I e'"
proof -
  let ?H = "h_Height (b_Header b)"
  consider "e' = e" | snap st where "\<not> ?H - 1 < st_FinalizedHeight (e_st e)" "fmlookup (e_snapshots e) (?H - 1) = Some snap" "x_load E snap = Some st"
    using r by (auto simp: reorg_to_def Let_def split: if_splits option.splits)
  then show ?thesis
  proof cases
    case 2
    have i1: "I (e\<lparr>e_st := st\<rparr>)" by (rule frame [OF i]) simp
    obtain vr e2 where v: "validate_block E b (st_LastHash st) (e\<lparr>e_st := st\<rparr>) = (vr, e2)" by (rule prod.exhaust)
    note i2 = keep_validate [OF v i1]
    let ?run = "run_block E b (st_LastHash st) (x_dump E (e_st e)) e2"
    show ?thesis
    proof (cases vr)
      case (Inl err)
      then have "e' = restore_state E (x_dump E (e_st e)) e2" using r 2 v by (simp add: reorg_to_def Let_def)
      with frame [OF i2] show ?thesis by simp
    next
      case (Inr fin)
      then obtain rr e3 where run: "?run = Returned rr e3"
        using r 2 v by (cases ?run) (simp_all add: reorg_to_def Let_def)
      note i3 = keep_run [OF run i2]
      show ?thesis
      proof (cases rr)
        case (Inl err)
        then have "e' = e3" using r 2 v Inr run by (simp add: reorg_to_def Let_def)
        with i3 show ?thesis by simp
      next
        case ok: (Inr u)
        have e': "e' = reorg_done E now b fin (st_Height (e_st e)) e3"
          using r 2 v Inr run ok by (simp add: reorg_to_def reorg_done_def Let_def)
        have "I (abandon ?H (st_Height (e_st e)) e3)" by (rule frame [OF i3]) simp
        then have d: "I (drop_txs (map (tx_hash E) (b_Txs b)) (adopt E now b fin (abandon ?H (st_Height (e_st e)) e3)))"
          by (intro keep_drop_txs keep_adopt)
        have "I (forget_vote ?H (drop_txs (map (tx_hash E) (b_Txs b)) (adopt E now b fin (abandon ?H (st_Height (e_st e)) e3))))"
          by (rule frame [OF d]) simp
        then show ?thesis by (simp add: e' reorg_done_def Let_def keep_cast)
      qed
    qed
  qed (use i in simp)
qed

lemma keep_try: "try_reorg E now h e = Returned res e' \<Longrightarrow> I e \<Longrightarrow> I e'"
  by (auto simp: try_reorg_def intro: keep_reorg split: if_splits option.splits)

lemma keep_consider:
  assumes "consider_fork E now b cur e = Returned res e'" and "I e"
  shows "I e'"
proof -
  have "I (buffer_fork b e)" by (rule frame [OF assms(2)]) simp
  with assms keep_try show ?thesis by (auto simp: consider_fork_def Let_def split: if_splits)
qed

lemma keep_apply:
  assumes r: "apply_external_block E now b e = Returned res e'" and i: "I e"
  shows "I e'"
proof -
  let ?H = "h_Height (b_Header b)" and ?cur = "st_Height (e_st e)"
  consider "consider_fork E now b ?cur e = Returned res e'" | "e' = e" | "\<not> ?H \<le> ?cur" "\<not> ?cur + 1 < ?H"
    using r by (auto simp: apply_external_block_def Let_def split: if_splits)
  then show ?thesis
  proof cases
    case 1
    then show ?thesis using i by (rule keep_consider)
  next
    case 3
    obtain vr e1 where v: "validate_block E b (st_LastHash (e_st e)) e = (vr, e1)" by (rule prod.exhaust)
    note i1 = keep_validate [OF v i]
    show ?thesis
    proof (cases vr)
      case (Inl err)
      then show ?thesis using r 3 v i1 by (simp add: apply_external_block_def Let_def)
    next
      case (Inr fin)
      let ?run = "run_block E b (st_LastHash (e_st e)) (x_dump E (e_st e1)) e1"
      obtain rr e2 where run: "?run = Returned rr e2"
        using r 3 v Inr by (cases ?run) (simp_all add: apply_external_block_def Let_def)
      note i2 = keep_run [OF run i1]
      show ?thesis
      proof (cases rr)
        case (Inl err)
        then show ?thesis using r 3 v Inr run i2 by (simp add: apply_external_block_def Let_def)
      next
        case ok: (Inr u)
        have "I (drop_txs (map (tx_hash E) (b_Txs b)) (adopt E now b fin e2))" by (intro keep_drop_txs keep_adopt i2)
        from keep_cast [OF keep_settle [OF this]] r 3 v Inr run ok show ?thesis
          by (auto simp: apply_external_block_def Let_def)
      qed
    qed
  qed (use i in simp)
qed

lemma keep_vote:
  assumes r: "add_vote E now v e = Returned res e'" and i: "I e"
  shows "I e'"
proof -
  obtain new conf q where a: "vote_add E v (e_votes e) = (new, conf, q)" by (metis prod.exhaust)
  have "e' = e \<or> (admissible E (e_chainID e) v \<and> ((\<not> new \<and> e' = e\<lparr>e_votes := q\<rparr>) \<or> (new \<and> e' = note_vote v conf q e)
      \<or> (new \<and> (\<exists>rr. try_reorg E now (v_Height v) (note_vote v conf q e) = Returned rr e'))))"
    using r by (cases new) (auto simp: add_vote_def a admissible_def note_vote_def Let_def split: if_splits sum.splits option.splits handled.splits)
  then show ?thesis
  proof (elim disjE conjE exE)
    assume n: "\<not> new" "e' = e\<lparr>e_votes := q\<rparr>" and ad: "admissible E (e_chainID e) v"
    have "conf = None" using a n(1) by (auto simp: vote_add_def Let_def split: if_splits prod.splits)
    with receive [OF i ad a] n(2) show ?thesis by (simp add: note_vote_def)
  qed (use i receive [OF i _ a] keep_try in blast)+
qed

lemma keep_forge:
  assumes "forge_block E now kp rnd txs evid e = Returned ob e'" and "I e"
  shows "I e'"
proof (rule forge_cases [OF assms(1)])
  fix applied :: "transaction list" and failed st b fin e2
  assume e2: "e2 = adopt E now b fin (drop_txs (map (tx_hash E) applied) (drop_txs failed (e\<lparr>e_st := st\<rparr>)))"
    and e': "e' = cast_vote E (st_Height (e_st e) + 1) rnd (b_Hash b) (e2\<lparr>e_sentBlocks := e_sentBlocks e2 @ [b]\<rparr>)"
  have "I (e\<lparr>e_st := st\<rparr>)" by (rule frame [OF assms(2)]) simp
  then have "I e2" unfolding e2 by (intro keep_adopt keep_drop_txs)
  then have "I (e2\<lparr>e_sentBlocks := e_sentBlocks e2 @ [b]\<rparr>)" by (rule frame) simp
  then show "I e'" unfolding e' by (rule keep_cast)
qed

lemma keep_produce:
  assumes r: "produce_once E now force e = Returned ob e'" and i: "I e"
  shows "I e'"
proof -
  let ?e1 = "freeze_set (st_Height (e_st e) + 1) e"
  have i1: "I ?e1" by (rule frame [OF i]) simp
  let ?p = "?e1\<lparr>e_pool := snd (purge_expired now tx_ttl (e_pool ?e1))\<rparr>"
  obtain evid e2 where d: "drain_evidence ?p = (evid, e2)" by (rule prod.exhaust)
  have i2: "I e2" using drain [OF purge [OF i1, of now tx_ttl]] d by (auto simp: drain_evidence_def)
  have "e' = e \<or> e' = ?e1 \<or> e' = e2 \<or> (\<exists>kp rnd txs. forge_block E now kp rnd txs evid e2 = Returned ob e')"
    using r d by (auto simp: produce_once_def propose_def Let_def split: option.splits if_splits)
  with i i1 i2 keep_forge show ?thesis by blast
qed

lemma keep_step: "engine_step E e e' \<Longrightarrow> I e \<Longrightarrow> I e'"
proof (induction rule: engine_step.induct)
  case (tick now e ob e')
  have "I (e\<lparr>e_tick := e_tick e + 1\<rparr>)" by (rule frame [OF tick.prems]) simp
  with keep_produce tick.hyps show ?case by (auto simp: on_tick_def Let_def)
qed (auto intro: keep_apply keep_vote submit)

lemma keep_engine_run: "engine_run E e0 e \<Longrightarrow> I e0 \<Longrightarrow> I e"
  by (induction rule: engine_run.induct) (auto intro: keep_step)

end

subsection \<open>The invariants\<close>

text \<open>The mempool holds valid transactions under their own hashes.\<close>

interpretation pooled: engine_invariant E "\<lambda>e. pool_wf E (e_pool e)" for E :: "'z bft_ext_scheme"
proof unfold_locales
  fix e :: engine and v new conf q
  assume "pool_wf E (e_pool e)"
  then show "pool_wf E (e_pool (note_vote v conf q e))"
    by (simp add: note_vote_def record_equivocation_def Let_def split: option.split)
qed (simp_all add: core_def pool_wf_add)

text \<open>The identity of the node does not change.\<close>

interpretation named: engine_invariant E "\<lambda>e. e_chainID e = chain \<and> e_key e = key \<and> e_addr e = addr" for E :: "'z bft_ext_scheme" and chain key addr
proof unfold_locales
  fix e :: engine and v new conf q
  assume "e_chainID e = chain \<and> e_key e = key \<and> e_addr e = addr"
  then show "e_chainID (note_vote v conf q e) = chain \<and> e_key (note_vote v conf q e) = key \<and> e_addr (note_vote v conf q e) = addr"
    by (simp add: note_vote_def record_equivocation_def Let_def split: option.split)
qed (simp_all add: core_def)

text \<open>The vote pool holds verified votes of this chain, and the evidence made of them verifies.\<close>

definition votes_checked :: "'z bft_ext_scheme \<Rightarrow> engine \<Rightarrow> bool" where
  "votes_checked E e \<longleftrightarrow> e_chainID e \<noteq> [] \<and> (\<forall>kp. e_key e = Some kp \<longrightarrow> sign_ok E kp)
     \<and> votes_ok (admissible E (e_chainID e)) (e_votes e) \<and> evidence_ok E (e_chainID e) e"

lemma own_admissible:
  assumes "sign_ok E kp" and "k = PrevoteKind \<or> k = PrecommitKind"
  shows "admissible E (e_chainID e) (sign_vote E kp (own_vote e h r k hash))"
  using assms by (auto simp: admissible_def sign_vote_verify own_vote_def)

lemma conflict_verifies:
  assumes "votes_ok (admissible E chain) q" and "admissible E chain v" and "chain \<noteq> []" and "vote_add E v q = (new, Some prev, q')"
  shows "evidence_verify E chain \<lparr>ev_Height = v_Height v, ev_Voter = v_Voter v, ev_VoteA = Some prev, ev_VoteB = Some v\<rparr> = Inr ()"
  using vote_add_conflict [OF assms(1,4)] assms(2,3)
  by (auto simp: evidence_verify_def check_evidence_vote_def admissible_def rk_key_inj)

lemma note_vote_fields [simp]:
  "e_chainID (note_vote v conf q e) = e_chainID e" "e_key (note_vote v conf q e) = e_key e" "e_votes (note_vote v conf q e) = q"
  by (simp_all add: note_vote_def record_equivocation_def Let_def split: option.split)

interpretation checked: engine_invariant E "votes_checked E" for E :: "'z bft_ext_scheme"
proof unfold_locales
  fix e :: engine and v new conf q
  assume i: "votes_checked E e" and a: "admissible E (e_chainID e) v" and add: "vote_add E v (e_votes e) = (new, conf, q)"
  have "votes_ok (admissible E (e_chainID e)) q"
    using vote_add_ok [of "admissible E (e_chainID e)" "e_votes e" v E] i a add by (simp add: votes_checked_def)
  moreover have "evidence_ok E (e_chainID e) (note_vote v conf q e)"
  proof (cases conf)
    case None
    with i show ?thesis by (simp add: note_vote_def votes_checked_def evidence_ok_def)
  next
    case (Some prev)
    have "evidence_verify E (e_chainID e) \<lparr>ev_Height = v_Height v, ev_Voter = v_Voter v, ev_VoteA = Some prev, ev_VoteB = Some v\<rparr> = Inr ()"
      by (rule conflict_verifies [OF _ a]) (use i add Some in \<open>simp_all add: votes_checked_def\<close>)
    with i Some show ?thesis
      by (auto simp: note_vote_def record_equivocation_def votes_checked_def evidence_ok_def Let_def)
  qed
  ultimately show "votes_checked E (note_vote v conf q e)" using i by (simp add: votes_checked_def)
next
  fix e :: engine and kp k h r hash
  assume i: "votes_checked E e" and kp: "e_key e = Some kp" and k: "k = PrevoteKind \<or> k = PrecommitKind"
  then have "admissible E (e_chainID e) (sign_vote E kp (own_vote e h r k hash))"
    by (intro own_admissible) (simp_all add: votes_checked_def)
  with i show "votes_checked E (e\<lparr>e_votes := snd (snd (vote_add E (sign_vote E kp (own_vote e h r k hash)) (e_votes e)))\<rparr>)"
    by (simp add: votes_checked_def vote_add_ok evidence_ok_def)
qed (auto simp: votes_checked_def core_def evidence_ok_def vote_prune_ok split: if_splits)

lemma votes_checked_new:
  assumes "chain \<noteq> []" and "\<And>kp. key = Some kp \<Longrightarrow> sign_ok E kp"
  shows "votes_checked E (set_chain_id chain (new_engine E st pool db key interval maxTxs now))"
  using assms by (simp add: votes_checked_def set_chain_id_def new_engine_def evidence_ok_def)

end
