(* ===== verification/Quorum.thy ===== *)
theory Quorum
  imports Engine Stakes
begin

text \<open>
  The arithmetic of quorums over a frozen validator set: what \<^verbatim>\<open>verifyCommit\<close> and \<^verbatim>\<open>hasPolka\<close> have
  added up, when the 64-bit sums are exact, and the validators two quorums must share.
\<close>

subsection \<open>Sets whose total is exact\<close>

definition set_weight :: "validator_set \<Rightarrow> string set \<Rightarrow> nat" where
  "set_weight vs A = (\<Sum>a\<in>A. unat (mget (vs_Powers vs) a))"

text \<open>The stored total is the sum of the powers, and three times it fits in 64 bits.\<close>

definition set_sound :: "validator_set \<Rightarrow> bool" where
  "set_sound vs \<longleftrightarrow> unat (vs_Total vs) = set_weight vs (fset (fmdom (vs_Powers vs))) \<and> 3 * unat (vs_Total vs) < 2 ^ 64"

lemma set_weight_le:
  assumes "finite A"
  shows "set_weight vs A \<le> set_weight vs (fset (fmdom (vs_Powers vs)))"
proof -
  have z: "mget (vs_Powers vs) a = 0" if "a \<notin> fset (fmdom (vs_Powers vs))" for a
    using that by (simp add: mget_def fmdom_notD)
  have "set_weight vs A = set_weight vs (A \<inter> fset (fmdom (vs_Powers vs)))"
    unfolding set_weight_def by (rule sum.mono_neutral_right) (use assms z in auto)
  also have "\<dots> \<le> set_weight vs (fset (fmdom (vs_Powers vs)))"
    unfolding set_weight_def by (rule sum_mono2) auto
  finally show ?thesis .
qed

lemma quorum_exact:
  assumes "set_sound vs" and "finite A" and "unat pw = set_weight vs A"
  shows "has_quorum pw (vs_Total vs) \<longleftrightarrow> 0 < vs_Total vs \<and> 2 * unat (vs_Total vs) < 3 * set_weight vs A"
proof -
  have t: "3 * unat (vs_Total vs) < 2 ^ 64" and "unat pw \<le> unat (vs_Total vs)"
    using assms set_weight_le [OF assms(2), of vs] by (simp_all add: set_sound_def)
  then have "unat (pw * 3) = 3 * unat pw" and "unat (vs_Total vs * 2) = 2 * unat (vs_Total vs)"
    by (simp_all add: unat_word_ariths)
  then show ?thesis by (simp add: has_quorum_def word_less_nat_alt assms(3))
qed

text \<open>Two quorums share more than a third of the power.\<close>

lemma quorum_overlap:
  assumes "set_sound vs" and "finite A" and "finite B"
    and "2 * unat (vs_Total vs) < 3 * set_weight vs A" and "2 * unat (vs_Total vs) < 3 * set_weight vs B"
  shows "unat (vs_Total vs) < 3 * set_weight vs (A \<inter> B)"
proof -
  have "set_weight vs (A \<union> B) + set_weight vs (A \<inter> B) = set_weight vs A + set_weight vs B"
    unfolding set_weight_def by (rule sum.union_inter) (use assms in auto)
  moreover have "set_weight vs (A \<union> B) \<le> unat (vs_Total vs)"
    using set_weight_le [of "A \<union> B" vs] assms(1-3) by (simp add: set_sound_def)
  ultimately show ?thesis using assms(4,5) by linarith
qed

subsection \<open>What a commit adds up\<close>

definition precommit_ok :: "'z ext_scheme \<Rightarrow> string \<Rightarrow> validator_set \<Rightarrow> u64 \<Rightarrow> string \<Rightarrow> vote \<Rightarrow> bool" where
  "precommit_ok E chain vs height hash v \<longleftrightarrow>
     v_Kind v = PrecommitKind \<and> v_Height v = height \<and> v_BlockHash v = hash \<and> (chain = [] \<or> v_ChainID v = chain)
     \<and> vote_verify E v = Inr () \<and> mget (vs_Powers vs) (v_Voter v) \<noteq> 0"

lemma commit_power_ok:
  assumes "commit_power E chain vs height hash seen pw votes = Inr p"
  shows "distinct (map v_Voter votes)" "v_Voter ` set votes \<inter> set seen = {}"
    "\<forall>v \<in> set votes. precommit_ok E chain vs height hash v"
    "p = pw + (\<Sum>v\<leftarrow>votes. mget (vs_Powers vs) (v_Voter v))"
proof -
  have "distinct (map v_Voter votes) \<and> v_Voter ` set votes \<inter> set seen = {} \<and> (\<forall>v \<in> set votes. precommit_ok E chain vs height hash v)
    \<and> p = pw + (\<Sum>v\<leftarrow>votes. mget (vs_Powers vs) (v_Voter v))"
    using assms
  proof (induction votes arbitrary: seen pw)
    case (Cons v votes)
    let ?w = "mget (vs_Powers vs) (v_Voter v)"
    from Cons.prems have h: "precommit_ok E chain vs height hash v" "v_Voter v \<notin> set seen"
      and r: "commit_power E chain vs height hash (v_Voter v # seen) (pw + ?w) votes = Inr p"
      by (auto simp: precommit_ok_def set_power_of_def split: if_splits sum.splits)
    from Cons.IH [OF r] h show ?case by (auto simp: add.assoc)
  qed simp
  then show "distinct (map v_Voter votes)" "v_Voter ` set votes \<inter> set seen = {}"
    "\<forall>v \<in> set votes. precommit_ok E chain vs height hash v"
    "p = pw + (\<Sum>v\<leftarrow>votes. mget (vs_Powers vs) (v_Voter v))" by blast+
qed

lemma unat_sum_list:
  assumes "(\<Sum>x\<leftarrow>xs. unat (f x)) < 2 ^ 64"
  shows "unat (\<Sum>x\<leftarrow>xs. f x :: u64) = (\<Sum>x\<leftarrow>xs. unat (f x))"
  using assms by (induction xs) (simp_all add: unat_word_ariths)

lemma weight_of_list:
  "distinct xs \<Longrightarrow> (\<Sum>a\<leftarrow>xs. unat (mget (vs_Powers vs) a)) = set_weight vs (set xs)"
  by (simp add: set_weight_def sum_list_distinct_conv_sum_set)

lemma commit_weight:
  assumes "commit_power E chain vs height hash [] 0 votes = Inr p" and "set_sound vs"
  shows "unat p = set_weight vs (v_Voter ` set votes)"
proof -
  have w: "(\<Sum>v\<leftarrow>votes. unat (mget (vs_Powers vs) (v_Voter v))) = set_weight vs (v_Voter ` set votes)"
    using weight_of_list [OF commit_power_ok(1) [OF assms(1)], of vs] by (simp add: comp_def)
  also have "\<dots> < 2 ^ 64"
    using set_weight_le [of "v_Voter ` set votes" vs] assms(2) by (simp add: set_sound_def)
  finally show ?thesis
    using unat_sum_list [of "\<lambda>v. mget (vs_Powers vs) (v_Voter v)" votes] w commit_power_ok(4) [OF assms(1)] by simp
qed

subsection \<open>The frozen set of a state\<close>

definition add_power :: "string \<times> u64 \<Rightarrow> validator_set \<Rightarrow> validator_set" where
  "add_power x vs = vs\<lparr>vs_Powers := fmupd (fst x) (snd x) (vs_Powers vs), vs_Total := vs_Total vs + snd x\<rparr>"

lemma snapshot_add_power: "snapshot_active_set st = fold add_power (active_vals st) \<lparr>vs_Powers = fmempty, vs_Total = 0\<rparr>"
proof -
  have "(\<lambda>(a, w) vs. vs\<lparr>vs_Powers := fmupd a w (vs_Powers vs), vs_Total := vs_Total vs + w\<rparr>) = add_power"
    by (simp add: fun_eq_iff add_power_def)
  then show ?thesis by (simp only: snapshot_active_set_def)
qed

lemma fold_add_total: "vs_Total (fold add_power xs vs) = vs_Total vs + (\<Sum>x\<leftarrow>xs. snd x)"
  by (induction xs arbitrary: vs) (simp_all add: add_power_def)

lemma fold_add_other: "k \<notin> fst ` set xs \<Longrightarrow> fmlookup (vs_Powers (fold add_power xs vs)) k = fmlookup (vs_Powers vs) k"
  by (induction xs arbitrary: vs) (auto simp: add_power_def)

lemma fold_add_power: "distinct (map fst xs) \<Longrightarrow> x \<in> set xs \<Longrightarrow> fmlookup (vs_Powers (fold add_power xs vs)) (fst x) = Some (snd x)"
  by (induction xs arbitrary: vs) (auto simp: add_power_def fold_add_other)

definition active_total :: "state \<Rightarrow> nat" where
  "active_total st = (\<Sum>(a, w)\<leftarrow>active_vals st. unat w)"

lemma active_vals_keys:
  assumes "validators_ok st"
  shows "distinct (map fst (active_vals st))"
proof -
  let ?f = "\<lambda>k. let v = the (fmlookup (st_Validators st) k) in (va_Address v, active_weight v)"
  have "fst (?f k) = k" if "k \<in> set (sorted_keys (st_Validators st))" for k
  proof -
    from that obtain v where "fmlookup (st_Validators st) k = Some v" by auto
    with validators_okD [OF assms this] show ?thesis by (simp add: Let_def validator_ok_def)
  qed
  then have "map fst (map ?f (sorted_keys (st_Validators st))) = sorted_keys (st_Validators st)"
    by (simp only: map_map comp_def) (rule map_idI, simp)
  then have "distinct (map fst (map ?f (sorted_keys (st_Validators st))))" by (simp only: distinct_sorted_keys)
  then show ?thesis unfolding active_vals_def by (rule distinct_map_filter)
qed

lemma snapshot_sound:
  assumes "validators_ok st" and "3 * active_total st < 2 ^ 64"
  shows "set_sound (snapshot_active_set st) \<and> unat (vs_Total (snapshot_active_set st)) = active_total st"
proof -
  let ?xs = "active_vals st" and ?vs = "snapshot_active_set st"
  note d = active_vals_keys [OF assms(1)]
  have look: "fmlookup (vs_Powers ?vs) (fst x) = Some (snd x)" if "x \<in> set ?xs" for x
    unfolding snapshot_add_power by (rule fold_add_power [OF d that])
  have none: "fmlookup (vs_Powers ?vs) k = None" if "k \<notin> fst ` set ?xs" for k
    using that by (simp add: snapshot_add_power fold_add_other)
  have "(\<Sum>x\<leftarrow>?xs. unat (snd x)) = active_total st" by (simp add: active_total_def split_def)
  moreover have "vs_Total ?vs = (\<Sum>x\<leftarrow>?xs. snd x)" by (simp add: snapshot_add_power fold_add_total)
  ultimately have t: "unat (vs_Total ?vs) = active_total st"
    using unat_sum_list [of snd ?xs] assms(2) by simp
  have "k \<in> fset (fmdom (vs_Powers ?vs)) \<longleftrightarrow> k \<in> fst ` set ?xs" for k
  proof
    show "k \<in> fset (fmdom (vs_Powers ?vs))" if "k \<in> fst ` set ?xs" using that look by (auto intro: fmdomI)
    show "k \<in> fst ` set ?xs" if "k \<in> fset (fmdom (vs_Powers ?vs))" using that none [of k] by (cases "k \<in> fst ` set ?xs") (auto dest: fmdom_notI)
  qed
  then have dom: "fset (fmdom (vs_Powers ?vs)) = fst ` set ?xs" by blast
  have "set_weight ?vs (set (map fst ?xs)) = (\<Sum>a\<leftarrow>map fst ?xs. unat (mget (vs_Powers ?vs) a))"
    by (rule weight_of_list [OF d, symmetric])
  also have "\<dots> = (\<Sum>x\<leftarrow>?xs. unat (snd x))"
  proof -
    have "mget (vs_Powers ?vs) (fst x) = snd x" if "x \<in> set ?xs" for x
      using look [OF that] by (simp add: mget_def)
    then show ?thesis by (simp add: comp_def cong: map_cong)
  qed
  finally show ?thesis using t dom assms(2) by (simp add: set_sound_def active_total_def split_def)
qed

end
