(* ===== verification/VoteProps.thy ===== *)
theory VoteProps
  imports Quorum Forge ChainProps
begin

text \<open>
  What the votes of the engine guarantee: quorums that overlap, own votes that cannot be used against
  the node, the lock rule, and where reorganisations break these guarantees.
\<close>

subsection \<open>A concrete node\<close>

definition node_ext :: bft_ext where
  "node_ext = chain_ext.extend (sample_ext\<lparr>x_header_json := (\<lambda>h. be64 (h_Height h) @ be32 (h_Round h)),
      x_vote_json := (\<lambda>v. str_bytes (v_Kind v) @ str_bytes (v_BlockHash v))\<rparr>)
    \<lparr>x_sign = (\<lambda>_ _. []), x_dump = (\<lambda>_. []), x_load = (\<lambda>_. None), x_visit = sorted_keys\<rparr>"

definition node_key :: keypair where "node_key = \<lparr>kp_Pub = [], kp_Priv = []\<rparr>"

definition node_addr :: string where "node_addr = key_address node_ext node_key"

definition node_state :: state where
  "node_state = sample_state\<lparr>st_Validators := fmap_of_list [(node_addr, (fresh_validator node_addr)\<lparr>va_Stake := 10000 * Unit\<rparr>)]\<rparr>"

definition node_start :: engine where
  "node_start = set_chain_id ''c'' (new_engine node_ext node_state (new_mempool 100) None (Some node_key) 500000000 10 0)"

lemma drop_empty [simp]: "drop_upto h fmempty = fmempty" "drop_below h fmempty = fmempty"
  by (simp_all add: drop_upto_def drop_below_def)

text \<open>The first tick that forces a block: the node is elected in round 2 and votes for its own block.\<close>

definition node_ready :: engine where
  "node_ready = node_start\<lparr>e_tick := 19\<rparr>"

lemma node_produces:
  obtains b e where "produce_once node_ext 1000000000 True (node_start\<lparr>e_tick := t\<rparr>) = Returned (Some b) e"
    "st_Height (e_st e) = 1" "\<exists>v w. e_sentVotes e = [v, w] \<and> v_Height v = 1 \<and> v_Round v = 2 \<and> v_Kind v = PrevoteKind"
proof -
  let ?e0 = "node_start\<lparr>e_tick := t\<rparr>"
  let ?e1 = "freeze_set 1 ?e0"
  have f: "e_key node_start = Some node_key" "e_st node_start = node_state" "e_addr node_start = node_addr"
    "st_Height node_state = 0" "st_LastHash node_state = ''''" "e_pool node_start = new_mempool 100" "e_evidence node_start = fmempty"
    "e_voted node_start = fmempty" "e_locked node_start = fmempty" "e_sentVotes node_start = []"
    by (simp_all add: node_start_def set_chain_id_def new_engine_def node_addr_def node_state_def sample_state_def new_state_def)
  have "current_round 1000000000 ?e1 = current_round 1000000000 node_start"
    by (simp add: current_round_def freeze_set_def)
  also have "\<dots> = Some 2" by code_simp
  finally have r: "current_round 1000000000 ?e1 = Some 2" .
  have p: "select_proposer node_ext node_state 1 '''' 2 = node_addr" by code_simp
  have m: "snd (purge_expired 1000000000 tx_ttl (new_mempool 100)) = new_mempool 100"
    by (simp add: purge_expired_def new_mempool_def Let_def)
  define e2 where "e2 = snd (drain_evidence (?e1\<lparr>e_pool := new_mempool 100\<rparr>))"
  have d: "drain_evidence (?e1\<lparr>e_pool := new_mempool 100\<rparr>) = ([], e2)"
    by (simp add: e2_def drain_evidence_def freeze_set_def f in_key_order_def sorted_keys_def sorted_list_of_fset_def)
  have e2: "e_st e2 = node_state" "e_addr e2 = node_addr" "e_voted e2 = fmempty" "e_locked e2 = fmempty" "e_sentVotes e2 = []" "e_key e2 = Some node_key"
    by (simp_all add: e2_def drain_evidence_def freeze_set_def f)
  have t: "pool_take order mx ex (new_mempool 100) = []" for order mx ex
    by (simp add: pool_take_def visited_def new_mempool_def chains_of_def rank_chains_def List.map_filter_def)
  have a: "absent_proposers node_ext node_state 1 '''' 2 node_addr = []" by code_simp
  have "next_base_fee (st_BaseFee (pay_reward node_addr (begin_block node_ext [] [] node_addr 1000 node_state))) 0
      (st_Params (pay_reward node_addr (begin_block node_ext [] [] node_addr 1000 node_state))) \<noteq> None" by code_simp
  then obtain root st where ex: "execute node_ext [] [] [] node_addr 1000 False node_state = Executed [] [] root st"
    by (rule execute_empty)
  define applied :: "transaction list" where "applied = []"
  define failed :: "string list" where "failed = []"
  have x: "executed_parts (execute node_ext [] [] [] node_addr 1000 False node_state) = Some (applied, failed, root, st)"
    by (simp add: ex executed_parts_def applied_def failed_def)
  define b where "b = build_block node_ext node_key 1 '''' 1000 node_addr 2 applied [] (build_last_commit node_ext 0 '''' e2) root"
  define e3 where "e3 = adopt node_ext 1000000000 b (build_last_commit node_ext 0 '''' e2 \<noteq> [])
      (drop_txs (map (tx_hash node_ext) applied) (drop_txs failed (e2\<lparr>e_st := st\<rparr>)))"
  define e4 where "e4 = cast_vote node_ext 1 2 (b_Hash b) (e3\<lparr>e_sentBlocks := e_sentBlocks e3 @ [b]\<rparr>)"
  have "forge_block node_ext 1000000000 node_key 2 [] [] e2 = Returned (Some b) e4"
    by (simp add: forge_block_def Let_def e2 f a x b_def e3_def e4_def)
  moreover have "e_addr ?e1 = node_addr" "e_pool ?e1 = new_mempool 100" by (simp_all add: freeze_set_def f)
  ultimately have tick: "produce_once node_ext 1000000000 True ?e0 = Returned (Some b) e4"
    by (simp add: produce_once_def propose_def Let_def f r p m d t)
  have hb: "h_Height (b_Header b) = 1" by (simp add: b_def build_block_def Let_def)
  have h: "st_Height (e_st e4) = 1" by (simp add: e4_def e3_def hb)
  show thesis
  proof (rule that [OF tick h])
    let ?e = "e3\<lparr>e_sentBlocks := e_sentBlocks e3 @ [b]\<rparr>"
    have k: "e_key ?e = Some node_key" by (simp add: e3_def drop_txs_def e2)
    have v: "voted_at ?e 1 = fmempty" "fmlookup (e_locked ?e) 1 = None" "e_sentVotes ?e = []"
      using hb by (simp_all add: e3_def adopt_ballots drop_txs_def e2 voted_at_def)
        (simp_all add: adopt_ballots(2) [unfolded voted_at_def] e2)
    from cast_vote_fresh(1) [OF k v(1,2), of 2 "b_Hash b" node_ext] v(3)
    show "\<exists>v w. e_sentVotes e4 = [v, w] \<and> v_Height v = 1 \<and> v_Round v = 2 \<and> v_Kind v = PrevoteKind"
      by (auto simp: e4_def)
  qed
qed

lemma node_run:
  obtains b e where "on_tick node_ext 1000000000 node_ready = Returned (Some b) e"
    "st_Height (e_st e) = 1" "\<exists>v w. e_sentVotes e = [v, w] \<and> v_Height v = 1 \<and> v_Round v = 2 \<and> v_Kind v = PrevoteKind"
proof -
  obtain b e where e: "produce_once node_ext 1000000000 True (node_start\<lparr>e_tick := 20\<rparr>) = Returned (Some b) e"
    "st_Height (e_st e) = 1" "\<exists>v w. e_sentVotes e = [v, w] \<and> v_Height v = 1 \<and> v_Round v = 2 \<and> v_Kind v = PrevoteKind"
    by (rule node_produces)
  have "e_heartbeat node_start = 20" by (simp add: node_start_def set_chain_id_def new_engine_def)
  with e(1) have "on_tick node_ext 1000000000 node_ready = Returned (Some b) e" by (simp add: on_tick_def node_ready_def Let_def)
  from that [OF this e(2,3)] show thesis .
qed

subsection \<open>Own votes\<close>

text \<open>
  C10. A node that only moves forward never incriminates itself. In every run from a fresh engine
  in which its height never decreases, whatever blocks, votes and transactions it is sent and
  however often the tip is replaced, no two votes it has signed make valid double-sign evidence.
\<close>

theorem never_incriminates_itself:
  assumes "forward_run E e0 e" and "fresh_engine e0"
    and "v \<in> set (e_sentVotes e)" and "w \<in> set (e_sentVotes e)"
  shows "evidence_verify E chain \<lparr>ev_Height = h, ev_Voter = a, ev_VoteA = Some v, ev_VoteB = Some w\<rparr> \<noteq> Inr ()"
proof
  assume "evidence_verify E chain \<lparr>ev_Height = h, ev_Voter = a, ev_VoteA = Some v, ev_VoteB = Some w\<rparr> = Inr ()"
  then have d: "v_BlockHash v \<noteq> v_BlockHash w" "v_Round v = v_Round w" "v_Kind v = v_Kind w" "v_Height v = v_Height w"
    by (auto simp: evidence_verify_def check_evidence_vote_def rbind_eq_Inr split: if_splits)
  have "sent_ok e" using forward_run_sent_ok [OF assms(1) sent_ok_fresh [OF assms(2)]] .
  from sent_okD(4) [OF this assms(3,4) d(4,2,3)] d(1) show False by simp
qed

theorem never_incriminates_itself_witness:
  "\<exists>e v w. forward_run node_ext node_ready e \<and> e_sentVotes e = [v, w]
     \<and> evidence_verify node_ext ''c'' \<lparr>ev_Height = 1, ev_Voter = node_addr, ev_VoteA = Some v, ev_VoteB = Some w\<rparr> \<noteq> Inr ()"
proof -
  obtain b e v w where t: "on_tick node_ext 1000000000 node_ready = Returned (Some b) e" and h: "st_Height (e_st e) = 1"
    and s: "e_sentVotes e = [v, w]" using node_run by metis
  have "st_Height (e_st node_ready) \<le> st_Height (e_st e)" by (simp add: h node_ready_def node_start_def set_chain_id_def
        new_engine_def node_state_def sample_state_def new_state_def)
  with forward_run.step [OF forward_run.start engine_step.tick [OF t]] have r: "forward_run node_ext node_ready e" .
  have "fresh_engine node_ready" by (simp add: fresh_engine_def node_ready_def node_start_def set_chain_id_def new_engine_def)
  from never_incriminates_itself [OF r this, where v = v and w = w] r s show ?thesis by auto
qed

subsection \<open>Two commits at one height\<close>

lemma node_set: "snapshot_active_set node_state = \<lparr>vs_Powers = fmap_of_list [(node_addr, 10000 * Unit)], vs_Total = 10000 * Unit\<rparr>"
proof -
  have "sorted_keys (st_Validators node_state) = [node_addr]"
    by (simp add: node_state_def sorted_keys_def sorted_list_of_fset.rep_eq)
  then have "active_vals node_state = [(node_addr, 10000 * Unit)]"
    by (simp add: active_vals_def Let_def node_state_def fresh_validator_def active_weight_def Unit_def)
  then show ?thesis by (simp add: snapshot_add_power add_power_def)
qed

lemma node_set_sound: "set_sound (snapshot_active_set node_state)"
  by (simp add: set_sound_def set_weight_def node_set mget_def) (simp add: Unit_def)

lemma node_vote_verify: "vote_verify node_ext (sign_vote node_ext node_key v) = Inr ()"
  by (simp add: vote_verify_def sign_vote_def Let_def key_address_def crypto_verify_def node_ext_def sample_ext_def chain_ext.extend_def)

lemma node_quorum: "has_quorum (10000 * Unit) (10000 * Unit)"
  by (simp add: has_quorum_def Unit_def)

lemma evidence_of_precommits:
  assumes "precommit_ok E chain vs height hx v" "precommit_ok E chain vs height hy w" "v_Voter v = v_Voter w"
    "chain \<noteq> []" "hx \<noteq> hy" "v_Round v = v_Round w"
  shows "evidence_verify E chain \<lparr>ev_Height = height, ev_Voter = v_Voter v, ev_VoteA = Some v, ev_VoteB = Some w\<rparr> = Inr ()"
  using assms by (simp add: evidence_verify_def check_evidence_vote_def precommit_ok_def)


definition commit_of :: "string \<Rightarrow> vote" where
  "commit_of hash = sign_vote node_ext node_key (own_vote node_start 1 0 PrecommitKind hash)"


text \<open>
  The frozen set of a state is exact: in every state of a chain, as long as three times the
  active stake fits in 64 bits, the total stored with the set is the sum of the powers in it.
\<close>

theorem frozen_set_exact:
  assumes "reachable E st" and "3 * active_total st < 2 ^ 64"
  shows "set_sound (snapshot_active_set st) \<and> unat (vs_Total (snapshot_active_set st)) = active_total st"
  using snapshot_sound [OF stakes.reachable_I [OF assms(1)] assms(2)] .

theorem frozen_set_exact_witness:
  "reachable sample_ext sample_start \<and> set_sound (snapshot_active_set sample_start)"
proof -
  have "active_vals sample_start = [(''val1'', 10000 * Unit)]" by code_simp
  then have "3 * active_total sample_start < 2 ^ 64" by (simp add: active_total_def Unit_def)
  from frozen_set_exact [OF sample_start_reachable this] sample_start_reachable show ?thesis by blast
qed

subsection \<open>The lock\<close>

definition prevote_ok :: "'z ext_scheme \<Rightarrow> validator_set \<Rightarrow> u64 \<Rightarrow> u32 \<Rightarrow> string \<Rightarrow> vote \<Rightarrow> bool" where
  "prevote_ok E vs height rnd hash v \<longleftrightarrow>
     v_Kind v = PrevoteKind \<and> v_Height v = height \<and> v_Round v = rnd \<and> v_BlockHash v = hash
     \<and> vote_verify E v = Inr () \<and> mget (vs_Powers vs) (v_Voter v) \<noteq> 0"

lemma polka_power_ok:
  "\<exists>xs. set xs \<subseteq> set votes \<and> distinct (map v_Voter xs) \<and> v_Voter ` set xs \<inter> set seen = {}
     \<and> (\<forall>v \<in> set xs. prevote_ok E vs height rnd hash v)
     \<and> polka_power E vs height rnd hash seen pw votes = pw + (\<Sum>v\<leftarrow>xs. mget (vs_Powers vs) (v_Voter v))"
proof (induction votes arbitrary: seen pw)
  case Nil
  then show ?case by (intro exI [of _ "[]"]) simp
next
  case (Cons v votes)
  let ?w = "mget (vs_Powers vs) (v_Voter v)"
  show ?case
  proof (cases "prevote_ok E vs height rnd hash v \<and> v_Voter v \<notin> set seen")
    case True
    then have r: "polka_power E vs height rnd hash seen pw (v # votes) = polka_power E vs height rnd hash (v_Voter v # seen) (pw + ?w) votes"
      by (simp add: prevote_ok_def set_power_of_def)
    obtain xs where xs: "set xs \<subseteq> set votes" "distinct (map v_Voter xs)" "v_Voter ` set xs \<inter> set (v_Voter v # seen) = {}"
      "\<forall>v \<in> set xs. prevote_ok E vs height rnd hash v"
      "polka_power E vs height rnd hash (v_Voter v # seen) (pw + ?w) votes = pw + ?w + (\<Sum>v\<leftarrow>xs. mget (vs_Powers vs) (v_Voter v))"
      using Cons.IH [of "v_Voter v # seen" "pw + ?w"] by blast
    show ?thesis by (rule exI [of _ "v # xs"]) (use True xs r in \<open>auto simp: add.assoc\<close>)
  next
    case False
    then have r: "polka_power E vs height rnd hash seen pw (v # votes) = polka_power E vs height rnd hash seen pw votes"
      by (auto simp: prevote_ok_def set_power_of_def)
    obtain xs where xs: "set xs \<subseteq> set votes" "distinct (map v_Voter xs)" "v_Voter ` set xs \<inter> set seen = {}"
      "\<forall>v \<in> set xs. prevote_ok E vs height rnd hash v"
      "polka_power E vs height rnd hash seen pw votes = pw + (\<Sum>v\<leftarrow>xs. mget (vs_Powers vs) (v_Voter v))"
      using Cons.IH [of seen pw] by blast
    show ?thesis unfolding r by (rule exI [of _ xs]) (use xs in auto)
  qed
qed

lemma polka_weight:
  assumes "has_polka E height rnd hash e" and "set_sound (set_for_height e height)"
  shows "\<exists>A. finite A \<and> 2 * unat (vs_Total (set_for_height e height)) < 3 * set_weight (set_for_height e height) A
    \<and> (\<forall>a \<in> A. \<exists>v. v_Voter v = a \<and> prevote_ok E (set_for_height e height) height rnd hash v)"
proof -
  let ?vs = "set_for_height e height"
  obtain xs where xs: "distinct (map v_Voter xs)" "\<forall>v \<in> set xs. prevote_ok E ?vs height rnd hash v"
    and q: "has_quorum (\<Sum>v\<leftarrow>xs. mget (vs_Powers ?vs) (v_Voter v)) (vs_Total ?vs)"
    using assms(1) polka_power_ok [of "prevoters (e_votes e) height rnd hash" "[]" E ?vs height rnd hash 0]
    by (auto simp: has_polka_def Let_def)
  have w: "(\<Sum>v\<leftarrow>xs. unat (mget (vs_Powers ?vs) (v_Voter v))) = set_weight ?vs (v_Voter ` set xs)"
    using weight_of_list [OF xs(1), of ?vs] by (simp add: comp_def)
  also have "\<dots> < 2 ^ 64" using set_weight_le [of "v_Voter ` set xs" ?vs] assms(2) by (simp add: set_sound_def)
  finally have "unat (\<Sum>v\<leftarrow>xs. mget (vs_Powers ?vs) (v_Voter v)) = set_weight ?vs (v_Voter ` set xs)"
    using unat_sum_list [of "\<lambda>v. mget (vs_Powers ?vs) (v_Voter v)" xs] w by simp
  from quorum_exact [OF assms(2) _ this] q
  have "2 * unat (vs_Total ?vs) < 3 * set_weight ?vs (v_Voter ` set xs)" by simp
  then show ?thesis using xs(2) by (intro exI [of _ "v_Voter ` set xs"]) auto
qed


definition locked_node :: engine where
  "locked_node = node_start\<lparr>e_locked := fmap_of_list [(1, \<lparr>lk_round = 0, lk_hash = ''x''\<rparr>)],
     e_votes := snd (snd (vote_add node_ext (sign_vote node_ext node_key (own_vote node_start 1 3 PrevoteKind ''y'')) new_vote_pool))\<rparr>"


subsection \<open>What a reorganisation forgets and keeps\<close>

lemma own_evidence:
  assumes "sign_ok E kp" and "hx \<noteq> hy"
  shows "evidence_verify E (e_chainID e) \<lparr>ev_Height = h, ev_Voter = key_address E kp,
      ev_VoteA = Some (sign_vote E kp (own_vote e h r k hx)), ev_VoteB = Some (sign_vote E kp (own_vote e h r k hy))\<rparr> = Inr ()"
  using assms by (simp add: evidence_verify_def check_evidence_vote_def sign_vote_verify own_vote_def)

lemma adopt_chain [simp]: "e_chainID (adopt E now b fin e) = e_chainID e" "e_chainID (drop_txs hs e) = e_chainID e"
  "e_chainID (abandon H t e) = e_chainID e" "e_chainID (forget_vote H e) = e_chainID e" "e_chainID (freeze_set h e) = e_chainID e"
  "e_chainID (cast_vote E h r hash e) = e_chainID e"
  by (simp_all add: adopt_def Let_def snapshot_state_def persist_def finalize_parent_def prune_forks_below_def
      prune_snapshots_below_def prune_sets_def prune_voted_def drop_txs_def abandon_def forget_vote_def freeze_set_def
      cast_vote_def cast_vote_kind_def split: option.split)

lemma reorg_chain: "reorg_to E now b e = Returned res e' \<Longrightarrow> e_chainID e' = e_chainID e"
  by (auto simp: reorg_to_def validate_block_def run_block_def restore_state_def Let_def
      split: if_splits option.splits prod.splits sum.splits handled.splits exec_result.splits)

text \<open>The new branch has a lower height: the node then holds no vote and no lock above it.\<close>

lemma buried_reorg_forgets:
  assumes "reorg_to E now b e = Returned res e'" and "st_Height (e_st e') \<noteq> st_Height (e_st e)" and "res = Inr ()"
    and "h_Height (b_Header b) \<noteq> 0" and "h_Height (b_Header b) < h" and "h \<le> st_Height (e_st e)"
  shows "voted_at e' h = fmempty \<and> fmlookup (e_locked e') h = None \<and> e_key e' = e_key e"
proof -
  let ?H = "h_Height (b_Header b)"
  from assms(1) obtain fin e3 where e3: "ballots e3 = ballots e" and e': "e' = reorg_done E now b fin (st_Height (e_st e)) e3"
    by (rule reorg_to_cases) (use assms(2,3) in auto)
  let ?a = "adopt E now b fin (abandon ?H (st_Height (e_st e)) e3)"
  have le: "?H \<le> h" and ne: "h \<noteq> ?H" using assms(5) by auto
  have "voted_at ?a h = fmempty" "fmlookup (e_locked ?a) h = None"
    using adopt_ballots(2,3) [OF assms(4) le, of E now fin "abandon ?H (st_Height (e_st e)) e3"] le assms(6) by simp_all
  then have f: "voted_at (forget_vote ?H (drop_txs hs ?a)) h = fmempty" "fmlookup (e_locked (forget_vote ?H (drop_txs hs ?a))) h = None"
    "e_key (forget_vote ?H (drop_txs hs ?a)) = e_key e" for hs
    using ballotsD(4) [OF e3] assms(5) by (simp_all add: drop_txs_def voted_at_def forget_vote_def)
  show ?thesis
  proof (cases "e_key e")
    case None
    with f show ?thesis by (simp add: e' reorg_done_def Let_def cast_vote_nokey)
  next
    case (Some kp)
    let ?f = "forget_vote ?H (drop_txs (map (tx_hash E) (b_Txs b)) ?a)"
    have k: "e_key ?f = Some kp" "voted_at ?f ?H = fmempty" "fmlookup (e_locked ?f) ?H = None" using f(3) Some by simp_all
    have "e_key (cast_vote E H r hash x) = e_key x" for H r hash and x :: engine
      by (simp add: cast_vote_def cast_vote_kind_def Let_def split: option.split)
    with cast_vote_fresh(2,3) [OF k, where h = h and E = E and r = "h_Round (b_Header b)" and hash = "b_Hash b"] f ne Some k(1)
    show ?thesis by (simp add: e' reorg_done_def Let_def)
  qed
qed

text \<open>
  C17. A reorganisation below the tip can make a node slash itself. It drops the record of what the node
  voted at the abandoned heights; when the new branch reaches such a height in the round the node
  had voted in, the node signs a vote for the new block, and with the vote it sent before the
  reorganisation this is valid double-sign evidence against it.
\<close>

theorem buried_reorg_incriminates:
  assumes "reorg_to E now b e = Returned (Inr ()) e'" and "st_Height (e_st e') \<noteq> st_Height (e_st e)"
    and "e_key e = Some kp" and "sign_ok E kp"
    and "h_Height (b_Header b) \<noteq> 0" and "h_Height (b_Header b) < h" and "h \<le> st_Height (e_st e)"
    and "sign_vote E kp (own_vote e h r PrevoteKind hx) \<in> set (e_sentVotes e)" and "hx \<noteq> hy"
  shows "\<exists>w \<in> set (e_sentVotes (cast_vote E h r hy e')). evidence_verify E (e_chainID e)
    \<lparr>ev_Height = h, ev_Voter = key_address E kp, ev_VoteA = Some (sign_vote E kp (own_vote e h r PrevoteKind hx)), ev_VoteB = Some w\<rparr> = Inr ()"
proof -
  from buried_reorg_forgets [OF assms(1,2) refl assms(5-7)] assms(3)
  have f: "voted_at e' h = fmempty" "fmlookup (e_locked e') h = None" "e_key e' = Some kp" by auto
  let ?w = "sign_vote E kp (own_vote e h r PrevoteKind hy)"
  have "own_vote (e'\<lparr>e_voted := x\<rparr>) h r PrevoteKind hy = own_vote e h r PrevoteKind hy" for x
    using reorg_chain [OF assms(1)] by (simp add: own_vote_def)
  then have "?w \<in> set (e_sentVotes (cast_vote_kind E h r PrevoteKind hy e'))"
    by (simp add: cast_vote_kind_def f lock_refuses_def Let_def)
  moreover have "set (e_sentVotes x) \<subseteq> set (e_sentVotes (cast_vote_kind E h r k hash x))" for k hash and x :: engine
    by (auto simp: cast_vote_kind_def Let_def split: option.split)
  ultimately have "?w \<in> set (e_sentVotes (cast_vote E h r hy e'))" unfolding cast_vote_def by blast
  with own_evidence [OF assms(4,9)] show ?thesis by blast
qed

text \<open>A chain of two blocks whose first is replaced by one of round 2.\<close>

definition reorg_ext :: bft_ext where
  "reorg_ext = node_ext\<lparr>x_load := (\<lambda>_. Some node_state)\<rparr>"

definition reorg_node :: "string \<Rightarrow> engine" where
  "reorg_node hash = node_start\<lparr>e_st := node_state\<lparr>st_Height := 2\<rparr>, e_snapshots := fmap_of_list [(0, [])],
     e_setByHeight := fmap_of_list [(2, \<lparr>vs_Powers = fmempty, vs_Total = 0\<rparr>)],
     e_sentVotes := [sign_vote reorg_ext node_key (own_vote node_start 2 0 PrevoteKind hash)]\<rparr>"

lemma node_state_fields [simp]: "st_Height node_state = 0" "st_LastHash node_state = ''''" "st_FinalizedHeight node_state = 0"
  by (simp_all add: node_state_def sample_state_def new_state_def)

lemma reorg_runs:
  obtains b e' where "reorg_to reorg_ext 0 b (reorg_node hash) = Returned (Inr ()) e'" "h_Height (b_Header b) = 1" "st_Height (e_st e') = 1"
proof -
  have "next_base_fee (st_BaseFee (pay_reward node_addr (begin_block reorg_ext [] [] node_addr 1000 node_state))) 0
      (st_Params (pay_reward node_addr (begin_block reorg_ext [] [] node_addr 1000 node_state))) \<noteq> None" by code_simp
  then obtain root st where x: "execute reorg_ext [] [] [] node_addr 1000 True node_state = Executed [] [] root st"
    by (rule execute_empty)
  define b where "b = build_block reorg_ext node_key 1 '''' 1000 node_addr 2 [] [] [] root"
  have b: "h_Height (b_Header b) = 1" "h_PrevHash (b_Header b) = ''''" "h_Round (b_Header b) = 2" "b_Txs b = []" "b_Evidence b = []"
    "h_Proposer (b_Header b) = node_addr" "h_Timestamp (b_Header b) = 1000" "h_StateRoot (b_Header b) = root" "b_LastCommit b = []"
    by (simp_all add: b_def build_block_def Let_def)
  have s: "sign_ok reorg_ext node_key"
    by (simp add: sign_ok_def reorg_ext_def node_ext_def sample_ext_def chain_ext.extend_def)
  have ad: "node_addr = key_address reorg_ext node_key"
    by (simp add: node_addr_def key_address_def reorg_ext_def address_from_pub_def crypto_hash_def)
  have p: "select_proposer reorg_ext node_state 1 '''' 2 = node_addr" by code_simp
  have a: "absent_proposers reorg_ext node_state 1 '''' 2 node_addr = []" by code_simp
  let ?e = "reorg_node hash"
  have f: "fmlookup (e_snapshots ?e) 0 = Some []" "st_FinalizedHeight (e_st ?e) = 0" "x_load reorg_ext [] = Some node_state"
    by (simp_all add: reorg_node_def reorg_ext_def)
  let ?e1 = "freeze_set 1 (?e\<lparr>e_st := node_state\<rparr>)"
  have "check_block reorg_ext b '''' ?e1 = Inr False"
    unfolding b_def
    by (rule check_own_block [OF s ad _ _ _ _ refl]) (simp_all add: p MaxRounds_def check_last_commit_def verify_all_def
        build_block_def Let_def)
  then have v: "validate_block reorg_ext b '''' (?e\<lparr>e_st := node_state\<rparr>) = (Inr False, ?e1)"
    by (simp add: validate_block_def Let_def b)
  have r: "run_block reorg_ext b '''' d ?e1 = Returned (Inr ()) (?e1\<lparr>e_st := st\<rparr>)" for d
    by (simp add: run_block_def Let_def b a x)
  obtain e' where e': "reorg_to reorg_ext 0 b ?e = Returned (Inr ()) e'" "st_Height (e_st e') = 1"
    by (simp add: reorg_to_def Let_def b f v r)
  from that [OF e'(1) b(1) e'(2)] show thesis .
qed

theorem buried_reorg_incriminates_witness:
  "\<exists>b e' w. reorg_to reorg_ext 0 b (reorg_node ''x'') = Returned (Inr ()) e' \<and> w \<in> set (e_sentVotes (cast_vote reorg_ext 2 0 ''y'' e'))
     \<and> evidence_verify reorg_ext ''c'' \<lparr>ev_Height = 2, ev_Voter = node_addr,
          ev_VoteA = Some (hd (e_sentVotes (reorg_node ''x''))), ev_VoteB = Some w\<rparr> = Inr ()"
proof -
  obtain b e' where r: "reorg_to reorg_ext 0 b (reorg_node ''x'') = Returned (Inr ()) e'" and h: "h_Height (b_Header b) = 1" "st_Height (e_st e') = 1"
    by (rule reorg_runs)
  have s: "sign_ok reorg_ext node_key"
    by (simp add: sign_ok_def reorg_ext_def node_ext_def sample_ext_def chain_ext.extend_def)
  have ad: "node_addr = key_address reorg_ext node_key"
    by (simp add: node_addr_def key_address_def reorg_ext_def address_from_pub_def crypto_hash_def)
  have f: "st_Height (e_st (reorg_node ''x'')) = 2" "e_key (reorg_node ''x'') = Some node_key" "e_chainID (reorg_node ''x'') = ''c''"
    "own_vote (reorg_node ''x'') 2 0 PrevoteKind hash = own_vote node_start 2 0 PrevoteKind hash" for hash
    by (simp_all add: reorg_node_def node_start_def set_chain_id_def new_engine_def own_vote_def)
  have sent: "e_sentVotes (reorg_node ''x'') = [sign_vote reorg_ext node_key (own_vote (reorg_node ''x'') 2 0 PrevoteKind ''x'')]"
    unfolding f by (simp add: reorg_node_def)
  have "\<exists>w \<in> set (e_sentVotes (cast_vote reorg_ext 2 0 ''y'' e')). evidence_verify reorg_ext (e_chainID (reorg_node ''x''))
    \<lparr>ev_Height = 2, ev_Voter = key_address reorg_ext node_key,
     ev_VoteA = Some (sign_vote reorg_ext node_key (own_vote (reorg_node ''x'') 2 0 PrevoteKind ''x'')), ev_VoteB = Some w\<rparr> = Inr ()"
    by (rule buried_reorg_incriminates [OF r _ f(2) s]) (simp_all add: f h sent)
  with r show ?thesis by (auto simp: f sent ad [symmetric])
qed

text \<open>
  C19. A reorganisation keeps the validator set frozen for the height above it, although that set
  was taken from the abandoned block and the new block may have changed the stakes: the node then
  counts quorums of that height against another set than nodes that only saw the new branch.
\<close>

theorem reorg_keeps_stale_set:
  assumes "reorg_to E now b e = Returned (Inr ()) e'" and "h_Height (b_Header b) \<noteq> 0" and "h_Height (b_Header b) < h"
    and "fmlookup (e_setByHeight e) h = Some vs"
  shows "set_for_height e' h = vs"
proof -
  let ?H = "h_Height (b_Header b)"
  have keep: "fmlookup (e_setByHeight (adopt E now b fin x)) h = fmlookup (e_setByHeight x) h" for fin and x :: engine
    using height_above [OF assms(2) order.strict_implies_order [OF assms(3)]]
    by (simp add: adopt_def Let_def snapshot_state_def persist_def finalize_parent_def prune_forks_below_def
        prune_snapshots_below_def prune_sets_def prune_voted_def drop_upto_def)
  have other: "e_setByHeight (forget_vote H x) = e_setByHeight x" "e_setByHeight (drop_txs hs x) = e_setByHeight x"
    "e_setByHeight (abandon H t x) = e_setByHeight x" "e_setByHeight (cast_vote E H r hash x) = e_setByHeight x" for H t hs r hash and x :: engine
    by (simp_all add: forget_vote_def drop_txs_def abandon_def cast_vote_def cast_vote_kind_def Let_def split: option.split)
  from assms(1) have "fmlookup (e_setByHeight e') h = Some vs"
  proof (rule reorg_to_cases)
    assume "Inr () = Inr () \<longrightarrow> e' = e"
    with assms(4) show ?thesis by simp
  next
    fix fin e3 snap st e2
    assume v: "validate_block E b (st_LastHash st) (e\<lparr>e_st := st\<rparr>) = (Inr fin, e2)"
      and r: "run_block E b (st_LastHash st) (x_dump E (e_st e)) e2 = Returned (Inr ()) e3"
      and d: "e' = reorg_done E now b fin (st_Height (e_st e)) e3"
    have "fmlookup (e_setByHeight e2) h = Some vs" using v assms(4)
      by (auto simp: validate_block_def freeze_set_def Let_def split: if_splits)
    moreover have "e_setByHeight e3 = e_setByHeight e2" using r
      by (auto simp: run_block_def Let_def split: exec_result.splits if_splits)
    ultimately show ?thesis by (simp add: d reorg_done_def Let_def other keep)
  qed
  then show ?thesis by (simp add: set_for_height_def)
qed

theorem reorg_keeps_stale_set_witness:
  "\<exists>b e'. reorg_to reorg_ext 0 b (reorg_node ''x'') = Returned (Inr ()) e' \<and> vs_Total (set_for_height e' 2) = 0"
proof -
  obtain b e' where r: "reorg_to reorg_ext 0 b (reorg_node ''x'') = Returned (Inr ()) e'" and h: "h_Height (b_Header b) = 1"
    by (rule reorg_runs)
  have f: "fmlookup (e_setByHeight (reorg_node ''x'')) 2 = Some \<lparr>vs_Powers = fmempty, vs_Total = 0\<rparr>" by (simp add: reorg_node_def)
  from reorg_keeps_stale_set [OF r _ _ f] h r show ?thesis by (intro exI [of _ b] exI [of _ e']) simp
qed

end
