(* ===== verification/Position.thy ===== *)
theory Position
  imports Chain
begin

text \<open>
  The execution of a block does not move the chain: height, last hash and finalized height change
  only when a block is committed or finalized.
\<close>

definition head_of :: "state \<Rightarrow> u64 \<times> string \<times> u64" where
  "head_of st = (st_Height st, st_LastHash st, st_FinalizedHeight st)"

named_theorems head_simps \<open>the position of the chain under the primitive updates\<close>

lemma head_tables [head_simps]:
  "head_of (st\<lparr>st_Accounts := a\<rparr>) = head_of st" "head_of (st\<lparr>st_Validators := b\<rparr>) = head_of st"
  "head_of (st\<lparr>st_Tokens := c\<rparr>) = head_of st" "head_of (st\<lparr>st_Contracts := d\<rparr>) = head_of st"
  "head_of (st\<lparr>st_WasmContracts := w\<rparr>) = head_of st" "head_of (st\<lparr>st_Shielded := s\<rparr>) = head_of st"
  "head_of (st\<lparr>st_Unbonding := u\<rparr>) = head_of st" "head_of (st\<lparr>st_Supply := n\<rparr>) = head_of st"
  "head_of (st\<lparr>st_BaseFee := f\<rparr>) = head_of st" "head_of (st\<lparr>st_Slashed := k\<rparr>) = head_of st"
  by (simp_all add: head_of_def)

lemma head_prims [head_simps]:
  "head_of (acct_upd addr g st) = head_of st" "head_of (touch addr st) = head_of st" "head_of (val_upd addr v st) = head_of st"
  "head_of (bal_add addr tok x st) = head_of st" "head_of (bal_sub addr tok x st) = head_of st"
  "head_of (ctr_upd i ctr st) = head_of st" "head_of (set_pool pool st) = head_of st" "head_of (del_validator addr st) = head_of st"
  "head_of (burn_supply x st) = head_of st" "head_of (mint_supply x st) = head_of st" "head_of (add_unbonding addr x blockTime st) = head_of st"
  "head_of (unbond_delegators as v blockTime st) = head_of st" "head_of (bump_nonce addr st) = head_of st" "head_of (mint addr x st) = head_of st"
  by (simp_all add: acct_upd_def touch_def val_upd_def bal_add_def bal_sub_def ctr_upd_def set_pool_def del_validator_def
      burn_supply_def mint_supply_def add_unbonding_def unbond_delegators_def bump_nonce_def mint_def head_simps)

lemma head_folds [head_simps]:
  "head_of (fold credit_transfer ts st) = head_of st" "head_of (fold release_one us st) = head_of st"
  "head_of (fst (fold (credit_share pool v) as (st, n))) = head_of st"
proof -
  show "head_of (fold credit_transfer ts st) = head_of st"
    by (induction ts arbitrary: st) (auto simp: credit_transfer_def head_simps split: prod.split)
  show "head_of (fold release_one us st) = head_of st"
    by (induction us arbitrary: st) (simp_all add: release_one_def head_simps)
  show "head_of (fst (fold (credit_share pool v) as (st, n))) = head_of st"
    by (induction as arbitrary: st n) (simp_all add: credit_share_def Let_def head_simps)
qed

lemma head_slash_weight: "slash_weight v bps st = (v', st') \<Longrightarrow> head_of st' = head_of st"
proof -
  have "head_of (fold f as st) = head_of st" if "\<And>a s. head_of (f a s) = head_of s" for f as and st :: state
    using that by (induction as arbitrary: st) simp_all
  then show "slash_weight v bps st = (v', st') \<Longrightarrow> head_of st' = head_of st"
    by (auto simp: slash_weight_def Let_def head_simps split: prod.splits if_splits)
qed

lemma head_proposal:
  assumes "r = maybe_execute_multisig c p st \<or> r = maybe_resolve_dao c p st"
  shows "head_of (store_proposal i k r) = head_of st"
proof -
  obtain c' p' st' where r: "r = (c', p', st')" by (rule prod_cases3)
  have "head_of st' = head_of st" using assms r
    by (auto simp: maybe_execute_multisig_def maybe_resolve_dao_def pay_proposal_def Let_def head_simps split: if_splits)
  then show ?thesis by (simp add: r store_proposal_def head_simps)
qed

lemma head_tokens:
  "tx_transfer st tx = TxOk st' \<Longrightarrow> head_of st' = head_of st" "tx_create_token st tx = TxOk st' \<Longrightarrow> head_of st' = head_of st"
  "tx_mint st tx = TxOk st' \<Longrightarrow> head_of st' = head_of st"
  by (auto simp: tx_transfer_def tx_create_token_def tx_mint_def Let_def head_simps split: if_splits option.splits)

lemma head_validators:
  "tx_stake st tx = TxOk st' \<Longrightarrow> head_of st' = head_of st" "tx_unjail st tx blockTime = TxOk st' \<Longrightarrow> head_of st' = head_of st"
  "tx_validator_profile st tx = TxOk st' \<Longrightarrow> head_of st' = head_of st" "tx_unstake st tx blockTime = TxOk st' \<Longrightarrow> head_of st' = head_of st"
  "tx_delegate st tx = TxOk st' \<Longrightarrow> head_of st' = head_of st" "tx_undelegate st tx blockTime = TxOk st' \<Longrightarrow> head_of st' = head_of st"
  by (auto simp: tx_stake_def tx_unjail_def tx_validator_profile_def tx_unstake_def tx_delegate_def
      tx_undelegate_def Let_def head_simps split: if_splits option.splits)

lemma head_contracts:
  "tx_contract_create E st tx = TxOk st' \<Longrightarrow> head_of st' = head_of st"
  "tx_contract_exec st tx blockTime = TxOk st' \<Longrightarrow> head_of st' = head_of st"
proof -
  show "tx_contract_create E st tx = TxOk st' \<Longrightarrow> head_of st' = head_of st"
    by (auto simp: tx_contract_create_def head_simps split: if_splits option.splits)
  note store = head_proposal [OF disjI1 [OF refl]] head_proposal [OF disjI2 [OF refl]]
  have parts: "vesting_claim st tx blockTime c = TxOk st' \<Longrightarrow> head_of st' = head_of st" "escrow_release st tx c = TxOk st' \<Longrightarrow> head_of st' = head_of st"
    "escrow_refund st tx c = TxOk st' \<Longrightarrow> head_of st' = head_of st" "multisig_propose st tx c = TxOk st' \<Longrightarrow> head_of st' = head_of st"
    "multisig_approve st tx c = TxOk st' \<Longrightarrow> head_of st' = head_of st" "dao_propose st tx c = TxOk st' \<Longrightarrow> head_of st' = head_of st"
    "dao_vote st tx c = TxOk st' \<Longrightarrow> head_of st' = head_of st" for c
    by (auto simp: vesting_claim_def escrow_release_def escrow_refund_def multisig_propose_def
        multisig_approve_def dao_propose_def dao_vote_def Let_def store head_simps split: if_splits)
  show "tx_contract_exec st tx blockTime = TxOk st' \<Longrightarrow> head_of st' = head_of st"
    unfolding tx_contract_exec_def Let_def
    by (simp only: split: option.split_asm if_split_asm) ((rule parts; assumption) | simp)+
qed

lemma head_shielded:
  "tx_shield E st tx = TxOk st' \<Longrightarrow> head_of st' = head_of st" "tx_shielded_transfer E st tx = TxOk st' \<Longrightarrow> head_of st' = head_of st"
  "tx_unshield E st tx = TxOk st' \<Longrightarrow> head_of st' = head_of st"
  by (auto simp: tx_shield_def tx_shielded_transfer_def tx_unshield_def shield_res_TxOk Let_def head_simps split: if_splits)

lemma head_wasm:
  "tx_wasm_deploy E st tx = TxOk st' \<Longrightarrow> head_of st' = head_of st" "tx_wasm_call E st tx = TxOk st' \<Longrightarrow> head_of st' = head_of st"
  by (auto simp: tx_wasm_deploy_def tx_wasm_call_def commit_call_def Let_def head_simps
      split: if_splits option.splits wres.splits prod.splits)

interpretation position: execution_invariant E "\<lambda>st. head_of st = p" for E :: "'z chain_ext_scheme" and p
proof
  fix st st' :: state and tx blockTime
  assume "head_of st = p" and "tx_dispatch E st tx blockTime = TxOk st'"
  then show "head_of st' = p"
    by (elim dispatch_cases) (blast dest: head_tokens head_validators head_contracts head_shielded head_wasm)+
next
  fix st :: state and voter height blockTime
  assume "head_of st = p"
  then show "head_of (slash E voter height blockTime st) = p"
    by (auto simp: slash_def Let_def head_simps dest!: head_slash_weight split: option.split prod.split)
next
  fix st :: state and a blockTime
  assume "head_of st = p"
  then show "head_of (miss_slot blockTime a st) = p"
    by (auto simp: miss_slot_def Let_def head_simps dest!: head_slash_weight split: option.split prod.split)
next
  fix st :: state and proposer amount
  assume p: "head_of st = p"
  have "head_of s = head_of st" if "fold (credit_share pool v) as (st, n) = (s, d)" for pool v as n s d
    using head_folds(3) [of pool v as st n] that by simp
  with p show "head_of (distribute_reward proposer amount st) = p"
    by (auto simp: distribute_reward_def Let_def head_simps split: option.split prod.split)
qed (simp_all add: head_simps charge_fees_def Let_def release_unbonded_def)

lemma execute_position:
  assumes "execute E txs evs absent proposer blockTime strict st = Executed applied failed root st'"
  shows "st_Height st' = st_Height st" "st_LastHash st' = st_LastHash st" "st_FinalizedHeight st' = st_FinalizedHeight st"
  using position.execute_I [OF refl assms] by (simp_all add: head_of_def)

end
