(* ===== verification/EngineProps.thy ===== *)
theory EngineProps
  imports EngineSound VoteProps Position
begin

text \<open>
  The engine as a whole: what it records can be proved to others, what it builds is accepted, what it
  rejects leaves no trace, and what it finalizes carries a quorum.
\<close>

subsection \<open>Evidence\<close>

text \<open>
  C14. Whatever a node is sent, every piece of double-sign evidence it records verifies: both votes
  carry valid signatures of the accused for one chain, height, round and kind, and differ in the
  block only. So evidence is never held against a validator who signed one block.
\<close>

theorem recorded_evidence_verifies:
  assumes "engine_run E e0 e" and "e0 = set_chain_id chain (new_engine E st pool db key interval maxTxs now)"
    and "chain \<noteq> []" and "\<And>kp. key = Some kp \<Longrightarrow> sign_ok E kp"
    and "fmlookup (e_evidence e) k = Some ev"
  shows "evidence_verify E (e_chainID e) ev = Inr ()"
proof -
  have "votes_checked E e" by (rule checked.keep_engine_run [OF assms(1)]) (use assms(3,4) in \<open>simp add: assms(2) votes_checked_new\<close>)
  with assms(5) show ?thesis by (simp add: votes_checked_def evidence_ok_def)
qed

theorem recorded_evidence_verifies_witness:
  "\<exists>e ev. engine_run node_ext node_start e \<and> fmlookup (e_evidence e) (evidence_key node_addr 1) = Some ev
     \<and> evidence_verify node_ext ''c'' ev = Inr ()"
proof -
  have "(case add_vote node_ext 0 (commit_of ''x'') node_start of Returned _ e1 \<Rightarrow>
      (case add_vote node_ext 0 (commit_of ''y'') e1 of Returned _ e2 \<Rightarrow>
         fmlookup (e_evidence e2) (evidence_key node_addr 1) \<noteq> None \<and> e_chainID e2 = ''c'' | _ \<Rightarrow> False) | _ \<Rightarrow> False)" by code_simp
  then obtain r1 e1 r2 e2 ev where v: "add_vote node_ext 0 (commit_of ''x'') node_start = Returned r1 e1"
      "add_vote node_ext 0 (commit_of ''y'') e1 = Returned r2 e2"
    and ev: "fmlookup (e_evidence e2) (evidence_key node_addr 1) = Some ev" "e_chainID e2 = ''c''"
    by (auto split: handled.splits)
  have r: "engine_run node_ext node_start e2"
    using engine_run.step [OF engine_run.step [OF engine_run.start engine_step.vote [OF v(1)]] engine_step.vote [OF v(2)]] .
  have s: "sign_ok node_ext node_key" by (simp add: sign_ok_def node_ext_def sample_ext_def chain_ext.extend_def)
  from recorded_evidence_verifies [OF r node_start_def _ _ ev(1)] s r ev show ?thesis by auto
qed

subsection \<open>Own blocks\<close>

lemma round_bound: "current_round now e = Some rnd \<Longrightarrow> rnd < MaxRounds"
  by (auto simp: current_round_def MaxRounds_def Let_def split: if_splits)



subsection \<open>Rejected blocks\<close>

lemma restore_backup:
  assumes "x_load E (x_dump E st) = Some st"
  shows "restore_state E (x_dump E st) e = e\<lparr>e_st := st\<rparr>"
  using assms by (simp add: restore_state_def)

lemma freeze_only: "\<exists>S. freeze_set h e = e\<lparr>e_setByHeight := S\<rparr>"
proof (cases "fmlookup (e_setByHeight e) h")
  case (Some vs)
  then have "freeze_set h e = e\<lparr>e_setByHeight := e_setByHeight e\<rparr>" by (simp add: freeze_set_def)
  then show ?thesis by blast
qed (auto simp: freeze_set_def)

lemma buffer_only: "\<exists>F. buffer_fork b e = e\<lparr>e_forks := F\<rparr>"
proof (cases "list_ex (\<lambda>f. b_Hash f = b_Hash b) (case fmlookup (e_forks e) (h_Height (b_Header b)) of None \<Rightarrow> [] | Some bs \<Rightarrow> bs)")
  case True
  then have "buffer_fork b e = e\<lparr>e_forks := e_forks e\<rparr>" by (simp add: buffer_fork_def Let_def)
  then show ?thesis by blast
qed (auto simp: buffer_fork_def Let_def)

lemma run_failed:
  assumes "run_block E b prev (x_dump E st) e = Returned (Inl err) e'" and "x_load E (x_dump E st) = Some st"
  shows "e' = e\<lparr>e_st := st\<rparr>"
  using assms by (auto simp: run_block_def Let_def restore_backup split: exec_result.splits if_splits)

lemma reorg_atomic:
  assumes r: "reorg_to E now b e = Returned (Inl err) e'" and load: "x_load E (x_dump E (e_st e)) = Some (e_st e)"
  shows "\<exists>S. e' = e\<lparr>e_setByHeight := S\<rparr>"
proof -
  let ?H = "h_Height (b_Header b)"
  consider "e' = e" | snap st where "\<not> ?H - 1 < st_FinalizedHeight (e_st e)" "fmlookup (e_snapshots e) (?H - 1) = Some snap" "x_load E snap = Some st"
    using r by (auto simp: reorg_to_def Let_def split: if_splits option.splits)
  then show ?thesis
  proof cases
    case 1
    then have "e' = e\<lparr>e_setByHeight := e_setByHeight e\<rparr>" by simp
    then show ?thesis by blast
  next
    case 2
    obtain vr e2 where v: "validate_block E b (st_LastHash st) (e\<lparr>e_st := st\<rparr>) = (vr, e2)" by (rule prod.exhaust)
    have "e2 = e\<lparr>e_st := st\<rparr> \<or> e2 = freeze_set ?H (e\<lparr>e_st := st\<rparr>)" using v by (auto simp: validate_block_def Let_def split: if_splits)
    then obtain S where e2: "e2 = e\<lparr>e_st := st, e_setByHeight := S\<rparr>"
      using freeze_only [of ?H "e\<lparr>e_st := st\<rparr>"] by (auto intro: that [of "e_setByHeight e"])
    have "e' = e2\<lparr>e_st := e_st e\<rparr>"
    proof (cases vr)
      case (Inl err')
      then show ?thesis using r 2 v load by (simp add: reorg_to_def Let_def restore_backup)
    next
      case (Inr fin)
      then have "run_block E b (st_LastHash st) (x_dump E (e_st e)) e2 = Returned (Inl err) e'"
        using r 2 v by (auto simp: reorg_to_def Let_def split: handled.splits sum.splits)
      from run_failed [OF this load] show ?thesis .
    qed
    then show ?thesis by (auto simp: e2)
  qed
qed



subsection \<open>Finality\<close>

lemma adopt_finalized:
  "st_FinalizedHeight (e_st (adopt E now b fin e)) =
     (if fin \<and> st_FinalizedHeight (e_st e) < h_Height (b_Header b) - 1 then h_Height (b_Header b) - 1 else st_FinalizedHeight (e_st e))"
  by (simp add: adopt_st set_finalized_def commit_block_def)


text \<open>A node at height 1 imports a block of height 2 with the commit of its parent.\<close>

definition high_node :: engine where
  "high_node = node_start\<lparr>e_st := node_state\<lparr>st_Height := 1, st_LastHash := ''x''\<rparr>,
     e_setByHeight := fmap_of_list [(1, snapshot_active_set node_state)]\<rparr>"

lemma commit_of_fields [simp]:
  "v_Voter (commit_of hash) = node_addr" "v_Round (commit_of hash) = 0" "v_ChainID (commit_of hash) = ''c''"
  "v_Kind (commit_of hash) = PrecommitKind" "v_Height (commit_of hash) = 1" "v_BlockHash (commit_of hash) = hash"
  by (simp_all add: commit_of_def sign_vote_def own_vote_def node_addr_def node_start_def set_chain_id_def Let_def)

lemma high_import:
  obtains b e' where "apply_external_block node_ext 0 b high_node = Returned (Inr ()) e'" "st_FinalizedHeight (e_st e') = 1"
    "h_Height (b_Header b) = 2" "b_LastCommit b = [commit_of ''x'']"
proof -
  let ?st = "node_state\<lparr>st_Height := 1, st_LastHash := ''x''\<rparr>"
  have "next_base_fee (st_BaseFee (pay_reward node_addr (begin_block node_ext [] [] node_addr 1000 ?st))) 0
      (st_Params (pay_reward node_addr (begin_block node_ext [] [] node_addr 1000 ?st))) \<noteq> None" by code_simp
  then obtain root st where x: "execute node_ext [] [] [] node_addr 1000 True ?st = Executed [] [] root st"
    by (rule execute_empty)
  define b where "b = build_block node_ext node_key 2 ''x'' 1000 node_addr 2 [] [] [commit_of ''x''] root"
  have b: "h_Height (b_Header b) = 2" "h_PrevHash (b_Header b) = ''x''" "h_Round (b_Header b) = 2"
    "b_Txs b = []" "b_Evidence b = []" "b_LastCommit b = [commit_of ''x'']"
    "h_Proposer (b_Header b) = node_addr" "h_Timestamp (b_Header b) = 1000" "h_StateRoot (b_Header b) = root"
    by (simp_all add: b_def build_block_def Let_def)
  have s: "sign_ok node_ext node_key" by (simp add: sign_ok_def node_ext_def sample_ext_def chain_ext.extend_def)
  have p: "select_proposer node_ext ?st 2 ''x'' 2 = node_addr" by code_simp
  have a: "absent_proposers node_ext ?st 2 ''x'' 2 node_addr = []" by code_simp
  have st: "e_st high_node = ?st" "e_chainID high_node = ''c''"
    by (simp_all add: high_node_def node_start_def set_chain_id_def new_engine_def)
  let ?e1 = "freeze_set 2 high_node"
  have vs: "set_for_height ?e1 1 = snapshot_active_set node_state"
    by (simp add: set_for_height_def freeze_set_def high_node_def)
  have "vote_verify node_ext (commit_of ''x'') = Inr ()" by (simp add: commit_of_def node_vote_verify)
  then have "verify_commit node_ext [commit_of ''x''] 1 ''x'' ?e1 = Inr (10000 * Unit)"
    using vs by (simp add: verify_commit_def st set_power_of_def node_set mget_def) (simp add: Unit_def)
  then have l: "check_last_commit node_ext b ?e1 = Inr True"
    using node_quorum by (simp add: check_last_commit_def b Let_def vs node_set)
  have "check_block node_ext b ''x'' ?e1 = Inr True"
    by (rule check_own_block [OF s node_addr_def _ _ _ _ b_def l]) (simp_all add: p MaxRounds_def verify_all_def st)
  then have v: "validate_block node_ext b ''x'' high_node = (Inr True, ?e1)"
    by (simp add: validate_block_def Let_def b)
  have r: "run_block node_ext b ''x'' d ?e1 = Returned (Inr ()) (?e1\<lparr>e_st := st\<rparr>)" for d
    using x by (simp add: run_block_def Let_def b a st)
  have f: "st_FinalizedHeight st = 0" using execute_position(3) [OF x] by simp
  have n: "\<not> (2 :: u64) \<le> 1" "\<not> (1 :: u64) + 1 < 2" by (simp_all add: word_le_nat_alt word_less_nat_alt)
  obtain e' where "apply_external_block node_ext 0 b high_node = Returned (Inr ()) e'"
    "e_st e' = e_st (adopt node_ext 0 b True (?e1\<lparr>e_st := st\<rparr>))"
    by (simp add: apply_external_block_def Let_def b st v r n)
  with that [OF this(1) _ b(1,6)] show thesis by (simp add: adopt_finalized f b)
qed


text \<open>
  C18. Finality can go back. A snapshot is taken before the block's own commit is applied, and a
  reorganisation restores the snapshot of the fork point: if the new block carries no commit, the
  finalized height falls back to what it was when that snapshot was taken.
\<close>

theorem reorg_returns_finality:
  assumes r: "reorg_to E now b e = Returned (Inr ()) e'" and above: "\<not> h_Height (b_Header b) - 1 < st_FinalizedHeight (e_st e)"
    and snap: "fmlookup (e_snapshots e) (h_Height (b_Header b) - 1) = Some snap" "x_load E snap = Some st"
    and none: "b_LastCommit b = []"
  shows "st_FinalizedHeight (e_st e') = st_FinalizedHeight st"
proof -
  let ?H = "h_Height (b_Header b)"
  obtain vr e2 where v: "validate_block E b (st_LastHash st) (e\<lparr>e_st := st\<rparr>) = (vr, e2)" by (rule prod.exhaust)
  with r above snap obtain fin where fin: "vr = Inr fin" by (cases vr) (simp_all add: reorg_to_def Let_def)
  with r above snap v obtain e3 where run: "run_block E b (st_LastHash st) (x_dump E (e_st e)) e2 = Returned (Inr ()) e3"
    and e': "e' = reorg_done E now b fin (st_Height (e_st e)) e3"
    by (auto simp: reorg_to_def reorg_done_def Let_def split: handled.splits sum.splits)
  from v fin have e2: "e2 = freeze_set ?H (e\<lparr>e_st := st\<rparr>)" and "check_block E b (st_LastHash st) e2 = Inr fin"
    by (auto simp: validate_block_def Let_def split: if_splits)
  then have "\<not> fin" using none by (auto simp: check_block_def check_last_commit_def Let_def rbind_eq_Inr)
  moreover have "st_FinalizedHeight (e_st e3) = st_FinalizedHeight st" using run
    by (auto simp: run_block_def Let_def e2 execute_position split: exec_result.splits if_splits)
  ultimately show ?thesis by (simp add: e' reorg_done_def Let_def adopt_finalized)
qed

text \<open>A node whose finalized height falls from 1 to 0.\<close>

definition late_state :: state where "late_state = node_state\<lparr>st_Height := 1, st_LastHash := ''x''\<rparr>"
definition late_ext :: bft_ext where "late_ext = node_ext\<lparr>x_load := (\<lambda>_. Some late_state)\<rparr>"
definition late_node :: engine where
  "late_node = node_start\<lparr>e_st := late_state\<lparr>st_Height := 2, st_LastHash := ''y'', st_FinalizedHeight := 1\<rparr>, e_snapshots := fmap_of_list [(1, [])]\<rparr>"

theorem reorg_returns_finality_witness:
  "\<exists>b e'. reorg_to late_ext 0 b late_node = Returned (Inr ()) e' \<and> st_FinalizedHeight (e_st late_node) = 1 \<and> st_FinalizedHeight (e_st e') = 0"
proof -
  have "next_base_fee (st_BaseFee (pay_reward node_addr (begin_block late_ext [] [] node_addr 1000 late_state))) 0
      (st_Params (pay_reward node_addr (begin_block late_ext [] [] node_addr 1000 late_state))) \<noteq> None" by code_simp
  then obtain root st where x: "execute late_ext [] [] [] node_addr 1000 True late_state = Executed [] [] root st"
    by (rule execute_empty)
  define b where "b = build_block late_ext node_key 2 ''x'' 1000 node_addr 2 [] [] [] root"
  have b: "h_Height (b_Header b) = 2" "h_PrevHash (b_Header b) = ''x''" "h_Round (b_Header b) = 2" "b_Txs b = []" "b_Evidence b = []"
    "h_Proposer (b_Header b) = node_addr" "h_Timestamp (b_Header b) = 1000" "h_StateRoot (b_Header b) = root" "b_LastCommit b = []"
    by (simp_all add: b_def build_block_def Let_def)
  have s: "sign_ok late_ext node_key"
    by (simp add: sign_ok_def late_ext_def node_ext_def sample_ext_def chain_ext.extend_def)
  have ad: "node_addr = key_address late_ext node_key"
    by (simp add: node_addr_def key_address_def late_ext_def address_from_pub_def crypto_hash_def)
  have p: "select_proposer late_ext late_state 2 ''x'' 2 = node_addr" by code_simp
  have a: "absent_proposers late_ext late_state 2 ''x'' 2 node_addr = []" by code_simp
  have f: "fmlookup (e_snapshots late_node) 1 = Some []" "st_FinalizedHeight (e_st late_node) = 1" "x_load late_ext [] = Some late_state"
    "st_LastHash late_state = ''x''" "st_FinalizedHeight late_state = 0"
    by (simp_all add: late_node_def late_ext_def late_state_def)
  let ?e1 = "freeze_set 2 (late_node\<lparr>e_st := late_state\<rparr>)"
  have "check_block late_ext b ''x'' ?e1 = Inr False"
    by (rule check_own_block [OF s ad _ _ _ _ b_def]) (simp_all add: p MaxRounds_def check_last_commit_def verify_all_def b)
  then have v: "validate_block late_ext b ''x'' (late_node\<lparr>e_st := late_state\<rparr>) = (Inr False, ?e1)"
    by (simp add: validate_block_def Let_def b)
  have r: "run_block late_ext b ''x'' d ?e1 = Returned (Inr ()) (?e1\<lparr>e_st := st\<rparr>)" for d
    by (simp add: run_block_def Let_def b a x)
  obtain e' where e': "reorg_to late_ext 0 b late_node = Returned (Inr ()) e'"
    by (simp add: reorg_to_def Let_def b f v r)
  have "st_FinalizedHeight (e_st e') = 0"
    using reorg_returns_finality [OF e' _ _ f(3)] f b by simp
  with e' f(2) show ?thesis by blast
qed

end
