(* ===== verification/Store.thy ===== *)
theory Store
  imports BlockCodec Field
begin

text \<open>
  The block store (\<^verbatim>\<open>internal/store/store.go\<close>): five buckets of a bbolt database, the tagged encoding of
  blocks, the indexes by hash and by address. bbolt is not part of the repository: its buckets are a
  type parameter, their operations the record \<open>bolt\<close>.
\<close>

subsection \<open>The key-value store\<close>

text \<open>
  \<open>bo_put\<close> is \<open>None\<close> when \<^verbatim>\<open>Put\<close> returns an error. A cursor is its current key: \<open>bo_seek\<close> is the first key
  from the given one on, \<open>bo_prev\<close> the key before it.
\<close>

record 'b bolt =
  bo_get :: "'b \<Rightarrow> bytes \<Rightarrow> bytes option"
  bo_put :: "bytes \<Rightarrow> bytes \<Rightarrow> 'b \<Rightarrow> 'b option"
  bo_seek :: "'b \<Rightarrow> bytes \<Rightarrow> bytes option"
  bo_prev :: "'b \<Rightarrow> bytes \<Rightarrow> bytes option"
  bo_last :: "'b \<Rightarrow> bytes option"

record 'b db =
  d_blocks :: 'b
  d_txindex :: 'b
  d_byhash :: 'b
  d_addrtxs :: 'b
  d_meta :: 'b

datatype store_err = EMarshal codec_err | EPut | ELegacy | EBinary codec_err | ETag u8

definition put_in :: "'b bolt \<Rightarrow> bytes \<Rightarrow> bytes \<Rightarrow> 'b \<Rightarrow> store_err + 'b" where
  "put_in B k v b = (case bo_put B k v b of None \<Rightarrow> Inl EPut | Some b' \<Rightarrow> Inr b')"

definition keyHeight :: bytes where "keyHeight = str_bytes ''height''"
definition keyState :: bytes where "keyState = str_bytes ''state''"
definition keyGenesis :: bytes where "keyGenesis = str_bytes ''genesis''"

subsection \<open>Keys and values\<close>

definition height_key :: "u64 \<Rightarrow> bytes" where
  "height_key h = be64 h"

definition bar :: u8 where "bar = 124"

definition addr_tx_key :: "string \<Rightarrow> u64 \<Rightarrow> string \<Rightarrow> bytes" where
  "addr_tx_key addr height txhash = str_bytes addr @ [bar] @ be64 height @ [bar] @ str_bytes txhash"

text \<open>
  The addresses of a transaction, each once and none empty. The source returns them in the order of a
  Go map; they only become distinct keys of one bucket.
\<close>

definition tx_addrs :: "transaction \<Rightarrow> string list" where
  "tx_addrs t =
     remdups (filter (\<lambda>a. a \<noteq> []) ([tx_From t, tx_To t] @
       (case tx_Contract t of None \<Rightarrow> []
        | Some c \<Rightarrow> [cp_Beneficiary c, cp_Seller c, cp_Arbiter c] @ cp_Signers c)))"

definition blockTagLegacyJSON :: u8 where "blockTagLegacyJSON = 0x7b"
definition blockTagBinaryV1 :: u8 where "blockTagBinaryV1 = 1"

definition encode_block :: "block \<Rightarrow> store_err + bytes" where
  "encode_block b = (case block_marshal b of Inl e \<Rightarrow> Inl (EMarshal e) | Inr bin \<Rightarrow> Inr (blockTagBinaryV1 # bin))"

text \<open>\<open>json\<close> is \<^verbatim>\<open>json.Unmarshal\<close> of the standard library into a block.\<close>

definition decode_block :: "(bytes \<Rightarrow> block option) \<Rightarrow> bytes \<Rightarrow> store_err + block option" where
  "decode_block json data =
     (case data of
        [] \<Rightarrow> Inr None
      | tag # rest \<Rightarrow>
          if tag = blockTagLegacyJSON
          then (case json data of None \<Rightarrow> Inl ELegacy | Some b \<Rightarrow> Inr (Some b))
          else if tag = blockTagBinaryV1
          then (case block_unmarshal rest of Inl e \<Rightarrow> Inl (EBinary e) | Inr b \<Rightarrow> Inr (Some b))
          else Inl (ETag tag))"

subsection \<open>Writing\<close>

fun put_addrs :: "'b bolt \<Rightarrow> u64 \<Rightarrow> string \<Rightarrow> string list \<Rightarrow> 'b \<Rightarrow> store_err + 'b" where
  "put_addrs B height h [] b = Inr b"
| "put_addrs B height h (a # as) b = rbind (put_in B (addr_tx_key a height h) [1] b) (put_addrs B height h as)"

fun index_txs :: "'z ext_scheme \<Rightarrow> 'b bolt \<Rightarrow> u64 \<Rightarrow> transaction list \<Rightarrow> 'b db \<Rightarrow> store_err + 'b db" where
  "index_txs E B height [] d = Inr d"
| "index_txs E B height (t # ts) d =
     rbind (put_in B (str_bytes (tx_hash E t)) (height_key height) (d_txindex d)) (\<lambda>idx.
     rbind (put_addrs B height (tx_hash E t) (tx_addrs t) (d_addrtxs d)) (\<lambda>adr.
       index_txs E B height ts (d\<lparr>d_txindex := idx, d_addrtxs := adr\<rparr>)))"

text \<open>One bbolt transaction: an error leaves the database as it was.\<close>

definition save_block :: "'z ext_scheme \<Rightarrow> 'b bolt \<Rightarrow> block \<Rightarrow> 'b db \<Rightarrow> store_err + 'b db" where
  "save_block E B b d =
     (let hk = height_key (h_Height (b_Header b)) in
      rbind (encode_block b) (\<lambda>data.
      rbind (put_in B hk data (d_blocks d)) (\<lambda>blocks.
      rbind (put_in B (str_bytes (b_Hash b)) hk (d_byhash d)) (\<lambda>byhash.
      rbind (index_txs E B (h_Height (b_Header b)) (b_Txs b) (d\<lparr>d_blocks := blocks, d_byhash := byhash\<rparr>)) (\<lambda>d1.
      rbind (put_in B keyHeight hk (d_meta d1)) (\<lambda>meta. Inr (d1\<lparr>d_meta := meta\<rparr>)))))))"

definition put_raw_block :: "'b bolt \<Rightarrow> u64 \<Rightarrow> bytes \<Rightarrow> 'b db \<Rightarrow> store_err + 'b db" where
  "put_raw_block B height raw d = rbind (put_in B (height_key height) raw (d_blocks d)) (\<lambda>blocks. Inr (d\<lparr>d_blocks := blocks\<rparr>))"

definition save_state :: "'b bolt \<Rightarrow> bytes \<Rightarrow> 'b db \<Rightarrow> store_err + 'b db" where
  "save_state B data d = rbind (put_in B keyState data (d_meta d)) (\<lambda>meta. Inr (d\<lparr>d_meta := meta\<rparr>))"

definition save_genesis :: "'b bolt \<Rightarrow> bytes \<Rightarrow> 'b db \<Rightarrow> store_err + 'b db" where
  "save_genesis B data d = rbind (put_in B keyGenesis data (d_meta d)) (\<lambda>meta. Inr (d\<lparr>d_meta := meta\<rparr>))"

subsection \<open>Reading\<close>

definition get_block :: "(bytes \<Rightarrow> block option) \<Rightarrow> 'b bolt \<Rightarrow> u64 \<Rightarrow> 'b db \<Rightarrow> store_err + block option" where
  "get_block json B h d =
     (case bo_get B (d_blocks d) (height_key h) of None \<Rightarrow> Inr None | Some data \<Rightarrow> decode_block json data)"

text \<open>\<^verbatim>\<open>binary.BigEndian.Uint64\<close> of the first eight bytes; \<open>None\<close> is its panic on fewer.\<close>

definition uint64_at :: "bytes \<Rightarrow> u64 option" where
  "uint64_at v = (if length v < 8 then None else Some (of_be (take 8 v)))"

text \<open>\<open>None\<close> is the panic of a corrupt index entry.\<close>

definition read_height :: "'b bolt \<Rightarrow> 'b \<Rightarrow> bytes \<Rightarrow> u64 option option" where
  "read_height B b k = (case bo_get B b k of None \<Rightarrow> Some None | Some v \<Rightarrow> map_option Some (uint64_at v))"

definition block_by_hash :: "(bytes \<Rightarrow> block option) \<Rightarrow> 'b bolt \<Rightarrow> string \<Rightarrow> 'b db \<Rightarrow> (store_err + block option) option" where
  "block_by_hash json B hash d =
     (case read_height B (d_byhash d) (str_bytes hash) of
        None \<Rightarrow> None
      | Some None \<Rightarrow> Some (Inr None)
      | Some (Some h) \<Rightarrow> Some (get_block json B h d))"

definition tx_height :: "'b bolt \<Rightarrow> string \<Rightarrow> 'b db \<Rightarrow> u64 option option" where
  "tx_height B hash d = read_height B (d_txindex d) (str_bytes hash)"

definition last_height :: "'b bolt \<Rightarrow> 'b db \<Rightarrow> u64 option option" where
  "last_height B d = read_height B (d_meta d) keyHeight"

definition load_state :: "'b bolt \<Rightarrow> 'b db \<Rightarrow> bytes option" where
  "load_state B d = bo_get B (d_meta d) keyState"

definition load_genesis :: "'b bolt \<Rightarrow> 'b db \<Rightarrow> bytes option" where
  "load_genesis B d = bo_get B (d_meta d) keyGenesis"

subsection \<open>Transactions of an address\<close>

record tx_ref =
  tr_Hash :: string
  tr_Height :: u64

definition has_prefix :: "bytes \<Rightarrow> bytes \<Rightarrow> bool" where
  "has_prefix b pre \<longleftrightarrow> length pre \<le> length b \<and> take (length pre) b = pre"

text \<open>What the loop reads from one key: nothing for a short key or a height that is too high.\<close>

definition ref_of :: "bytes \<Rightarrow> u64 \<Rightarrow> bytes \<Rightarrow> tx_ref option" where
  "ref_of pre before k =
     (let rest = drop (length pre) k in
      if length rest < 9 then None
      else let h = of_be (take 8 rest) in
        if 0 < before \<and> before \<le> h then None
        else Some \<lparr>tr_Hash = bytes_str (drop 9 rest), tr_Height = h\<rparr>)"

partial_function (option) addr_loop :: "'b bolt \<Rightarrow> 'b \<Rightarrow> bytes \<Rightarrow> int \<Rightarrow> u64 \<Rightarrow> bytes option \<Rightarrow> tx_ref list \<Rightarrow> tx_ref list option" where
  "addr_loop B b pre limit before k out =
     (case k of
        None \<Rightarrow> Some out
      | Some key \<Rightarrow>
          if limit \<le> int (length out) then Some out
          else if \<not> has_prefix key pre then Some out
          else case ref_of pre before key of
                 None \<Rightarrow> addr_loop B b pre limit before (bo_prev B b key) out
               | Some r \<Rightarrow> addr_loop B b pre limit before (bo_prev B b key) (out @ [r]))"

definition address_txs :: "'b bolt \<Rightarrow> string \<Rightarrow> int \<Rightarrow> u64 \<Rightarrow> 'b db \<Rightarrow> tx_ref list option" where
  "address_txs B addr limit before d =
     (let lim = (if limit \<le> 0 \<or> 500 < limit then 50 else limit);
          pre = str_bytes addr @ [bar];
          upper = str_bytes addr @ [bar + 1];
          k = (case bo_seek B (d_addrtxs d) upper of
                 None \<Rightarrow> bo_last B (d_addrtxs d)
               | Some key \<Rightarrow> bo_prev B (d_addrtxs d) key)
      in addr_loop B (d_addrtxs d) pre lim before k [])"

end
