(* ===== verification/StoreProps.thy ===== *)
theory StoreProps
  imports Store WireProps CryptoProps
begin

text \<open>
  The block store over any key-value store that keeps its keys in byte order: what is saved is read
  back, the history of an address is its newest transactions first, and what the indexes keep after a
  reorganisation.
\<close>

subsection \<open>What is relied on\<close>

definition keys_of :: "'b bolt \<Rightarrow> 'b \<Rightarrow> bytes set" where
  "keys_of B b = {k. bo_get B b k \<noteq> None}"

definition first_of :: "bytes set \<Rightarrow> bytes option" where
  "first_of S = (if S = {} then None else Some (Min S))"

definition last_of :: "bytes set \<Rightarrow> bytes option" where
  "last_of S = (if S = {} then None else Some (Max S))"

text \<open>The documentation of bbolt: \<^verbatim>\<open>Put\<close> replaces one entry, cursors follow the byte order of the keys.\<close>

definition bolt_ok :: "'b bolt \<Rightarrow> bool" where
  "bolt_ok B \<longleftrightarrow>
     (\<forall>b k v b'. bo_put B k v b = Some b' \<longrightarrow> (\<forall>k'. bo_get B b' k' = (if k' = k then Some v else bo_get B b k')))
     \<and> (\<forall>b. finite (keys_of B b))
     \<and> (\<forall>b k. bo_seek B b k = first_of {x \<in> keys_of B b. k \<le> x})
     \<and> (\<forall>b k. bo_prev B b k = last_of {x \<in> keys_of B b. x < k})
     \<and> (\<forall>b. bo_last B b = last_of (keys_of B b))"

lemma bolt_okD:
  assumes "bolt_ok B"
  shows "bo_put B k v b = Some b' \<Longrightarrow> bo_get B b' k' = (if k' = k then Some v else bo_get B b k')"
    and "finite (keys_of B b)" and "bo_seek B b k = first_of {x \<in> keys_of B b. k \<le> x}"
    and "bo_prev B b k = last_of {x \<in> keys_of B b. x < k}" and "bo_last B b = last_of (keys_of B b)"
  using assms by (simp_all add: bolt_ok_def)

lemma put_in_Inr: "put_in B k v b = Inr b' \<longleftrightarrow> bo_put B k v b = Some b'"
  by (simp add: put_in_def split: option.split)

lemma put_get:
  assumes "bolt_ok B" and "put_in B k v b = Inr b'"
  shows "bo_get B b' k' = (if k' = k then Some v else bo_get B b k')"
  using bolt_okD(1) [OF assms(1)] assms(2) by (simp add: put_in_Inr)

lemma put_keys: "bolt_ok B \<Longrightarrow> put_in B k v b = Inr b' \<Longrightarrow> keys_of B b' = insert k (keys_of B b)"
  by (auto simp: keys_of_def put_get)

subsection \<open>Descending lists\<close>

definition desc :: "bytes set \<Rightarrow> bytes list" where
  "desc S = rev (sorted_list_of_set S)"

lemma set_desc [simp]: "finite S \<Longrightarrow> set (desc S) = S"
  by (simp add: desc_def)

lemma sorted_desc: "sorted_wrt (>) (desc S)"
  by (simp add: desc_def sorted_wrt_rev)

lemma desc_unique: "sorted_wrt (>) xs \<Longrightarrow> desc (set xs) = xs"
proof -
  assume s: "sorted_wrt (>) xs"
  then have "sorted_wrt (<) (rev xs)" by (simp add: sorted_wrt_rev)
  then have "sorted_list_of_set (set (rev xs)) = rev xs"
    by (intro sorted_list_of_set.idem_if_sorted_distinct) (simp_all add: strict_sorted_iff)
  then show ?thesis by (simp add: desc_def)
qed

lemma desc_Max:
  assumes "finite S" and "S \<noteq> {}"
  shows "desc S = Max S # desc {x \<in> S. x < Max S}"
proof -
  let ?S = "{x \<in> S. x < Max S}"
  have f: "finite ?S" using assms(1) by simp
  have "insert (Max S) ?S = S"
  proof (intro equalityI subsetI)
    fix x assume "x \<in> insert (Max S) ?S"
    with Max_in [OF assms] show "x \<in> S" by (elim insertE) simp_all
  next
    fix x assume x: "x \<in> S"
    show "x \<in> insert (Max S) ?S"
    proof (cases "x = Max S")
      case False
      have "x < Max S" by (rule le_neq_trans [OF Max_ge [OF assms(1) x] False])
      with x show ?thesis by blast
    qed blast
  qed
  then have e: "set (Max S # desc ?S) = S" by (simp only: list.set set_desc [OF f])
  have "sorted_wrt (>) (Max S # desc ?S)" using sorted_desc [of ?S] f by simp
  from desc_unique [OF this] show ?thesis by (simp only: e)
qed

lemma filter_desc: "finite S \<Longrightarrow> filter P (desc S) = desc {x \<in> S. P x}"
  using desc_unique [of "filter P (desc S)"] sorted_desc [of S] by (simp add: sorted_wrt_filter)

lemma takeWhile_desc:
  assumes "sorted_wrt (>) xs" and "\<And>x y. x \<in> set xs \<Longrightarrow> y \<in> set xs \<Longrightarrow> Q x \<Longrightarrow> \<not> Q y \<Longrightarrow> y < x"
  shows "takeWhile Q xs = filter Q (xs :: bytes list)"
  using assms
proof (induction xs)
  case (Cons a xs)
  show ?case
  proof (cases "Q a")
    case True
    with Cons show ?thesis by simp
  next
    case False
    have "\<not> Q x" if x: "x \<in> set xs" for x
    proof
      assume "Q x"
      then have "a < x" using x False by (intro Cons.prems(2)) simp_all
      with Cons.prems(1) x show False by (auto dest: less_not_sym)
    qed
    with False show ?thesis by (simp add: filter_False)
  qed
qed simp

subsection \<open>The byte order\<close>

lemma less_append [simp]: "(zs @ xs < zs @ ys) = (xs < (ys :: bytes))"
  by (induction zs) simp_all

lemma prefix_le: "xs \<le> xs @ (ys :: bytes)"
  by (induction xs) simp_all

lemma below_bar: "k < p @ [bar + 1] \<Longrightarrow> k < p @ [bar] \<or> has_prefix k (p @ [bar])"
proof (induction p arbitrary: k)
  case Nil
  have "x < bar + 1 \<longleftrightarrow> x < bar \<or> x = bar" for x :: u8
    by (simp add: bar_def word_less_nat_alt word_unat_eq_iff) arith
  with Nil show ?case by (cases k) (auto simp: has_prefix_def)
next
  case (Cons a p)
  then show ?case by (cases k) (auto simp: has_prefix_def)
qed

lemma prefix_below: "has_prefix k (p @ [bar]) \<Longrightarrow> k < p @ [bar + 1]"
proof -
  assume "has_prefix k (p @ [bar])"
  then obtain r where "k = p @ [bar] @ r" by (metis append.assoc append_take_drop_id has_prefix_def)
  moreover have "bar < bar + (1 :: u8)" by (simp add: bar_def word_less_nat_alt)
  ultimately show ?thesis by simp
qed

lemma prefix_above: "has_prefix k pre \<Longrightarrow> x < pre \<Longrightarrow> x < k"
  by (metis append_take_drop_id has_prefix_def order_less_le_trans prefix_le)

text \<open>Big-endian numbers are ordered like their bytes.\<close>

fun be_val :: "bytes \<Rightarrow> nat" where
  "be_val [] = 0"
| "be_val (b # bs) = unat b * 256 ^ length bs + be_val bs"

lemma digit_less:
  assumes "u < 256" and "v < K"
  shows "u * K + v < 256 * (K :: nat)"
proof -
  have "u * K + v < (u + 1) * K" using assms(2) by simp
  also have "\<dots> \<le> 256 * K" using assms(1) by (intro mult_le_mono1) simp
  finally show ?thesis .
qed

lemma be_val_less: "be_val bs < 256 ^ length bs"
proof (induction bs)
  case (Cons b bs)
  have "unat b < 256" using unsigned_less [of b, where 'a = nat] by simp
  from digit_less [OF this Cons.IH] show ?case by simp
qed simp

lemma lex_val: "length xs = length ys \<Longrightarrow> xs < ys \<longleftrightarrow> be_val xs < be_val ys"
proof (induction xs ys rule: list_induct2)
  case (Cons x xs y ys)
  have step: "unat u * 256 ^ length xs + be_val us < unat v * 256 ^ length xs + be_val vs"
    if "u < v" "length us = length xs" for u v :: u8 and us vs
  proof -
    have "(unat u + 1) * 256 ^ length xs \<le> unat v * 256 ^ length xs"
      using that(1) by (intro mult_le_mono1) (simp add: word_less_nat_alt)
    with be_val_less [of us] that(2) show ?thesis by simp
  qed
  show ?case
    using step [of x y xs ys] step [of y x ys xs] Cons by (cases x y rule: linorder_cases) auto
qed simp

lemma be_val_be64: "be_val (be64 x) = unat x"
proof -
  have s: "unat x div (256 * m) * 256 + unat x div m mod 256 = unat x div m" for m
    by (metis div_mult2_eq div_mult_mod_eq mult.commute)
  have u: "[0 ..< 8] = [0, 1, 2, 3, 4, 5, 6, 7 :: nat]" by (simp add: upt_rec)
  have m: "unat x mod 18446744073709551616 = unat x" using unsigned_less [of x, where 'a = nat] by simp
  have d: "unat (ucast (drop_bit k x) :: u8) = unat x div 2 ^ k mod 256" for k
    by (simp add: unsigned_ucast_eq take_bit_eq_mod unsigned_drop_bit_eq) (simp add: drop_bit_eq_div m)
  have z: "unat (ucast x :: u8) = unat x mod 256" using d [of 0] by simp
  have t: "unat x div 18446744073709551616 = 0" using unsigned_less [of x, where 'a = nat] by simp
  have "be_val (be64 x) = unat x div 72057594037927936 mod 256 * 72057594037927936 + (unat x div 281474976710656 mod 256 * 281474976710656
      + (unat x div 1099511627776 mod 256 * 1099511627776 + (unat x div 4294967296 mod 256 * 4294967296
      + (unat x div 16777216 mod 256 * 16777216 + (unat x div 65536 mod 256 * 65536 + (unat x div 256 mod 256 * 256 + unat x mod 256))))))"
    by (simp add: be64_def u d z)
  also have "\<dots> = unat x"
    using div_mult_mod_eq [of "unat x" 256] s [of 256, simplified] s [of 65536, simplified] s [of 16777216, simplified]
      s [of 4294967296, simplified] s [of 1099511627776, simplified] s [of 281474976710656, simplified]
      s [of 72057594037927936, simplified t, simplified] t
    by linarith
  finally show ?thesis .
qed

lemma be64_less: "be64 x < be64 y \<longleftrightarrow> x < y"
  using lex_val [of "be64 x" "be64 y"] by (simp add: be_val_be64 word_less_nat_alt)

lemma append_less: "length xs = length ys \<Longrightarrow> xs @ us < ys @ vs \<longleftrightarrow> xs < ys \<or> xs = ys \<and> us < (vs :: bytes)"
  by (induction xs ys rule: list_induct2) auto

lemma be64_inject [simp]: "be64 x = be64 y \<longleftrightarrow> x = y"
  by (metis of_be_be64)

lemma key_less: "addr_tx_key a h s < addr_tx_key a h' s' \<longleftrightarrow> h < h' \<or> h = h' \<and> str_bytes s < str_bytes s'"
  by (simp add: addr_tx_key_def append_less be64_less)

subsection \<open>The cursor\<close>

text \<open>The loop visits, from the greatest key of a lower part of the bucket on, all smaller keys.\<close>

lemma addr_loop_visits:
  assumes ok: "bolt_ok B" and "finite S" and "S \<subseteq> keys_of B b" and "\<And>x y. x \<in> S \<Longrightarrow> y \<in> keys_of B b \<Longrightarrow> y < x \<Longrightarrow> y \<in> S"
  shows "addr_loop B b pre limit before (last_of S) out =
    Some (out @ take (nat (limit - int (length out))) (List.map_filter (ref_of pre before) (takeWhile (\<lambda>k. has_prefix k pre) (desc S))))"
  using assms(2-4)
proof (induction "card S" arbitrary: S out rule: less_induct)
  case less
  show ?case
  proof (cases "S = {}")
    case True
    then show ?thesis by (simp add: last_of_def addr_loop.simps desc_def List.map_filter_def)
  next
    case False
    let ?key = "Max S" and ?S = "{x \<in> S. x < Max S}"
    have key: "?key \<in> S" using less.prems(1) False by (rule Max_in)
    have prev: "bo_prev B b ?key = last_of ?S"
    proof -
      have "{x \<in> keys_of B b. x < ?key} = ?S" using less.prems(2,3) key by blast
      then show ?thesis by (simp add: bolt_okD(4) [OF ok])
    qed
    have IH: "addr_loop B b pre limit before (last_of ?S) out' =
        Some (out' @ take (nat (limit - int (length out'))) (List.map_filter (ref_of pre before) (takeWhile (\<lambda>k. has_prefix k pre) (desc ?S))))" for out'
    proof (rule less.hyps)
      show "card ?S < card S" using key by (intro psubset_card_mono less.prems(1)) auto
      show "finite ?S" "?S \<subseteq> keys_of B b" using less.prems(1,2) by auto
      show "y \<in> ?S" if "x \<in> ?S" "y \<in> keys_of B b" "y < x" for x y
        using that less.prems(3) [of x y] by (auto intro: less_trans)
    qed
    have last: "last_of S = Some ?key" using False by (simp add: last_of_def)
    have d: "desc S = ?key # desc ?S" by (rule desc_Max [OF less.prems(1) False])
    have u: "addr_loop B b pre limit before (Some ?key) out =
      (if limit \<le> int (length out) then Some out else if \<not> has_prefix ?key pre then Some out
       else case ref_of pre before ?key of None \<Rightarrow> addr_loop B b pre limit before (last_of ?S) out
            | Some r \<Rightarrow> addr_loop B b pre limit before (last_of ?S) (out @ [r]))"
      by (subst addr_loop.simps) (simp add: prev split: option.split)
    show ?thesis
    proof (cases "\<not> limit \<le> int (length out) \<and> has_prefix ?key pre")
      case True
      then have "nat (limit - int (length out)) = Suc (nat (limit - int (length (out @ [r]))))" for r by simp arith
      with True show ?thesis by (simp add: last u d IH List.map_filter_def split: option.split)
    next
      case False
      then show ?thesis by (auto simp: last u d List.map_filter_def)
    qed
  qed
qed

lemma last_of_upper:
  assumes "bolt_ok B"
  shows "(case bo_seek B b upper of None \<Rightarrow> bo_last B b | Some key \<Rightarrow> bo_prev B b key) = last_of {x \<in> keys_of B b. x < upper}"
proof (cases "{x \<in> keys_of B b. upper \<le> x} = {}")
  case True
  then have "{x \<in> keys_of B b. x < upper} = keys_of B b" by (auto simp: not_le)
  with True show ?thesis by (simp add: bolt_okD [OF assms] first_of_def)
next
  case False
  let ?U = "{x \<in> keys_of B b. upper \<le> x}"
  have f: "finite ?U" using bolt_okD(2) [OF assms, of b] by simp
  have m: "Min ?U \<in> ?U" by (rule Min_in [OF f False])
  have "x < Min ?U \<longleftrightarrow> x < upper" if "x \<in> keys_of B b" for x
    using that m Min_le [OF f, of x] by (auto simp: not_le [symmetric] intro: order_trans)
  then have "{x \<in> keys_of B b. x < Min ?U} = {x \<in> keys_of B b. x < upper}" by blast
  then have p: "bo_prev B b (Min ?U) = last_of {x \<in> keys_of B b. x < upper}" by (simp only: bolt_okD(4) [OF assms])
  have "bo_seek B b upper = Some (Min ?U)" using False by (simp only: bolt_okD(3) [OF assms] first_of_def if_False)
  then show ?thesis by (simp only: option.case p)
qed

lemma address_txs_visits:
  assumes ok: "bolt_ok B"
  shows "address_txs B addr limit before d = Some (take (nat (if limit \<le> 0 \<or> 500 < limit then 50 else limit))
    (List.map_filter (ref_of (str_bytes addr @ [bar]) before) (desc {k \<in> keys_of B (d_addrtxs d). has_prefix k (str_bytes addr @ [bar])})))"
proof -
  let ?K = "keys_of B (d_addrtxs d)" and ?pre = "str_bytes addr @ [bar]" and ?upper = "str_bytes addr @ [bar + 1]"
  let ?S = "{x \<in> ?K. x < ?upper}"
  have f: "finite ?S" using bolt_okD(2) [OF ok, of "d_addrtxs d"] by simp
  have "takeWhile (\<lambda>k. has_prefix k ?pre) (desc ?S) = filter (\<lambda>k. has_prefix k ?pre) (desc ?S)"
  proof (rule takeWhile_desc [OF sorted_desc])
    fix x y assume "x \<in> set (desc ?S)" "y \<in> set (desc ?S)" "has_prefix x ?pre" "\<not> has_prefix y ?pre"
    then show "y < x" using f below_bar [of y "str_bytes addr"] prefix_above [of x ?pre y] by auto
  qed
  also have "\<dots> = desc {k \<in> ?K. has_prefix k ?pre}"
    using prefix_below [of _ "str_bytes addr"] by (auto simp: filter_desc [OF f] intro!: arg_cong [where f = desc])
  finally have w: "takeWhile (\<lambda>k. has_prefix k ?pre) (desc ?S) = desc {k \<in> ?K. has_prefix k ?pre}" .
  have "addr_loop B (d_addrtxs d) ?pre l before (last_of ?S) [] =
      Some ([] @ take (nat (l - int (length ([] :: tx_ref list)))) (List.map_filter (ref_of ?pre before) (takeWhile (\<lambda>k. has_prefix k ?pre) (desc ?S))))" for l
    by (rule addr_loop_visits [OF ok f]) (auto intro: less_trans)
  then show ?thesis by (simp add: address_txs_def Let_def last_of_upper [OF ok] w)
qed

subsection \<open>What the blocks put into the index\<close>

lemma put_addrs_keys:
  "bolt_ok B \<Longrightarrow> put_addrs B height h as b = Inr b' \<Longrightarrow> keys_of B b' = (\<lambda>a. addr_tx_key a height h) ` set as \<union> keys_of B b"
  by (induction as arbitrary: b) (auto simp: rbind_eq_Inr put_keys)

definition index_keys :: "'z ext_scheme \<Rightarrow> block \<Rightarrow> bytes set" where
  "index_keys E b = {addr_tx_key a (h_Height (b_Header b)) (tx_hash E t) | a t. t \<in> set (b_Txs b) \<and> a \<in> set (tx_addrs t)}"

lemma index_txs_keys:
  "bolt_ok B \<Longrightarrow> index_txs E B height ts d = Inr d' \<Longrightarrow>
     keys_of B (d_addrtxs d') = {addr_tx_key a height (tx_hash E t) | a t. t \<in> set ts \<and> a \<in> set (tx_addrs t)} \<union> keys_of B (d_addrtxs d)
     \<and> d_blocks d' = d_blocks d \<and> d_byhash d' = d_byhash d \<and> d_meta d' = d_meta d"
proof (induction ts arbitrary: d)
  case (Cons t ts)
  from Cons.prems(2) obtain idx adr where p: "put_addrs B height (tx_hash E t) (tx_addrs t) (d_addrtxs d) = Inr adr"
    and r: "index_txs E B height ts (d\<lparr>d_txindex := idx, d_addrtxs := adr\<rparr>) = Inr d'" by (auto simp: rbind_eq_Inr)
  from Cons.IH [OF Cons.prems(1) r] put_addrs_keys [OF Cons.prems(1) p] show ?case by auto
qed simp

lemma save_block_parts:
  assumes "save_block E B b d = Inr d'"
  obtains data d1 where "encode_block b = Inr data" "put_in B (height_key (h_Height (b_Header b))) data (d_blocks d) = Inr (d_blocks d1)"
    "put_in B (str_bytes (b_Hash b)) (height_key (h_Height (b_Header b))) (d_byhash d) = Inr (d_byhash d1)"
    "index_txs E B (h_Height (b_Header b)) (b_Txs b) (d\<lparr>d_blocks := d_blocks d1, d_byhash := d_byhash d1\<rparr>) = Inr d1"
    "d_blocks d' = d_blocks d1" "d_byhash d' = d_byhash d1" "d_addrtxs d' = d_addrtxs d1" "d_txindex d' = d_txindex d1"
    "put_in B keyHeight (height_key (h_Height (b_Header b))) (d_meta d1) = Inr (d_meta d')"
proof -
  from assms obtain data blocks byhash d1 meta where p: "encode_block b = Inr data"
    "put_in B (height_key (h_Height (b_Header b))) data (d_blocks d) = Inr blocks"
    "put_in B (str_bytes (b_Hash b)) (height_key (h_Height (b_Header b))) (d_byhash d) = Inr byhash"
    "index_txs E B (h_Height (b_Header b)) (b_Txs b) (d\<lparr>d_blocks := blocks, d_byhash := byhash\<rparr>) = Inr d1" "d' = d1\<lparr>d_meta := meta\<rparr>" "put_in B keyHeight (height_key (h_Height (b_Header b))) (d_meta d1) = Inr meta"
    by (auto simp: save_block_def Let_def rbind_eq_Inr)
  have "d_blocks x = d_blocks y \<and> d_byhash x = d_byhash y" if "index_txs E B h ts y = Inr x" for h ts x y
    using that by (induction ts arbitrary: y) (fastforce simp: rbind_eq_Inr)+
  from this [OF p(4)] have e: "blocks = d_blocks d1" "byhash = d_byhash d1" by simp_all
  show thesis by (rule that [of data d1]) (use p e in simp_all)
qed

lemma save_block_keys:
  "bolt_ok B \<Longrightarrow> save_block E B b d = Inr d' \<Longrightarrow> keys_of B (d_addrtxs d') = index_keys E b \<union> keys_of B (d_addrtxs d)"
  by (erule save_block_parts) (auto dest!: index_txs_keys simp: index_keys_def)

fun save_all :: "'z ext_scheme \<Rightarrow> 'b bolt \<Rightarrow> block list \<Rightarrow> 'b db \<Rightarrow> store_err + 'b db" where
  "save_all E B [] d = Inr d"
| "save_all E B (b # bs) d = rbind (save_block E B b d) (save_all E B bs)"

lemma save_all_keys:
  "bolt_ok B \<Longrightarrow> save_all E B bs d = Inr d' \<Longrightarrow> keys_of B (d_addrtxs d') = (\<Union>b \<in> set bs. index_keys E b) \<union> keys_of B (d_addrtxs d)"
  by (induction bs arbitrary: d) (auto simp: rbind_eq_Inr save_block_keys)

lemma index_txs_heights:
  "bolt_ok B \<Longrightarrow> index_txs E B height ts d = Inr d' \<Longrightarrow>
     bo_get B (d_txindex d') k = (if \<exists>t \<in> set ts. k = str_bytes (tx_hash E t) then Some (height_key height) else bo_get B (d_txindex d) k)"
proof (induction ts arbitrary: d)
  case (Cons t ts)
  from Cons.prems(2) obtain idx adr where p: "put_in B (str_bytes (tx_hash E t)) (height_key height) (d_txindex d) = Inr idx"
    and r: "index_txs E B height ts (d\<lparr>d_txindex := idx, d_addrtxs := adr\<rparr>) = Inr d'" by (auto simp: rbind_eq_Inr)
  from Cons.IH [OF Cons.prems(1) r] put_get [OF Cons.prems(1) p] show ?case by auto
qed simp

lemma read_height_key: "bo_get B b k = Some (height_key h) \<Longrightarrow> read_height B b k = Some (Some h)"
  by (simp add: read_height_def uint64_at_def height_key_def)

text \<open>What one saved block answers to the queries.\<close>

lemma saved_block_answers:
  assumes ok: "bolt_ok B" and s: "save_block E B b d = Inr d'"
  shows "bo_get B (d_byhash d') (str_bytes hash) = (if hash = b_Hash b then Some (height_key (h_Height (b_Header b))) else bo_get B (d_byhash d) (str_bytes hash))"
    and "tx_height B hash d' = (if \<exists>t \<in> set (b_Txs b). hash = tx_hash E t then Some (Some (h_Height (b_Header b))) else tx_height B hash d)"
    and "last_height B d' = Some (Some (h_Height (b_Header b)))"
    and "block_fits b \<Longrightarrow> get_block json B (h_Height (b_Header b)) d' = Inr (Some b)"
proof -
  let ?h = "h_Height (b_Header b)"
  from s obtain data d1 where p: "encode_block b = Inr data" "put_in B (height_key ?h) data (d_blocks d) = Inr (d_blocks d1)"
    "put_in B (str_bytes (b_Hash b)) (height_key ?h) (d_byhash d) = Inr (d_byhash d1)"
    "index_txs E B ?h (b_Txs b) (d\<lparr>d_blocks := d_blocks d1, d_byhash := d_byhash d1\<rparr>) = Inr d1"
    "d_blocks d' = d_blocks d1" "d_byhash d' = d_byhash d1" "d_txindex d' = d_txindex d1"
    "put_in B keyHeight (height_key ?h) (d_meta d1) = Inr (d_meta d')" by (rule save_block_parts) blast
  show "bo_get B (d_byhash d') (str_bytes hash) = (if hash = b_Hash b then Some (height_key ?h) else bo_get B (d_byhash d) (str_bytes hash))"
    using put_get [OF ok p(3)] by (simp add: p)
  show "tx_height B hash d' = (if \<exists>t \<in> set (b_Txs b). hash = tx_hash E t then Some (Some ?h) else tx_height B hash d)"
  proof (cases "\<exists>t \<in> set (b_Txs b). hash = tx_hash E t")
    case True
    then have "bo_get B (d_txindex d1) (str_bytes hash) = Some (height_key ?h)"
      using index_txs_heights [OF ok p(4), of "str_bytes hash"] by simp
    with True show ?thesis by (simp add: tx_height_def p(7) read_height_key)
  next
    case False
    then show ?thesis using index_txs_heights [OF ok p(4), of "str_bytes hash"] by (simp add: tx_height_def p(7) read_height_def)
  qed
  show "last_height B d' = Some (Some ?h)"
    using put_get [OF ok p(8), of keyHeight] by (simp add: last_height_def read_height_key)
  assume "block_fits b"
  then obtain bs where "block_marshal b = Inr bs" "block_unmarshal bs = Inr b" using block_unmarshal_marshal by blast
  with p(1) have "decode_block json data = Inr (Some b)"
    by (auto simp: encode_block_def decode_block_def blockTagBinaryV1_def blockTagLegacyJSON_def)
  with put_get [OF ok p(2), of "height_key ?h"] show "get_block json B ?h d' = Inr (Some b)" by (simp add: get_block_def p(5))
qed

subsection \<open>Reading back\<close>


text \<open>A key-value store in memory, over the finite maps.\<close>

definition memory_bolt :: "(bytes, bytes) fmap bolt" where
  "memory_bolt = \<lparr>bo_get = fmlookup, bo_put = (\<lambda>k v m. if k = [] then None else Some (fmupd k v m)),
     bo_seek = (\<lambda>m k. first_of {x \<in> fset (fmdom m). k \<le> x}), bo_prev = (\<lambda>m k. last_of {x \<in> fset (fmdom m). x < k}),
     bo_last = (\<lambda>m. last_of (fset (fmdom m)))\<rparr>"

lemma memory_keys: "keys_of memory_bolt m = fset (fmdom m)"
  by (auto simp: keys_of_def memory_bolt_def fmlookup_dom_iff)

lemma memory_bolt_ok: "bolt_ok memory_bolt"
  unfolding bolt_ok_def memory_keys by (auto simp: memory_bolt_def split: if_splits)

lemma memory_put: "k \<noteq> [] \<Longrightarrow> put_in memory_bolt k v m = Inr (fmupd k v m)"
  by (simp add: put_in_def memory_bolt_def)

lemma memory_addrs: "\<exists>m'. put_addrs memory_bolt height h as m = Inr m'"
  by (induction as arbitrary: m) (simp_all add: memory_put addr_tx_key_def)

lemma memory_index: "(\<And>t. t \<in> set ts \<Longrightarrow> tx_hash E t \<noteq> []) \<Longrightarrow> \<exists>d'. index_txs E memory_bolt height ts d = Inr d'"
proof (induction ts arbitrary: d)
  case (Cons t ts)
  obtain adr where "put_addrs memory_bolt height (tx_hash E t) (tx_addrs t) (d_addrtxs d) = Inr adr" using memory_addrs by blast
  moreover have "str_bytes (tx_hash E t) \<noteq> []" using Cons.prems [of t] by (simp add: str_bytes_def)
  ultimately show ?case using Cons.IH [of "d\<lparr>d_txindex := i, d_addrtxs := adr\<rparr>" for i] Cons.prems by (simp add: memory_put)
qed simp

lemma memory_save:
  assumes "block_fits b" and "b_Hash b \<noteq> []" and "\<And>t. t \<in> set (b_Txs b) \<Longrightarrow> tx_hash E t \<noteq> []"
  shows "\<exists>d'. save_block E memory_bolt b d = Inr d'"
proof -
  obtain bs where m: "block_marshal b = Inr bs" using block_unmarshal_marshal [OF assms(1)] by blast
  have "height_key h \<noteq> []" "str_bytes (b_Hash b) \<noteq> []" "keyHeight \<noteq> []" for h
    using assms(2) by (simp_all add: height_key_def be64_def str_bytes_def keyHeight_def)
  moreover have "\<exists>d'. index_txs E memory_bolt (h_Height (b_Header b)) (b_Txs b) x = Inr d'" for x
    by (rule memory_index) (rule assms(3))
  ultimately show ?thesis using m
    by (simp add: save_block_def encode_block_def Let_def memory_put) (metis rbind_Inr)
qed

definition empty_db :: "(bytes, bytes) fmap db" where
  "empty_db = \<lparr>d_blocks = fmempty, d_txindex = fmempty, d_byhash = fmempty, d_addrtxs = fmempty, d_meta = fmempty\<rparr>"


subsection \<open>After a reorganisation\<close>

text \<open>
  C32. The indexes of an abandoned block are not removed. When a block is replaced by another of the
  same height, the hash of the old block gives the new block, and the transactions of the old block still
  give the height, although the block stored there need not contain them.
\<close>

theorem replaced_block_still_indexed:
  assumes "bolt_ok B" and "save_block E B b1 d = Inr d1" and "save_block E B b2 d1 = Inr d2" and "block_fits b2"
    and "h_Height (b_Header b2) = h_Height (b_Header b1)" and "b_Hash b2 \<noteq> b_Hash b1"
  shows "block_by_hash json B (b_Hash b1) d2 = Some (Inr (Some b2))
    \<and> (\<forall>t \<in> set (b_Txs b1). tx_height B (tx_hash E t) d2 = Some (Some (h_Height (b_Header b2))))"
proof
  have "bo_get B (d_byhash d2) (str_bytes (b_Hash b1)) = Some (height_key (h_Height (b_Header b2)))"
    using saved_block_answers(1) [OF assms(1,3)] saved_block_answers(1) [OF assms(1,2)] assms(5,6) by simp
  then show "block_by_hash json B (b_Hash b1) d2 = Some (Inr (Some b2))"
    using saved_block_answers(4) [OF assms(1,3,4)] by (simp add: block_by_hash_def read_height_key)
  show "\<forall>t \<in> set (b_Txs b1). tx_height B (tx_hash E t) d2 = Some (Some (h_Height (b_Header b2)))"
    using saved_block_answers(2) [OF assms(1,3)] saved_block_answers(2) [OF assms(1,2)] assms(5) by auto
qed

theorem replaced_block_still_indexed_witness:
  "\<exists>d1 d2. save_block sample_hash memory_bolt sample_block empty_db = Inr d1 \<and> save_block sample_hash memory_bolt (sample_block\<lparr>b_Hash := ''ii''\<rparr>) d1 = Inr d2
     \<and> block_by_hash (\<lambda>_. None) memory_bolt ''hh'' d2 = Some (Inr (Some (sample_block\<lparr>b_Hash := ''ii''\<rparr>)))"
proof -
  let ?b = "sample_block\<lparr>b_Hash := ''ii''\<rparr>"
  have f: "block_fits ?b" using sample_block_fits by (simp add: block_fits_def str_ok_def MaxBytesLen_def)
  obtain d1 where s1: "save_block sample_hash memory_bolt sample_block empty_db = Inr d1"
    using memory_save [OF sample_block_fits] by (force simp: sample_block_def)
  obtain d2 where s2: "save_block sample_hash memory_bolt ?b d1 = Inr d2"
    using memory_save [OF f, of sample_hash d1] by (auto simp: sample_block_def)
  have h: "b_Hash sample_block = ''hh''" by (simp add: sample_block_def)
  from replaced_block_still_indexed [OF memory_bolt_ok s1 s2 f] s1 s2 h show ?thesis by auto
qed

subsection \<open>The history of an address\<close>

lemma split_bar: "z \<notin> set xs \<Longrightarrow> z \<notin> set ys \<Longrightarrow> xs @ z # us = ys @ z # vs \<longleftrightarrow> xs = ys \<and> us = vs"
proof (induction xs arbitrary: ys)
  case Nil
  then show ?case by (cases ys) auto
next
  case (Cons x xs)
  then show ?case by (cases ys) auto
qed

lemma bar_in: "bar \<in> set (str_bytes a) \<longleftrightarrow> CHR ''|'' \<in> set a"
proof -
  have "bar = word_of_nat (of_char c) \<longleftrightarrow> c = CHR ''|''" for c :: char
  proof
    assume "bar = word_of_nat (of_char c)"
    then have "unat (word_of_nat (of_char c) :: u8) = 124" by (simp add: bar_def)
    then have "of_char c = (of_char CHR ''|'' :: nat)" by (simp only: unat_of_char) simp
    then show "c = CHR ''|''" by (rule of_char_eq_iff [THEN iffD1])
  qed (simp add: bar_def)
  then show ?thesis by (simp add: str_bytes_def image_iff)
qed

lemma has_prefix_iff: "has_prefix k pre \<longleftrightarrow> (\<exists>r. k = pre @ r)"
proof
  assume "has_prefix k pre"
  then have "k = pre @ drop (length pre) k" using append_take_drop_id [of "length pre" k] by (simp add: has_prefix_def)
  then show "\<exists>r. k = pre @ r" ..
qed (auto simp: has_prefix_def)

lemma key_prefix:
  assumes "CHR ''|'' \<notin> set a" and "CHR ''|'' \<notin> set addr"
  shows "has_prefix (addr_tx_key a h s) (str_bytes addr @ [bar]) \<longleftrightarrow> a = addr"
proof
  assume "has_prefix (addr_tx_key a h s) (str_bytes addr @ [bar])"
  then obtain r where "str_bytes a @ bar # be64 h @ [bar] @ str_bytes s = str_bytes addr @ bar # r"
    by (auto simp: has_prefix_iff addr_tx_key_def)
  with assms show "a = addr" by (subst (asm) split_bar) (simp_all add: bar_in)
qed (simp add: has_prefix_def addr_tx_key_def)

lemma ref_of_key:
  "ref_of (str_bytes addr @ [bar]) before (addr_tx_key addr h s) =
     (if 0 < before \<and> before \<le> h then None else Some \<lparr>tr_Hash = s, tr_Height = h\<rparr>)"
proof -
  have "drop 9 (be64 h @ bar # str_bytes s) = str_bytes s" by (simp add: drop_Cons')
  then show ?thesis by (simp add: ref_of_def addr_tx_key_def Let_def)
qed

lemma sorted_map_filter:
  assumes "sorted_wrt R xs" and "\<And>x y a c. x \<in> set xs \<Longrightarrow> y \<in> set xs \<Longrightarrow> R x y \<Longrightarrow> f x = Some a \<Longrightarrow> f y = Some c \<Longrightarrow> Q a c"
  shows "sorted_wrt Q (List.map_filter f xs)"
  using assms by (induction xs) (force simp: List.map_filter_def split: option.splits)+

lemma set_map_filter: "set (List.map_filter f xs) = {y. \<exists>x \<in> set xs. f x = Some y}"
  by (induction xs) (auto simp: List.map_filter_def split: option.splits)

definition newer :: "tx_ref \<Rightarrow> tx_ref \<Rightarrow> bool" where
  "newer r s \<longleftrightarrow> tr_Height s < tr_Height r \<or> tr_Height s = tr_Height r \<and> str_bytes (tr_Hash s) < str_bytes (tr_Hash r)"

definition involved :: "'z ext_scheme \<Rightarrow> block list \<Rightarrow> string \<Rightarrow> u64 \<Rightarrow> tx_ref set" where
  "involved E bs addr before = {\<lparr>tr_Hash = tx_hash E t, tr_Height = h_Height (b_Header b)\<rparr> | b t.
     b \<in> set bs \<and> t \<in> set (b_Txs b) \<and> addr \<in> set (tx_addrs t) \<and> \<not> (0 < before \<and> before \<le> h_Height (b_Header b))}"


lemma single_list: "distinct xs \<Longrightarrow> set xs = {x} \<Longrightarrow> xs = [x]"
  by (cases xs; cases "tl xs") auto

definition one_tx_block :: "transaction \<Rightarrow> block" where
  "one_tx_block t = sample_block\<lparr>b_Txs := [t]\<rparr>"

lemma one_tx_fits: "tx_fits t \<Longrightarrow> length (tx_marshal t) \<le> MaxBytesLen \<Longrightarrow> block_fits (one_tx_block t)"
  using sample_block_fits by (simp add: block_fits_def one_tx_block_def sample_block_def)

lemma sample_tx_length: "length (tx_marshal sample_tx) \<le> MaxBytesLen"
proof -
  have "length (tx_marshal sample_tx) < 1000" by code_simp
  then show ?thesis by (simp add: MaxBytesLen_def)
qed


text \<open>\<^verbatim>\<open>ValidateBasic\<close> does not look at the receiver of a stake transaction.\<close>

lemma stake_to_unchecked: "tx_Type t = TxStake \<Longrightarrow> validate_by_type (t\<lparr>tx_To := x\<rparr>) = validate_by_type t"
  by (simp add: validate_by_type_def TxStake_def TxTransfer_def TxCreateToken_def TxMint_def TxUnstake_def)

lemma str_bytes_bytes_str [simp]: "str_bytes (bytes_str bs) = bs"
proof -
  have "word_of_nat (of_char (char_of (unat x) :: char)) = x" for x :: u8
    using unsigned_less [of x, where 'a = nat] by simp
  then show ?thesis by (simp add: str_bytes_def bytes_str_def map_idI)
qed

text \<open>
  C33. The history of an address can be forged. The separator is not excluded from the addresses that are
  indexed: a transaction whose receiver is the address of a victim followed by the separator, eight bytes,
  the separator and any text puts an entry of that height and of a hash that begins with that text
  into the history of the victim.
\<close>

theorem history_can_be_forged:
  assumes ok: "bolt_ok B" and s: "save_block E B b d = Inr d'" and t: "t \<in> set (b_Txs b)"
    and receiver: "tx_To t = victim @ ''|'' @ bytes_str (be64 h) @ ''|'' @ fake"
    and r: "address_txs B victim limit 0 d' = Some refs" "0 < limit" "limit \<le> 500" "int (length refs) < limit"
  shows "\<lparr>tr_Hash = fake @ ''|'' @ bytes_str (be64 (h_Height (b_Header b))) @ ''|'' @ tx_hash E t, tr_Height = h\<rparr> \<in> set refs"
proof -
  let ?H = "h_Height (b_Header b)" and ?pre = "str_bytes victim @ [bar]"
  let ?k = "addr_tx_key (tx_To t) ?H (tx_hash E t)"
  have app: "str_bytes (x @ y) = str_bytes x @ str_bytes y" "str_bytes ''|'' = [bar]" for x y
    by (simp_all add: str_bytes_def bar_def)
  have "tx_To t \<in> set (tx_addrs t)" using receiver by (simp add: tx_addrs_def)
  with t have key: "?k \<in> keys_of B (d_addrtxs d')" unfolding save_block_keys [OF ok s] index_keys_def by blast
  have k: "?k = ?pre @ be64 h @ [bar] @ str_bytes (fake @ ''|'' @ bytes_str (be64 ?H) @ ''|'' @ tx_hash E t)"
    by (simp only: addr_tx_key_def receiver app str_bytes_bytes_str append.assoc)
  have p: "has_prefix ?k ?pre" by (simp add: k has_prefix_def)
  let ?S = "{k \<in> keys_of B (d_addrtxs d'). has_prefix k ?pre}"
  have f: "finite ?S" using bolt_okD(2) [OF ok, of "d_addrtxs d'"] by simp
  have "?k = addr_tx_key victim h (fake @ ''|'' @ bytes_str (be64 ?H) @ ''|'' @ tx_hash E t)"
    by (simp only: k) (simp add: addr_tx_key_def)
  then have "ref_of ?pre 0 ?k = Some \<lparr>tr_Hash = fake @ ''|'' @ bytes_str (be64 ?H) @ ''|'' @ tx_hash E t, tr_Height = h\<rparr>"
    by (simp only: ref_of_key) simp
  moreover have "refs = List.map_filter (ref_of ?pre 0) (desc ?S)"
    using r address_txs_visits [OF ok, of victim limit 0 d'] by (auto simp: min_def split: if_splits)
  ultimately show ?thesis using key p by (auto simp: set_map_filter f)
qed

definition forging_tx :: transaction where
  "forging_tx = sample_tx\<lparr>tx_Type := TxStake, tx_To := ''cg09|AAAAAAAA|beef''\<rparr>"

theorem history_can_be_forged_witness:
  "\<exists>d' refs. save_block sample_hash memory_bolt (one_tx_block forging_tx) empty_db = Inr d' \<and> address_txs memory_bolt ''cg09'' 10 0 d' = Some refs
     \<and> \<lparr>tr_Hash = ''beef|'' @ bytes_str (be64 5) @ ''|'' @ tx_hash sample_hash forging_tx, tr_Height = 0x4141414141414141\<rparr> \<in> set refs"
proof -
  let ?b = "one_tx_block forging_tx" and ?pre = "str_bytes ''cg09'' @ [bar]"
  have fits: "tx_fits forging_tx" using sample_tx_fits by (simp add: tx_fits_def forging_tx_def str_ok_def MaxBytesLen_def TxStake_def)
  have "length (tx_marshal forging_tx) < 1000" by code_simp
  then have len: "length (tx_marshal forging_tx) \<le> MaxBytesLen" by (simp add: MaxBytesLen_def)
  have n: "tx_hash sample_hash forging_tx \<noteq> []" by code_simp
  have b: "b_Txs ?b = [forging_tx]" "h_Height (b_Header ?b) = 5" "b_Hash ?b \<noteq> []" by (simp_all add: one_tx_block_def sample_block_def)
  obtain d' where s: "save_block sample_hash memory_bolt ?b empty_db = Inr d'"
    using memory_save [OF one_tx_fits [OF fits len] b(3), of sample_hash empty_db] n by (auto simp: b)
  let ?S = "{k \<in> keys_of memory_bolt (d_addrtxs d'). has_prefix k ?pre}"
  let ?refs = "List.map_filter (ref_of ?pre 0) (desc ?S)"
  have a: "tx_addrs forging_tx = [''cg01'', ''cg09|AAAAAAAA|beef'']" by (simp add: tx_addrs_def forging_tx_def sample_tx_def)
  have "index_keys sample_hash ?b = set (map (\<lambda>a. addr_tx_key a 5 (tx_hash sample_hash forging_tx)) (tx_addrs forging_tx))"
    by (auto simp: index_keys_def b)
  then have K: "keys_of memory_bolt (d_addrtxs d') = set (map (\<lambda>a. addr_tx_key a 5 (tx_hash sample_hash forging_tx)) (tx_addrs forging_tx))"
    using save_block_keys [OF memory_bolt_ok s] by (simp add: memory_keys empty_db_def)
  have "card ?S \<le> card (keys_of memory_bolt (d_addrtxs d'))" by (rule card_mono) (auto simp: K)
  also have "\<dots> \<le> length (map (\<lambda>a. addr_tx_key a 5 (tx_hash sample_hash forging_tx)) (tx_addrs forging_tx))" unfolding K by (rule card_length)
  finally have "length (desc ?S) \<le> 2" by (simp add: desc_def a)
  then have l: "length ?refs \<le> 2" by (simp add: List.map_filter_def) (meson le_trans length_filter_le)
  have v: "address_txs memory_bolt ''cg09'' 10 0 d' = Some ?refs"
    using address_txs_visits [OF memory_bolt_ok, of "''cg09''" 10 0 d'] l by simp
  have A: "bytes_str (be64 0x4141414141414141) = ''AAAAAAAA''" by code_simp
  have to: "tx_To forging_tx = ''cg09'' @ ''|'' @ bytes_str (be64 0x4141414141414141) @ ''|'' @ ''beef''"
    unfolding A by (simp add: forging_tx_def)
  have "\<lparr>tr_Hash = ''beef'' @ ''|'' @ bytes_str (be64 (h_Height (b_Header ?b))) @ ''|'' @ tx_hash sample_hash forging_tx,
      tr_Height = 0x4141414141414141\<rparr> \<in> set ?refs"
    by (rule history_can_be_forged [OF memory_bolt_ok s _ to v]) (use l in \<open>simp_all add: b\<close>)
  with s v show ?thesis unfolding b by auto
qed

end
