(* ===== verification/Transcript.thy ===== *)
theory Transcript
  imports Field
begin

text \<open>
  \<^verbatim>\<open>internal/stark/transcript.go\<close>: the Fiat-Shamir channel. The sponge is what was written to it; SHAKE256
  is the parameter \<open>xof\<close>, from all bytes written and the number of bytes read. Absorbing returns the new
  transcript, a challenge returns its value and the new transcript; \<open>None\<close> is a panic or a search that
  never ends.
\<close>

type_synonym xof = "bytes \<Rightarrow> nat \<Rightarrow> bytes"

record transcript =
  tr_sponge :: bytes

definition domDomain :: bytes where "domDomain = str_bytes ''stark/fs/domain'' @ [0]"
definition domAbsorb :: bytes where "domAbsorb = str_bytes ''stark/fs/absorb'' @ [0]"
definition domFeltChl :: bytes where "domFeltChl = str_bytes ''stark/fs/challenge-felt'' @ [0]"
definition domIdxChl :: bytes where "domIdxChl = str_bytes ''stark/fs/challenge-indices'' @ [0]"
definition domGrind :: bytes where "domGrind = str_bytes ''stark/fs/grind'' @ [0]"

subsection \<open>Absorbing\<close>

definition framed :: "bytes \<Rightarrow> bytes \<Rightarrow> bytes" where
  "framed pre data = be64 (of_nat (length pre)) @ pre @ be64 (of_nat (length data)) @ data"

definition write_framed :: "bytes \<Rightarrow> bytes \<Rightarrow> transcript \<Rightarrow> transcript" where
  "write_framed pre data t = t\<lparr>tr_sponge := tr_sponge t @ framed pre data\<rparr>"

definition new_transcript :: "string \<Rightarrow> transcript" where
  "new_transcript chan = write_framed domDomain (str_bytes chan) \<lparr>tr_sponge = []\<rparr>"

definition label_with_domain :: "bytes \<Rightarrow> string \<Rightarrow> bytes" where
  "label_with_domain chan label = chan @ [0] @ str_bytes label"

definition absorb_data :: "string \<Rightarrow> bytes \<Rightarrow> transcript \<Rightarrow> transcript" where
  "absorb_data label data t = write_framed (label_with_domain domAbsorb label) data t"

definition absorb_felt :: "string \<Rightarrow> felt \<Rightarrow> transcript \<Rightarrow> transcript" where
  "absorb_felt label x t = write_framed (label_with_domain domAbsorb label) (felt_bytes x) t"

subsection \<open>Squeezing\<close>

text \<open>A read from a clone: the request is framed with its label and a number, the clone is thrown away.\<close>

definition request :: "bytes \<Rightarrow> string \<Rightarrow> u64 \<Rightarrow> bytes" where
  "request chan label x = (let pre = label_with_domain chan label in be64 (of_nat (length pre)) @ pre @ be64 x)"

definition read_clone :: "xof \<Rightarrow> bytes \<Rightarrow> string \<Rightarrow> u64 \<Rightarrow> nat \<Rightarrow> transcript \<Rightarrow> bytes" where
  "read_clone xof chan label x n t = xof (tr_sponge t @ request chan label x) n"

definition squeeze :: "xof \<Rightarrow> bytes \<Rightarrow> string \<Rightarrow> nat \<Rightarrow> transcript \<Rightarrow> bytes \<times> transcript" where
  "squeeze xof chan label n t =
     (let out = read_clone xof chan label (of_nat n) n t
      in (out, write_framed (label_with_domain chan label) out t))"

text \<open>The 8-byte blocks of a buffer; a shorter rest is not read.\<close>

definition blocks8 :: "bytes \<Rightarrow> u64 list" where
  "blocks8 buf = map (\<lambda>i. of_be (take 8 (drop (8 * i) buf))) [0 ..< length buf div 8]"

definition squeeze_for_felt :: "xof \<Rightarrow> string \<Rightarrow> u64 \<Rightarrow> transcript \<Rightarrow> bytes \<times> transcript" where
  "squeeze_for_felt xof label counter t =
     (if counter = 0 then squeeze xof domFeltChl label 128 t
      else (read_clone xof domFeltChl label counter 128 t, t))"

partial_function (option) challenge_loop :: "xof \<Rightarrow> string \<Rightarrow> u64 \<Rightarrow> transcript \<Rightarrow> (felt \<times> transcript) option" where
  "challenge_loop xof label counter t =
     (let (buf, t') = squeeze_for_felt xof label counter t in
      case find (\<lambda>x. x < felt_P) (blocks8 buf) of
        Some x \<Rightarrow> Some (from_uint64 (x mod felt_P), t')
      | None \<Rightarrow> challenge_loop xof label (counter + 1) t')"

definition challenge :: "xof \<Rightarrow> string \<Rightarrow> transcript \<Rightarrow> (felt \<times> transcript) option" where
  "challenge xof label t = challenge_loop xof label 0 t"

subsection \<open>Indices\<close>

text \<open>The loop \<^verbatim>\<open>for (1 << bitsNeeded) < max\<close>; \<^verbatim>\<open>max\<close> is a positive \<^verbatim>\<open>int\<close>, so 63 bits are enough.\<close>

function bits_needed :: "nat \<Rightarrow> nat \<Rightarrow> nat" where
  "bits_needed b mx = (if 2 ^ b < mx then bits_needed (Suc b) mx else b)"
  by pat_completeness auto
termination
proof (relation "measure (\<lambda>(b, mx). mx - 2 ^ b)")
  show "((Suc b, mx), (b, mx)) \<in> measure (\<lambda>(b, mx). mx - 2 ^ b)" if "2 ^ b < mx" for b mx :: nat
    using that by (simp add: diff_less_mono2)
qed simp

declare bits_needed.simps [simp del]

definition index_mask :: "nat \<Rightarrow> u64" where
  "index_mask mx = (let b = bits_needed 0 mx in if 0 < b then push_bit b 1 - 1 else 0)"

definition indices_lot_size :: "nat \<Rightarrow> nat" where
  "indices_lot_size count = (let n = count * 8 * 2 in if n < 64 then 64 else n)"

definition re_squeeze_indices :: "xof \<Rightarrow> string \<Rightarrow> u64 \<Rightarrow> nat \<Rightarrow> transcript \<Rightarrow> bytes" where
  "re_squeeze_indices xof label counter n t = read_clone xof domIdxChl label counter n t"

text \<open>
  The two draws differ in one test: \<open>fresh\<close> says whether an index may still be taken. The state is the
  counter, the buffer, the offset and the indices taken; the seen set of the source is the set of these.
\<close>

partial_function (option) index_loop ::
    "xof \<Rightarrow> string \<Rightarrow> nat \<Rightarrow> nat \<Rightarrow> (nat list \<Rightarrow> nat \<Rightarrow> bool) \<Rightarrow> transcript \<Rightarrow> u64 \<Rightarrow> bytes \<Rightarrow> nat \<Rightarrow> nat list \<Rightarrow> nat list option" where
  "index_loop xof label count mx fresh t counter buf off out =
     (if count \<le> length out then Some out
      else
        let (counter, buf, off) =
              (if length buf < off + 8
               then (counter + 1, re_squeeze_indices xof label (counter + 1) (indices_lot_size count) t, 0)
               else (counter, buf, off));
            x = of_be (take 8 (drop off buf)) AND index_mask mx;
            taken = (unat x < mx \<and> fresh out (unat x))
        in index_loop xof label count mx fresh t counter buf (off + 8) (if taken then out @ [unat x] else out))"

definition draw_indices :: "xof \<Rightarrow> (nat list \<Rightarrow> nat \<Rightarrow> bool) \<Rightarrow> string \<Rightarrow> nat \<Rightarrow> nat \<Rightarrow> transcript \<Rightarrow> (nat list \<times> transcript) option" where
  "draw_indices xof fresh label count mx t =
     (if count = 0 then Some ([], t)
      else
        let (buf, t') = squeeze xof domIdxChl label (indices_lot_size count) t
        in map_option (\<lambda>out. (out, t')) (index_loop xof label count mx fresh t' 0 buf 0 []))"

definition challenge_indices :: "xof \<Rightarrow> string \<Rightarrow> int \<Rightarrow> int \<Rightarrow> transcript \<Rightarrow> (nat list \<times> transcript) option" where
  "challenge_indices xof label count mx t =
     (if mx \<le> 0 \<or> count < 0 then None
      else draw_indices xof (\<lambda>out x. True) label (nat count) (nat mx) t)"

definition challenge_indices_distinct :: "xof \<Rightarrow> string \<Rightarrow> int \<Rightarrow> int \<Rightarrow> transcript \<Rightarrow> (nat list \<times> transcript) option" where
  "challenge_indices_distinct xof label count mx t =
     (if mx \<le> 0 \<or> count < 0 \<or> mx < count then None
      else draw_indices xof (\<lambda>out x. x \<notin> set out) label (nat count) (nat mx) t)"

subsection \<open>Grinding\<close>

definition grind_digest :: "xof \<Rightarrow> string \<Rightarrow> u64 \<Rightarrow> transcript \<Rightarrow> u64" where
  "grind_digest xof label nonce t = of_be (read_clone xof domGrind label nonce 8 t)"

definition leading_zeros64 :: "u64 \<Rightarrow> nat" where
  "leading_zeros64 x = length (takeWhile (\<lambda>s. x AND push_bit s 1 = 0) (rev [0 ..< 64]))"

definition grind_ok :: "xof \<Rightarrow> string \<Rightarrow> u64 \<Rightarrow> int \<Rightarrow> transcript \<Rightarrow> bool" where
  "grind_ok xof label nonce bits t \<longleftrightarrow>
     bits \<le> 0 \<or> min bits 64 \<le> int (leading_zeros64 (grind_digest xof label nonce t))"

partial_function (option) grind_loop :: "xof \<Rightarrow> string \<Rightarrow> int \<Rightarrow> transcript \<Rightarrow> u64 \<Rightarrow> u64 option" where
  "grind_loop xof label bits t nonce =
     (if grind_ok xof label nonce bits t then Some nonce else grind_loop xof label bits t (nonce + 1))"

definition grind :: "xof \<Rightarrow> string \<Rightarrow> int \<Rightarrow> transcript \<Rightarrow> (u64 \<times> transcript) option" where
  "grind xof label bits t = map_option (\<lambda>nonce. (nonce, absorb_felt label (from_uint64 nonce) t)) (grind_loop xof label bits t 0)"

definition verify_grind :: "xof \<Rightarrow> string \<Rightarrow> u64 \<Rightarrow> int \<Rightarrow> transcript \<Rightarrow> bool \<times> transcript" where
  "verify_grind xof label nonce bits t = (grind_ok xof label nonce bits t, absorb_felt label (from_uint64 nonce) t)"

subsection \<open>Records cannot be confused\<close>

lemma be64_eq: "be64 x = be64 y \<longleftrightarrow> x = y"
  by (metis of_be_be64)

lemma framed_inject:
  assumes "framed p d @ r = framed p' d' @ r'"
    and "length p < 2 ^ 64" "length p' < 2 ^ 64" "length d < 2 ^ 64" "length d' < 2 ^ 64"
  shows "p = p' \<and> d = d' \<and> r = r'"
proof -
  have len: "(of_nat m :: u64) = of_nat n \<longleftrightarrow> m = n" if "m < 2 ^ 64" "n < 2 ^ 64" for m n
  proof -
    have "unat (of_nat m :: u64) = m" "unat (of_nat n :: u64) = n" using that by (simp_all add: unat_of_nat)
    then show ?thesis by metis
  qed
  have e: "be64 (of_nat (length p)) @ p @ be64 (of_nat (length d)) @ d @ r
      = be64 (of_nat (length p')) @ p' @ be64 (of_nat (length d')) @ d' @ r'"
    using assms(1) by (simp add: framed_def)
  then have p: "length p = length p'" "p @ be64 (of_nat (length d)) @ d @ r = p' @ be64 (of_nat (length d')) @ d' @ r'"
    using len [OF assms(2,3)] by (simp_all add: append_eq_append_conv be64_eq)
  then have "p = p'" "be64 (of_nat (length d)) @ d @ r = be64 (of_nat (length d')) @ d' @ r'" by simp_all
  moreover from this(2) have "length d = length d'" "d @ r = d' @ r'"
    using len [OF assms(4,5)] by (simp_all add: append_eq_append_conv be64_eq)
  ultimately show ?thesis by simp
qed

definition absorb_all :: "(string \<times> bytes) list \<Rightarrow> transcript \<Rightarrow> transcript" where
  "absorb_all = fold (\<lambda>(label, data). absorb_data label data)"

definition records :: "(string \<times> bytes) list \<Rightarrow> bytes" where
  "records hs = concat (map (\<lambda>(label, data). framed (label_with_domain domAbsorb label) data) hs)"

lemma sponge_absorb_all: "tr_sponge (absorb_all hs t) = tr_sponge t @ records hs"
  by (induction hs arbitrary: t) (auto simp: absorb_all_def records_def absorb_data_def write_framed_def)

definition fits :: "string \<times> bytes \<Rightarrow> bool" where
  "fits h \<longleftrightarrow> length (fst h) < 2 ^ 63 \<and> length (snd h) < 2 ^ 63"

lemma length_framed_pos [simp]: "framed p d \<noteq> []"
  by (simp add: framed_def be64_def upt_rec)

lemma records_inject: "records hs = records gs \<Longrightarrow> list_all fits hs \<Longrightarrow> list_all fits gs \<Longrightarrow> hs = gs"
proof (induction hs arbitrary: gs)
  case Nil
  then show ?case by (cases gs) (auto simp: records_def)
next
  case (Cons h hs)
  obtain g gs' where gs: "gs = g # gs'" using Cons.prems(1) by (cases gs) (auto simp: records_def split: prod.splits)
  have "length domAbsorb = 16" by (simp add: domAbsorb_def)
  then have "length (label_with_domain domAbsorb (fst x)) < 2 ^ 64" if "fits x" for x
    using that by (simp add: label_with_domain_def fits_def)
  moreover have "framed (label_with_domain domAbsorb (fst h)) (snd h) @ records hs
      = framed (label_with_domain domAbsorb (fst g)) (snd g) @ records gs'"
    using Cons.prems(1) by (simp add: records_def gs case_prod_beta)
  ultimately have "label_with_domain domAbsorb (fst h) = label_with_domain domAbsorb (fst g) \<and> snd h = snd g \<and> records hs = records gs'"
    using Cons.prems(2,3) gs by (intro framed_inject) (simp_all add: fits_def)
  with Cons gs show ?case by (auto simp: label_with_domain_def prod_eq_iff)
qed

lemma new_transcript_inject:
  assumes "tr_sponge (new_transcript d) @ r = tr_sponge (new_transcript d') @ r'" and "length d < 2 ^ 63" and "length d' < 2 ^ 63"
  shows "d = d' \<and> r = r'"
proof -
  have "length domDomain < 2 ^ 64" by (simp add: domDomain_def)
  then have "domDomain = domDomain \<and> str_bytes d = str_bytes d' \<and> r = r'"
    using assms by (intro framed_inject) (simp_all add: new_transcript_def write_framed_def)
  then show ?thesis by simp
qed

subsection \<open>Challenges\<close>

lemma challenge_loop_canon:
  assumes "challenge_loop xof label counter t = Some r"
  shows "canon (fst r)"
proof (rule challenge_loop.raw_induct [where P = "\<lambda>xof label counter t r. canon (fst r)", OF _ assms])
  fix f xof label counter t r
  assume IH: "\<And>xof label counter t r. f xof label counter t = Some r \<Longrightarrow> canon (fst r)"
    and "(let (buf, t') = squeeze_for_felt xof label counter t in
      case find (\<lambda>x. x < felt_P) (blocks8 buf) of
        None \<Rightarrow> f xof label (counter + 1) t' | Some x \<Rightarrow> Some (from_uint64 (x mod felt_P), t')) = Some r"
  then show "canon (fst r)"
    by (auto simp: canon_from_uint64 split: prod.splits option.splits dest: IH)
qed

lemma challenge_canon: "challenge xof label t = Some (x, t') \<Longrightarrow> canon x"
  unfolding challenge_def by (drule challenge_loop_canon) simp

text \<open>What a draw keeps: in range, and pairwise different where the test asks for it.\<close>

definition draws :: "nat \<Rightarrow> nat \<Rightarrow> (nat list \<Rightarrow> nat \<Rightarrow> bool) \<Rightarrow> nat list \<Rightarrow> bool" where
  "draws count mx fresh out \<longleftrightarrow> length out \<le> count \<and> (\<forall>x \<in> set out. x < mx)
     \<and> ((\<forall>ys x. fresh ys x \<longrightarrow> x \<notin> set ys) \<longrightarrow> distinct out)"

lemma draws_snoc: "draws count mx fresh out \<Longrightarrow> length out < count \<Longrightarrow> x < mx \<Longrightarrow> fresh out x \<Longrightarrow> draws count mx fresh (out @ [x])"
  by (auto simp: draws_def)

lemma index_loop_draws:
  assumes "index_loop xof label count mx fresh t counter buf off out = Some r"
  shows "draws count mx fresh out \<longrightarrow> draws count mx fresh r \<and> length r = count"
proof (rule index_loop.raw_induct [where P = "\<lambda>xof label count mx fresh t counter buf off out r.
    draws count mx fresh out \<longrightarrow> draws count mx fresh r \<and> length r = count", OF _ assms])
  fix f xof label count mx fresh t counter buf off out r
  assume IH: "\<And>xof label count mx fresh t counter buf off out r. f xof label count mx fresh t counter buf off out = Some r \<Longrightarrow>
      draws count mx fresh out \<longrightarrow> draws count mx fresh r \<and> length r = count"
    and eq: "(if count \<le> length out then Some out
      else let (counter, buf, off) =
              if length buf < off + 8
              then (counter + 1, re_squeeze_indices xof label (counter + 1) (indices_lot_size count) t, 0)
              else (counter, buf, off);
            x = of_be (take 8 (drop off buf)) AND index_mask mx;
            taken = unat x < mx \<and> fresh out (unat x)
        in f xof label count mx fresh t counter buf (off + 8) (if taken then out @ [unat x] else out)) = Some r"
  show "draws count mx fresh out \<longrightarrow> draws count mx fresh r \<and> length r = count"
  proof
    assume d: "draws count mx fresh out"
    show "draws count mx fresh r \<and> length r = count"
    proof (cases "count \<le> length out")
      case True
      then show ?thesis using eq d by (simp add: draws_def)
    next
      case False
      from eq False obtain c b o' and x :: u64 where f: "f xof label count mx fresh t c b (o' + 8)
          (if unat x < mx \<and> fresh out (unat x) then out @ [unat x] else out) = Some r"
        by (auto simp: Let_def split: prod.splits)
      have "draws count mx fresh (if unat x < mx \<and> fresh out (unat x) then out @ [unat x] else out)"
        using d False draws_snoc [OF d, of "unat x"] by simp
      then show ?thesis using IH [OF f] by blast
    qed
  qed
qed

lemma draw_indices_ok:
  assumes "draw_indices xof fresh label count mx t = Some (out, t')"
  shows "draws count mx fresh out \<and> length out = count"
  using assms index_loop_draws [of xof label count mx fresh]
  by (fastforce simp: draw_indices_def draws_def split: if_splits prod.splits)

lemma grind_verify:
  assumes "grind xof label bits t = Some (nonce, t')"
  shows "verify_grind xof label nonce bits t = (True, t')"
proof -
  from assms have l: "grind_loop xof label bits t 0 = Some nonce" and t': "t' = absorb_felt label (from_uint64 nonce) t"
    by (auto simp: grind_def)
  have "grind_ok xof label nonce bits t"
  proof (rule grind_loop.raw_induct [where P = "\<lambda>xof label bits t _ nonce. grind_ok xof label nonce bits t", OF _ l])
    fix f xof label bits t n r
    assume "\<And>xof label bits t n r. f xof label bits t n = Some r \<Longrightarrow> grind_ok xof label r bits t"
      and "(if grind_ok xof label n bits t then Some n else f xof label bits t (n + 1)) = Some r"
    then show "grind_ok xof label r bits t" by (auto split: if_splits)
  qed
  then show ?thesis by (simp add: verify_grind_def t')
qed

end
