(* ===== verification/Ntt.thy ===== *)
theory Ntt
  imports Merkle
begin

text \<open>
  \<^verbatim>\<open>internal/stark/ntt.go\<close>: the number-theoretic transform on Goldilocks elements, in place, with the
  bit-reversal permutation and its three nested butterfly loops. Slices are lists, a write is a list
  update, a panic is \<open>None\<close>. The lemmas give the permutation and
  the effect of one stage in closed form.
\<close>

subsection \<open>The code\<close>

definition is_pow2 :: "int \<Rightarrow> bool" where
  "is_pow2 n \<longleftrightarrow> 0 < n \<and> n AND (n - 1) = 0"

text \<open>\<^verbatim>\<open>bits.TrailingZeros\<close>.\<close>

fun trailing_zeros :: "nat \<Rightarrow> nat" where
  "trailing_zeros n = (if n = 0 then 64 else if odd n then 0 else Suc (trailing_zeros (n div 2)))"

declare trailing_zeros.simps [simp del]

definition rev_index :: "nat \<Rightarrow> nat \<Rightarrow> nat" where
  "rev_index logN i = unat (drop_bit (64 - logN) (word_reverse (of_nat i :: u64)))"

definition swap_bits :: "nat \<Rightarrow> nat \<Rightarrow> felt list \<Rightarrow> felt list" where
  "swap_bits logN i a = (let j = rev_index logN i in if i < j then a[i := a ! j, j := a ! i] else a)"

definition bit_reverse_in_place :: "felt list \<Rightarrow> felt list" where
  "bit_reverse_in_place a = fold (swap_bits (trailing_zeros (length a))) [0 ..< length a] a"

definition butterfly :: "felt \<Rightarrow> nat \<Rightarrow> nat \<Rightarrow> nat \<Rightarrow> felt list \<times> felt \<Rightarrow> felt list \<times> felt" where
  "butterfly wm half k j = (\<lambda>(a, w).
     let u = a ! (k + j);
         t = felt_mul w (a ! (k + j + half))
     in (a[k + j := felt_add u t, k + j + half := felt_sub u t], felt_mul w wm))"

definition block_loop :: "felt \<Rightarrow> nat \<Rightarrow> nat \<Rightarrow> felt list \<Rightarrow> felt list" where
  "block_loop wm half k a = fst (fold (butterfly wm half k) [0 ..< half] (a, 1))"

text \<open>The loop \<^verbatim>\<open>for k := 0; k < n; k += m\<close>.\<close>

definition stage_loop :: "felt \<Rightarrow> nat \<Rightarrow> felt list \<Rightarrow> felt list" where
  "stage_loop wm m a = fold (block_loop wm (m div 2)) (map ((*) m) [0 ..< (length a + m - 1) div m]) a"

definition ntt_core :: "felt list \<Rightarrow> bool \<Rightarrow> felt list option" where
  "ntt_core a invert =
     (let n = length a in
      if n \<le> 1 then Some a
      else
        let logN = trailing_zeros n;
            b = bit_reverse_in_place a
        in case root_of_unity (of_nat logN) of
             None \<Rightarrow> None
           | Some r \<Rightarrow>
               let root = (if invert then felt_inv r else r)
               in Some (fold (\<lambda>s. stage_loop (felt_exp root (of_nat (n div 2 ^ s))) (2 ^ s)) [1 ..< Suc logN] b))"

definition ntt :: "felt list \<Rightarrow> felt list option" where
  "ntt a = (if is_pow2 (int (length a)) then ntt_core a False else None)"

definition intt :: "felt list \<Rightarrow> felt list option" where
  "intt a =
     (if is_pow2 (int (length a))
      then map_option (map (\<lambda>x. felt_mul x (felt_inv (from_uint64 (of_nat (length a)))))) (ntt_core a True)
      else None)"

text \<open>\<^verbatim>\<open>make\<close> and \<^verbatim>\<open>copy\<close>: a zero-padded copy.\<close>

definition padded :: "nat \<Rightarrow> felt list \<Rightarrow> felt list" where
  "padded n a = a @ replicate (n - length a) 0"

definition evaluate :: "felt list \<Rightarrow> felt list option" where
  "evaluate coeffs = ntt (padded (next_pow2 (length coeffs)) coeffs)"

definition interpolate :: "felt list \<Rightarrow> felt list option" where
  "interpolate evals = (if is_pow2 (int (length evals)) then intt evals else None)"

definition mul_poly :: "felt list \<Rightarrow> felt list \<Rightarrow> felt list option" where
  "mul_poly a b =
     (if a = [] \<or> b = [] then Some []
      else
        let resLen = length a + length b - 1;
            n = next_pow2 resLen
        in case ntt (padded n a) of None \<Rightarrow> None | Some fa \<Rightarrow>
           case ntt (padded n b) of None \<Rightarrow> None | Some fb \<Rightarrow>
             map_option (take resLen) (intt (map2 felt_mul fa fb)))"

text \<open>\<^verbatim>\<open>evalNaifPoly\<close> of \<^verbatim>\<open>fri.go\<close>: from the highest coefficient down.\<close>

definition eval_poly :: "felt list \<Rightarrow> felt \<Rightarrow> felt" where
  "eval_poly coeffs x = foldr (\<lambda>c acc. felt_add (felt_mul acc x) c) coeffs 0"

subsection \<open>Powers of two\<close>

lemma is_pow2_power: "is_pow2 (2 ^ k)"
proof -
  have "(2 :: int) ^ k AND (2 ^ k - 1) = 0"
    by (rule bit_eqI) (auto simp: bit_and_iff bit_exp_iff mask_eq_exp_minus_1 [symmetric] bit_mask_iff)
  then show ?thesis by (simp add: is_pow2_def)
qed

lemma and_pred_double: "(2 * m :: int) AND (2 * m - 1) = 2 * (m AND (m - 1))"
proof -
  have "2 * m - 1 = 2 * (m - 1) + 1" by simp
  moreover have "(2 * (m - 1) + 1) div 2 = m - 1" by simp
  ultimately show ?thesis by (subst and_int_rec) (simp only: even_mult_iff dvd_triv_left nonzero_mult_div_cancel_left, simp)
qed

lemma is_pow2_ex: "is_pow2 (int n) \<Longrightarrow> \<exists>k. n = 2 ^ k"
proof (induction n rule: less_induct)
  case (less n)
  then have pos: "0 < n" and z: "int n AND (int n - 1) = 0" by (simp_all add: is_pow2_def)
  show ?case
  proof (cases "even n")
    case True
    then obtain m where m: "n = 2 * m" by blast
    then have "is_pow2 (int m)" using pos z and_pred_double [of "int m"] by (simp add: is_pow2_def)
    with less.IH [of m] m pos obtain k where "m = 2 ^ k" by auto
    then have "n = 2 ^ Suc k" by (simp add: m)
    then show ?thesis by blast
  next
    case False
    then obtain m where m: "n = 2 * m + 1" by (rule oddE)
    have "int n AND (int n - 1) = 2 * int m"
      by (subst and_int_rec) (simp add: m)
    then have "n = 2 ^ 0" using z m by simp
    then show ?thesis by blast
  qed
qed

lemma trailing_zeros_power [simp]: "trailing_zeros (2 ^ k) = k"
  by (induction k) (simp_all add: trailing_zeros.simps)

subsection \<open>The bit-reversal permutation\<close>

fun mirror :: "nat \<Rightarrow> nat \<Rightarrow> nat" where
  "mirror 0 i = 0"
| "mirror (Suc L) i = 2 * mirror L (i mod 2 ^ L) + of_bool (bit i L)"

lemma bit_mirror: "bit (mirror L i) k \<longleftrightarrow> k < L \<and> bit i (L - 1 - k)"
proof (induction L arbitrary: i k)
  case (Suc L)
  show ?case
  proof (cases k)
    case 0
    then show ?thesis by (simp add: bit_0)
  next
    case (Suc k')
    then have "bit (mirror (Suc L) i) k = bit (mirror L (i mod 2 ^ L)) k'" by (simp add: bit_Suc)
    also have "\<dots> \<longleftrightarrow> k' < L \<and> bit i (L - 1 - k')"
      by (auto simp: Suc.IH take_bit_eq_mod [symmetric] bit_take_bit_iff)
    finally show ?thesis using Suc by (simp del: mirror.simps)
  qed
qed simp

lemma rev_index_mirror:
  assumes "L \<le> 64" and "i < 2 ^ L"
  shows "rev_index L i = mirror L i"
proof (rule bit_eqI)
  fix k
  have i: "i < 2 ^ 64" using assms by (meson less_le_trans one_le_numeral power_increasing)
  have w: "bit (of_nat i :: u64) j \<longleftrightarrow> j < 64 \<and> bit i j" for j
    by (transfer fixing: i j) (simp add: bit_take_bit_iff bit_of_nat_iff_bit)
  show "bit (rev_index L i) k = bit (mirror L i) k"
    using assms(1) by (auto simp: rev_index_def bit_mirror bit_simps w)
qed

lemma mirror_less: "mirror L i < 2 ^ L"
proof (induction L arbitrary: i)
  case (Suc L)
  have "mirror L (i mod 2 ^ L) < 2 ^ L" by (rule Suc.IH)
  then show ?case by (simp add: of_bool_def)
qed simp

lemma mirror_mirror: "i < 2 ^ L \<Longrightarrow> mirror L (mirror L i) = i"
proof (rule bit_eqI)
  fix k assume "i < 2 ^ L"
  then have "bit i k \<Longrightarrow> k < L" by (metis bit_take_bit_iff take_bit_nat_eq_self)
  then show "bit (mirror L (mirror L i)) k = bit i k" by (auto simp: bit_mirror)
qed

text \<open>The swaps made so far: both ends of every pair whose smaller end was passed.\<close>

lemma length_swap_bits [simp]: "length (swap_bits L i a) = length a"
  by (simp add: swap_bits_def Let_def)

lemma length_swaps [simp]: "length (fold (swap_bits L) is a) = length a"
  by (induction "is" arbitrary: a) simp_all

lemma swaps_so_far:
  assumes L: "L \<le> 64" and n: "length a = 2 ^ L" and "t \<le> 2 ^ L" and "x < 2 ^ L"
  shows "fold (swap_bits L) [0 ..< t] a ! x = (if min x (mirror L x) < t then a ! mirror L x else a ! x)"
  using assms(3,4)
proof (induction t arbitrary: x)
  case (Suc t)
  let ?b = "fold (swap_bits L) [0 ..< t] a"
  have t: "t < 2 ^ L" using Suc.prems by simp
  define j where "j = mirror L t"
  have j: "j < 2 ^ L" "mirror L j = t" using t by (simp_all add: j_def mirror_less mirror_mirror)
  have mj: "mirror L x = t \<longleftrightarrow> x = j" using Suc.prems(2) j(2) by (auto simp: j_def mirror_mirror)
  have f: "fold (swap_bits L) [0 ..< Suc t] a = (if t < j then ?b[t := ?b ! j, j := ?b ! t] else ?b)"
    using rev_index_mirror [OF L t] by (simp add: swap_bits_def Let_def j_def)
  have b: "?b ! y = (if min y (mirror L y) < t then a ! mirror L y else a ! y)" if "y < 2 ^ L" for y
    using Suc.IH [of y] Suc.prems(1) that by simp
  show ?case
    unfolding f
  proof (cases "x = t \<or> x = j")
    case True
    have bt: "?b ! t = (if j < t then a ! j else a ! t)" "?b ! j = (if j < t then a ! t else a ! j)"
      using b [OF t] b [OF j(1)] j(2) by (auto simp: j_def [symmetric] min_def)
    from True consider "x = t" "mirror L x = j" | "x = j" "mirror L x = t" using j(2) by (auto simp: j_def)
    then show "(if t < j then ?b[t := ?b ! j, j := ?b ! t] else ?b) ! x = (if min x (mirror L x) < Suc t then a ! mirror L x else a ! x)"
      using t j(1) n by cases (auto simp: bt min_def nth_list_update)
  next
    case False
    then have "min x (mirror L x) < Suc t \<longleftrightarrow> min x (mirror L x) < t" using mj by (auto simp: min_def less_Suc_eq)
    then show "(if t < j then ?b[t := ?b ! j, j := ?b ! t] else ?b) ! x = (if min x (mirror L x) < Suc t then a ! mirror L x else a ! x)"
      using False b [of x] Suc.prems(2) by simp
  qed
qed simp

subsection \<open>The loops of a stage\<close>

fun running :: "felt \<Rightarrow> nat \<Rightarrow> felt" where
  "running wm 0 = 1"
| "running wm (Suc j) = felt_mul (running wm j) wm"

definition mixed :: "felt \<Rightarrow> nat \<Rightarrow> nat \<Rightarrow> felt list \<Rightarrow> nat \<Rightarrow> felt" where
  "mixed wm half b a x =
     (if b < half then felt_add (a ! x) (felt_mul (running wm b) (a ! (x + half)))
      else felt_sub (a ! (x - half)) (felt_mul (running wm (b - half)) (a ! x)))"

lemma snd_butterflies: "snd (fold (butterfly wm half k) [0 ..< j] (a, 1)) = running wm j"
  by (induction j) (simp_all add: butterfly_def case_prod_beta Let_def)

lemma length_butterfly_loop [simp]: "length (fst (fold (butterfly wm half k) js s)) = length (fst s)"
  by (induction js arbitrary: s) (simp_all add: butterfly_def case_prod_beta Let_def)

lemma butterfly_loop:
  assumes "j \<le> half" and "k + 2 * half \<le> length a"
  shows "fst (fold (butterfly wm half k) [0 ..< j] (a, 1)) ! x =
    (if k \<le> x \<and> x < k + j \<or> k + half \<le> x \<and> x < k + half + j then mixed wm half (x - k) a x else a ! x)"
  using assms(1)
proof (induction j arbitrary: x)
  case (Suc j)
  let ?s = "fold (butterfly wm half k) [0 ..< j] (a, 1)"
  have s: "fst ?s ! y = (if k \<le> y \<and> y < k + j \<or> k + half \<le> y \<and> y < k + half + j then mixed wm half (y - k) a y else a ! y)" for y
    using Suc by simp
  have untouched: "fst ?s ! (k + j) = a ! (k + j)" "fst ?s ! (k + j + half) = a ! (k + j + half)"
    using Suc.prems by (simp_all add: s)
  have step: "fst (fold (butterfly wm half k) [0 ..< Suc j] (a, 1)) =
      (fst ?s)[k + j := felt_add (a ! (k + j)) (felt_mul (running wm j) (a ! (k + j + half))),
        k + j + half := felt_sub (a ! (k + j)) (felt_mul (running wm j) (a ! (k + j + half)))]"
    using snd_butterflies [of wm half k j a]
    by (simp add: butterfly_def case_prod_beta Let_def untouched)
  consider "x = k + j" | "x = k + j + half" | "x \<noteq> k + j" "x \<noteq> k + j + half" by blast
  then show ?case
  proof cases
    case 1
    then show ?thesis using Suc.prems assms(2) unfolding step by (simp add: mixed_def)
  next
    case 2
    have l: "k + j + half < length a" using Suc.prems assms(2) by simp
    have "\<not> x - k < half" "x - half = k + j" "x - k - half = j" using 2 by simp_all
    then show ?thesis using 2 Suc.prems l unfolding step by (simp add: mixed_def)
  next
    case 3
    then show ?thesis unfolding step by (auto simp: s less_Suc_eq)
  qed
qed auto

lemma length_block_loop [simp]: "length (block_loop wm half k a) = length a"
  by (simp add: block_loop_def)

lemma block_loop_nth:
  assumes "k + 2 * half \<le> length a"
  shows "block_loop wm half k a ! x = (if k \<le> x \<and> x < k + 2 * half then mixed wm half (x - k) a x else a ! x)"
  by (auto simp: block_loop_def butterfly_loop [OF order_refl assms])

lemma length_blocks [simp]: "length (fold (block_loop wm half) ks a) = length a"
  by (induction ks arbitrary: a) simp_all

lemma blocks_so_far:
  assumes h: "0 < half" and n: "length a = 2 * half * q" and "t \<le> q"
  shows "fold (block_loop wm half) (map ((*) (2 * half)) [0 ..< t]) a ! x =
    (if x < 2 * half * t then mixed wm half (x mod (2 * half)) a x else a ! x)"
  using assms(3)
proof (induction t arbitrary: x)
  case (Suc t)
  let ?b = "fold (block_loop wm half) (map ((*) (2 * half)) [0 ..< t]) a"
  have b: "?b ! y = (if y < 2 * half * t then mixed wm half (y mod (2 * half)) a y else a ! y)" for y
    using Suc by simp
  have "2 * half * Suc t \<le> 2 * half * q" using Suc.prems by (rule mult_le_mono2)
  then have fits: "2 * half * t + 2 * half \<le> length ?b" by (simp add: n)
  have f: "fold (block_loop wm half) (map ((*) (2 * half)) [0 ..< Suc t]) a = block_loop wm half (2 * half * t) ?b" by simp
  show ?case
  proof (cases "2 * half * t \<le> x \<and> x < 2 * half * t + 2 * half")
    case True
    define b' where "b' = x - 2 * half * t"
    have x: "x = 2 * half * t + b'" "b' < 2 * half" using True by (auto simp: b'_def)
    have "mixed wm half b' ?b x = mixed wm half b' a x"
      using x by (auto simp: mixed_def b)
    moreover have "x mod (2 * half) = b'" using x by simp
    ultimately show ?thesis using True block_loop_nth [OF fits, of wm x] x by (simp add: f b'_def [symmetric])
  next
    case False
    then have "block_loop wm half (2 * half * t) ?b ! x = ?b ! x" using block_loop_nth [OF fits, of wm x] by argo
    then show ?thesis using False by (auto simp: f b)
  qed
qed simp

lemma stage_loop_map:
  assumes h: "0 < half" and n: "length a = 2 * half * q"
  shows "stage_loop wm (2 * half) a = map (\<lambda>x. mixed wm half (x mod (2 * half)) a x) [0 ..< length a]"
proof -
  have "(length a + 2 * half - 1) div (2 * half) = q"
    using h by (intro div_nat_eqI) (simp_all add: n)
  then have "stage_loop wm (2 * half) a = fold (block_loop wm half) (map ((*) (2 * half)) [0 ..< q]) a"
    by (simp add: stage_loop_def)
  then show ?thesis
    using n by (auto intro!: nth_equalityI simp: blocks_so_far [OF h n order_refl])
qed

end
