(* ===== verification/Fri.thy ===== *)
theory Fri
  imports Transcript Ntt
begin

text \<open>
  \<^verbatim>\<open>internal/stark/fri.go\<close>: the test of proximity to low degree. The prover commits to the evaluations,
  folds them under a challenge until the final size, sends the interpolated rest and opens each layer at
  drawn positions; the verifier replays the transcript, checks every opening, every folding step and the
  final polynomial. \<open>E\<close> supplies SHA3, \<open>xof\<close> SHAKE256; \<open>None\<close> is a panic or a draw that never ends.
\<close>

record fri_params =
  fp_Blowup :: int
  fp_NumQueries :: int
  fp_GrindBits :: int
  fp_FoldStopBits :: int

text \<open>Shifts of a 64-bit \<^verbatim>\<open>int\<close>.\<close>

definition go_shl :: "int \<Rightarrow> nat \<Rightarrow> int" where
  "go_shl x n = sint (push_bit n (word_of_int x :: i64))"

definition fri_final_size :: "fri_params \<Rightarrow> int" where
  "fri_final_size p = go_shl (fp_Blowup p) (nat (fp_FoldStopBits p))"

definition fri_final_deg_bound :: "fri_params \<Rightarrow> int" where
  "fri_final_deg_bound p = go_shl 1 (nat (fp_FoldStopBits p))"

definition query_positions :: "xof \<Rightarrow> string \<Rightarrow> int \<Rightarrow> int \<Rightarrow> transcript \<Rightarrow> (nat list \<times> transcript) option" where
  "query_positions xof label count mx t =
     (if count \<le> mx then challenge_indices_distinct xof label count mx t
      else challenge_indices xof label count mx t)"

record query_step =
  qs_Value :: felt
  qs_Sibling :: felt
  qs_Path :: "bytes list"
  qs_SiblingPath :: "bytes list"

record fri_proof =
  fr_LogDomain :: u32
  fr_LayerRoots :: "bytes list"
  fr_PowNonce :: u64
  fr_FinalCoeffs :: "felt list"
  fr_Queries :: "query_step list list"

record fri_layer =
  fl_evals :: "felt list"
  fl_tree :: "bytes merkle_tree"

definition leaf_of :: "felt \<Rightarrow> felt list" where "leaf_of v = [v]"

definition commit_evals :: "'z ext_scheme \<Rightarrow> felt list \<Rightarrow> (bytes \<times> bytes merkle_tree) option" where
  "commit_evals E evals = sha_commit E (map leaf_of evals)"

subsection \<open>Folding\<close>

definition fold_one :: "felt \<Rightarrow> felt \<Rightarrow> felt \<Rightarrow> felt \<Rightarrow> felt" where
  "fold_one fx fmx beta x =
     (let two = from_uint64 2;
          twoInv = felt_inv two;
          fPair = felt_mul (felt_add fx fmx) twoInv;
          twoX = felt_mul two x;
          fImpair = felt_mul (felt_sub fx fmx) (felt_inv twoX)
      in felt_add fPair (felt_mul beta fImpair))"

text \<open>The loop body of \<^verbatim>\<open>foldEvals\<close> has the same expressions; \<open>running omega i\<close> is its variable \<^verbatim>\<open>xi\<close>.\<close>

definition fold_evals :: "felt list \<Rightarrow> felt \<Rightarrow> felt \<Rightarrow> felt list" where
  "fold_evals evals beta omega =
     (let half = length evals div 2
      in map (\<lambda>i. fold_one (evals ! i) (evals ! (i + half)) beta (running omega i)) [0 ..< half])"

lemma length_fold_evals [simp]: "length (fold_evals evals beta omega) = length evals div 2"
  by (simp add: fold_evals_def Let_def)

subsection \<open>The transcript of a proof\<close>

definition absorb_params :: "fri_params \<Rightarrow> u32 \<Rightarrow> transcript \<Rightarrow> transcript" where
  "absorb_params p logDomain t =
     absorb_felt ''fri/log-domain'' (from_uint64 (ucast logDomain))
      (absorb_felt ''fri/fold-stop-bits'' (from_uint64 (word_of_int (fp_FoldStopBits p)))
      (absorb_felt ''fri/grind-bits'' (from_uint64 (word_of_int (fp_GrindBits p)))
      (absorb_felt ''fri/num-queries'' (from_uint64 (word_of_int (fp_NumQueries p)))
      (absorb_felt ''fri/blowup'' (from_uint64 (word_of_int (fp_Blowup p))) t))))"

definition absorb_final :: "felt list \<Rightarrow> transcript \<Rightarrow> transcript" where
  "absorb_final coeffs t =
     fold (absorb_felt ''fri/final-coeff'') coeffs
      (absorb_felt ''fri/final-len'' (from_uint64 (of_nat (length coeffs))) t)"

subsection \<open>The prover\<close>

lemma commit_evals_Some: "commit_evals E evals = Some r \<Longrightarrow> evals \<noteq> []"
  by (auto simp: commit_evals_def sha_commit_def commit_def)

text \<open>The loop of foldings: the layers with their roots, the evaluations left and the transcript.\<close>

function commit_phase :: "'z ext_scheme \<Rightarrow> xof \<Rightarrow> int \<Rightarrow> transcript \<Rightarrow> felt list \<Rightarrow> felt \<Rightarrow>
    ((bytes \<times> fri_layer) list \<times> felt list \<times> transcript) option" where
  "commit_phase E xof finalSize t cur omega =
     (if int (length cur) \<le> finalSize then Some ([], cur, t)
      else case commit_evals E cur of None \<Rightarrow> None | Some (root, tree) \<Rightarrow>
        (case challenge xof ''fri/fold'' (absorb_data ''fri/layer-root'' root t) of None \<Rightarrow> None | Some (beta, t') \<Rightarrow>
          (case commit_phase E xof finalSize t' (fold_evals cur beta omega) (felt_mul omega omega) of
             None \<Rightarrow> None
           | Some (layers, rest, t'') \<Rightarrow>
               Some ((root, \<lparr>fl_evals = cur, fl_tree = tree\<rparr>) # layers, rest, t''))))"
  by pat_completeness auto
termination
  by (relation "measure (\<lambda>(E, xof, fs, t, cur, omega). length cur)") (auto dest!: commit_evals_Some)

declare commit_phase.simps [simp del]

fun open_layers :: "fri_layer list \<Rightarrow> nat \<Rightarrow> query_step list option" where
  "open_layers [] pos = Some []"
| "open_layers (layer # layers) pos =
     (let half = length (fl_evals layer) div 2;
          p = pos mod half
      in case (open_leaf (fl_tree layer) (int p), open_leaf (fl_tree layer) (int (p + half))) of
           (Some path, Some spath) \<Rightarrow>
             map_option (\<lambda>steps. \<lparr>qs_Value = fl_evals layer ! p, qs_Sibling = fl_evals layer ! (p + half),
                 qs_Path = path, qs_SiblingPath = spath\<rparr> # steps) (open_layers layers p)
         | _ \<Rightarrow> None)"

fun all_some :: "'a option list \<Rightarrow> 'a list option" where
  "all_some [] = Some []"
| "all_some (x # xs) = (case x of None \<Rightarrow> None | Some y \<Rightarrow> map_option ((#) y) (all_some xs))"

definition pow_nonce :: "xof \<Rightarrow> fri_params \<Rightarrow> transcript \<Rightarrow> (u64 \<times> transcript) option" where
  "pow_nonce xof p t = (if 0 < fp_GrindBits p then grind xof ''fri/pow'' (fp_GrindBits p) t else Some (0, t))"

definition fri_prove :: "'z ext_scheme \<Rightarrow> xof \<Rightarrow> felt list \<Rightarrow> fri_params \<Rightarrow> fri_proof option" where
  "fri_prove E xof evals p =
     (let n = length evals; finalSize = fri_final_size p in
      if \<not> is_pow2 (fp_Blowup p) \<or> fp_Blowup p < 2 then None
      else if fp_FoldStopBits p < 0 then None
      else if \<not> is_pow2 (int n) \<or> int n \<le> finalSize then None
      else if fp_NumQueries p < 1 then None
      else
        let logDomain = of_nat (trailing_zeros n) in
        case root_of_unity logDomain of None \<Rightarrow> None | Some omega \<Rightarrow>
        case commit_phase E xof finalSize (absorb_params p logDomain (new_transcript ''stark/fri/v1'')) evals omega of
          None \<Rightarrow> None
        | Some (layers, rest, t) \<Rightarrow>
        case interpolate rest of None \<Rightarrow> None | Some finalCoeffs \<Rightarrow>
        case pow_nonce xof p (absorb_final finalCoeffs t) of None \<Rightarrow> None | Some (nonce, t) \<Rightarrow>
        case query_positions xof ''fri/query'' (fp_NumQueries p) (int (n div 2)) t of None \<Rightarrow> None | Some (positions, t) \<Rightarrow>
        case all_some (map (open_layers (map snd layers)) positions) of None \<Rightarrow> None | Some queries \<Rightarrow>
          Some \<lparr>fr_LogDomain = logDomain, fr_LayerRoots = map fst layers, fr_PowNonce = nonce,
                fr_FinalCoeffs = finalCoeffs, fr_Queries = queries\<rparr>)"

subsection \<open>The verifier\<close>

text \<open>The loop \<^verbatim>\<open>for sz := n; sz > finalSize; sz /= 2\<close>; the length check before it leaves no negative size.\<close>

fun count_layers :: "nat \<Rightarrow> nat \<Rightarrow> nat" where
  "count_layers sz finalSize = (if finalSize < sz then Suc (count_layers (sz div 2) finalSize) else 0)"

declare count_layers.simps [simp del]

fun replay :: "xof \<Rightarrow> bytes list \<Rightarrow> transcript \<Rightarrow> (felt list \<times> transcript) option" where
  "replay xof [] t = Some ([], t)"
| "replay xof (root # roots) t =
     (case challenge xof ''fri/fold'' (absorb_data ''fri/layer-root'' root t) of None \<Rightarrow> None | Some (beta, t') \<Rightarrow>
        map_option (\<lambda>(betas, t''). (beta # betas, t'')) (replay xof roots t'))"

text \<open>The layers of one query. An empty half is a division by zero.\<close>

fun check_layers :: "'z ext_scheme \<Rightarrow> felt list \<Rightarrow> bytes list \<Rightarrow> felt list \<Rightarrow> query_step list \<Rightarrow> nat \<Rightarrow> felt \<Rightarrow> nat \<Rightarrow> bool option" where
  "check_layers E final (root # roots) (beta # betas) (step # steps) pos omega layerSize =
     (let half = layerSize div 2 in
      if half = 0 then None
      else
        let p = pos mod half in
        if \<not> sha_verify_path E root (int p) (leaf_of (qs_Value step)) (qs_Path step) then Some False
        else if \<not> sha_verify_path E root (int (p + half)) (leaf_of (qs_Sibling step)) (qs_SiblingPath step) then Some False
        else
          let folded = fold_one (qs_Value step) (qs_Sibling step) beta (felt_exp omega (of_nat p));
              expected = (case steps of
                  next # _ \<Rightarrow> (if p < half div 2 then qs_Value next else qs_Sibling next)
                | [] \<Rightarrow> eval_poly final (felt_exp (felt_mul omega omega) (of_nat (p mod half))))
          in if folded \<noteq> expected then Some False
             else check_layers E final roots betas steps p (felt_mul omega omega) half)"
| "check_layers E final roots betas steps pos omega layerSize = Some True"

fun check_queries :: "(nat \<Rightarrow> query_step list \<Rightarrow> bool option) \<Rightarrow> nat \<Rightarrow> nat list \<Rightarrow> query_step list list \<Rightarrow> bool option" where
  "check_queries check expected (pos # positions) (steps # queries) =
     (if length steps \<noteq> expected then Some False
      else case check pos steps of
             None \<Rightarrow> None
           | Some ok \<Rightarrow> if ok then check_queries check expected positions queries else Some False)"
| "check_queries check expected positions queries = Some True"

definition check_pow :: "xof \<Rightarrow> fri_params \<Rightarrow> u64 \<Rightarrow> transcript \<Rightarrow> bool \<times> transcript" where
  "check_pow xof p nonce t = (if 0 < fp_GrindBits p then verify_grind xof ''fri/pow'' nonce (fp_GrindBits p) t else (True, t))"

definition fri_verify :: "'z ext_scheme \<Rightarrow> xof \<Rightarrow> fri_proof \<Rightarrow> fri_params \<Rightarrow> bool option" where
  "fri_verify E xof pf p =
     (if \<not> is_pow2 (fp_Blowup p) \<or> fp_Blowup p < 2 then Some False
      else if fp_NumQueries p < 1 then Some False
      else if twoAdicity < fr_LogDomain pf then Some False
      else if fp_FoldStopBits p < 0 then Some False
      else
        let finalSize = fri_final_size p; n = 2 ^ unat (fr_LogDomain pf) in
        if int n \<le> finalSize then Some False
        else if int (length (fr_FinalCoeffs pf)) \<noteq> finalSize then Some False
        else if fri_final_deg_bound p < 0 \<and> fr_FinalCoeffs pf \<noteq> [] then None
        else if \<exists>c \<in> set (drop (nat (fri_final_deg_bound p)) (fr_FinalCoeffs pf)). c \<noteq> 0 then Some False
        else
          let expectedLayers = count_layers n (nat finalSize) in
          if length (fr_LayerRoots pf) \<noteq> expectedLayers then Some False
          else if expectedLayers = 0 then Some False
          else case replay xof (fr_LayerRoots pf) (absorb_params p (fr_LogDomain pf) (new_transcript ''stark/fri/v1'')) of
            None \<Rightarrow> None
          | Some (betas, t) \<Rightarrow>
            (case check_pow xof p (fr_PowNonce pf) (absorb_final (fr_FinalCoeffs pf) t) of (ok, t) \<Rightarrow>
             if \<not> ok then Some False
             else if int (length (fr_Queries pf)) \<noteq> fp_NumQueries p then Some False
             else case query_positions xof ''fri/query'' (fp_NumQueries p) (int (n div 2)) t of
               None \<Rightarrow> None
             | Some (positions, t) \<Rightarrow>
               (case root_of_unity (fr_LogDomain pf) of
                  None \<Rightarrow> None
                | Some omega0 \<Rightarrow>
                    check_queries (\<lambda>pos steps. check_layers E (fr_FinalCoeffs pf) (fr_LayerRoots pf) betas steps pos omega0 n)
                      expectedLayers positions (fr_Queries pf))))"

end
