(* ===== verification/PolyOps.thy ===== *)
theory PolyOps
  imports Fri "HOL-Library.Monad_Syntax"
begin

text \<open>
  The polynomial helpers of \<^verbatim>\<open>internal/stark/stark_air.go\<close> and \<^verbatim>\<open>stark.go\<close>: slices of coefficients in
  increasing degree. \<open>None\<close> is a panic.
\<close>

definition poly_trim :: "felt list \<Rightarrow> felt list" where
  "poly_trim a = rev (dropWhile (\<lambda>c. c = 0) (rev a))"

definition poly_add_scaled :: "felt list \<Rightarrow> felt list \<Rightarrow> felt \<Rightarrow> felt list" where
  "poly_add_scaled acc b scale =
     (let grown = (if length acc < length b then padded (length b) acc else acc)
      in map2 (\<lambda>a c. felt_add a (felt_mul scale c)) grown b @ drop (length b) grown)"

definition poly_scale :: "felt list \<Rightarrow> felt \<Rightarrow> felt list" where
  "poly_scale a s = map (\<lambda>c. felt_mul c s) a"

definition poly_sub_const :: "felt list \<Rightarrow> felt \<Rightarrow> felt list" where
  "poly_sub_const a c = (case a of [] \<Rightarrow> [felt_neg c] | a0 # as \<Rightarrow> felt_sub a0 c # as)"

text \<open>The loop from the highest coefficient down: the quotient, and the accumulator below it.\<close>

fun ruffini :: "felt \<Rightarrow> felt list \<Rightarrow> felt list \<times> felt" where
  "ruffini c [] = ([], 0)"
| "ruffini c [a] = ([], a)"
| "ruffini c (a # as) = (let (q, acc) = ruffini c as in (acc # q, felt_add a (felt_mul c acc)))"

definition poly_div_by_linear :: "felt list \<Rightarrow> felt \<Rightarrow> felt list \<times> felt" where
  "poly_div_by_linear a c = (let (q, r) = ruffini c (poly_trim a) in (poly_trim q, r))"

text \<open>One step of the division by \<open>x ^ n - 1\<close>: the head coefficient \<open>c\<close> of degree \<open>d\<close> is folded down.\<close>

definition fold_down :: "nat \<Rightarrow> nat \<Rightarrow> felt list \<times> felt list \<Rightarrow> felt list \<times> felt list" where
  "fold_down n d = (\<lambda>(q, rem).
     let c = rem ! d in
     if c = 0 then (q, rem)
     else (q[d - n := felt_add (q ! (d - n)) c], rem[d - n := felt_add (rem ! (d - n)) c, d := 0]))"

definition poly_div_by_vanishing :: "felt list \<Rightarrow> nat \<Rightarrow> felt list \<times> bool" where
  "poly_div_by_vanishing a n =
     (let rem = poly_trim a in
      if rem = [] then ([], True)
      else if length rem \<le> n then ([], False)
      else
        let (q, rem) = fold (fold_down n) (rev [n ..< length rem]) (replicate (length rem - n) 0, rem)
        in (poly_trim q, \<forall>c \<in> set (take n rem). c = 0))"

definition poly_compose_scale :: "felt list \<Rightarrow> felt \<Rightarrow> felt list" where
  "poly_compose_scale a s = map (\<lambda>i. felt_mul (a ! i) (running s i)) [0 ..< length a]"

definition eval_on_lde :: "felt list \<Rightarrow> nat \<Rightarrow> felt list option" where
  "eval_on_lde coeffs n = ntt (padded n (take n coeffs))"

definition absorb_fri_digest :: "fri_proof \<Rightarrow> transcript \<Rightarrow> transcript" where
  "absorb_fri_digest p t =
     fold (absorb_felt ''fri-digest/final-coeff'') (fr_FinalCoeffs p)
      (fold (absorb_data ''fri-digest/layer-root'') (fr_LayerRoots p)
        (absorb_felt ''fri-digest/log-domain'' (from_uint64 (ucast (fr_LogDomain p))) t))"

definition build_deep_tree :: "'z ext_scheme \<Rightarrow> felt list \<Rightarrow> bytes merkle_tree option" where
  "build_deep_tree E deepLDE = map_option snd (commit_evals E deepLDE)"

definition starkGrindBits :: int where "starkGrindBits = 16"

end
