(* ===== verification/Air.thy ===== *)
theory Air
  imports PolyOps ChainState
begin

text \<open>
  \<^verbatim>\<open>internal/stark/stark_mc.go\<close>: the STARK over a trace of several columns. A Go \<^verbatim>\<open>AIR\<close> is a value of
  the record \<open>air\<close>; its \<^verbatim>\<open>EvalTransition\<close> is a function on rows. The slices that \<^verbatim>\<open>parallelFor\<close> fills
  are lists, as its bodies write disjoint elements from inputs that do not change. \<open>None\<close> is a panic or a
  draw that never ends.
\<close>

definition mcDomain :: string where "mcDomain = ''stark/air-mc/v1''"
definition mcBlowup :: int where "mcBlowup = 8"
definition mcNumQueries :: int where "mcNumQueries = 32"

record boundary =
  bc_Col :: int
  bc_Row :: int
  bc_Value :: felt

record air =
  air_NumColumns :: int
  air_NumSteps :: int
  air_EvalTransition :: "felt list \<Rightarrow> felt list \<Rightarrow> felt list"
  air_Boundaries :: "boundary list"
  air_MaxDegree :: int

record air_opening =
  ao_Pos :: int
  ao_ColVals :: "felt list"
  ao_ColPaths :: "bytes list list"
  ao_CompVal :: felt
  ao_CompPath :: "bytes list"
  ao_DeepVal :: felt
  ao_DeepPath :: "bytes list"

record air_proof =
  ap_ColRoots :: "bytes list"
  ap_CompRoot :: bytes
  ap_OodColZ :: "felt list"
  ap_OodColGZ :: "felt list"
  ap_OodHz :: felt
  ap_Fri :: fri_proof
  ap_Openings :: "air_opening list"

text \<open>Products of 64-bit \<^verbatim>\<open>int\<close>s, and reads that panic out of range.\<close>

definition go_times :: "int \<Rightarrow> int \<Rightarrow> int" where
  "go_times x y = sint (word_of_int (x * y) :: i64)"

definition at_index :: "'a list \<Rightarrow> int \<Rightarrow> 'a option" where
  "at_index xs i = (if 0 \<le> i \<and> i < int (length xs) then Some (xs ! nat i) else None)"

definition mc_deg_bound :: "int \<Rightarrow> int \<Rightarrow> int" where
  "mc_deg_bound maxDegree n = int (next_pow2 (nat (go_times maxDegree n)))"

definition mc_big_n :: "int \<Rightarrow> int \<Rightarrow> int" where
  "mc_big_n maxDegree n = go_times mcBlowup (mc_deg_bound maxDegree n)"

definition log2_int :: "int \<Rightarrow> u32" where
  "log2_int n = of_nat (trailing_zeros (nat n))"

subsection \<open>The composition\<close>

definition column :: "felt list list \<Rightarrow> nat \<Rightarrow> felt list" where
  "column trace c = map (\<lambda>row. row ! c) trace"

definition mc_eval_columns_on_lde :: "felt list list \<Rightarrow> nat \<Rightarrow> nat \<Rightarrow> (felt list list \<times> felt list list) option" where
  "mc_eval_columns_on_lde trace w bigN = do {
     coeffs \<leftarrow> all_some (map (\<lambda>c. interpolate (column trace c)) [0 ..< w]);
     lde \<leftarrow> all_some (map (\<lambda>cs. eval_on_lde cs bigN) coeffs);
     Some (coeffs, lde) }"

definition eval_on_coset :: "felt list \<Rightarrow> nat \<Rightarrow> felt \<Rightarrow> felt list option" where
  "eval_on_coset coeffs bigN eta = eval_on_lde (poly_compose_scale coeffs eta) bigN"

text \<open>The rows of the boundaries without repetition: the map from row to slot, the powers and the slots.\<close>

definition add_row :: "felt \<Rightarrow> boundary \<Rightarrow> (int \<Rightarrow> nat option) \<times> felt list \<times> nat list \<Rightarrow> (int \<Rightarrow> nat option) \<times> felt list \<times> nat list" where
  "add_row g bc = (\<lambda>(rowSlot, distinctGRows, boundSlot).
     case rowSlot (bc_Row bc) of
       Some slot \<Rightarrow> (rowSlot, distinctGRows, boundSlot @ [slot])
     | None \<Rightarrow>
         let slot = length distinctGRows
         in (rowSlot(bc_Row bc \<mapsto> slot), distinctGRows @ [felt_exp g (word_of_int (bc_Row bc))], boundSlot @ [slot]))"

definition row_slots :: "felt \<Rightarrow> boundary list \<Rightarrow> felt list \<times> nat list" where
  "row_slots g boundaries = snd (fold (add_row g) boundaries (Map.empty, [], []))"

text \<open>The variables \<^verbatim>\<open>x\<close> and \<^verbatim>\<open>xn\<close> in round \<open>j\<close>.\<close>

definition geometric :: "felt \<Rightarrow> felt \<Rightarrow> nat \<Rightarrow> felt" where
  "geometric start ratio j = ((\<lambda>x. felt_mul x ratio) ^^ j) start"

definition denominators :: "felt \<Rightarrow> felt \<Rightarrow> nat \<Rightarrow> nat \<Rightarrow> felt list \<Rightarrow> felt list" where
  "denominators eta omega n bigN distinctGRows =
     concat (map (\<lambda>j. felt_sub (geometric (felt_exp eta (of_nat n)) (felt_exp omega (of_nat n)) j) 1
       # map (felt_sub (geometric eta omega j)) distinctGRows) [0 ..< bigN])"

text \<open>\<^verbatim>\<open>acc = acc.Add(alpha[k].Mul(q))\<close>, with a panic when the coefficients run out.\<close>

fun add_weighted :: "felt list \<Rightarrow> felt list \<Rightarrow> felt \<Rightarrow> felt option" where
  "add_weighted alphas [] acc = Some acc"
| "add_weighted [] (q # qs) acc = None"
| "add_weighted (a # alphas) (q # qs) acc = add_weighted alphas qs (felt_add acc (felt_mul a q))"

definition transition_quotient :: "felt \<Rightarrow> felt \<Rightarrow> felt \<Rightarrow> felt" where
  "transition_quotient relax zdInv c = felt_mul (felt_mul c relax) zdInv"

definition boundary_quotient :: "felt \<Rightarrow> felt \<Rightarrow> felt \<Rightarrow> felt" where
  "boundary_quotient v value dInv = felt_mul (felt_sub v value) dInv"

text \<open>The value \<^verbatim>\<open>comp[j]\<close>.\<close>

definition composition_at :: "air \<Rightarrow> felt list list \<Rightarrow> nat \<Rightarrow> nat \<Rightarrow> nat \<Rightarrow> felt list \<Rightarrow> nat list \<Rightarrow> felt \<Rightarrow> felt list \<Rightarrow> felt list \<Rightarrow> nat \<Rightarrow> felt option" where
  "composition_at air colsCoset bigN shift stride dInv boundSlot relax alphaTrans alphaBound j = do {
     let jn = (j + shift) mod bigN;
     let cons = air_EvalTransition air (map (\<lambda>col. col ! j) colsCoset) (map (\<lambda>col. col ! jn) colsCoset);
     acc \<leftarrow> add_weighted alphaTrans (map (transition_quotient relax (dInv ! (j * stride))) cons) 0;
     qbs \<leftarrow> all_some (map (\<lambda>(bc, slot). map_option
              (\<lambda>col. boundary_quotient (col ! j) (bc_Value bc) (dInv ! (j * stride + 1 + slot)))
              (at_index colsCoset (bc_Col bc))) (zip (air_Boundaries air) boundSlot));
     add_weighted alphaBound qbs acc }"

definition mc_composition_lde :: "air \<Rightarrow> felt list list \<Rightarrow> felt \<Rightarrow> nat \<Rightarrow> nat \<Rightarrow> felt list \<Rightarrow> felt list \<Rightarrow> felt \<Rightarrow> felt list option" where
  "mc_composition_lde air colsCoeffs g n bigN alphaTrans alphaBound eta = do {
     let gN1 = felt_exp g (of_nat (n - 1));
     omega \<leftarrow> root_of_unity (log2_int (int bigN));
     colsCoset \<leftarrow> all_some (map (\<lambda>cs. eval_on_coset cs bigN eta) colsCoeffs);
     let (distinctGRows, boundSlot) = row_slots g (air_Boundaries air);
     let stride = 1 + length distinctGRows;
     let dInv = batch_inv (denominators eta omega n bigN distinctGRows);
     all_some (map (\<lambda>j. composition_at air colsCoset bigN (bigN div n) stride dInv boundSlot
         (felt_sub (geometric eta omega j) gN1) alphaTrans alphaBound j) [0 ..< bigN]) }"

subsection \<open>The check out of the domain\<close>

text \<open>\<open>Some None\<close> is the rejection when the point lies on a constrained row.\<close>

fun mc_bound_at_z :: "felt \<Rightarrow> felt \<Rightarrow> felt list \<Rightarrow> boundary list \<Rightarrow> felt list \<Rightarrow> felt \<Rightarrow> felt option option" where
  "mc_bound_at_z z g colZ (bc # bcs) (a # alphas) acc =
     (let denom = felt_sub z (felt_exp g (word_of_int (bc_Row bc))) in
      if denom = 0 then Some None
      else case at_index colZ (bc_Col bc) of
             None \<Rightarrow> None
           | Some v \<Rightarrow> mc_bound_at_z z g colZ bcs alphas
                         (felt_add acc (felt_mul a (boundary_quotient v (bc_Value bc) (felt_inv denom)))))"
| "mc_bound_at_z z g colZ bcs alphas acc = Some (Some acc)"

definition mc_check_constraints_at_z :: "air \<Rightarrow> felt \<Rightarrow> felt \<Rightarrow> nat \<Rightarrow> felt list \<Rightarrow> felt list \<Rightarrow> felt list \<Rightarrow> felt list \<Rightarrow> felt \<Rightarrow> bool option" where
  "mc_check_constraints_at_z air z g n alphaTrans alphaBound colZ colGZ Hz =
     (let denTrans = felt_sub (felt_exp z (of_nat n)) 1;
          relax = felt_sub z (felt_exp g (of_nat (n - 1)));
          cons = air_EvalTransition air colZ colGZ
      in if denTrans = 0 then Some False
         else if length cons \<noteq> length alphaTrans then Some False
         else do {
           acc \<leftarrow> add_weighted alphaTrans (map (transition_quotient relax (felt_inv denTrans)) cons) 0;
           (if length (air_Boundaries air) \<noteq> length alphaBound then Some False
            else do {
              r \<leftarrow> mc_bound_at_z z g colZ (air_Boundaries air) alphaBound acc;
              Some (case r of None \<Rightarrow> False | Some acc \<Rightarrow> acc = Hz) }) })"

subsection \<open>The DEEP quotient\<close>

definition mc_build_deep :: "felt list list \<Rightarrow> felt list \<Rightarrow> felt \<Rightarrow> felt \<Rightarrow> felt list \<Rightarrow> felt list \<Rightarrow> felt \<Rightarrow> felt list \<Rightarrow> felt list \<Rightarrow> felt \<Rightarrow> felt list" where
  "mc_build_deep colsCoeffs compCoeffs z gz colZ colGZ Hz gammaZ gammaGZ gammaH =
     (let acc = fold (\<lambda>c acc.
            let t0 = fst (poly_div_by_linear (poly_sub_const (colsCoeffs ! c) (colZ ! c)) z);
                acc = poly_add_scaled acc t0 (gammaZ ! c);
                t1 = fst (poly_div_by_linear (poly_sub_const (colsCoeffs ! c) (colGZ ! c)) gz)
            in poly_add_scaled acc t1 (gammaGZ ! c)) [0 ..< length colsCoeffs] [];
          h0 = fst (poly_div_by_linear (poly_sub_const compCoeffs Hz) z)
      in poly_trim (poly_add_scaled acc h0 gammaH))"

definition mc_deep_combine_at :: "felt \<Rightarrow> felt list \<Rightarrow> felt \<Rightarrow> felt \<Rightarrow> felt \<Rightarrow> felt list \<Rightarrow> felt list \<Rightarrow> felt \<Rightarrow> felt list \<Rightarrow> felt list \<Rightarrow> felt \<Rightarrow> felt" where
  "mc_deep_combine_at x colVals Hx z gz colZ colGZ Hz gammaZ gammaGZ gammaH =
     (let d0 = felt_sub x z; d1 = felt_sub x gz in
      if d0 = 0 \<or> d1 = 0 then fold (\<lambda>v acc. felt_add acc v) colVals (felt_add Hx 1)
      else
        let d0Inv = felt_inv d0; d1Inv = felt_inv d1;
            acc = fold (\<lambda>c acc.
              let t0 = felt_mul (gammaZ ! c) (felt_mul (felt_sub (colVals ! c) (colZ ! c)) d0Inv);
                  t1 = felt_mul (gammaGZ ! c) (felt_mul (felt_sub (colVals ! c) (colGZ ! c)) d1Inv)
              in felt_add (felt_add acc t0) t1) [0 ..< length colVals] 0
        in felt_add acc (felt_mul gammaH (felt_mul (felt_sub Hx Hz) d0Inv)))"

subsection \<open>The transcript\<close>

definition mc_indexed_label :: "string \<Rightarrow> nat \<Rightarrow> string" where
  "mc_indexed_label base index = base @ ''/'' @ dec_string index"

fun draw_each :: "xof \<Rightarrow> string list \<Rightarrow> transcript \<Rightarrow> (felt list \<times> transcript) option" where
  "draw_each xof [] t = Some ([], t)"
| "draw_each xof (label # labels) t = do {
     (x, t) \<leftarrow> challenge xof label t;
     (xs, t) \<leftarrow> draw_each xof labels t;
     Some (x # xs, t) }"

definition mc_draw_alphas :: "xof \<Rightarrow> nat \<Rightarrow> nat \<Rightarrow> transcript \<Rightarrow> (felt list \<times> felt list \<times> transcript) option" where
  "mc_draw_alphas xof numTrans numBound t = do {
     (alphaTrans, t) \<leftarrow> draw_each xof (map (mc_indexed_label ''mc/alpha-trans'') [0 ..< numTrans]) t;
     (alphaBound, t) \<leftarrow> draw_each xof (map (mc_indexed_label ''mc/alpha-bound'') [0 ..< numBound]) t;
     Some (alphaTrans, alphaBound, t) }"

fun draw_pairs :: "xof \<Rightarrow> nat list \<Rightarrow> transcript \<Rightarrow> (felt list \<times> felt list \<times> transcript) option" where
  "draw_pairs xof [] t = Some ([], [], t)"
| "draw_pairs xof (c # cs) t = do {
     (x, t) \<leftarrow> challenge xof (mc_indexed_label ''mc/gamma-z'' c) t;
     (y, t) \<leftarrow> challenge xof (mc_indexed_label ''mc/gamma-gz'' c) t;
     (xs, ys, t) \<leftarrow> draw_pairs xof cs t;
     Some (x # xs, y # ys, t) }"

definition mc_draw_gammas :: "xof \<Rightarrow> nat \<Rightarrow> transcript \<Rightarrow> (felt list \<times> felt list \<times> felt \<times> transcript) option" where
  "mc_draw_gammas xof w t = do {
     (gammaZ, gammaGZ, t) \<leftarrow> draw_pairs xof [0 ..< w] t;
     (gammaH, t) \<leftarrow> challenge xof ''mc/gamma-h'' t;
     Some (gammaZ, gammaGZ, gammaH, t) }"

definition mc_absorb_boundaries :: "boundary list \<Rightarrow> transcript \<Rightarrow> transcript" where
  "mc_absorb_boundaries boundaries t =
     fold (\<lambda>bc t. absorb_felt ''mc/bound-val'' (bc_Value bc)
       (absorb_felt ''mc/bound-row'' (from_uint64 (word_of_int (bc_Row bc)))
       (absorb_felt ''mc/bound-col'' (from_uint64 (word_of_int (bc_Col bc))) t))) boundaries t"

text \<open>The statement, absorbed in the same order by the prover and the verifier.\<close>

definition absorb_statement :: "air \<Rightarrow> felt list \<Rightarrow> bytes list \<Rightarrow> transcript" where
  "absorb_statement air public roots =
     (let t = new_transcript mcDomain;
          t = absorb_felt ''mc/num-columns'' (from_uint64 (word_of_int (air_NumColumns air))) t;
          t = absorb_felt ''mc/num-steps'' (from_uint64 (word_of_int (air_NumSteps air))) t;
          t = absorb_felt ''mc/max-degree'' (from_uint64 (word_of_int (air_MaxDegree air))) t;
          t = absorb_felt ''mc/blowup'' (from_uint64 (word_of_int mcBlowup)) t;
          t = absorb_felt ''mc/num-queries'' (from_uint64 (word_of_int mcNumQueries)) t;
          t = absorb_felt ''mc/num-bound'' (from_uint64 (of_nat (length (air_Boundaries air)))) t;
          t = mc_absorb_boundaries (air_Boundaries air) t;
          t = absorb_felt ''mc/num-public'' (from_uint64 (of_nat (length public))) t;
          t = fold (absorb_felt ''mc/public'') public t
      in fold (absorb_data ''mc/col-root'') roots t)"

definition absorb_ood :: "felt list \<Rightarrow> felt list \<Rightarrow> felt \<Rightarrow> transcript \<Rightarrow> transcript" where
  "absorb_ood colZ colGZ Hz t = absorb_felt ''mc/ood-hz'' Hz
     (fold (\<lambda>(z, gz) t. absorb_felt ''mc/ood-col-gz'' gz (absorb_felt ''mc/ood-col-z'' z t)) (zip colZ colGZ) t)"

subsection \<open>The prover\<close>

definition mc_fri_params :: fri_params where
  "mc_fri_params = \<lparr>fp_Blowup = mcBlowup, fp_NumQueries = mcNumQueries, fp_GrindBits = starkGrindBits, fp_FoldStopBits = 0\<rparr>"

definition prove_fri_mc :: "'z ext_scheme \<Rightarrow> xof \<Rightarrow> felt list \<Rightarrow> fri_proof option" where
  "prove_fri_mc E xof deepLDE = fri_prove E xof deepLDE mc_fri_params"

definition open_at :: "bytes merkle_tree list \<Rightarrow> felt list list \<Rightarrow> bytes merkle_tree \<Rightarrow> felt list \<Rightarrow> bytes merkle_tree \<Rightarrow> felt list \<Rightarrow> nat \<Rightarrow> air_opening option" where
  "open_at colTrees colsLDE compTree compLDE deepTree deepLDE pos = do {
     colPaths \<leftarrow> all_some (map (\<lambda>tree. open_leaf tree (int pos)) colTrees);
     compPath \<leftarrow> open_leaf compTree (int pos);
     deepPath \<leftarrow> open_leaf deepTree (int pos);
     Some \<lparr>ao_Pos = int pos, ao_ColVals = map (\<lambda>col. col ! pos) colsLDE, ao_ColPaths = colPaths,
           ao_CompVal = compLDE ! pos, ao_CompPath = compPath, ao_DeepVal = deepLDE ! pos, ao_DeepPath = deepPath\<rparr> }"

definition prove_air :: "'z ext_scheme \<Rightarrow> xof \<Rightarrow> air \<Rightarrow> felt list list \<Rightarrow> felt list \<Rightarrow> air_proof option" where
  "prove_air E xof air trace public =
     (let w = air_NumColumns air; n = air_NumSteps air; maxDeg = air_MaxDegree air in
      if \<not> is_pow2 n \<or> n < 4 then None
      else if w < 1 then None
      else if maxDeg < 1 then None
      else if int (length trace) \<noteq> n then None
      else if \<exists>row \<in> set trace. int (length row) \<noteq> w then None
      else do {
        g \<leftarrow> root_of_unity (log2_int n);
        let bigN = nat (mc_big_n maxDeg n);
        let eta = generator;
        (colsCoeffs, colsLDE) \<leftarrow> mc_eval_columns_on_lde trace (nat w) bigN;
        colCommits \<leftarrow> all_some (map (commit_evals E) colsLDE);
        let t = absorb_statement air public (map fst colCommits);
        let numTrans = length (air_EvalTransition air (trace ! 0) (trace ! 1));
        (alphaTrans, alphaBound, t) \<leftarrow> mc_draw_alphas xof numTrans (length (air_Boundaries air)) t;
        compCoset \<leftarrow> mc_composition_lde air colsCoeffs g (nat n) bigN alphaTrans alphaBound eta;
        compScaled \<leftarrow> interpolate compCoset;
        let compCoeffs = poly_compose_scale compScaled (felt_inv eta);
        compLDE \<leftarrow> eval_on_lde compCoeffs bigN;
        (compRoot, compTree) \<leftarrow> commit_evals E compLDE;
        (z, t) \<leftarrow> challenge xof ''mc/ood-z'' (absorb_data ''mc/comp-root'' compRoot t);
        let gz = felt_mul g z;
        let oodColZ = map (\<lambda>cs. eval_poly cs z) colsCoeffs;
        let oodColGZ = map (\<lambda>cs. eval_poly cs gz) colsCoeffs;
        let oodHz = eval_poly compCoeffs z;
        (gammaZ, gammaGZ, gammaH, t) \<leftarrow> mc_draw_gammas xof (nat w) (absorb_ood oodColZ oodColGZ oodHz t);
        let deepCoeffs = mc_build_deep colsCoeffs compCoeffs z gz oodColZ oodColGZ oodHz gammaZ gammaGZ gammaH;
        deepLDE \<leftarrow> eval_on_lde deepCoeffs bigN;
        friProof \<leftarrow> prove_fri_mc E xof deepLDE;
        deepTree \<leftarrow> build_deep_tree E deepLDE;
        (positions, t) \<leftarrow> query_positions xof ''mc/query'' mcNumQueries (int bigN) (absorb_fri_digest friProof t);
        openings \<leftarrow> all_some (map (open_at (map snd colCommits) colsLDE compTree compLDE deepTree deepLDE) positions);
        Some \<lparr>ap_ColRoots = map fst colCommits, ap_CompRoot = compRoot, ap_OodColZ = oodColZ,
              ap_OodColGZ = oodColGZ, ap_OodHz = oodHz, ap_Fri = friProof, ap_Openings = openings\<rparr> })"

subsection \<open>The verifier\<close>

definition opening_ok :: "'z ext_scheme \<Rightarrow> bytes list \<Rightarrow> bytes \<Rightarrow> nat \<Rightarrow> bytes \<Rightarrow> (felt \<Rightarrow> felt list \<Rightarrow> felt \<Rightarrow> felt) \<Rightarrow> felt \<Rightarrow> nat \<Rightarrow> nat \<Rightarrow> air_opening \<Rightarrow> bool" where
  "opening_ok E colRoots compRoot w deepRoot combine omegaN bigN pos op \<longleftrightarrow>
     ao_Pos op = int pos \<and> pos < bigN
     \<and> length (ao_ColVals op) = w \<and> length (ao_ColPaths op) = w
     \<and> list_all (\<lambda>(root, v, path). sha_verify_path E root (int pos) (leaf_of v) path)
         (zip colRoots (zip (ao_ColVals op) (ao_ColPaths op)))
     \<and> sha_verify_path E compRoot (int pos) (leaf_of (ao_CompVal op)) (ao_CompPath op)
     \<and> sha_verify_path E deepRoot (int pos) (leaf_of (ao_DeepVal op)) (ao_DeepPath op)
     \<and> combine (felt_exp omegaN (of_nat pos)) (ao_ColVals op) (ao_CompVal op) = ao_DeepVal op"

definition verify_air :: "'z ext_scheme \<Rightarrow> xof \<Rightarrow> air \<Rightarrow> air_proof \<Rightarrow> felt list \<Rightarrow> bool option" where
  "verify_air E xof air proof public =
     (let w = air_NumColumns air; n = air_NumSteps air; maxDeg = air_MaxDegree air in
      if \<not> is_pow2 n \<or> n < 4 \<or> w < 1 \<or> maxDeg < 1 then Some False
      else do {
        g \<leftarrow> root_of_unity (log2_int n);
        let bigN = mc_big_n maxDeg n;
        let logBigN = log2_int bigN;
        let fri = ap_Fri proof;
        if \<not> is_pow2 bigN then Some False
        else if int (length (ap_ColRoots proof)) \<noteq> w then Some False
        else if int (length (ap_OodColZ proof)) \<noteq> w \<or> int (length (ap_OodColGZ proof)) \<noteq> w then Some False
        else if fr_LogDomain fri \<noteq> logBigN then Some False
        else if fr_LayerRoots fri = [] then Some False
        else do {
          friOk \<leftarrow> fri_verify E xof fri mc_fri_params;
          if \<not> friOk then Some False
          else if int (length (ap_Openings proof)) \<noteq> mcNumQueries then Some False
          else do {
            let t = absorb_statement air public (ap_ColRoots proof);
            let zeroRow = replicate (nat w) 0;
            let numTrans = length (air_EvalTransition air zeroRow zeroRow);
            (alphaTrans, alphaBound, t) \<leftarrow> mc_draw_alphas xof numTrans (length (air_Boundaries air)) t;
            (z, t) \<leftarrow> challenge xof ''mc/ood-z'' (absorb_data ''mc/comp-root'' (ap_CompRoot proof) t);
            let gz = felt_mul g z;
            (gammaZ, gammaGZ, gammaH, t) \<leftarrow> mc_draw_gammas xof (nat w) (absorb_ood (ap_OodColZ proof) (ap_OodColGZ proof) (ap_OodHz proof) t);
            (positions, t) \<leftarrow> query_positions xof ''mc/query'' mcNumQueries bigN (absorb_fri_digest fri t);
            zOk \<leftarrow> mc_check_constraints_at_z air z g (nat n) alphaTrans alphaBound (ap_OodColZ proof) (ap_OodColGZ proof) (ap_OodHz proof);
            if \<not> zOk then Some False
            else do {
              omegaN \<leftarrow> root_of_unity logBigN;
              let combine = (\<lambda>x colVals Hx. mc_deep_combine_at x colVals Hx z gz (ap_OodColZ proof) (ap_OodColGZ proof) (ap_OodHz proof) gammaZ gammaGZ gammaH);
              Some (list_all (\<lambda>(pos, op). opening_ok E (ap_ColRoots proof) (ap_CompRoot proof) (nat w) (hd (fr_LayerRoots fri)) combine omegaN (nat bigN) pos op)
                (zip positions (ap_Openings proof))) } } } })"

end
