(* ===== verification/PoseidonAir.thy ===== *)
theory PoseidonAir
  imports Air Poseidon
begin

text \<open>
  \<^verbatim>\<open>internal/stark/poseidon_air_full.go\<close>: the Poseidon permutation as an \<^verbatim>\<open>AIR\<close>: twelve state columns,
  twelve columns of round constants and two selectors over 32 rows. The arrays of the source are lists.
\<close>

definition poseidonFullRounds :: nat where "poseidonFullRounds = 8"
definition poseidonTotalRounds :: nat where "poseidonTotalRounds = poseidonFullRounds + poseidonPartialRounds"

definition pfSteps :: nat where "pfSteps = 32"
definition pfStateCols :: nat where "pfStateCols = poseidonWidth"
definition pfStateOff :: nat where "pfStateOff = 0"
definition pfRcOff :: nat where "pfRcOff = pfStateOff + pfStateCols"
definition pfFselCol :: nat where "pfFselCol = pfRcOff + pfStateCols"
definition pfActCol :: nat where "pfActCol = pfFselCol + 1"
definition pfNumCols :: nat where "pfNumCols = pfActCol + 1"
definition pfMaxDegree :: int where "pfMaxDegree = 9"
definition pfOutputRow :: nat where "pfOutputRow = poseidonTotalRounds"

lemmas pf_consts = poseidonFullRounds_def poseidonTotalRounds_def pfSteps_def pfStateCols_def pfStateOff_def pfRcOff_def
  pfFselCol_def pfActCol_def pfNumCols_def pfMaxDegree_def pfOutputRow_def poseidonWidth_def poseidonPartialRounds_def
  poseidonDigestLen_def

text \<open>The row of the matrix times the vector: \<^verbatim>\<open>acc = acc.Add(row[j].Mul(sb[j]))\<close>.\<close>

definition mds_row :: "felt list list \<Rightarrow> nat \<Rightarrow> felt list \<Rightarrow> felt" where
  "mds_row mds k sb = fold (\<lambda>j acc. felt_add acc (felt_mul (mds ! k ! j) (sb ! j))) [0 ..< pfStateCols] 0"

definition pf_eval_transition :: "felt list list \<Rightarrow> felt list \<Rightarrow> felt list \<Rightarrow> felt list" where
  "pf_eval_transition mds cur nxt =
     (let fsel = cur ! pfFselCol;
          active = cur ! pfActCol;
          oneMinusFsel = felt_sub 1 fsel;
          oneMinusActive = felt_sub 1 active;
          arc = map (\<lambda>k. felt_add (cur ! (pfStateOff + k)) (cur ! (pfRcOff + k))) [0 ..< pfStateCols];
          sb = felt_exp (arc ! 0) poseidonAlpha
            # map (\<lambda>k. felt_add (felt_mul fsel (felt_exp (arc ! k) poseidonAlpha)) (felt_mul oneMinusFsel (arc ! k))) [1 ..< pfStateCols]
      in map (\<lambda>k. felt_sub (nxt ! (pfStateOff + k))
            (felt_add (felt_mul active (mds_row mds k sb)) (felt_mul oneMinusActive (cur ! (pfStateOff + k))))) [0 ..< pfStateCols])"

definition pf_is_full_round :: "nat \<Rightarrow> bool" where
  "pf_is_full_round r \<longleftrightarrow> r < poseidonFullRounds div 2 \<or> poseidonFullRounds div 2 + poseidonPartialRounds \<le> r"

definition pf_row_constants :: "poseidon_params \<Rightarrow> nat \<Rightarrow> felt list \<times> felt \<times> felt" where
  "pf_row_constants pp row =
     (if poseidonTotalRounds \<le> row then (replicate pfStateCols 0, 0, 0)
      else (pp_rc pp ! row, if pf_is_full_round row then 1 else 0, 1))"

definition pf_boundary :: "nat \<Rightarrow> nat \<Rightarrow> felt \<Rightarrow> boundary" where
  "pf_boundary col row v = \<lparr>bc_Col = int col, bc_Row = int row, bc_Value = v\<rparr>"

definition pf_boundaries :: "poseidon_params \<Rightarrow> felt list \<Rightarrow> felt list \<Rightarrow> boundary list" where
  "pf_boundaries pp input digest =
     map (\<lambda>k. pf_boundary (pfStateOff + k) 0 (input ! k)) [0 ..< pfStateCols]
     @ concat (map (\<lambda>row. let (rc, fsel, active) = pf_row_constants pp row
         in map (\<lambda>k. pf_boundary (pfRcOff + k) row (rc ! k)) [0 ..< pfStateCols]
            @ [pf_boundary pfFselCol row fsel, pf_boundary pfActCol row active]) [0 ..< pfSteps])
     @ map (\<lambda>k. pf_boundary (pfStateOff + k) pfOutputRow (digest ! k)) [0 ..< poseidonDigestLen]"

definition poseidon_full_air :: "poseidon_params \<Rightarrow> felt list \<Rightarrow> felt list \<Rightarrow> air" where
  "poseidon_full_air pp input digest =
     \<lparr>air_NumColumns = int pfNumCols, air_NumSteps = int pfSteps,
      air_EvalTransition = pf_eval_transition (mds_of_points (pp_points pp)),
      air_Boundaries = pf_boundaries pp input digest, air_MaxDegree = pfMaxDegree\<rparr>"

subsection \<open>The trace\<close>

definition pf_apply_round :: "felt list list \<Rightarrow> felt list \<Rightarrow> felt list \<Rightarrow> bool \<Rightarrow> felt list" where
  "pf_apply_round mds s rc full =
     (let a = map (\<lambda>k. felt_add (s ! k) (rc ! k)) [0 ..< pfStateCols];
          sb = felt_exp (a ! 0) poseidonAlpha # map (\<lambda>k. if full then felt_exp (a ! k) poseidonAlpha else a ! k) [1 ..< pfStateCols]
      in map (\<lambda>k. mds_row mds k sb) [0 ..< pfStateCols])"

definition pf_line :: "felt list \<Rightarrow> felt list \<Rightarrow> felt \<Rightarrow> felt \<Rightarrow> felt list" where
  "pf_line s rc fsel active = map (\<lambda>k. s ! k) [0 ..< pfStateCols] @ map (\<lambda>k. rc ! k) [0 ..< pfStateCols] @ [fsel, active]"

definition pf_row :: "poseidon_params \<Rightarrow> nat \<Rightarrow> felt list list \<times> felt list \<Rightarrow> felt list list \<times> felt list" where
  "pf_row pp row = (\<lambda>(trace, s).
     let (rc, fsel, active) = pf_row_constants pp row
     in (trace @ [pf_line s rc fsel active],
         if row + 1 < pfSteps
         then (if active = 0 then s else pf_apply_round (mds_of_points (pp_points pp)) s rc (fsel \<noteq> 0))
         else s))"

definition build_poseidon_full_trace :: "poseidon_params \<Rightarrow> felt list \<Rightarrow> felt list list \<times> felt list" where
  "build_poseidon_full_trace pp input = fold (pf_row pp) [0 ..< pfSteps] ([], input)"

subsection \<open>The prover and the verifier\<close>

definition pf_public_inputs :: "felt list \<Rightarrow> felt list \<Rightarrow> felt list" where
  "pf_public_inputs input digest = input @ digest"

definition prove_hash_full :: "'z ext_scheme \<Rightarrow> xof \<Rightarrow> poseidon_params \<Rightarrow> felt list \<Rightarrow> (felt list \<times> air_proof) option" where
  "prove_hash_full E xof pp preimageState =
     (let (trace, output) = build_poseidon_full_trace pp preimageState;
          digest = take poseidonDigestLen output
      in map_option (\<lambda>proof. (digest, proof))
          (prove_air E xof (poseidon_full_air pp preimageState digest) trace (pf_public_inputs preimageState digest)))"

definition verify_hash_full :: "'z ext_scheme \<Rightarrow> xof \<Rightarrow> poseidon_params \<Rightarrow> felt list \<Rightarrow> felt list \<Rightarrow> air_proof \<Rightarrow> bool option" where
  "verify_hash_full E xof pp preimageState digest proof =
     verify_air E xof (poseidon_full_air pp preimageState digest) proof (pf_public_inputs preimageState digest)"

end
