(* ===== verification/Dft.thy ===== *)
theory Dft
  imports Main
begin

text \<open>
  The discrete Fourier transform over a commutative ring with a root of unity, as the reference for
  \<^verbatim>\<open>internal/stark/ntt.go\<close>: the radix-2 stages on the bit-reversed input compute it, the transform
  with the inverse root undoes it up to the length, and it turns convolution into a pointwise product.
\<close>

subsection \<open>The transform and its stages\<close>

definition dft :: "'a :: comm_ring_1 \<Rightarrow> 'a list \<Rightarrow> 'a list" where
  "dft w xs = map (\<lambda>i. \<Sum>j<length xs. xs ! j * w ^ (i * j)) [0 ..< length xs]"

definition evens :: "'a list \<Rightarrow> 'a list" where
  "evens xs = map (\<lambda>i. xs ! (2 * i)) [0 ..< length xs div 2]"

definition odds :: "'a list \<Rightarrow> 'a list" where
  "odds xs = map (\<lambda>i. xs ! (2 * i + 1)) [0 ..< length xs div 2]"

fun bit_reversed :: "nat \<Rightarrow> 'a list \<Rightarrow> 'a list" where
  "bit_reversed 0 xs = xs"
| "bit_reversed (Suc L) xs = bit_reversed L (evens xs) @ bit_reversed L (odds xs)"

text \<open>One stage of butterflies: the element \<open>b\<close> of a block and the one \<open>half\<close> later.\<close>

definition butterflies :: "'a :: comm_ring_1 \<Rightarrow> nat \<Rightarrow> 'a list \<Rightarrow> 'a list" where
  "butterflies w half a =
     map (\<lambda>i. let b = i mod (2 * half) in
            if b < half then a ! i + w ^ b * a ! (i + half)
            else a ! (i - half) - w ^ (b - half) * a ! i) [0 ..< length a]"

definition stages :: "'a :: comm_ring_1 \<Rightarrow> nat \<Rightarrow> nat \<Rightarrow> 'a list \<Rightarrow> 'a list" where
  "stages w L t a = fold (\<lambda>s. butterflies (w ^ 2 ^ (L - Suc s)) (2 ^ s)) [0 ..< t] a"

lemma length_dft [simp]: "length (dft w xs) = length xs"
  by (simp add: dft_def)

lemma length_halves [simp]: "length (evens xs) = length xs div 2" "length (odds xs) = length xs div 2"
  by (simp_all add: evens_def odds_def)

lemma length_bit_reversed [simp]: "length xs = 2 ^ L \<Longrightarrow> length (bit_reversed L xs) = 2 ^ L"
  by (induction L arbitrary: xs) simp_all

lemma length_butterflies [simp]: "length (butterflies w half a) = length a"
  by (simp add: butterflies_def)

lemma stages_Suc: "stages w L (Suc t) a = butterflies (w ^ 2 ^ (L - Suc t)) (2 ^ t) (stages w L t a)"
  by (simp add: stages_def)

lemma stages_0 [simp]: "stages w L 0 a = a"
  by (simp add: stages_def)

lemma length_stages [simp]: "length (stages w L t a) = length a"
  by (induction t) (simp_all add: stages_Suc)

lemma nth_butterflies:
  "i < length a \<Longrightarrow> butterflies w half a ! i =
     (if i mod (2 * half) < half then a ! i + w ^ (i mod (2 * half)) * a ! (i + half)
      else a ! (i - half) - w ^ (i mod (2 * half) - half) * a ! i)"
  by (simp add: butterflies_def Let_def)

subsection \<open>Decimation in time\<close>

text \<open>Blocks are transformed independently of each other.\<close>

lemma butterflies_append:
  assumes "length xs = 2 * half * q" and "length ys = 2 * half * q'"
  shows "butterflies w half (xs @ ys) = butterflies w half xs @ butterflies w half ys"
proof (cases "half = 0")
  case True
  then show ?thesis using assms by (simp add: butterflies_def)
next
  case False
  have inside: "i + half < length xs" if "i < length xs" "i mod (2 * half) < half" for i
  proof -
    have "i div (2 * half) < q" using that(1) assms(1) False by (simp add: less_mult_imp_div_less mult.commute)
    then have "2 * half * (i div (2 * half)) + 2 * half \<le> 2 * half * q"
      by (metis Suc_leI mult_Suc_right mult_le_mono2 add.commute)
    then show ?thesis using that(2) assms(1) mult_div_mod_eq [of "2 * half" i] by linarith
  qed
  have outside: "half \<le> i" if "\<not> i mod (2 * half) < half" for i
    using that by (meson le_trans linorder_not_less mod_less_eq_dividend)
  show ?thesis
  proof (rule nth_equalityI)
    fix i assume i: "i < length (butterflies w half (xs @ ys))"
    show "butterflies w half (xs @ ys) ! i = (butterflies w half xs @ butterflies w half ys) ! i"
    proof (cases "i < length xs")
      case True
      then show ?thesis using inside [OF True] by (auto simp: nth_butterflies nth_append)
    next
      case ge: False
      define k where "k = i - length xs"
      have ik: "i = length xs + k" using ge by (simp add: k_def)
      have k: "k < length ys" using i ik by simp
      have m: "i mod (2 * half) = k mod (2 * half)" by (simp add: ik assms(1))
      show ?thesis
      proof (cases "k mod (2 * half) < half")
        case True
        then show ?thesis using k by (simp add: nth_butterflies nth_append ik m [unfolded ik])
      next
        case False
        then have "half \<le> k" by (rule outside)
        then have "length xs + k - half = length xs + (k - half)" by simp
        then show ?thesis using k False \<open>half \<le> k\<close>
          by (simp add: nth_butterflies nth_append ik m [unfolded ik] del: add_diff_assoc)
      qed
    qed
  qed simp
qed

lemma stages_append:
  assumes "length xs = 2 ^ L" and "length ys = 2 ^ L" and "t \<le> L"
  shows "stages w (Suc L) t (xs @ ys) = stages (w ^ 2) L t xs @ stages (w ^ 2) L t ys"
  using assms(3)
proof (induction t)
  case (Suc t)
  have e: "(w ^ 2) ^ 2 ^ (L - Suc t) = w ^ 2 ^ (Suc L - Suc t)"
    using Suc.prems by (simp add: power_mult [symmetric] power_Suc [symmetric] Suc_diff_Suc del: power_Suc)
  have "2 ^ L = 2 * 2 ^ t * (2 :: nat) ^ (L - Suc t)"
    using Suc.prems by (simp add: power_add [symmetric] power_Suc [symmetric] del: power_Suc)
  with assms(1,2) show ?case using Suc
    by (simp only: stages_Suc e) (simp add: butterflies_append [where q = "2 ^ (L - Suc t)" and q' = "2 ^ (L - Suc t)"])
qed simp

lemma sum_even_odd:
  fixes f :: "nat \<Rightarrow> 'a :: comm_monoid_add"
  shows "(\<Sum>j<2 * n. f j) = (\<Sum>j<n. f (2 * j)) + (\<Sum>j<n. f (2 * j + 1))"
  by (induction n) (simp_all add: ac_simps)

lemma dft_split:
  assumes n: "length xs = 2 * h" and w: "w ^ h = - 1"
  shows "dft w xs = butterflies w h (dft (w ^ 2) (evens xs) @ dft (w ^ 2) (odds xs))"
proof (rule nth_equalityI)
  fix i assume "i < length (dft w xs)"
  then have i: "i < 2 * h" by (simp add: n)
  define E where "E k = (\<Sum>j<h. xs ! (2 * j) * w ^ (2 * k * j))" for k
  define D where "D k = (\<Sum>j<h. xs ! (2 * j + 1) * w ^ (2 * k * j))" for k
  have ed: "dft (w ^ 2) (evens xs) ! k = E k" "dft (w ^ 2) (odds xs) ! k = D k" if "k < h" for k
    using that by (simp_all add: dft_def evens_def odds_def E_def D_def n power_mult mult.assoc)
  have d: "dft w xs ! i = E i + w ^ i * D i"
  proof -
    have "dft w xs ! i = (\<Sum>j<2 * h. xs ! j * w ^ (i * j))" using i by (simp add: dft_def n)
    also have "\<dots> = E i + w ^ i * D i"
      unfolding sum_even_odd by (simp add: E_def D_def sum_distrib_left power_add ac_simps)
    finally show ?thesis .
  qed
  have period: "w ^ (2 * (k + h) * j) = w ^ (2 * k * j)" for k j
  proof -
    have "w ^ (2 * (k + h) * j) = w ^ (2 * k * j) * ((w ^ h) ^ 2) ^ j"
      by (simp add: power_add [symmetric] power_mult [symmetric] algebra_simps)
    then show ?thesis by (simp add: w)
  qed
  show "dft w xs ! i = butterflies w h (dft (w ^ 2) (evens xs) @ dft (w ^ 2) (odds xs)) ! i"
  proof (cases "i < h")
    case True
    then show ?thesis by (simp add: d nth_butterflies nth_append n ed)
  next
    case False
    then obtain k where k: "i = k + h" "k < h" using i by (metis add.commute le_Suc_ex linorder_not_less mult_2 nat_add_left_cancel_less)
    have "E i = E k" "D i = D k" unfolding E_def D_def k(1) by (simp_all only: period)
    moreover have "w ^ i = - (w ^ k)" by (simp add: k(1) power_add w)
    ultimately have "dft w xs ! i = E k - w ^ k * D k" by (simp add: d)
    then show ?thesis using k by (simp add: nth_butterflies nth_append n ed)
  qed
qed (simp add: n)

theorem stages_dft:
  assumes "length xs = 2 ^ L" and "0 < L \<Longrightarrow> w ^ 2 ^ (L - 1) = - 1"
  shows "stages w L L (bit_reversed L xs) = dft w xs"
  using assms
proof (induction L arbitrary: xs w)
  case 0
  then obtain x where "xs = [x]" by (cases xs) auto
  then show ?case by (simp add: dft_def)
next
  case (Suc L)
  have w: "w ^ 2 ^ L = - 1" using Suc.prems(2) by simp
  have r: "(w ^ 2) ^ 2 ^ (L - 1) = - 1" if "0 < L"
    using w that by (simp add: power_mult [symmetric] power_Suc [symmetric] del: power_Suc)
  have "stages w (Suc L) (Suc L) (bit_reversed (Suc L) xs)
      = butterflies w (2 ^ L) (stages (w ^ 2) L L (bit_reversed L (evens xs)) @ stages (w ^ 2) L L (bit_reversed L (odds xs)))"
    using Suc.prems(1) by (simp add: stages_Suc stages_append)
  also have "\<dots> = butterflies w (2 ^ L) (dft (w ^ 2) (evens xs) @ dft (w ^ 2) (odds xs))"
    using Suc.prems(1) r by (simp add: Suc.IH)
  also have "\<dots> = dft w xs"
    using dft_split [of xs "2 ^ L" w] Suc.prems(1) w by simp
  finally show ?case .
qed

subsection \<open>The inverse\<close>

lemma geometric_pow2: "(\<Sum>k<2 ^ L. u ^ k) = (\<Prod>t<L. 1 + (u :: 'a :: comm_ring_1) ^ 2 ^ t)"
proof (induction L)
  case (Suc L)
  have "(\<Sum>k<2 ^ L + 2 ^ L. u ^ k) = (\<Sum>k<2 ^ L. u ^ k) + (\<Sum>k<2 ^ L. u ^ (2 ^ L + k))"
  proof -
    have "(\<Sum>k<m + n. u ^ k) = (\<Sum>k<m. u ^ k) + (\<Sum>k<n. u ^ (m + k))" for m n :: nat
      by (induction n) simp_all
    then show ?thesis .
  qed
  also have "\<dots> = (\<Sum>k<2 ^ L. u ^ k) * (1 + u ^ 2 ^ L)"
    by (simp add: power_add sum_distrib_right [symmetric] sum_distrib_left [symmetric] distrib_right mult.commute)
  finally show ?case using Suc by (simp add: mult_2)
qed simp

lemma two_part: "0 < (d :: nat) \<Longrightarrow> d < 2 ^ L \<Longrightarrow> \<exists>a m. d = 2 ^ a * (2 * m + 1) \<and> a < L"
proof (induction L arbitrary: d)
  case (Suc L)
  show ?case
  proof (cases "even d")
    case True
    then obtain e where e: "d = 2 * e" by blast
    with Suc.prems have "0 < e" "e < 2 ^ L" by simp_all
    then obtain a m where "e = 2 ^ a * (2 * m + 1)" "a < L" using Suc.IH by blast
    then have "d = 2 ^ Suc a * (2 * m + 1)" "Suc a < Suc L" by (simp_all add: e)
    then show ?thesis by blast
  next
    case False
    then obtain m where "d = 2 * m + 1" by (rule oddE)
    then have "d = 2 ^ 0 * (2 * m + 1)" by simp
    then show ?thesis by blast
  qed
qed simp

text \<open>The powers of a proper power of the root add up to zero.\<close>

lemma root_sum:
  assumes w: "w ^ 2 ^ (L - 1) = (- 1 :: 'a :: comm_ring_1)" and d: "0 < d" "d < 2 ^ L"
  shows "(\<Sum>k<2 ^ L. (w ^ d) ^ k) = 0"
proof -
  obtain a m where dm: "d = 2 ^ a * (2 * m + 1)" and a: "a < L" using two_part [OF d] by blast
  define t where "t = L - 1 - a"
  have "2 ^ t * (2 :: nat) ^ a = 2 ^ (L - 1)" using a by (simp add: t_def power_add [symmetric])
  then have e: "d * 2 ^ t = 2 ^ (L - 1) * (2 * m + 1)" by (simp add: dm algebra_simps)
  have "(w ^ d) ^ 2 ^ t = w ^ (2 ^ (L - 1) * (2 * m + 1))"
    by (simp add: power_mult [symmetric] e)
  also have "\<dots> = (- 1) ^ (2 * m + 1)" by (simp only: power_mult w)
  finally have "1 + (w ^ d) ^ 2 ^ t = 0" by simp
  moreover have "t < L" using a by (simp add: t_def)
  ultimately show ?thesis by (auto simp: geometric_pow2 intro: prod_zero)
qed

lemma cancel_powers:
  assumes "v * w = (1 :: 'a :: comm_ring_1)" and "i \<le> j"
  shows "w ^ j * v ^ i = w ^ (j - i)"
proof -
  have "w ^ j = w ^ (j - i) * w ^ i" using assms(2) by (simp add: power_add [symmetric])
  then have "w ^ j * v ^ i = w ^ (j - i) * (v * w) ^ i" by (simp add: power_mult_distrib ac_simps)
  then show ?thesis by (simp add: assms(1))
qed

lemma dft_inverse:
  assumes n: "length xs = 2 ^ L" and w: "0 < L \<Longrightarrow> w ^ 2 ^ (L - 1) = - 1" and vw: "v * w = 1"
  shows "dft v (dft w xs) = map (\<lambda>x. of_nat (2 ^ L) * x) xs"
proof (rule nth_equalityI)
  fix i assume "i < length (dft v (dft w xs))"
  then have i: "i < 2 ^ L" by (simp add: n)
  have v: "v ^ 2 ^ (L - 1) = - 1" if "0 < L"
  proof -
    have "v ^ 2 ^ (L - 1) * w ^ 2 ^ (L - 1) = 1" by (simp add: power_mult_distrib [symmetric] vw)
    then have "- (v ^ 2 ^ (L - 1)) = 1" using w [OF that] by simp
    then show ?thesis by (metis minus_minus)
  qed
  have vw_pow: "v ^ k * w ^ k = 1" for k by (simp add: power_mult_distrib [symmetric] vw)
  have orth: "(\<Sum>k<2 ^ L. w ^ (k * j) * v ^ (i * k)) = (if j = i then of_nat (2 ^ L) else 0)" if j: "j < 2 ^ L" for j
  proof -
    have t: "w ^ (k * j) * v ^ (i * k) = (w ^ j * v ^ i) ^ k" for k
      by (simp add: power_mult_distrib power_mult [symmetric] mult.commute)
    consider "j = i" | "i < j" | "j < i" by linarith
    then show ?thesis
    proof cases
      case 1
      then show ?thesis by (simp add: t vw_pow mult.commute)
    next
      case 2
      then have "w ^ j * v ^ i = w ^ (j - i)"
        by (simp add: cancel_powers [OF vw])
      moreover have "0 < L" using i j 2 by (cases L) auto
      ultimately show ?thesis using root_sum [of w L "j - i"] w 2 j by (simp add: t)
    next
      case 3
      then have "w ^ j * v ^ i = v ^ (i - j)"
        using vw by (simp add: mult.commute [of "w ^ j"] cancel_powers [of w v] mult.commute [of w])
      moreover have "0 < L" using i j 3 by (cases L) auto
      ultimately show ?thesis using root_sum [of v L "i - j"] v 3 i by (simp add: t)
    qed
  qed
  have "dft v (dft w xs) ! i = (\<Sum>k<2 ^ L. (\<Sum>j<2 ^ L. xs ! j * w ^ (k * j)) * v ^ (i * k))"
    using i by (simp add: dft_def n)
  also have "\<dots> = (\<Sum>j<2 ^ L. \<Sum>k<2 ^ L. xs ! j * w ^ (k * j) * v ^ (i * k))"
    unfolding sum_distrib_right by (rule sum.swap)
  also have "\<dots> = (\<Sum>j<2 ^ L. xs ! j * (\<Sum>k<2 ^ L. w ^ (k * j) * v ^ (i * k)))"
    by (simp add: sum_distrib_left mult.assoc)
  also have "\<dots> = (\<Sum>j<2 ^ L. if j = i then xs ! j * of_nat (2 ^ L) else 0)"
    by (rule sum.cong) (simp_all add: orth)
  also have "\<dots> = of_nat (2 ^ L) * xs ! i"
    using i by (simp add: mult.commute)
  finally show "dft v (dft w xs) ! i = map (\<lambda>x. of_nat (2 ^ L) * x) xs ! i" using i by (simp add: n)
qed (simp add: n)

subsection \<open>Products\<close>

definition coeff :: "'a :: comm_ring_1 list \<Rightarrow> nat \<Rightarrow> 'a" where
  "coeff xs i = (if i < length xs then xs ! i else 0)"

definition convolve :: "'a :: comm_ring_1 list \<Rightarrow> 'a list \<Rightarrow> nat \<Rightarrow> 'a list" where
  "convolve xs ys n = map (\<lambda>m. \<Sum>i\<le>m. coeff xs i * coeff ys (m - i)) [0 ..< n]"

definition value_at :: "'a :: comm_ring_1 list \<Rightarrow> 'a \<Rightarrow> 'a" where
  "value_at xs x = (\<Sum>j<length xs. xs ! j * x ^ j)"

lemma value_at_horner: "value_at xs x = foldr (\<lambda>c acc. c + x * acc) xs 0"
proof (induction xs)
  case (Cons c cs)
  have "value_at (c # cs) x = c + x * value_at cs x"
    by (simp add: value_at_def sum.lessThan_Suc_shift sum_distrib_left algebra_simps del: sum.lessThan_Suc)
  then show ?case by (simp add: Cons)
qed (simp add: value_at_def)

lemma value_at_coeff: "length xs \<le> n \<Longrightarrow> value_at xs x = (\<Sum>j<n. coeff xs j * x ^ j)"
  unfolding value_at_def by (rule sum.mono_neutral_cong_left) (auto simp: coeff_def)

lemma dft_value_at: "i < length xs \<Longrightarrow> dft w xs ! i = value_at xs (w ^ i)"
  by (simp add: dft_def value_at_def power_mult)

text \<open>Enough room for the degree: nothing wraps around.\<close>

lemma value_convolve:
  assumes n: "length xs + length ys \<le> Suc n"
  shows "value_at (convolve xs ys n) x = value_at xs x * value_at ys x"
proof -
  let ?f = "\<lambda>i j. coeff xs i * coeff ys j * x ^ (i + j)"
  have "value_at xs x * value_at ys x = (\<Sum>i<length xs. \<Sum>j<length ys. ?f i j)"
    by (simp add: value_at_coeff [OF order_refl] sum_product power_add ac_simps)
  also have "\<dots> = (\<Sum>(i, j) \<in> {..<length xs} \<times> {..<length ys}. ?f i j)"
    by (simp add: sum.cartesian_product)
  also have "\<dots> = (\<Sum>(i, j) \<in> {(i, j). i + j < n}. ?f i j)"
  proof (rule sum.mono_neutral_left)
    have "{(i, j). i + j < n} \<subseteq> {..<n} \<times> {..<n}" by auto
    then show "finite {(i, j). i + j < n}" by (rule finite_subset) simp
  qed (use n in \<open>auto simp: coeff_def split: if_splits\<close>)
  also have "\<dots> = (\<Sum>k<n. \<Sum>i\<le>k. ?f i (k - i))" by (rule sum.triangle_reindex)
  also have "\<dots> = (\<Sum>k<n. (\<Sum>i\<le>k. coeff xs i * coeff ys (k - i)) * x ^ k)"
    by (simp add: sum_distrib_right)
  also have "\<dots> = value_at (convolve xs ys n) x"
    by (simp add: value_at_def convolve_def)
  finally show ?thesis ..
qed

text \<open>Trailing zeros change neither the value nor the product.\<close>

lemma coeff_padded [simp]: "coeff (xs @ replicate k 0) = coeff xs"
  by (auto simp: coeff_def nth_append)

lemma value_padded [simp]: "value_at (xs @ replicate k 0) x = value_at xs x"
  by (simp add: value_at_coeff [where n = "length xs + k"])

lemma convolve_cong: "coeff xs = coeff xs' \<Longrightarrow> coeff ys = coeff ys' \<Longrightarrow> convolve xs ys n = convolve xs' ys' n"
  by (simp add: convolve_def)

end
