(* ===== verification/NttField.thy ===== *)
theory NttField
  imports Ntt Dft FieldInv "HOL-Library.Numeral_Type"
begin

text \<open>
  The loops of \<open>Ntt\<close> compute the transform of \<open>Dft\<close> over the integers modulo the Goldilocks prime: the
  64-bit elements are embedded into that ring, where the root of unity has the order it needs.
\<close>

subsection \<open>Elements as integers modulo the prime\<close>

type_synonym fp = 18446744069414584321

definition emb :: "felt \<Rightarrow> fp" where
  "emb a = of_int (uint a)"

lemma card_fp: "int CARD(fp) = p_int"
  by (simp add: p_int_def)

lemma of_int_p [simp]: "(of_int p_int :: fp) = 0"
  by (simp add: p_int_def)

lemma of_int_mod_p: "(of_int (x mod p_int) :: fp) = of_int x"
proof -
  have "(of_int x :: fp) = of_int (p_int * (x div p_int) + x mod p_int)" by simp
  also have "\<dots> = of_int (x mod p_int)" by (simp only: of_int_add of_int_mult of_int_p) simp
  finally show ?thesis ..
qed

lemma of_int_fp_inject:
  assumes "(of_int x :: fp) = of_int y"
  shows "x mod p_int = y mod p_int"
proof -
  have "Rep_bit1 (of_int z :: fp) = z mod int CARD(fp)" for z
    by (simp only: bit1.of_int_eq bit1.Rep_Abs_mod)
  then show ?thesis using assms card_fp by metis
qed

lemma emb_inject: "canon a \<Longrightarrow> canon b \<Longrightarrow> emb a = emb b \<Longrightarrow> a = b"
  unfolding emb_def by (blast intro: canon_eqI dest: of_int_fp_inject)

named_theorems emb_simps

lemma emb_add [emb_simps]: "canon a \<Longrightarrow> canon b \<Longrightarrow> emb (felt_add a b) = emb a + emb b"
  by (simp add: emb_def felt_add_mod of_int_mod_p)

lemma emb_sub [emb_simps]: "canon a \<Longrightarrow> canon b \<Longrightarrow> emb (felt_sub a b) = emb a - emb b"
  by (simp add: emb_def felt_sub_mod of_int_mod_p)

lemma emb_mul [emb_simps]: "emb (felt_mul a b) = emb a * emb b"
  by (simp add: emb_def felt_mul_mod of_int_mod_p)

lemma emb_exp [emb_simps]: "emb (felt_exp a e) = emb a ^ unat e"
  by (simp add: emb_def felt_exp_mod of_int_mod_p)

lemma emb_consts [emb_simps]: "emb 0 = 0" "emb 1 = 1"
  by (simp_all add: emb_def)

lemma emb_from_uint64 [emb_simps]: "emb (from_uint64 x) = of_int (uint x)"
  by (simp add: emb_def from_uint64_mod of_int_mod_p)

lemma emb_running [emb_simps]: "emb (running wm j) = emb wm ^ j"
  by (induction j) (simp_all add: emb_simps)

lemma emb_eq_0_iff: "canon a \<Longrightarrow> emb a = 0 \<longleftrightarrow> a = 0"
  using emb_inject [of a 0] by (auto simp: emb_simps felt_simps)

lemma emb_inv: "canon a \<Longrightarrow> a \<noteq> 0 \<Longrightarrow> emb a * emb (felt_inv a) = 1"
  using felt_inv_inverse(1) [of a] by (simp add: emb_mul [symmetric] emb_simps)

lemma canon_felt_inv [felt_simps]: "canon (felt_inv a)"
  by (simp add: felt_inv_def felt_simps)

lemma map_emb_inject:
  "list_all canon xs \<Longrightarrow> list_all canon ys \<Longrightarrow> map emb xs = map emb ys \<Longrightarrow> xs = ys"
  by (rule map_inj_on [of emb]) (auto simp: list_all_iff intro!: inj_onI emb_inject)

text \<open>The root of order \<^verbatim>\<open>2^L\<close> has minus one as its power of half that order.\<close>

lemma root_half:
  assumes w: "root_of_unity (of_nat L) = Some w" and L: "0 < L" "L \<le> 32"
  shows "emb w ^ 2 ^ (L - 1) = - 1"
proof -
  have u: "unat (of_nat L :: u32) = L" using L(2) by (simp add: unat_of_nat)
  define h :: nat where "h = 2 ^ (L - 1)"
  have h: "h < 2 ^ 64" unfolding h_def using L by (intro power_strict_increasing) simp_all
  have hh: "h + h = 2 ^ L" using L(1) by (cases L) (simp_all add: h_def)
  define x where "x = felt_exp w (of_nat h)"
  have x: "canon x" "emb x = emb w ^ h" using h by (simp_all add: x_def felt_simps emb_simps unat_of_nat)
  have two: "emb w ^ h * emb w ^ h = 1"
  proof -
    have "uint w ^ 2 ^ L mod p_int = 1 mod p_int" using root_of_unity_order(1) [OF w] by (simp add: u p_int_def)
    then have "(of_int (uint w ^ 2 ^ L) :: fp) = of_int 1" using of_int_mod_p by metis
    then show ?thesis by (simp add: emb_def power_add [symmetric] hh)
  qed
  have ne: "emb w ^ h \<noteq> 1"
  proof
    assume "emb w ^ h = 1"
    then have "(of_int (uint w ^ h) :: fp) = of_int 1" by (simp add: emb_def)
    then have "uint w ^ h mod p_int = 1 mod p_int" by (rule of_int_fp_inject)
    then have "uint w ^ h mod p_int = 1" by (simp add: p_int_def)
    moreover have "0 < h" "h < 2 ^ L" using L(1) by (simp_all add: h_def)
    ultimately show False using root_of_unity_order(2) [OF w, of h] by (simp add: u)
  qed
  have c: "canon (felt_sub x 1)" "canon (felt_add x 1)" using x(1) by (simp_all add: felt_simps)
  have "emb (felt_mul (felt_sub x 1) (felt_add x 1)) = 0"
    using x two by (simp add: emb_simps felt_simps algebra_simps)
  then have "felt_mul (felt_sub x 1) (felt_add x 1) = 0" by (simp add: emb_eq_0_iff felt_simps)
  then have "felt_sub x 1 = 0 \<or> felt_add x 1 = 0" using felt_mul_eq_0 c by blast
  then have "emb (felt_sub x 1) = 0 \<or> emb (felt_add x 1) = 0" by (auto simp: emb_simps)
  then have "emb w ^ h = 1 \<or> emb w ^ h = - 1" using x by (auto simp: emb_simps felt_simps eq_neg_iff_add_eq_0)
  with ne show ?thesis by (simp add: h_def)
qed

subsection \<open>The core computes the transform\<close>

lemma nth_bit_reversed: "length xs = 2 ^ L \<Longrightarrow> i < 2 ^ L \<Longrightarrow> bit_reversed L xs ! i = xs ! mirror L i"
proof (induction L arbitrary: xs i)
  case (Suc L)
  have halves: "length (evens xs) = 2 ^ L" "length (odds xs) = 2 ^ L" using Suc.prems by simp_all
  show ?case
  proof (cases "i < 2 ^ L")
    case True
    then have "\<not> bit i L" by (metis bit_take_bit_iff less_irrefl take_bit_nat_eq_self)
    then show ?thesis
      using True halves Suc mirror_less [of L i] by (simp add: nth_append evens_def)
  next
    case False
    then have d: "i div 2 ^ L = 1" and m: "i mod 2 ^ L = i - 2 ^ L"
      using Suc.prems(2) by (simp_all add: div_nat_eqI le_mod_geq)
    have "bit i L" by (simp add: bit_iff_odd d)
    moreover have "i - 2 ^ L < 2 ^ L" using Suc.prems(2) by simp
    ultimately show ?thesis
      using False halves Suc mirror_less [of L "i - 2 ^ L"] by (simp add: nth_append odds_def m)
  qed
qed simp

lemma bit_reverse_correct:
  assumes "L \<le> 64" and "length a = 2 ^ L"
  shows "bit_reverse_in_place a = bit_reversed L a"
proof (rule nth_equalityI)
  fix x assume "x < length (bit_reverse_in_place a)"
  then have x: "x < 2 ^ L" by (simp add: bit_reverse_in_place_def assms(2))
  then have "min x (mirror L x) < 2 ^ L" by simp
  then show "bit_reverse_in_place a ! x = bit_reversed L a ! x"
    using swaps_so_far [OF assms order_refl x] by (simp add: bit_reverse_in_place_def assms(2) nth_bit_reversed [OF assms(2) x])
qed (simp add: bit_reverse_in_place_def assms)

lemma canon_running [felt_simps]: "canon (running wm j)"
  by (cases j) (simp_all add: felt_simps)

lemma stage_emb:
  assumes h: "0 < half" and n: "length a = 2 * half * q" and c: "list_all canon a"
  shows "map emb (stage_loop wm (2 * half) a) = butterflies (emb wm) half (map emb a)"
    and "list_all canon (stage_loop wm (2 * half) a)"
proof -
  have cn: "canon (a ! x)" if "x < length a" for x using c that by (simp add: list_all_length)
  have up: "x + half < length a" if "x < length a" "x mod (2 * half) < half" for x
  proof -
    have "x div (2 * half) < q" using that(1) h n by (simp add: less_mult_imp_div_less mult.commute)
    then have "2 * half * Suc (x div (2 * half)) \<le> 2 * half * q" by (intro mult_le_mono2) simp
    moreover have "x = 2 * half * (x div (2 * half)) + x mod (2 * half)" by simp
    ultimately show ?thesis using that(2) n unfolding mult_Suc_right by linarith
  qed
  have "canon (mixed wm half (x mod (2 * half)) a x) \<and>
      emb (mixed wm half (x mod (2 * half)) a x) = butterflies (emb wm) half (map emb a) ! x" if x: "x < length a" for x
  proof (cases "x mod (2 * half) < half")
    case True
    then show ?thesis using x up [OF x True] cn [OF x] by (simp add: mixed_def nth_butterflies felt_simps emb_simps)
  next
    case False
    have "x - half < length a" using x by simp
    then show ?thesis using x False cn [OF x] cn by (simp add: mixed_def nth_butterflies felt_simps emb_simps)
  qed
  then show "map emb (stage_loop wm (2 * half) a) = butterflies (emb wm) half (map emb a)"
    and "list_all canon (stage_loop wm (2 * half) a)"
    by (auto simp: stage_loop_map [OF h n] list_all_length intro!: nth_equalityI)
qed

definition stages_run :: "felt \<Rightarrow> nat \<Rightarrow> nat \<Rightarrow> felt list \<Rightarrow> felt list" where
  "stages_run root L t a = fold (\<lambda>s. stage_loop (felt_exp root (of_nat (2 ^ L div 2 ^ s))) (2 ^ s)) [1 ..< Suc t] a"

lemma stages_emb:
  assumes n: "length a = 2 ^ L" and c: "list_all canon a" and L: "L \<le> 32" and "t \<le> L"
  shows "map emb (stages_run root L t a) = stages (emb root) L t (map emb a) \<and> list_all canon (stages_run root L t a)
    \<and> length (stages_run root L t a) = 2 ^ L"
  using assms(4)
proof (induction t)
  case 0
  then show ?case by (simp add: stages_run_def n c)
next
  case (Suc t)
  define b where "b t = stages_run root L t a" for t
  from Suc have IH: "map emb (b t) = stages (emb root) L t (map emb a)" "list_all canon (b t)" "length (b t) = 2 ^ L" by (simp_all add: b_def)
  let ?wm = "felt_exp root (of_nat (2 ^ L div 2 ^ Suc t))"
  have "[1 ..< Suc (Suc t)] = [1 ..< Suc t] @ [Suc t]" by simp
  then have bt: "b (Suc t) = stage_loop ?wm (2 * 2 ^ t) (b t)" by (simp add: b_def stages_run_def)
  have e: "2 ^ L div 2 ^ Suc t = (2 :: nat) ^ (L - Suc t)"
    using Suc.prems by (simp add: power_diff del: power_Suc)
  have "(2 :: nat) ^ (L - Suc t) < 2 ^ 64" using L by (intro power_strict_increasing) simp_all
  then have wm: "emb ?wm = emb root ^ 2 ^ (L - Suc t)" by (simp only: emb_exp e unat_of_nat) simp
  have len: "length (b t) = 2 * 2 ^ t * 2 ^ (L - Suc t)"
    using Suc.prems by (simp add: IH(3) power_add [symmetric] power_Suc [symmetric] del: power_Suc)
  have "(0 :: nat) < 2 ^ t" by simp
  note st = stage_emb [OF this len IH(2), of ?wm]
  have "map emb (b (Suc t)) = stages (emb root) L (Suc t) (map emb a)" by (simp only: bt st(1) wm IH(1) stages_Suc)
  moreover from arg_cong [OF this, of length] have "length (b (Suc t)) = 2 ^ L" by (simp add: n)
  moreover have "list_all canon (b (Suc t))" using st(2) by (simp add: bt)
  ultimately show ?case by (simp add: b_def)
qed

lemma evens_map: "evens (map f xs) = map f (evens xs)" and odds_map: "odds (map f xs) = map f (odds xs)"
  by (auto simp: evens_def odds_def)

lemma bit_reversed_map: "bit_reversed L (map f xs) = map f (bit_reversed L xs)"
  by (induction L arbitrary: xs) (simp_all add: evens_map odds_map)

lemma canon_bit_reversed: "length a = 2 ^ L \<Longrightarrow> list_all canon a \<Longrightarrow> list_all canon (bit_reversed L a)"
  by (auto simp: list_all_length nth_bit_reversed mirror_less)

definition used_root :: "bool \<Rightarrow> felt \<Rightarrow> felt" where
  "used_root invert r = (if invert then felt_inv r else r)"

lemma root_exists: "L \<le> 32 \<Longrightarrow> \<exists>r. root_of_unity (of_nat L) = Some r"
  by (auto simp: root_of_unity_def twoAdicity_def word_less_nat_alt unat_of_nat)

lemma root_canon:
  assumes "root_of_unity l = Some r"
  shows "canon r \<and> r \<noteq> 0"
proof
  have it: "canon x \<Longrightarrow> canon (((\<lambda>r. felt_mul r r) ^^ k) x)" for k x by (induction k) (simp_all add: felt_simps)
  have "canon two_adic_root" by (simp add: two_adic_root_def felt_simps)
  then show "canon r" using assms it by (auto simp: root_of_unity_def split: if_splits)
  show "r \<noteq> 0"
  proof
    assume "r = 0"
    then show False using root_of_unity_order(1) [OF assms] by (simp add: zero_power)
  qed
qed

lemma ntt_core_dft:
  assumes n: "length a = 2 ^ L" and c: "list_all canon a" and L: "L \<le> 32" and r: "root_of_unity (of_nat L) = Some r"
  obtains b where "ntt_core a invert = Some b" "list_all canon b" "map emb b = dft (emb (used_root invert r)) (map emb a)"
proof (cases "L = 0")
  case True
  then obtain x where "a = [x]" using n by (cases a) auto
  then show ?thesis using c that [of a] by (simp add: ntt_core_def dft_def)
next
  case False
  have half: "emb (used_root invert r) ^ 2 ^ (L - 1) = - 1"
  proof -
    have w: "emb r ^ 2 ^ (L - 1) = - 1" using root_half [OF r] False L by simp
    have "emb (felt_inv r) ^ 2 ^ (L - 1) * emb r ^ 2 ^ (L - 1) = 1"
      using emb_inv [of r] root_canon [OF r] by (simp add: power_mult_distrib [symmetric] mult.commute)
    then have "- (emb (felt_inv r) ^ 2 ^ (L - 1)) = 1" unfolding w by simp
    then have "emb (felt_inv r) ^ 2 ^ (L - 1) = - 1" by (rule minus_equation_iff [THEN iffD1, THEN sym])
    with w show ?thesis by (simp add: used_root_def)
  qed
  define b where "b = stages_run (used_root invert r) L L (bit_reversed L a)"
  have "1 < length a" using False n one_less_power [of "2 :: nat" L] by simp
  moreover have "bit_reverse_in_place a = bit_reversed L a" using bit_reverse_correct [OF _ n] L by simp
  ultimately have "ntt_core a invert = Some b"
    using r n by (simp add: ntt_core_def Let_def used_root_def b_def stages_run_def)
  moreover have st: "map emb b = stages (emb (used_root invert r)) L L (map emb (bit_reversed L a)) \<and> list_all canon b \<and> length b = 2 ^ L"
    unfolding b_def by (rule stages_emb) (simp_all add: n c L canon_bit_reversed)
  moreover have "stages (emb (used_root invert r)) L L (map emb (bit_reversed L a)) = dft (emb (used_root invert r)) (map emb a)"
    unfolding bit_reversed_map [symmetric] by (rule stages_dft) (simp add: n, rule half)
  ultimately show ?thesis using that by simp
qed


text \<open>With the size as the argument of the panics.\<close>

lemma ntt_dft:
  assumes "length a = 2 ^ L" and "list_all canon a" and "L \<le> 32" and "root_of_unity (of_nat L) = Some r"
  obtains b where "ntt a = Some b" "list_all canon b" "map emb b = dft (emb r) (map emb a)" "length b = 2 ^ L"
proof -
  obtain b where b: "ntt_core a False = Some b" "list_all canon b" "map emb b = dft (emb (used_root False r)) (map emb a)"
    using ntt_core_dft [OF assms] .
  have "length b = 2 ^ L" using arg_cong [OF b(3), of length] by (simp add: assms(1))
  then show ?thesis using that [of b] b is_pow2_power [of L] by (simp add: ntt_def assms(1) used_root_def)
qed

lemma size_inverse:
  assumes "L \<le> 32"
  shows "emb (felt_inv (from_uint64 (of_nat (2 ^ L)))) * of_nat (2 ^ L) = 1"
proof -
  have lt: "(2 :: int) ^ L \<le> 2 ^ 32" using assms by (intro power_increasing) simp_all
  have "(2 :: nat) ^ L < 2 ^ 64" using assms by (intro power_strict_increasing) simp_all
  then have u: "uint (of_nat (2 ^ L) :: u64) = 2 ^ L" by (simp only: uint_nat unat_of_nat) simp
  have m: "(2 :: int) ^ L mod p_int = 2 ^ L" using lt by (simp add: p_int_def)
  let ?n = "from_uint64 (of_nat (2 ^ L))"
  have un: "uint ?n = 2 ^ L" by (simp only: from_uint64_mod u m)
  then have "?n \<noteq> 0" by (auto simp del: of_nat_power)
  moreover have "canon ?n" by (rule canon_from_uint64)
  ultimately have "emb ?n * emb (felt_inv ?n) = 1" using emb_inv by blast
  moreover have "emb ?n = of_int (2 ^ L)" by (simp only: emb_def un)
  then have "emb ?n = of_nat (2 ^ L)" by simp
  ultimately show ?thesis by (simp add: mult.commute)
qed

lemma intt_dft:
  assumes n: "length b = 2 ^ L" and c: "list_all canon b" and L: "L \<le> 32" and r: "root_of_unity (of_nat L) = Some r"
    and v: "map emb b = dft (emb r) xs" and len: "length xs = 2 ^ L"
  obtains a where "intt b = Some a" "list_all canon a" "map emb a = xs"
proof -
  obtain d where d: "ntt_core b True = Some d" "list_all canon d" "map emb d = dft (emb (used_root True r)) (map emb b)"
    using ntt_core_dft [OF n c L r] .
  define s where "s = felt_inv (from_uint64 (of_nat (2 ^ L)))"
  have rc: "canon r" "r \<noteq> 0" using root_canon [OF r] by simp_all
  have "emb (felt_inv r) * emb r = 1" using emb_inv [OF rc] by (simp add: mult.commute)
  moreover have "emb r ^ 2 ^ (L - 1) = - 1" if "0 < L" using root_half [OF r that L] .
  ultimately have "map emb d = map (\<lambda>x. of_nat (2 ^ L) * x) xs"
    using dft_inverse [OF len] by (simp add: d(3) v used_root_def)
  then have "map (\<lambda>x. emb (felt_mul x s)) d = map (\<lambda>x. emb s * of_nat (2 ^ L) * x) xs"
    by (simp add: emb_mul list_eq_iff_nth_eq mult.commute mult.left_commute del: of_nat_power)
  then have "map emb (map (\<lambda>x. felt_mul x s) d) = xs"
    by (simp add: s_def size_inverse [OF L] comp_def del: of_nat_power)
  moreover have "intt b = Some (map (\<lambda>x. felt_mul x s) d)"
    using is_pow2_power [of L] by (simp add: intt_def n d(1) s_def)
  moreover have "list_all canon (map (\<lambda>x. felt_mul x s) d)" by (simp add: list_all_iff felt_simps)
  ultimately show ?thesis using that by blast
qed


subsection \<open>Values of polynomials\<close>

lemma eval_poly_emb: "list_all canon cs \<Longrightarrow> canon x \<Longrightarrow> emb (eval_poly cs x) = value_at (map emb cs) (emb x) \<and> canon (eval_poly cs x)"
  by (induction cs) (simp_all add: eval_poly_def value_at_horner emb_simps felt_simps mult.commute add.commute)

text \<open>The elements given by \<^verbatim>\<open>dft\<close> are the values at the powers of the root.\<close>

lemma dft_values:
  assumes "length a = 2 ^ L" and "list_all canon a" and "L \<le> 32" and "list_all canon b" and "map emb b = dft (emb r) (map emb a)"
  shows "b = map (\<lambda>i. eval_poly a (felt_exp r (of_nat i))) [0 ..< 2 ^ L]"
proof -
  have len: "length b = 2 ^ L" using arg_cong [OF assms(5), of length] assms(1) by simp
  have "b ! i = eval_poly a (felt_exp r (of_nat i))" if i: "i < 2 ^ L" for i
  proof (rule emb_inject)
    have "(2 :: nat) ^ L \<le> 2 ^ 32" using assms(3) by (intro power_increasing) simp_all
    with i have u: "unat (of_nat i :: u64) = i" using i by (simp add: unat_of_nat)
    have "emb (b ! i) = map emb b ! i" using i len by simp
    also have "\<dots> = value_at (map emb a) (emb r ^ i)" using i assms(1) by (simp add: assms(5) dft_value_at)
    also have "\<dots> = emb (eval_poly a (felt_exp r (of_nat i)))"
      using eval_poly_emb [OF assms(2) canon_felt_exp] by (simp add: emb_exp u)
    finally show "emb (b ! i) = emb (eval_poly a (felt_exp r (of_nat i)))" .
  qed (use assms(2,4) len i eval_poly_emb in \<open>simp_all add: list_all_length canon_felt_exp\<close>)
  then show ?thesis using len by (auto intro: nth_equalityI)
qed


subsection \<open>Round trip and products\<close>

lemma dft_scale: "dft w (map (\<lambda>x. s * x) xs) = map (\<lambda>x. s * x) (dft w xs)"
  by (auto simp: dft_def sum_distrib_left mult.assoc intro!: nth_equalityI sum.cong)

lemma intt_then_ntt:
  assumes n: "length a = 2 ^ L" and c: "list_all canon a" and L: "L \<le> 32"
  shows "\<exists>c. intt a = Some c \<and> ntt c = Some a"
proof -
  obtain r where r: "root_of_unity (of_nat L) = Some r" using root_exists [OF L] by blast
  have rc: "canon r" "r \<noteq> 0" using root_canon [OF r] by simp_all
  define v where "v = emb (felt_inv r)"
  have vr: "emb r * v = 1" "v * emb r = 1" using emb_inv [OF rc] by (simp_all add: v_def mult.commute)
  have half: "v ^ 2 ^ (L - 1) = - 1" if "0 < L"
  proof -
    have "v ^ 2 ^ (L - 1) * emb r ^ 2 ^ (L - 1) = 1" by (simp add: power_mult_distrib [symmetric] vr)
    then have "- (v ^ 2 ^ (L - 1)) = 1" unfolding root_half [OF r that L] by simp
    then show ?thesis by (rule minus_equation_iff [THEN iffD1, THEN sym])
  qed
  obtain d where d: "ntt_core a True = Some d" "list_all canon d" "map emb d = dft v (map emb a)"
    using ntt_core_dft [OF n c L r, of True] by (auto simp: used_root_def v_def)
  define s where "s = felt_inv (from_uint64 (of_nat (2 ^ L)))"
  define e where "e = map (\<lambda>x. felt_mul x s) d"
  have e: "intt a = Some e" using is_pow2_power [of L] by (simp add: intt_def n d(1) s_def e_def)
  have "length d = 2 ^ L" using arg_cong [OF d(3), of length] n by simp
  then have el: "length e = 2 ^ L" "list_all canon e" by (simp_all add: e_def list_all_iff felt_simps)
  have "map emb e = map (\<lambda>x. emb s * x) (map emb d)" by (simp add: e_def emb_mul mult.commute)
  then have "dft (emb r) (map emb e) = map (\<lambda>x. emb s * x) (map (\<lambda>x. of_nat (2 ^ L) * x) (map emb a))"
    using dft_inverse [of "map emb a" L v "emb r"] n half vr(1) by (simp only: d(3) dft_scale length_map)
  also have "\<dots> = map (\<lambda>x. (emb s * of_nat (2 ^ L)) * x) (map emb a)"
    by (simp only: list.map_comp comp_def mult.assoc)
  also have "\<dots> = map emb a" unfolding s_def size_inverse [OF L] by simp
  finally have again: "dft (emb r) (map emb e) = map emb a" .
  obtain b where b: "ntt e = Some b" "list_all canon b" "map emb b = dft (emb r) (map emb e)"
    using ntt_dft [OF el L r] .
  then have "b = a" using c again by (intro map_emb_inject) simp_all
  with b e show ?thesis by blast
qed

lemma ntt_then_intt:
  assumes n: "length a = 2 ^ L" and c: "list_all canon a" and L: "L \<le> 32"
  shows "\<exists>b. ntt a = Some b \<and> intt b = Some a"
proof -
  obtain r where r: "root_of_unity (of_nat L) = Some r" using root_exists [OF L] by blast
  obtain b where b: "ntt a = Some b" "list_all canon b" "map emb b = dft (emb r) (map emb a)" "length b = 2 ^ L"
    using ntt_dft [OF n c L r] .
  obtain a' where "intt b = Some a'" "list_all canon a'" "map emb a' = map emb a"
    using intt_dft [OF b(4,2) L r b(3)] n by auto
  then show ?thesis using b(1) c map_emb_inject by blast
qed

lemma padded_facts:
  assumes "length a \<le> n" and "list_all canon a"
  shows "length (padded n a) = n" and "list_all canon (padded n a)"
    and "map emb (padded n a) = map emb a @ replicate (n - length a) 0"
  using assms by (auto simp: padded_def list_all_iff felt_simps emb_simps)

lemma mul_poly_convolve:
  assumes a: "list_all canon a" "a \<noteq> []" and b: "list_all canon b" "b \<noteq> []"
    and size: "length a + length b \<le> 2 ^ 32 + 1"
  obtains c where "mul_poly a b = Some c" "length c = length a + length b - 1" "list_all canon c"
    "map emb c = convolve (map emb a) (map emb b) (length a + length b - 1)"
proof -
  define m where "m = length a + length b - 1"
  obtain L where L: "next_pow2 m = 2 ^ L" using next_pow2_power by blast
  define n :: nat where "n = 2 ^ L"
  have pos: "0 < length a" "0 < length b" using a(2) b(2) by simp_all
  have m: "m \<le> n" using next_pow2_ge [of m] by (simp add: n_def L)
  have "next_pow2 m \<le> 2 ^ 32" by (rule next_pow2_le) (use size in \<open>simp add: m_def\<close>)
  then have "n \<le> 2 ^ 32" by (simp only: n_def L)
  then have L32: "L \<le> 32" unfolding n_def by (rule power_le_imp_le_exp [rotated]) simp
  obtain r where r: "root_of_unity (of_nat L) = Some r" using root_exists [OF L32] by blast
  have la: "length a \<le> n" and lb: "length b \<le> n" using m pos unfolding m_def by linarith+
  obtain fa where fa: "ntt (padded n a) = Some fa" "list_all canon fa" "map emb fa = dft (emb r) (map emb (padded n a))" "length fa = n"
    using ntt_dft [of "padded n a" L r] padded_facts [OF la a(1)] L32 r unfolding n_def by blast
  obtain fb where fb: "ntt (padded n b) = Some fb" "list_all canon fb" "map emb fb = dft (emb r) (map emb (padded n b))" "length fb = n"
    using ntt_dft [of "padded n b" L r] padded_facts [OF lb b(1)] L32 r unfolding n_def by blast
  define p where "p = map2 felt_mul fa fb"
  define cv where "cv = convolve (map emb a) (map emb b) n"
  have cvl: "length cv = n" by (simp add: cv_def convolve_def)
  have p: "length p = n" "list_all canon p" using fa(4) fb(4) by (auto simp: p_def list_all_length felt_simps)
  have "map emb p = dft (emb r) cv"
  proof (rule nth_equalityI)
    fix i assume "i < length (map emb p)"
    then have i: "i < n" using p by simp
    have "map emb p ! i = map emb fa ! i * map emb fb ! i" using i fa(4) fb(4) by (simp add: p_def emb_mul)
    also have "\<dots> = value_at (map emb a) (emb r ^ i) * value_at (map emb b) (emb r ^ i)"
      using i padded_facts [OF la a(1)] padded_facts [OF lb b(1)]
      by (simp add: fa(3) fb(3) dft_value_at del: length_map) (simp add: dft_value_at)
    also have "\<dots> = value_at cv (emb r ^ i)"
      using m pos by (simp add: cv_def m_def value_convolve)
    also have "\<dots> = dft (emb r) cv ! i" using i cvl by (simp add: dft_value_at)
    finally show "map emb p ! i = dft (emb r) cv ! i" .
  qed (simp add: p cvl)
  then obtain c where c: "intt p = Some c" "list_all canon c" "map emb c = cv"
    using intt_dft [of p L r cv] p cvl L32 r unfolding n_def by blast
  have "mul_poly a b = Some (take m c)"
    using a(2) b(2) fa(1) fb(1) c(1) L by (simp add: mul_poly_def Let_def m_def n_def p_def)
  moreover have "length c = n" using arg_cong [OF c(3), of length] cvl by simp
  moreover have "map emb (take m c) = convolve (map emb a) (map emb b) m"
    using m by (simp add: take_map [symmetric] c(3) cv_def convolve_def) (simp add: take_map)
  moreover have "list_all canon (take m c)" using c(2) by (auto simp: list_all_iff dest: in_set_takeD)
  ultimately show ?thesis using that [of "take m c"] m by (simp add: m_def)
qed

subsection \<open>The properties\<close>

text \<open>
  C40. The transform of a list of \<open>2 ^ L\<close> coefficients returns the values of its polynomial at the powers
  of the root of unity, and panics for no size up to \<open>2 ^ 32\<close>.
\<close>

theorem ntt_evaluates:
  assumes "length a = 2 ^ L" and "list_all canon a" and "L \<le> 32" and "root_of_unity (of_nat L) = Some w"
  shows "ntt a = Some (map (\<lambda>i. eval_poly a (felt_exp w (of_nat i))) [0 ..< 2 ^ L])"
proof -
  obtain b where b: "ntt a = Some b" "list_all canon b" "map emb b = dft (emb w) (map emb a)" using ntt_dft [OF assms] .
  then show ?thesis using dft_values [OF assms(1-3) b(2,3)] by simp
qed

lemma canon_numeral_small: "uint x < 1000 \<Longrightarrow> canon x"
  by (simp add: canon_def p_int_def)

lemma canon_two_values: "list_all canon [3, 5]" "list_all canon [1, 2, 3]" "list_all canon [4, 5]"
  by (simp_all add: canon_numeral_small)

theorem ntt_evaluates_witness:
  "\<exists>w. ntt [3, 5] = Some [eval_poly [3, 5] (felt_exp w 0), eval_poly [3, 5] (felt_exp w 1)]"
proof -
  obtain w where w: "root_of_unity (of_nat 1) = Some w" using root_exists [of 1] by auto
  have "ntt [3, 5] = Some (map (\<lambda>i. eval_poly [3, 5] (felt_exp w (of_nat i))) [0 ..< 2 ^ 1])"
    by (rule ntt_evaluates) (use w canon_two_values(1) in simp_all)
  then show ?thesis by (auto simp: upt_rec)
qed

text \<open>
  C39. \<^verbatim>\<open>INTT\<close> undoes \<^verbatim>\<open>NTT\<close> and \<^verbatim>\<open>NTT\<close> undoes \<^verbatim>\<open>INTT\<close>, for every list of canonical elements of a size that
  is a power of two up to \<open>2 ^ 32\<close>; neither panics.
\<close>

theorem ntt_roundtrip:
  assumes "length a = 2 ^ L" and "list_all canon a" and "L \<le> 32"
  shows "\<exists>b c. ntt a = Some b \<and> intt b = Some a \<and> intt a = Some c \<and> ntt c = Some a"
  using ntt_then_intt [OF assms] intt_then_ntt [OF assms] by blast

theorem ntt_roundtrip_witness:
  "\<exists>b c. ntt [3, 5] = Some b \<and> intt b = Some [3, 5] \<and> intt [3, 5] = Some c \<and> ntt c = Some [3, 5]"
  by (rule ntt_roundtrip [where L = 1]) (use canon_two_values in simp_all)

text \<open>
  \<^verbatim>\<open>MulPoly\<close> multiplies polynomials: the result has exactly \<^verbatim>\<open>len(a) + len(b) - 1\<close> coefficients and its
  value at every point is the product of the values, for any two non-empty lists whose product fits the
  largest transform.
\<close>

theorem mul_poly_multiplies:
  assumes "list_all canon a" and "a \<noteq> []" and "list_all canon b" and "b \<noteq> []"
    and "length a + length b \<le> 2 ^ 32 + 1"
  shows "\<exists>c. mul_poly a b = Some c \<and> length c = length a + length b - 1
           \<and> (\<forall>x. canon x \<longrightarrow> eval_poly c x = felt_mul (eval_poly a x) (eval_poly b x))"
proof -
  obtain c where c: "mul_poly a b = Some c" "length c = length a + length b - 1" "list_all canon c"
    "map emb c = convolve (map emb a) (map emb b) (length a + length b - 1)"
    using mul_poly_convolve [OF assms] .
  have "eval_poly c x = felt_mul (eval_poly a x) (eval_poly b x)" if x: "canon x" for x
  proof (rule emb_inject)
    show "emb (eval_poly c x) = emb (felt_mul (eval_poly a x) (eval_poly b x))"
      using eval_poly_emb [OF c(3) x] eval_poly_emb [OF assms(1) x] eval_poly_emb [OF assms(3) x]
      by (simp add: c(4) value_convolve emb_mul)
  qed (use eval_poly_emb [OF c(3) x] canon_felt_mul in simp_all)
  with c show ?thesis by blast
qed

theorem mul_poly_multiplies_witness:
  "\<exists>c. mul_poly [1, 2, 3] [4, 5] = Some c \<and> length c = 4 \<and> eval_poly c 10 = felt_mul (eval_poly [1, 2, 3] 10) (eval_poly [4, 5] 10)"
  using mul_poly_multiplies [of "[1, 2, 3]" "[4, 5]"] canon_two_values canon_numeral_small [of 10] by auto

end
