(* ===== verification/FriProps.thy ===== *)
theory FriProps
  imports Fri NttField CryptoProps
begin

text \<open>
  Completeness of the low-degree test: for the values of a polynomial of low degree the prover returns a
  proof and the verifier accepts it. The proof follows the rounds: folding the values of a polynomial
  gives the values of its folding, every opening and every folding step is what the verifier recomputes.
\<close>

subsection \<open>Values of a polynomial on the domain\<close>

definition codeword :: "felt \<Rightarrow> nat \<Rightarrow> felt list \<Rightarrow> felt list" where
  "codeword w L cs = map (\<lambda>i. eval_poly cs (felt_exp w (of_nat i))) [0 ..< 2 ^ L]"

lemma length_codeword [simp]: "length (codeword w L cs) = 2 ^ L"
  by (simp add: codeword_def)

lemma index_small: "i < 2 ^ L \<Longrightarrow> L \<le> 32 \<Longrightarrow> unat (of_nat i :: u64) = i"
proof -
  assume i: "i < 2 ^ L" and "L \<le> 32"
  then have "(2 :: nat) ^ L \<le> 2 ^ 32" by (intro power_increasing) simp_all
  with i show ?thesis by (simp add: unat_of_nat)
qed

lemma running_exp: "i < 2 ^ L \<Longrightarrow> L \<le> 32 \<Longrightarrow> running w i = felt_exp w (of_nat i)"
  by (rule emb_inject) (simp_all add: felt_simps emb_simps index_small)

lemma codeword_nth:
  assumes "i < 2 ^ L" and "L \<le> 32" and "list_all canon cs"
  shows "codeword w L cs ! i = eval_poly cs (felt_exp w (of_nat i))"
    and "canon (codeword w L cs ! i)"
    and "emb (codeword w L cs ! i) = value_at (map emb cs) (emb w ^ i)"
  using assms eval_poly_emb [OF assms(3) canon_felt_exp, of w "of_nat i"]
  by (simp_all add: codeword_def emb_exp index_small)

lemma codeword_canon:
  assumes "list_all canon cs"
  shows "list_all canon (codeword w L cs)"
proof -
  have "canon (eval_poly cs (felt_exp w (of_nat i)))" for i
    using eval_poly_emb [OF assms canon_felt_exp] by blast
  then show ?thesis by (simp add: codeword_def list_all_iff)
qed

lemma root_square:
  assumes "root_of_unity (of_nat (Suc L)) = Some w" and "Suc L \<le> 32"
  shows "root_of_unity (of_nat L) = Some (felt_mul w w)"
proof -
  have u: "unat (of_nat (Suc L) :: u32) = Suc L" "unat (of_nat L :: u32) = L"
    using assms(2) by (simp_all only: unat_of_nat) simp_all
  have "32 - L = Suc (32 - Suc L)" using assms(2) by simp
  with assms show ?thesis
    by (auto simp: root_of_unity_def twoAdicity_def word_less_nat_alt u simp del: of_nat_Suc split: if_splits)
qed

subsection \<open>Folding a polynomial\<close>

fun even_part :: "'a list \<Rightarrow> 'a list" where
  "even_part (a # b # cs) = a # even_part cs"
| "even_part cs = cs"

fun odd_part :: "'a list \<Rightarrow> 'a list" where
  "odd_part (a # b # cs) = b # odd_part cs"
| "odd_part cs = []"

fun fold_poly :: "felt \<Rightarrow> felt list \<Rightarrow> felt list" where
  "fold_poly beta (a # b # cs) = felt_add a (felt_mul beta b) # fold_poly beta cs"
| "fold_poly beta cs = cs"

lemma value_at_Cons [simp]: "value_at (c # cs) x = c + x * value_at cs x" "value_at [] x = 0"
  by (simp_all add: value_at_horner)

lemma value_parts: "value_at cs x = value_at (even_part cs) (x * x) + x * value_at (odd_part cs) (x * x)"
  by (induction cs rule: even_part.induct) (simp_all add: algebra_simps)

lemma length_fold_poly: "length cs \<le> 2 * m \<Longrightarrow> length (fold_poly beta cs) \<le> m"
proof (induction beta cs arbitrary: m rule: fold_poly.induct)
  case (1 beta a b cs)
  then show ?case by (cases m) simp_all
qed simp_all

lemma canon_fold_poly: "list_all canon cs \<Longrightarrow> list_all canon (fold_poly beta cs)"
  by (induction beta cs rule: fold_poly.induct) (simp_all add: felt_simps)

lemma value_fold_poly:
  "list_all canon cs \<Longrightarrow> value_at (map emb (fold_poly beta cs)) y
     = value_at (even_part (map emb cs)) y + emb beta * value_at (odd_part (map emb cs)) y"
  by (induction beta cs rule: fold_poly.induct) (simp_all add: emb_simps felt_simps algebra_simps)

lemma two_felt: "canon (from_uint64 2)" "from_uint64 2 \<noteq> 0" "emb (from_uint64 2) = 2"
proof -
  show c: "canon (from_uint64 2)" by (rule canon_from_uint64)
  have u: "uint (from_uint64 2) = 2" by (simp add: from_uint64_mod p_int_def)
  show "from_uint64 2 \<noteq> 0" using u by auto
  show "emb (from_uint64 2) = 2" by (simp add: emb_def u)
qed

lemma fold_one_emb:
  assumes "canon fx" "canon fmx" "canon x" "x \<noteq> 0"
    and "emb fx = ev + emb x * od" and "emb fmx = ev - emb x * od"
  shows "emb (fold_one fx fmx beta x) = ev + emb beta * od" and "canon (fold_one fx fmx beta x)"
proof -
  let ?two = "from_uint64 2"
  have two: "emb (felt_inv ?two) * 2 = 1" using emb_inv [OF two_felt(1,2)] by (simp add: two_felt(3) mult.commute)
  have "felt_mul ?two x \<noteq> 0" using felt_mul_eq_0 [of ?two x] two_felt assms(3,4) by blast
  then have twox: "emb (felt_inv (felt_mul ?two x)) * (2 * emb x) = 1"
    using emb_inv [OF canon_felt_mul [of ?two x]] by (simp add: emb_mul two_felt(3) ac_simps)
  have "emb (fold_one fx fmx beta x) = (emb fx + emb fmx) * emb (felt_inv ?two)
      + emb beta * ((emb fx - emb fmx) * emb (felt_inv (felt_mul ?two x)))"
    using assms(1,2) by (simp add: fold_one_def Let_def emb_add emb_sub emb_mul felt_simps)
  also have "\<dots> = (emb (felt_inv ?two) * 2) * ev + emb beta * ((emb (felt_inv (felt_mul ?two x)) * (2 * emb x)) * od)"
    by (simp add: assms(5,6) algebra_simps)
  also have "\<dots> = ev + emb beta * od" unfolding two twox by simp
  finally show "emb (fold_one fx fmx beta x) = ev + emb beta * od" .
  show "canon (fold_one fx fmx beta x)"
    using assms(1,2) by (simp add: fold_one_def Let_def felt_simps)
qed

lemma root_power_nonzero:
  assumes "root_of_unity l = Some w"
  shows "felt_exp w e \<noteq> 0"
proof
  assume "felt_exp w e = 0"
  then have "emb w ^ unat e = 0" using emb_exp [of w e] by (simp add: emb_simps)
  moreover have "emb w * emb (felt_inv w) = 1" using emb_inv root_canon [OF assms] by blast
  then have "emb w ^ unat e * emb (felt_inv w) ^ unat e = 1" by (simp add: power_mult_distrib [symmetric])
  ultimately show False by simp
qed

lemma fold_codeword:
  assumes w: "root_of_unity (of_nat (Suc L)) = Some w" and L: "Suc L \<le> 32" and cs: "list_all canon cs"
  shows "fold_evals (codeword w (Suc L) cs) beta w = codeword (felt_mul w w) L (fold_poly beta cs)"
proof (rule nth_equalityI)
  let ?cur = "codeword w (Suc L) cs"
  fix i assume "i < length (fold_evals ?cur beta w)"
  then have i: "i < 2 ^ L" by simp
  then have i': "i < 2 ^ Suc L" "i + 2 ^ L < 2 ^ Suc L" by simp_all
  let ?x = "felt_exp w (of_nat i)"
  have x: "canon ?x" "?x \<noteq> 0" "emb ?x = emb w ^ i"
    using root_power_nonzero [OF w] i' L by (simp_all add: canon_felt_exp emb_exp index_small)
  have half: "emb w ^ 2 ^ L = - 1" using root_half [OF w] L by simp
  let ?ev = "value_at (even_part (map emb cs)) (emb w ^ i * emb w ^ i)"
  let ?od = "value_at (odd_part (map emb cs)) (emb w ^ i * emb w ^ i)"
  have fx: "emb (?cur ! i) = ?ev + emb ?x * ?od" "canon (?cur ! i)"
    using codeword_nth [OF i'(1) L cs, of w] by (simp_all add: value_parts [of _ "emb w ^ i"] x)
  have fmx: "emb (?cur ! (i + 2 ^ L)) = ?ev - emb ?x * ?od" "canon (?cur ! (i + 2 ^ L))"
    using codeword_nth [OF i'(2) L cs, of w] by (simp_all add: power_add half value_parts [of _ "- (emb w ^ i)"] x)
  have f: "fold_evals ?cur beta w ! i = fold_one (?cur ! i) (?cur ! (i + 2 ^ L)) beta ?x"
    using i i' L by (simp add: fold_evals_def Let_def running_exp)
  have "canon (codeword (felt_mul w w) L (fold_poly beta cs) ! i)"
    "emb (codeword (felt_mul w w) L (fold_poly beta cs) ! i) = ?ev + emb beta * ?od"
    using codeword_nth [OF i _ canon_fold_poly [OF cs], of "felt_mul w w" beta] L
    by (simp_all add: value_fold_poly [OF cs] emb_mul power_mult_distrib)
  moreover note fold_one_emb [OF fx(2) fmx(2) x(1,2) fx(1) fmx(1), of beta]
  ultimately show "fold_evals ?cur beta w ! i = codeword (felt_mul w w) L (fold_poly beta cs) ! i"
    unfolding f by (intro emb_inject) simp_all
qed simp

subsection \<open>Openings of a layer\<close>

lemma commit_evals_opens:
  assumes c: "commit_evals E cur = Some (root, tree)" and i: "i < length cur" and small: "length cur \<le> 2 ^ 32"
  obtains path where "open_leaf tree (int i) = Some path" "sha_verify_path E root (int i) (leaf_of (cur ! i)) path"
proof -
  have "length (map (hash_leaf E) (map leaf_of cur)) \<le> 2 ^ 62" using small by simp
  from commit_open_verify [OF c [unfolded commit_evals_def sha_commit_def] _ this, of i] i
  show ?thesis using that by (auto simp: sha_verify_path_def)
qed

lemma commit_phase_first:
  "commit_phase E xof fs t cur w = Some (layers, rest, t') \<Longrightarrow> layers \<noteq> [] \<Longrightarrow> fl_evals (snd (hd layers)) = cur"
  by (subst (asm) commit_phase.simps) (auto split: if_splits option.splits prod.splits)

lemma open_layers_first:
  assumes "open_layers (layer # layers) pos = Some steps"
  shows "\<exists>step steps'. steps = step # steps' \<and> qs_Value step = fl_evals layer ! (pos mod (length (fl_evals layer) div 2))
    \<and> qs_Sibling step = fl_evals layer ! (pos mod (length (fl_evals layer) div 2) + length (fl_evals layer) div 2)"
  using assms by (auto simp: Let_def split: option.splits)

text \<open>One round, as the verifier sees it.\<close>

lemma check_layers_step:
  assumes h: "half = 2 ^ L" and p: "p = pos mod half" and L: "L \<le> 32"
    and v: "sha_verify_path E root (int p) (leaf_of (qs_Value step)) (qs_Path step)"
      "sha_verify_path E root (int (p + half)) (leaf_of (qs_Sibling step)) (qs_SiblingPath step)"
    and f: "fold_one (qs_Value step) (qs_Sibling step) beta (felt_exp w (of_nat p)) = folded"
    and e: "folded = (case steps of next # _ \<Rightarrow> (if p < half div 2 then qs_Value next else qs_Sibling next)
                | [] \<Rightarrow> eval_poly final (felt_exp (felt_mul w w) (of_nat p)))"
  shows "check_layers E final (root # roots) (beta # betas) (step # steps) pos w (2 ^ Suc L)
    = check_layers E final roots betas steps p (felt_mul w w) (2 ^ L)"
proof -
  have "(2 :: nat) ^ Suc L div 2 = half" "half \<noteq> 0" "p mod half = p" by (simp_all add: h p)
  then show ?thesis using v f e by (simp add: Let_def p [symmetric] h [symmetric] split: list.splits)
qed

subsection \<open>The rounds\<close>

text \<open>What holds after the foldings that are left: the layers and the rest, from the prover's run.\<close>

definition rounds_ok :: "'z ext_scheme \<Rightarrow> xof \<Rightarrow> nat \<Rightarrow> nat \<Rightarrow> nat \<Rightarrow> transcript \<Rightarrow> felt \<Rightarrow> (bytes \<times> fri_layer) list \<Rightarrow> felt list \<Rightarrow> transcript \<Rightarrow> bool" where
  "rounds_ok E xof d f L t w layers rest t' \<longleftrightarrow>
     length layers = L - f
     \<and> (\<exists>wf cs. root_of_unity (of_nat f) = Some wf \<and> list_all canon cs \<and> length cs \<le> 2 ^ d \<and> rest = codeword wf f cs)
     \<and> (\<exists>betas. replay xof (map fst layers) t = Some (betas, t') \<and>
          (\<forall>pos. \<exists>steps. open_layers (map snd layers) pos = Some steps \<and> length steps = L - f \<and>
             (\<forall>final. codeword (the (root_of_unity (of_nat f))) f final = rest \<longrightarrow> pos < 2 ^ L \<longrightarrow>
                check_layers E final (map fst layers) betas steps pos w (2 ^ L) = Some True)))"

lemma rounds:
  assumes "commit_phase E xof (2 ^ f) t (codeword w L cs) w = Some (layers, rest, t')"
    and "root_of_unity (of_nat L) = Some w" and "list_all canon cs" and "length cs \<le> 2 ^ (d + (L - f))"
    and "f \<le> L" and "L \<le> 32"
  shows "rounds_ok E xof d f L t w layers rest t'"
  using assms
proof (induction "L - f" arbitrary: t w L cs layers rest t')
  case 0
  then have L: "L = f" by simp
  from 0 have "layers = []" "rest = codeword w L cs" "t' = t"
    by (simp_all add: L commit_phase.simps [where finalSize = "2 ^ f"])
  with 0 show ?case by (auto simp: rounds_ok_def L)
next
  case (Suc k)
  then obtain K where LK: "L = Suc K" "f \<le> K" "K - f = k" by (cases L) auto
  let ?cur = "codeword w (Suc K) cs"
  have big: "\<not> int (length ?cur) \<le> 2 ^ f"
  proof -
    have "(2 :: nat) ^ f < 2 ^ Suc K" using LK(2) by (intro power_strict_increasing) simp_all
    then have "int (2 ^ f) < int (2 ^ Suc K)" by (simp only: of_nat_less_iff)
    then show ?thesis by simp
  qed
  from Suc.prems(1) big obtain root tree beta t1 rls where
      c: "commit_evals E ?cur = Some (root, tree)"
    and ch: "challenge xof ''fri/fold'' (absorb_data ''fri/layer-root'' root t) = Some (beta, t1)"
    and run: "commit_phase E xof (2 ^ f) t1 (fold_evals ?cur beta w) (felt_mul w w) = Some (rls, rest, t')"
    and layers: "layers = (root, \<lparr>fl_evals = ?cur, fl_tree = tree\<rparr>) # rls"
    unfolding LK(1) by (subst (asm) commit_phase.simps) (auto split: option.splits prod.splits)
  have K: "Suc K \<le> 32" "K \<le> 32" and w: "root_of_unity (of_nat (Suc K)) = Some w" and cs: "list_all canon cs"
    using Suc.prems by (simp_all add: LK(1))
  have ww: "root_of_unity (of_nat K) = Some (felt_mul w w)" by (rule root_square [OF w K(1)])
  define cs' where "cs' = fold_poly beta cs"
  define cur' where "cur' = codeword (felt_mul w w) K cs'"
  have fold: "fold_evals ?cur beta w = cur'" using fold_codeword [OF w K(1) cs] by (simp add: cur'_def cs'_def)
  have cs': "list_all canon cs'" "length cs' \<le> 2 ^ (d + (K - f))"
    using Suc.prems(4) LK canon_fold_poly [OF cs] by (simp_all add: cs'_def length_fold_poly Suc_diff_le)
  have IH: "rounds_ok E xof d f K t1 (felt_mul w w) rls rest t'"
    by (rule Suc.hyps(1) [OF _ run [unfolded fold cur'_def] ww cs' LK(2) K(2)]) (simp add: LK(3))
  from IH obtain betas where rls: "length rls = K - f"
    and tail: "\<exists>wf cs. root_of_unity (of_nat f) = Some wf \<and> list_all canon cs \<and> length cs \<le> 2 ^ d \<and> rest = codeword wf f cs"
    and rep: "replay xof (map fst rls) t1 = Some (betas, t')"
    and opens: "\<forall>pos. \<exists>steps. open_layers (map snd rls) pos = Some steps \<and> length steps = K - f \<and>
         (\<forall>final. codeword (the (root_of_unity (of_nat f))) f final = rest \<longrightarrow> pos < 2 ^ K \<longrightarrow>
            check_layers E final (map fst rls) betas steps pos (felt_mul w w) (2 ^ K) = Some True)"
    by (auto simp: rounds_ok_def)
  have "\<exists>steps. open_layers (map snd layers) pos = Some steps \<and> length steps = L - f \<and>
      (\<forall>final. codeword (the (root_of_unity (of_nat f))) f final = rest \<longrightarrow> pos < 2 ^ L \<longrightarrow>
         check_layers E final (map fst layers) (beta # betas) steps pos w (2 ^ L) = Some True)" for pos
  proof -
    define half :: nat where "half = 2 ^ K"
    define p where "p = pos mod half"
    have p: "p < half" by (simp add: p_def half_def)
    have "(2 :: nat) ^ Suc K \<le> 2 ^ 32" using K(1) by (intro power_increasing) simp_all
    then have small: "length ?cur \<le> 2 ^ 32" by simp
    have in_range: "p < length ?cur" "p + half < length ?cur" using p by (simp_all add: half_def)
    obtain path where path: "open_leaf tree (int p) = Some path" "sha_verify_path E root (int p) (leaf_of (?cur ! p)) path"
      using commit_evals_opens [OF c in_range(1) small] .
    obtain spath where spath: "open_leaf tree (int (p + half)) = Some spath"
        "sha_verify_path E root (int (p + half)) (leaf_of (?cur ! (p + half))) spath"
      using commit_evals_opens [OF c in_range(2) small] .
    obtain steps where steps: "open_layers (map snd rls) p = Some steps" "length steps = K - f"
      and good: "\<And>final. codeword (the (root_of_unity (of_nat f))) f final = rest \<Longrightarrow> p < 2 ^ K \<Longrightarrow>
            check_layers E final (map fst rls) betas steps p (felt_mul w w) (2 ^ K) = Some True"
      using opens by blast
    define step where "step = \<lparr>qs_Value = ?cur ! p, qs_Sibling = ?cur ! (p + half), qs_Path = path, qs_SiblingPath = spath\<rparr>"
    have op: "open_layers (map snd layers) pos = Some (step # steps)"
      using path(1) spath(1) steps(1)
      by (simp add: layers Let_def half_def [symmetric] p_def [symmetric] step_def)
    have folded: "fold_one (?cur ! p) (?cur ! (p + half)) beta (felt_exp w (of_nat p)) = cur' ! p"
    proof -
      have "running w p = felt_exp w (of_nat p)" by (rule running_exp [OF p [unfolded half_def] K(2)])
      then have "fold_evals ?cur beta w ! p = fold_one (?cur ! p) (?cur ! (p + half)) beta (felt_exp w (of_nat p))"
        using p by (simp add: fold_evals_def Let_def half_def)
      then show ?thesis by (simp only: fold)
    qed
    have "check_layers E final (map fst layers) (beta # betas) (step # steps) pos w (2 ^ L) = Some True"
      if final: "codeword (the (root_of_unity (of_nat f))) f final = rest" for final
    proof -
      have expected: "cur' ! p = (case steps of next # _ \<Rightarrow> (if p < half div 2 then qs_Value next else qs_Sibling next)
                | [] \<Rightarrow> eval_poly final (felt_exp (felt_mul w w) (of_nat p)))"
      proof (cases steps)
        case Nil
        then have Kf: "K = f" using steps(2) LK(2) by simp
        then have "rls = []" using rls by simp
        with run fold Kf have "rest = cur'" by (simp add: commit_phase.simps [where finalSize = "2 ^ f"] cur'_def)
        with final Kf ww have "codeword (felt_mul w w) K final = cur'" by simp
        then have "codeword (felt_mul w w) K final ! p = cur' ! p" by simp
        then show ?thesis using p by (simp add: Nil codeword_def half_def)
      next
        case (Cons nxt steps')
        then obtain r0 l0 rls' where r0: "rls = (r0, l0) # rls'" using steps(2) rls by (cases rls) auto
        then have l0: "fl_evals l0 = cur'" using commit_phase_first [OF run] fold by simp
        have l0len: "length (fl_evals l0) div 2 = half div 2" by (simp add: l0 cur'_def half_def)
        have nx: "qs_Value nxt = cur' ! (p mod (half div 2))" "qs_Sibling nxt = cur' ! (p mod (half div 2) + half div 2)"
          using open_layers_first [of l0 "map snd rls'" p steps] steps(1) by (simp_all add: r0 Cons l0len) (simp_all add: l0)
        have "0 < K" using Cons steps(2) by (cases K) auto
        then have hh: "half = half div 2 + half div 2" by (cases K) (simp_all add: half_def)
        show ?thesis
        proof (cases "p < half div 2")
          case True
          then show ?thesis by (simp add: Cons nx)
        next
          case False
          then have "p mod (half div 2) = p - half div 2" using p hh by (metis le_mod_geq linorder_not_less mod_less less_diff_conv2)
          then show ?thesis using False by (simp add: Cons nx)
        qed
      qed
      have "check_layers E final (root # map fst rls) (beta # betas) (step # steps) pos w (2 ^ Suc K)
          = check_layers E final (map fst rls) betas steps p (felt_mul w w) (2 ^ K)"
        by (rule check_layers_step [OF half_def p_def K(2) _ _ _ expected])
          (simp_all only: step_def query_step.simps path(2) spath(2) folded)
      then show ?thesis using good [OF final] p by (simp add: layers LK(1) half_def)
    qed
    then show ?thesis using op steps(2) LK by (auto simp: Suc_diff_le)
  qed
  moreover have "replay xof (map fst layers) t = Some (beta # betas, t')" by (simp add: layers ch rep)
  moreover have "length layers = L - f" using rls LK by (simp add: layers Suc_diff_le)
  ultimately show ?case unfolding rounds_ok_def using tail by blast
qed

subsection \<open>The final polynomial\<close>

lemma eval_padded:
  assumes "list_all canon cs" and "length cs \<le> n" and "canon x"
  shows "eval_poly (padded n cs) x = eval_poly cs x"
proof (rule emb_inject)
  note pf = padded_facts [OF assms(2,1)]
  show "emb (eval_poly (padded n cs) x) = emb (eval_poly cs x)"
    using eval_poly_emb [OF pf(2) assms(3)] eval_poly_emb [OF assms(1,3)] by (simp add: pf(3))
qed (use eval_poly_emb [OF padded_facts(2) [OF assms(2,1)] assms(3)] eval_poly_emb [OF assms(1,3)] in simp_all)

lemma codeword_padded:
  assumes "list_all canon cs" and "length cs \<le> 2 ^ f"
  shows "codeword w f (padded (2 ^ f) cs) = codeword w f cs"
  using eval_padded [OF assms canon_felt_exp] by (simp add: codeword_def)

lemma interpolate_codeword:
  assumes r: "root_of_unity (of_nat f) = Some w" and f: "f \<le> 32" and cs: "list_all canon cs" "length cs \<le> 2 ^ f"
  shows "interpolate (codeword w f cs) = Some (padded (2 ^ f) cs)"
proof -
  note pf = padded_facts [OF cs(2,1)]
  obtain b where b: "ntt (padded (2 ^ f) cs) = Some b" "list_all canon b" "map emb b = dft (emb w) (map emb (padded (2 ^ f) cs))"
    using ntt_dft [OF pf(1,2) f r] .
  have "b = codeword w f cs"
    using dft_values [OF pf(1,2) f b(2,3)] codeword_padded [OF cs] by (simp add: codeword_def)
  moreover have "intt b = Some (padded (2 ^ f) cs)" using ntt_then_intt [OF pf(1,2) f] b(1) by auto
  ultimately show ?thesis using is_pow2_power [of f] by (simp add: interpolate_def)
qed

lemma drop_padded: "length cs \<le> m \<Longrightarrow> c \<in> set (drop m (padded n cs)) \<Longrightarrow> c = 0"
  by (auto simp: padded_def)

subsection \<open>Sizes and counts\<close>

lemma go_shl_small:
  assumes "0 \<le> x" and "x * 2 ^ n < 2 ^ 63"
  shows "go_shl x n = x * 2 ^ n"
proof -
  have "push_bit n (word_of_int x :: i64) = word_of_int (x * 2 ^ n)" by (simp add: push_bit_eq_mult)
  then have "go_shl x n = signed_take_bit 63 (x * 2 ^ n)" by (simp only: go_shl_def sint_sbintrunc') simp
  also have "\<dots> = x * 2 ^ n"
  proof (rule signed_take_bit_int_eq_self)
    have "0 \<le> x * 2 ^ n" using assms(1) by simp
    moreover have "- (2 ^ 63) \<le> (0 :: int)" by simp
    ultimately show "- (2 ^ 63) \<le> x * 2 ^ n" by (rule order_trans [rotated])
  qed (rule assms(2))
  finally show ?thesis .
qed

lemma go_shl_power: "a + b \<le> 32 \<Longrightarrow> go_shl (2 ^ a) b = 2 ^ (a + b)"
proof -
  assume "a + b \<le> 32"
  then have "(2 :: int) ^ (a + b) \<le> 2 ^ 32" by (intro power_increasing) simp_all
  then show ?thesis using go_shl_small [of "2 ^ a" b] by (simp add: power_add)
qed

lemma count_layers_power: "f \<le> L \<Longrightarrow> count_layers (2 ^ L) (2 ^ f) = L - f"
proof (induction "L - f" arbitrary: L)
  case 0
  then show ?case by (simp add: count_layers.simps)
next
  case (Suc k)
  then obtain K where K: "L = Suc K" "f \<le> K" by (cases L) auto
  then have "(2 :: nat) ^ f < 2 ^ L" by (intro power_strict_increasing) simp_all
  then show ?case using Suc K by (subst count_layers.simps) (simp add: Suc_diff_le)
qed

lemma commit_phase_returns:
  assumes "\<And>t. challenge xof ''fri/fold'' t \<noteq> None" and "length cur = 2 ^ L" and "f \<le> L"
  shows "\<exists>layers rest t'. commit_phase E xof (2 ^ f) t cur w = Some (layers, rest, t')"
  using assms(2,3)
proof (induction "L - f" arbitrary: L t cur w)
  case 0
  then show ?case by (simp add: commit_phase.simps [where finalSize = "2 ^ f"])
next
  case (Suc k)
  then obtain K where K: "L = Suc K" "f \<le> K" "k = K - f" by (cases L) auto
  have "commit_evals E cur \<noteq> None" using Suc.prems by (auto simp: commit_evals_def sha_commit_def commit_def Let_def)
  then obtain root tree where c: "commit_evals E cur = Some (root, tree)" by auto
  obtain beta t1 where ch: "challenge xof ''fri/fold'' (absorb_data ''fri/layer-root'' root t) = Some (beta, t1)"
    using assms(1) [of "absorb_data ''fri/layer-root'' root t"] by auto
  have "length (fold_evals cur beta w) = 2 ^ K" using Suc.prems by (simp add: K)
  from Suc.hyps(1) [OF K(3) this K(2)] obtain layers rest t' where
    "commit_phase E xof (2 ^ f) t1 (fold_evals cur beta w) (felt_mul w w) = Some (layers, rest, t')" by blast
  then show ?case
    by (cases "int (length cur) \<le> 2 ^ f") (simp_all add: commit_phase.simps [where cur = cur] c ch)
qed

lemma query_positions_ok:
  assumes "query_positions xof label count mx t = Some (out, t')"
  shows "int (length out) = count" and "x \<in> set out \<Longrightarrow> int x < mx"
proof -
  have "length out = nat count \<and> (\<forall>x \<in> set out. x < nat mx) \<and> 0 \<le> count \<and> 0 < mx"
    using assms draw_indices_ok [of xof _ label "nat count" "nat mx" t out t']
    by (auto simp: query_positions_def challenge_indices_def challenge_indices_distinct_def draws_def split: if_splits)
  then show "int (length out) = count" and "x \<in> set out \<Longrightarrow> int x < mx" by auto
qed

lemma queries_check:
  assumes "\<And>pos. \<exists>steps. op pos = Some steps \<and> length steps = n \<and> (pos < mx \<longrightarrow> check pos steps = Some True)"
    and "\<And>x. x \<in> set ps \<Longrightarrow> x < mx"
  shows "\<exists>qs. all_some (map op ps) = Some qs \<and> length qs = length ps \<and> check_queries check n ps qs = Some True"
  using assms(2)
proof (induction ps)
  case (Cons p ps)
  then obtain qs where qs: "all_some (map op ps) = Some qs" "length qs = length ps" "check_queries check n ps qs = Some True" by auto
  obtain steps where "op p = Some steps" "length steps = n" "check p steps = Some True" using assms(1) [of p] Cons.prems by auto
  with qs show ?case by simp
qed simp

subsection \<open>Completeness\<close>

text \<open>The draws of the two runs end: for SHAKE they do except with negligible probability.\<close>

definition draws_end :: "xof \<Rightarrow> fri_params \<Rightarrow> nat \<Rightarrow> bool" where
  "draws_end xof p n \<longleftrightarrow> (\<forall>t. challenge xof ''fri/fold'' t \<noteq> None)
     \<and> (\<forall>t. 0 < fp_GrindBits p \<longrightarrow> grind xof ''fri/pow'' (fp_GrindBits p) t \<noteq> None)
     \<and> (\<forall>t. query_positions xof ''fri/query'' (fp_NumQueries p) (int (n div 2)) t \<noteq> None)"

lemma pow_nonce_check:
  assumes "draws_end xof p n"
  obtains nonce t' where "pow_nonce xof p t = Some (nonce, t')" "check_pow xof p nonce t = (True, t')"
proof (cases "0 < fp_GrindBits p")
  case True
  then have "grind xof ''fri/pow'' (fp_GrindBits p) t \<noteq> None" using assms by (simp add: draws_end_def)
  then obtain r where "grind xof ''fri/pow'' (fp_GrindBits p) t = Some r" by blast
  then show ?thesis using that [of "fst r" "snd r"] True grind_verify [of xof "''fri/pow''" "fp_GrindBits p" t "fst r" "snd r"]
    by (simp add: pow_nonce_def check_pow_def)
next
  case False
  then show ?thesis using that by (simp add: pow_nonce_def check_pow_def)
qed

lemma fri_accepts:
  assumes p: "fp_Blowup p = 2 ^ k" "1 \<le> k" "fp_FoldStopBits p = int s" "1 \<le> fp_NumQueries p"
    and size: "k + s < L" "L \<le> 32"
    and w: "root_of_unity (of_nat L) = Some w"
    and cs: "list_all canon cs" "length cs \<le> 2 ^ (L - k)"
    and evals: "evals = map (\<lambda>i. eval_poly cs (felt_exp w (of_nat i))) [0 ..< 2 ^ L]"
    and ends: "draws_end xof p (2 ^ L)"
  shows "\<exists>pf. fri_prove E xof evals p = Some pf \<and> fri_verify E xof pf p = Some True"
proof -
  define f where "f = k + s"
  have f: "f < L" "f \<le> 32" using size by (simp_all add: f_def)
  have ev: "evals = codeword w L cs" by (simp add: evals codeword_def)
  have fs: "fri_final_size p = 2 ^ f" using go_shl_power [of k s] f(2) by (simp add: fri_final_size_def p f_def)
  have fd: "fri_final_deg_bound p = 2 ^ s" using go_shl_power [of 0 s] f(2) by (simp add: fri_final_deg_bound_def p f_def)
  have lt: "(2 :: int) ^ f < 2 ^ L" using f(1) by (intro power_strict_increasing) simp_all
  have ok: "is_pow2 (fp_Blowup p)" "\<not> fp_Blowup p < 2" "\<not> fp_FoldStopBits p < 0" "\<not> fp_NumQueries p < 1" "\<not> (2 :: int) ^ L \<le> 2 ^ f"
    using p lt is_pow2_power [of k] self_le_power [of "2 :: int" k] by simp_all
  have uL: "unat (of_nat L :: u32) = L" using size(2) by (simp add: unat_of_nat)
  define t0 where "t0 = absorb_params p (of_nat L) (new_transcript ''stark/fri/v1'')"
  have fL: "f \<le> L" using f by simp
  obtain layers rest t1 where run: "commit_phase E xof (2 ^ f) t0 (codeword w L cs) w = Some (layers, rest, t1)"
    using commit_phase_returns [OF _ length_codeword fL, of xof E t0 w cs w] ends by (auto simp: draws_end_def)
  have "s + (L - f) = L - k" using size by (simp add: f_def)
  then have "rounds_ok E xof s f L t0 w layers rest t1"
    using rounds [OF run w cs(1) _ fL size(2)] cs(2) by simp
  then obtain wf cf betas where len: "length layers = L - f" and wf: "root_of_unity (of_nat f) = Some wf"
    and cf: "list_all canon cf" "length cf \<le> 2 ^ s" "rest = codeword wf f cf"
    and rep: "replay xof (map fst layers) t0 = Some (betas, t1)"
    and opens: "\<forall>pos. \<exists>steps. open_layers (map snd layers) pos = Some steps \<and> length steps = L - f \<and>
             (\<forall>final. codeword wf f final = rest \<longrightarrow> pos < 2 ^ L \<longrightarrow>
                check_layers E final (map fst layers) betas steps pos w (2 ^ L) = Some True)"
    by (auto simp: rounds_ok_def)
  define final where "final = padded (2 ^ f) cf"
  have cff: "length cf \<le> 2 ^ f"
  proof -
    have "(2 :: nat) ^ s \<le> 2 ^ f" by (rule power_increasing) (simp_all add: f_def)
    with cf(2) show ?thesis by (rule order_trans)
  qed
  have int: "interpolate rest = Some final" "codeword wf f final = rest" "length final = 2 ^ f"
    using interpolate_codeword [OF wf f(2) cf(1) cff] codeword_padded [OF cf(1) cff] padded_facts(1) [OF cff cf(1)]
    by (simp_all add: cf(3) final_def)
  have low: "\<not> (\<exists>c \<in> set (drop (nat (2 ^ s)) final). c \<noteq> 0)"
    using drop_padded [OF cf(2)] by (auto simp: final_def nat_power_eq)
  obtain nonce t2 where pow: "pow_nonce xof p (absorb_final final t1) = Some (nonce, t2)"
      "check_pow xof p nonce (absorb_final final t1) = (True, t2)"
    using pow_nonce_check [OF ends] .
  obtain ps t3 where ps: "query_positions xof ''fri/query'' (fp_NumQueries p) (int (2 ^ L div 2)) t2 = Some (ps, t3)"
    using ends unfolding draws_end_def by fastforce
  have "x < 2 ^ L" if "x \<in> set ps" for x
  proof -
    have "int x < int (2 ^ L div 2)" by (rule query_positions_ok(2) [OF ps that])
    then have "x < 2 ^ L div 2" by (simp only: of_nat_less_iff)
    then show ?thesis by linarith
  qed
  moreover have "\<exists>steps. open_layers (map snd layers) pos = Some steps \<and> length steps = L - f \<and>
      (pos < 2 ^ L \<longrightarrow> check_layers E final (map fst layers) betas steps pos w (2 ^ L) = Some True)" for pos
    using opens int(2) by blast
  ultimately obtain qs where qs: "all_some (map (open_layers (map snd layers)) ps) = Some qs" "length qs = length ps"
      "check_queries (\<lambda>pos steps. check_layers E final (map fst layers) betas steps pos w (2 ^ L)) (L - f) ps qs = Some True"
    using queries_check [of "open_layers (map snd layers)" "L - f" "2 ^ L"
      "\<lambda>pos steps. check_layers E final (map fst layers) betas steps pos w (2 ^ L)" ps] by blast
  define pf where "pf = \<lparr>fr_LogDomain = of_nat L, fr_LayerRoots = map fst layers, fr_PowNonce = nonce,
                fr_FinalCoeffs = final, fr_Queries = qs\<rparr>"
  have "fri_prove E xof evals p = Some pf"
    using ok is_pow2_power [of L] run int(1) pow(1) ps qs(1) w
    by (simp add: fri_prove_def Let_def ev fs t0_def [symmetric] pf_def)
  moreover have "fri_verify E xof pf p = Some True"
  proof -
    have "int (length qs) = fp_NumQueries p" using query_positions_ok(1) [OF ps] qs(2) by simp
    moreover have "count_layers (2 ^ L) (nat (2 ^ f)) = L - f" using count_layers_power [OF fL] by (simp add: nat_power_eq)
    moreover have "\<not> twoAdicity < (of_nat L :: u32)" using size(2) by (simp add: twoAdicity_def word_less_nat_alt uL)
    ultimately show ?thesis
      using ok low len f(1) rep pow(2) ps qs(3) w int(3)
      by (simp add: fri_verify_def Let_def fs fd pf_def uL t0_def [symmetric])
  qed
  ultimately show ?thesis by blast
qed

text \<open>
  C34. For the evaluations of any polynomial of degree less than the domain size divided by the blow-up
  factor, the prover returns a proof and the verifier accepts it, for all admissible parameters with a
  domain of at most \<open>2 ^ 32\<close> points, with grinding and early stop: the transcripts of the two agree, every
  Merkle opening verifies, every folding step is consistent and the final polynomial has the degree allowed.
\<close>

theorem fri_complete:
  assumes p: "fp_Blowup p = 2 ^ k" "1 \<le> k" "fp_FoldStopBits p = int s" "1 \<le> fp_NumQueries p"
    and size: "k + s < L" "L \<le> 32"
    and w: "root_of_unity (of_nat L) = Some w"
    and cs: "list_all canon cs" "length cs \<le> 2 ^ (L - k)"
    and evals: "evals = map (\<lambda>i. eval_poly cs (felt_exp w (of_nat i))) [0 ..< 2 ^ L]"
    and ends: "draws_end xof p (2 ^ L)"
  shows "\<exists>pf. fri_prove E xof evals p = Some pf \<and> fri_verify E xof pf p = Some True"
  by (rule fri_accepts [OF assms])

text \<open>A stand-in for SHAKE256 that counts, and a small instance: the constant 5 on four points.\<close>

definition counting_xof :: xof where
  "counting_xof m n = concat (map (\<lambda>i. be64 (of_nat i)) [0 ..< n div 8])"

definition small_params :: fri_params where
  "small_params = \<lparr>fp_Blowup = 2, fp_NumQueries = 1, fp_GrindBits = 4, fp_FoldStopBits = 0\<rparr>"

lemma counting_first: "8 \<le> n \<Longrightarrow> take 8 (counting_xof m n) = be64 0"
proof -
  assume "8 \<le> n"
  then have "[0 ..< n div 8] = 0 # [1 ..< n div 8]" by (simp add: upt_rec)
  then show ?thesis by (simp add: counting_xof_def)
qed

lemma length_counting: "length (counting_xof m n) = 8 * (n div 8)"
  by (simp add: counting_xof_def length_concat comp_def sum_list_triv)

lemma counting_challenge: "challenge counting_xof label t \<noteq> None"
proof -
  obtain buf t' where b: "squeeze_for_felt counting_xof label 0 t = (buf, t')" by (cases "squeeze_for_felt counting_xof label 0 t")
  then have buf: "take 8 buf = be64 0" "length buf = 128"
    by (auto simp: squeeze_for_felt_def squeeze_def read_clone_def Let_def counting_first length_counting)
  then have "blocks8 buf ! 0 = 0" "0 < length (blocks8 buf)" by (simp_all add: blocks8_def)
  then obtain xs where "blocks8 buf = 0 # xs" by (cases "blocks8 buf") auto
  then have "find (\<lambda>x. x < felt_P) (blocks8 buf) = Some 0" by (simp add: felt_P_def)
  then show ?thesis by (subst challenge_def, subst challenge_loop.simps) (simp add: b)
qed

lemma counting_grind: "grind counting_xof label bits t \<noteq> None"
proof -
  have "grind_digest counting_xof label n t = 0" for n
    using counting_first [of 8] by (simp add: grind_digest_def read_clone_def take_all [OF eq_refl] length_counting)
  then have "grind_ok counting_xof label n bits t" for n
    by (simp add: grind_ok_def leading_zeros64_def takeWhile_eq_all_conv [THEN iffD2])
  then show ?thesis by (simp add: grind_def grind_loop.simps)
qed

lemma counting_positions:
  assumes "1 \<le> mx"
  shows "query_positions counting_xof label 1 mx t \<noteq> None"
proof -
  obtain buf t' where b: "squeeze counting_xof domIdxChl label 64 t = (buf, t')" by (cases "squeeze counting_xof domIdxChl label 64 t")
  then have buf: "take 8 buf = be64 0" "length buf = 64"
    by (auto simp: squeeze_def read_clone_def Let_def counting_first length_counting)
  have "index_loop counting_xof label 1 (nat mx) fresh t' 0 buf 8 [0] = Some [0]" for fresh
    by (simp add: index_loop.simps)
  then have "index_loop counting_xof label 1 (nat mx) (\<lambda>out x. x \<notin> set out) t' 0 buf 0 [] = Some [0]"
    using assms by (subst index_loop.simps) (simp add: buf)
  then show ?thesis
    using assms by (simp add: query_positions_def challenge_indices_distinct_def draw_indices_def indices_lot_size_def b)
qed

lemma constant_value: "eval_poly [5] x = 5"
proof -
  have "felt_mul 0 x = 0" by (simp add: word_uint_eq_iff felt_mul_mod)
  moreover have "felt_add 0 5 = 5" by code_simp
  ultimately show ?thesis by (simp add: eval_poly_def)
qed

theorem fri_complete_witness:
  "\<exists>pf. fri_prove sample_hash counting_xof [5, 5, 5, 5] small_params = Some pf
     \<and> fri_verify sample_hash counting_xof pf small_params = Some True"
proof -
  obtain w where w: "root_of_unity (of_nat 2) = Some w" using root_exists [of 2] by auto
  have ends: "draws_end counting_xof small_params (2 ^ 2)"
    unfolding draws_end_def using counting_challenge counting_grind counting_positions by (simp add: small_params_def)
  have ev: "[5, 5, 5, 5] = map (\<lambda>i. eval_poly [5] (felt_exp w (of_nat i))) [0 ..< 2 ^ 2]"
    by (simp add: constant_value upt_rec)
  show ?thesis
    by (rule fri_complete [where k = 1 and s = 0 and L = 2 and cs = "[5]", OF _ _ _ _ _ _ w _ _ ev ends])
      (simp_all add: small_params_def canon_numeral_small)
qed

subsection \<open>No proof makes the verifier panic\<close>

lemma replay_returns:
  assumes "\<And>t. challenge xof ''fri/fold'' t \<noteq> None"
  shows "\<exists>betas t'. replay xof roots t = Some (betas, t')"
proof (induction roots arbitrary: t)
  case (Cons root roots)
  obtain beta t1 where "challenge xof ''fri/fold'' (absorb_data ''fri/layer-root'' root t) = Some (beta, t1)"
    using assms [of "absorb_data ''fri/layer-root'' root t"] by auto
  with Cons [of t1] show ?case by auto
qed simp

lemma check_layers_returns:
  "length roots \<le> L \<Longrightarrow> check_layers E final roots betas steps pos w (2 ^ L) \<noteq> None"
proof (induction roots arbitrary: L betas steps pos w)
  case (Cons root roots)
  then obtain K where K: "L = Suc K" "length roots \<le> K" by (cases L) auto
  show ?case
  proof (cases "betas = [] \<or> steps = []")
    case True
    then show ?thesis by auto
  next
    case False
    then obtain b bs st sts where "betas = b # bs" "steps = st # sts" by (meson neq_Nil_conv)
    then show ?thesis using Cons.IH [OF K(2)] by (simp add: K(1) Let_def del: not_None_eq)
  qed
qed simp

lemma count_layers_le: "0 < n \<Longrightarrow> count_layers (2 ^ L) n \<le> L"
proof (induction L)
  case 0
  then show ?case by (simp add: count_layers.simps)
next
  case (Suc L)
  then show ?case by (subst count_layers.simps) simp
qed

lemma check_queries_returns:
  "(\<And>pos steps. check pos steps \<noteq> None) \<Longrightarrow> check_queries check n ps qs \<noteq> None"
proof (induction ps arbitrary: qs)
  case (Cons pos ps)
  show ?case
  proof (cases qs)
    case (Cons steps qs')
    obtain ok where "check pos steps = Some ok" using Cons.prems [of pos steps] by blast
    then show ?thesis using Cons.IH [OF Cons.prems] Cons by (simp del: not_None_eq)
  qed simp
qed simp



subsection \<open>The transcript binds what was absorbed\<close>

text \<open>
  C38. Two transcripts are equal only if they were opened for the same protocol and absorbed the same
  records in the same order: no two histories are framed to the same bytes, whatever labels and data are
  chosen, up to lengths of \<open>2 ^ 63\<close>.
\<close>

theorem transcript_binds:
  assumes "absorb_all hs (new_transcript d) = absorb_all gs (new_transcript d')"
    and "list_all fits hs" and "list_all fits gs" and "length d < 2 ^ 63" and "length d' < 2 ^ 63"
  shows "d = d' \<and> hs = gs"
proof -
  have "tr_sponge (new_transcript d) @ records hs = tr_sponge (new_transcript d') @ records gs"
    using assms(1) by (metis sponge_absorb_all)
  then have "d = d' \<and> records hs = records gs" using assms(4,5) by (rule new_transcript_inject)
  then show ?thesis using records_inject assms(2,3) by blast
qed

theorem transcript_binds_witness:
  "absorb_all [(''a'', [98])] (new_transcript ''c'') \<noteq> absorb_all [(''ab'', [])] (new_transcript ''c'')"
  using transcript_binds [of "[(''a'', [98])]" "''c''" "[(''ab'', [])]" "''c''"] by (auto simp: fits_def)

end
