(* ===== verification/AirField.thy ===== *)
theory AirField
  imports Air FriProps
begin

text \<open>
  The algebra the STARK rests on, over the integers modulo the Goldilocks prime: exact division by
  \<open>x - c\<close> and by \<open>x ^ n - 1\<close>, what the polynomial helpers compute, and the closure of the functions of
  bounded degree.
\<close>

subsection \<open>The prime field\<close>

lemma emb_surj: "\<exists>a. canon a \<and> emb a = z"
proof (cases z rule: bit1_cases)
  case (of_int k)
  then have k: "0 \<le> k" "k < p_int" using card_fp by simp_all
  then have "uint (word_of_int k :: u64) = k" by (simp add: p_int_def uint_word_of_int_eq take_bit_int_eq_self)
  then show ?thesis using k of_int(1) by (intro exI [of _ "word_of_int k"]) (simp add: canon_def emb_def)
qed

lemma fp_inverse: "z \<noteq> 0 \<Longrightarrow> \<exists>v. z * v = (1 :: fp)"
proof -
  assume z: "z \<noteq> 0"
  obtain a where a: "canon a" "emb a = z" using emb_surj by blast
  then have "a \<noteq> 0" using z by (auto simp: emb_simps)
  with a show ?thesis using emb_inv by blast
qed

lemma fp_cancel: "z \<noteq> 0 \<Longrightarrow> z * u = z * v \<Longrightarrow> u = (v :: fp)"
proof -
  assume "z \<noteq> 0" and e: "z * u = z * v"
  then obtain y where y: "z * y = 1" using fp_inverse by blast
  have "z * y * u = z * y * v" using arg_cong [OF e, of "(*) y"] by (simp only: ac_simps)
  then show ?thesis by (simp add: y)
qed

lemma fp_integral: "u * v = (0 :: fp) \<Longrightarrow> u = 0 \<or> v = 0"
  using fp_cancel [of u v 0] by auto

lemma emb_inv_fp: "canon a \<Longrightarrow> emb a * v = 1 \<Longrightarrow> emb (felt_inv a) = v"
proof -
  assume a: "canon a" and v: "emb a * v = 1"
  then have "a \<noteq> 0" by (auto simp: emb_simps)
  then have "emb a * emb (felt_inv a) = emb a * v" using emb_inv [OF a] v by simp
  then show ?thesis using fp_cancel [of "emb a"] v by fastforce
qed

lemma lift_list: "\<exists>cs. list_all canon cs \<and> map emb cs = zs"
proof (induction zs)
  case (Cons z zs)
  then obtain cs where "list_all canon cs" "map emb cs = zs" by blast
  moreover obtain c where "canon c" "emb c = z" using emb_surj by blast
  ultimately show ?case by (intro exI [of _ "c # cs"]) simp
qed simp

lemma emb_neg [emb_simps]: "canon a \<Longrightarrow> emb (felt_neg a) = - emb a"
  unfolding emb_def by (simp only: felt_neg_mod of_int_mod_p of_int_minus)

subsection \<open>Lists of coefficients\<close>

text \<open>Sum, scaling and product of coefficient lists.\<close>

fun plus_poly :: "fp list \<Rightarrow> fp list \<Rightarrow> fp list" where
  "plus_poly (a # as) (b # bs) = (a + b) # plus_poly as bs"
| "plus_poly [] bs = bs"
| "plus_poly as [] = as"

lemma length_plus_poly [simp]: "length (plus_poly as bs) = max (length as) (length bs)"
  by (induction as bs rule: plus_poly.induct) simp_all

lemma value_plus_poly [simp]: "value_at (plus_poly as bs) x = value_at as x + value_at bs x"
  by (induction as bs rule: plus_poly.induct) (simp_all add: algebra_simps)

lemma value_scale_poly [simp]: "value_at (map ((*) s) as) x = s * value_at as x"
  by (induction as) (simp_all add: algebra_simps)

lemma value_append: "value_at (as @ bs) x = value_at as x + x ^ length as * value_at bs x"
  by (induction as) (simp_all add: algebra_simps)

lemma value_zeros: "\<forall>c \<in> set cs. c = 0 \<Longrightarrow> value_at cs x = 0"
  by (induction cs) simp_all

text \<open>A root divides off.\<close>

fun divide_root :: "fp \<Rightarrow> fp list \<Rightarrow> fp list" where
  "divide_root c [] = []"
| "divide_root c [a] = []"
| "divide_root c (a # as) = value_at as c # divide_root c as"

lemma divide_root_value: "value_at as x - value_at as c = (x - c) * value_at (divide_root c as) x"
proof (induction c as rule: divide_root.induct)
  case (3 c a a' as)
  let ?q = "value_at (divide_root c (a' # as)) x"
  have "value_at (a # a' # as) x - value_at (a # a' # as) c = x * value_at (a' # as) x - c * value_at (a' # as) c"
    by (simp only: value_at_Cons) simp
  also have "\<dots> = x * (value_at (a' # as) x - value_at (a' # as) c) + (x - c) * value_at (a' # as) c"
    by (simp only: algebra_simps)
  also have "\<dots> = (x - c) * (value_at (a' # as) c + x * ?q)" by (simp only: 3 algebra_simps)
  finally show ?case by (simp only: divide_root.simps value_at_Cons)
qed simp_all

lemma length_divide_root [simp]: "length (divide_root c as) = length as - 1"
  by (induction c as rule: divide_root.induct) simp_all

text \<open>Division by \<open>x ^ n - 1\<close>: the head of the list is folded onto the rest.\<close>

lemma divide_cyclic:
  assumes "0 < n"
  shows "\<exists>q r. length r \<le> n \<and> length q \<le> length as - n \<and> (\<forall>x. value_at (as :: fp list) x = (x ^ n - 1) * value_at q x + value_at r x)"
proof (induction as rule: length_induct)
  case (1 as)
  show ?case
  proof (cases "length as \<le> n")
    case True
    then show ?thesis by (intro exI [of _ "[]"] exI [of _ as]) simp
  next
    case False
    define bs where "bs = plus_poly (take n as) (drop n as)"
    have len: "length bs < length as" "length bs \<le> max n (length as - n)" using False assms by (simp_all add: bs_def)
    then obtain q r where qr: "length r \<le> n" "length q \<le> length bs - n"
        "\<And>x. value_at bs x = (x ^ n - 1) * value_at q x + value_at r x" using 1 by metis
    have "value_at as x = (x ^ n - 1) * value_at (plus_poly (drop n as) q) x + value_at r x" for x
    proof -
      have "value_at as x = value_at (take n as @ drop n as) x" by simp
      also have "\<dots> = value_at (take n as) x + x ^ n * value_at (drop n as) x"
        using False by (simp only: value_append) (simp add: min_def)
      also have "\<dots> = value_at bs x + (x ^ n - 1) * value_at (drop n as) x" by (simp add: bs_def algebra_simps)
      finally show ?thesis by (simp add: qr(3) algebra_simps)
    qed
    moreover have "length (plus_poly (drop n as) q) \<le> length as - n" using qr(2) len(2) by simp
    ultimately show ?thesis using qr(1) by blast
  qed
qed


lemma of_nat_size_nonzero: "L \<le> 32 \<Longrightarrow> (of_nat (2 ^ L) :: fp) \<noteq> 0"
  using size_inverse [of L] by auto

lemma root_power_order:
  assumes g: "root_of_unity (of_nat l) = Some g" and l: "l \<le> 32"
  shows "emb g ^ 2 ^ l = 1"
proof (cases l)
  case 0
  have "uint g ^ 2 ^ unat (of_nat l :: u32) mod p_int = 1" by (rule root_of_unity_order(1) [OF g])
  then have "uint g mod p_int = 1 mod p_int" by (simp add: 0 p_int_def)
  then have "(of_int (uint g) :: fp) = of_int 1" using of_int_mod_p by metis
  then show ?thesis by (simp add: 0 emb_def)
next
  case (Suc k)
  have "emb g ^ 2 ^ l = (emb g ^ 2 ^ k) ^ 2" by (simp add: Suc power_mult [symmetric] mult.commute)
  also have "\<dots> = 1" using root_half [OF g _ l] by (simp add: Suc)
  finally show ?thesis .
qed

lemma vanishing_divides:
  assumes g: "root_of_unity (of_nat l) = Some g" and l: "l \<le> 32"
    and zero: "\<And>i. i < 2 ^ l \<Longrightarrow> value_at as (emb g ^ i) = 0"
  shows "\<exists>q. length q \<le> length as - 2 ^ l \<and> (\<forall>x. value_at as x = (x ^ 2 ^ l - 1) * value_at q x)"
proof -
  have "(0 :: nat) < 2 ^ l" by simp
  from divide_cyclic [OF this, of as] obtain q r where len: "length r \<le> 2 ^ l" "length q \<le> length as - 2 ^ l"
    and v: "\<And>x. value_at as x = (x ^ 2 ^ l - 1) * value_at q x + value_at r x" by blast
  define rr where "rr = r @ replicate (2 ^ l - length r) 0"
  have rr: "length rr = 2 ^ l" using len(1) by (simp add: rr_def)
  have one: "(emb g ^ i) ^ 2 ^ l = 1" for i
  proof -
    have "(emb g ^ i) ^ 2 ^ l = (emb g ^ 2 ^ l) ^ i" unfolding power_mult [symmetric] mult.commute [of i] ..
    then show ?thesis unfolding root_power_order [OF g l] by simp
  qed
  have "dft (emb g) rr ! i = 0" if "i < 2 ^ l" for i
  proof -
    have "dft (emb g) rr ! i = value_at rr (emb g ^ i)" using that rr by (intro dft_value_at) simp
    also have "\<dots> = value_at r (emb g ^ i)" unfolding rr_def by (rule value_padded)
    also have "\<dots> = value_at as (emb g ^ i)" unfolding v [of "emb g ^ i"] one by simp
    also have "\<dots> = 0" by (rule zero [OF that])
    finally show ?thesis .
  qed
  then have d: "dft (emb g) rr = replicate (2 ^ l) 0" using rr by (intro nth_equalityI) simp_all
  have half: "emb g ^ 2 ^ (l - 1) = - 1" if "0 < l" using root_half [OF g that l] .
  have inv: "emb (felt_inv g) * emb g = 1" using emb_inv root_canon [OF g] by (simp add: mult.commute)
  have "map (\<lambda>x. of_nat (2 ^ l) * x) rr = dft (emb (felt_inv g)) (replicate (2 ^ l) 0)"
    using dft_inverse [OF rr half inv] by (simp add: d)
  also have "\<dots> = replicate (2 ^ l) 0" by (intro nth_equalityI) (simp_all add: dft_def)
  finally have m: "map (\<lambda>x. of_nat (2 ^ l) * x) rr = replicate (2 ^ l) 0" .
  have "c = 0" if "c \<in> set rr" for c
  proof -
    have "of_nat (2 ^ l) * c \<in> set (replicate (2 ^ l) (0 :: fp))" unfolding m [symmetric] using that by simp
    then show ?thesis using fp_integral of_nat_size_nonzero [OF l] by fastforce
  qed
  then have "value_at r x = 0" for x by (intro value_zeros) (simp add: rr_def)
  then show ?thesis using len(2) v by (intro exI [of _ q]) simp
qed

subsection \<open>What the helpers compute\<close>

abbreviation pv :: "felt list \<Rightarrow> fp \<Rightarrow> fp" where "pv cs \<equiv> value_at (map emb cs)"

definition cpoly :: "nat \<Rightarrow> felt list \<Rightarrow> bool" where
  "cpoly k cs \<longleftrightarrow> list_all canon cs \<and> length cs \<le> k"

lemma cpoly_mono: "cpoly k cs \<Longrightarrow> k \<le> m \<Longrightarrow> cpoly m cs"
  by (simp add: cpoly_def)

lemma cpoly_canon [dest]: "cpoly k cs \<Longrightarrow> list_all canon cs"
  by (simp add: cpoly_def)

lemma eval_cpoly: "cpoly k cs \<Longrightarrow> canon x \<Longrightarrow> emb (eval_poly cs x) = pv cs (emb x) \<and> canon (eval_poly cs x)"
  using eval_poly_emb by (auto simp: cpoly_def)

lemma eval_eqI: "cpoly k cs \<Longrightarrow> canon x \<Longrightarrow> canon y \<Longrightarrow> emb y = pv cs (emb x) \<Longrightarrow> eval_poly cs x = y"
  using eval_cpoly [of k cs x] by (auto intro: emb_inject)

lemma cpoly_lift:
  obtains cs where "cpoly (length zs) cs" "map emb cs = zs"
  using lift_list [of zs] by (metis cpoly_def length_map order_refl)

lemma poly_trim_rev: "\<exists>k. a = poly_trim a @ replicate k 0"
proof -
  have "rev a = takeWhile (\<lambda>c. c = 0) (rev a) @ dropWhile (\<lambda>c. c = 0) (rev a)" by simp
  moreover have "takeWhile (\<lambda>c. c = 0) (rev a) = replicate (length (takeWhile (\<lambda>c. c = 0) (rev a))) 0"
    by (rule replicate_eqI) (auto dest: set_takeWhileD)
  ultimately have "rev a = replicate (length (takeWhile (\<lambda>c. c = 0) (rev a))) 0 @ rev (poly_trim a)"
    by (simp add: poly_trim_def)
  then have "rev (rev a) = poly_trim a @ replicate (length (takeWhile (\<lambda>c. c = 0) (rev a))) 0"
    by (metis rev_append rev_replicate rev_rev_ident)
  then show ?thesis by auto
qed

lemma pv_trim [simp]: "pv (poly_trim a) = pv a"
proof
  fix x
  obtain k where k: "a = poly_trim a @ replicate k 0" using poly_trim_rev by blast
  have "pv a x = pv (poly_trim a @ replicate k 0) x" using k by simp
  then show "pv (poly_trim a) x = pv a x" by (simp add: emb_simps)
qed

lemma cpoly_trim: "cpoly k a \<Longrightarrow> cpoly k (poly_trim a)"
  using poly_trim_rev [of a] by (auto simp: cpoly_def) (metis le_add1 length_append order_trans list_all_append)+

text \<open>Trimming undoes padding.\<close>

lemma length_trim_padded: "length (poly_trim (padded n cs)) \<le> length cs"
proof -
  have "length (dropWhile (\<lambda>c. c = 0) (replicate k 0 @ rev cs)) \<le> length cs" for k
    by (induction k) (auto intro: order_trans [OF length_dropWhile_le])
  then show ?thesis by (simp add: poly_trim_def padded_def)
qed

lemma pv_padded [simp]: "pv (padded n cs) = pv cs"
  by (rule ext) (simp add: padded_def emb_simps)

lemma pv_append: "pv (as @ bs) x = pv as x + x ^ length as * pv bs x"
  by (simp add: value_append)

lemma pv_map2:
  "list_all canon as \<Longrightarrow> list_all canon bs \<Longrightarrow> length bs \<le> length as \<Longrightarrow>
    pv (map2 (\<lambda>a c. felt_add a (felt_mul s c)) as bs @ drop (length bs) as) x = pv as x + emb s * pv bs x"
proof (induction as arbitrary: bs)
  case (Cons a as)
  show ?case
  proof (cases bs)
    case (Cons b bs')
    then show ?thesis using Cons.IH [of bs'] Cons.prems by (simp add: emb_simps felt_simps algebra_simps)
  qed simp
qed simp

lemma poly_add_scaled:
  assumes "cpoly k acc" and "cpoly k b"
  shows "pv (poly_add_scaled acc b s) x = pv acc x + emb s * pv b x" and "cpoly k (poly_add_scaled acc b s)"
proof -
  define grown where "grown = (if length acc < length b then padded (length b) acc else acc)"
  have g: "list_all canon grown" "length b \<le> length grown" "length grown \<le> k" "pv grown = pv acc"
    using assms padded_facts [of acc "length b"] by (auto simp: grown_def cpoly_def)
  have e: "poly_add_scaled acc b s = map2 (\<lambda>a c. felt_add a (felt_mul s c)) grown b @ drop (length b) grown"
    by (simp add: poly_add_scaled_def grown_def Let_def)
  show "pv (poly_add_scaled acc b s) x = pv acc x + emb s * pv b x"
    using pv_map2 [OF g(1) _ g(2)] assms(2) by (simp only: e g(4) cpoly_def)
  have "list_all canon (map2 (\<lambda>a c. felt_add a (felt_mul s c)) grown b)"
    using g(1) by (auto simp: list_all_iff felt_simps dest!: set_zip_leftD)
  moreover have "list_all canon (drop (length b) grown)" using g(1) by (auto simp: list_all_iff dest: in_set_dropD)
  ultimately show "cpoly k (poly_add_scaled acc b s)" using g by (simp add: e cpoly_def)
qed

lemma poly_sub_const:
  assumes "cpoly k a" and "canon c"
  shows "pv (poly_sub_const a c) x = pv a x - emb c" and "cpoly (max k 1) (poly_sub_const a c)"
    and "0 < length a \<Longrightarrow> length (poly_sub_const a c) = length a"
  using assms by (cases a; simp add: poly_sub_const_def emb_simps felt_simps cpoly_def)+

lemma ruffini_divides:
  "list_all canon a \<Longrightarrow> canon c \<Longrightarrow>
    map emb (fst (ruffini c a)) = divide_root (emb c) (map emb a) \<and> emb (snd (ruffini c a)) = pv a (emb c)
    \<and> list_all canon (fst (ruffini c a)) \<and> canon (snd (ruffini c a))"
proof (induction c a rule: ruffini.induct)
  case (3 c a a' as)
  then show ?case by (auto simp: Let_def case_prod_beta emb_simps felt_simps simp del: ruffini.simps(3)) 
      (simp_all add: case_prod_beta emb_simps felt_simps)
qed (simp_all add: emb_simps felt_simps)

lemma length_poly_trim:
  assumes "\<And>i. k \<le> i \<Longrightarrow> i < length a \<Longrightarrow> a ! i = 0"
  shows "length (poly_trim a) \<le> k"
proof (rule ccontr)
  assume n: "\<not> length (poly_trim a) \<le> k"
  then have ne: "dropWhile (\<lambda>c. c = 0) (rev a) \<noteq> []" unfolding poly_trim_def by (metis le0 length_rev list.size(3))
  obtain j where j: "a = poly_trim a @ replicate j 0" using poly_trim_rev by blast
  let ?i = "length (poly_trim a) - 1"
  have "a ! ?i = last (poly_trim a)" using n j by (metis last_conv_nth le0 list.size(3) nth_append diff_less zero_less_one not_le gr0I)
  also have "\<dots> = hd (dropWhile (\<lambda>c. c = 0) (rev a))" using ne by (simp add: poly_trim_def last_rev)
  also have "\<dots> \<noteq> 0" using hd_dropWhile [OF ne] by blast
  finally have "a ! ?i \<noteq> 0" .
  moreover have "length (poly_trim a) \<le> length a" using j by (metis le_add1 length_append)
  ultimately have "k \<le> ?i" "?i < length a" "a ! ?i \<noteq> 0" using n by linarith+
  then show False using assms by blast
qed

lemma poly_div_by_linear:
  assumes "cpoly k (poly_trim a)" and "canon c"
  shows "pv a x - pv a (emb c) = (x - emb c) * pv (fst (poly_div_by_linear a c)) x"
    and "cpoly (k - 1) (fst (poly_div_by_linear a c))"
    and "emb (snd (poly_div_by_linear a c)) = pv a (emb c)"
proof -
  note t = assms(1)
  have r: "map emb (fst (ruffini c (poly_trim a))) = divide_root (emb c) (map emb (poly_trim a))"
    "emb (snd (ruffini c (poly_trim a))) = pv (poly_trim a) (emb c)" "list_all canon (fst (ruffini c (poly_trim a)))"
    using ruffini_divides [OF cpoly_canon [OF t] assms(2)] by blast+
  have len: "length (fst (ruffini c (poly_trim a))) \<le> k - 1"
    using arg_cong [OF r(1), of length] t by (simp add: cpoly_def diff_le_mono)
  have e: "fst (poly_div_by_linear a c) = poly_trim (fst (ruffini c (poly_trim a)))"
      "snd (poly_div_by_linear a c) = snd (ruffini c (poly_trim a))"
    by (simp_all add: poly_div_by_linear_def case_prod_beta)
  show "pv a x - pv a (emb c) = (x - emb c) * pv (fst (poly_div_by_linear a c)) x"
    using divide_root_value [of "map emb (poly_trim a)" x "emb c"] by (simp only: e pv_trim r(1))
  show "cpoly (k - 1) (fst (poly_div_by_linear a c))"
    unfolding e using r(3) len by (intro cpoly_trim) (simp add: cpoly_def)
  show "emb (snd (poly_div_by_linear a c)) = pv a (emb c)" by (simp only: e r(2) pv_trim)
qed

text \<open>The quotient of \<open>T(x) - T(z)\<close> by \<open>x - z\<close>.\<close>

lemma deep_quotient:
  assumes T: "list_all canon T" "length (poly_trim T) \<le> k" "1 \<le> k" and z: "canon z"
  defines "q \<equiv> fst (poly_div_by_linear (poly_sub_const T (eval_poly T z)) z)"
  shows "(x - emb z) * pv q x = pv T x - pv T (emb z)" and "cpoly k q"
proof -
  have T': "cpoly (length T) T" using T(1) by (simp add: cpoly_def)
  have v: "canon (eval_poly T z)" using eval_cpoly [OF T' z] by blast
  define a where "a = poly_sub_const T (eval_poly T z)"
  have a: "pv a y = pv T y - emb (eval_poly T z)" "cpoly (max (length T) 1) a" for y
    unfolding a_def using poly_sub_const(1,2) [OF T' v] by blast+
  have "a ! i = 0" if i: "k \<le> i" "i < length a" for i
  proof -
    obtain j where j: "T = poly_trim T @ replicate j 0" using poly_trim_rev by blast
    obtain i' where i': "i = Suc i'" using i(1) T(3) by (cases i) auto
    then obtain t ts where t: "T = t # ts" using i(2) by (cases T) (auto simp: a_def poly_sub_const_def)
    then have "a ! i = T ! i" "i < length T" using i(2) by (simp_all add: a_def poly_sub_const_def i')
    moreover have "T ! i = 0" if "i < length T"
    proof -
      have "(poly_trim T @ replicate j 0) ! i = 0" using that i(1) T(2) arg_cong [OF j, of length] by (simp add: nth_append)
      then show ?thesis using j by simp
    qed
    ultimately show ?thesis by simp
  qed
  then have "length (poly_trim a) \<le> k" by (rule length_poly_trim)
  then have at: "cpoly k (poly_trim a)" using cpoly_trim [OF a(2)] by (simp add: cpoly_def)
  show "(x - emb z) * pv q x = pv T x - pv T (emb z)"
    using poly_div_by_linear(1) [OF at z, of x] by (simp only: q_def a_def [symmetric] a(1)) simp
  show "cpoly k q" unfolding q_def a_def [symmetric] by (rule cpoly_mono [OF poly_div_by_linear(2) [OF at z]]) simp
qed

lemma pv_compose: "pv (map (\<lambda>i. felt_mul (a ! i) (running s i)) [0 ..< length a]) x = pv a (emb s * x)"
  unfolding value_at_def by (intro sum.cong) (simp_all add: emb_simps power_mult_distrib ac_simps)

lemma poly_compose_scale:
  shows "pv (poly_compose_scale a s) x = pv a (emb s * x)" and "cpoly (length a) (poly_compose_scale a s)"
  unfolding poly_compose_scale_def by (rule pv_compose) (simp add: cpoly_def list_all_iff felt_simps)

lemma length_poly_compose_scale [simp]: "length (poly_compose_scale a s) = length a"
  by (simp add: poly_compose_scale_def)

lemma poly_compose_padded: "poly_compose_scale (padded n a) s = padded n (poly_compose_scale a s)"
proof (rule nth_equalityI)
  have z: "felt_mul 0 y = 0" for y by (simp add: word_uint_eq_iff felt_mul_mod)
  fix i assume "i < length (poly_compose_scale (padded n a) s)"
  then show "poly_compose_scale (padded n a) s ! i = padded n (poly_compose_scale a s) ! i"
    by (auto simp: poly_compose_scale_def padded_def nth_append z)
qed (simp add: padded_def)

lemma eval_on_lde_codeword:
  assumes "root_of_unity (of_nat L) = Some w" and "L \<le> 32" and "cpoly (2 ^ L) cs"
  shows "eval_on_lde cs (2 ^ L) = Some (codeword w L cs)"
proof -
  have cs: "length cs \<le> 2 ^ L" "list_all canon cs" using assms(3) by (simp_all add: cpoly_def)
  note pf = padded_facts [OF cs]
  obtain b where b: "ntt (padded (2 ^ L) cs) = Some b" "list_all canon b" "map emb b = dft (emb w) (map emb (padded (2 ^ L) cs))"
    using ntt_dft [OF pf(1,2) assms(2,1)] .
  have "b = codeword w L (padded (2 ^ L) cs)"
    using dft_values [OF pf(1,2) assms(2) b(2,3)] by (simp add: codeword_def)
  then show ?thesis using b(1) cs codeword_padded [OF cs(2,1)] by (simp add: eval_on_lde_def)
qed

end
