(* ===== verification/AirDegree.thy ===== *)
theory AirDegree
  imports AirField
begin

text \<open>
  The degree contract of an \<^verbatim>\<open>AIR\<close>: a function of two rows has degree at most \<open>e\<close> when its values along
  rows of polynomials of degree at most \<open>d\<close> are those of a polynomial of degree at most \<open>e * d\<close>. Such
  functions are closed under the operations a constraint is built of.
\<close>

definition rows_at :: "felt list list \<Rightarrow> felt \<Rightarrow> felt list" where
  "rows_at cols x = map (\<lambda>cs. eval_poly cs x) cols"

definition low_degree :: "nat \<Rightarrow> nat \<Rightarrow> (felt list \<Rightarrow> felt list \<Rightarrow> felt) \<Rightarrow> bool" where
  "low_degree w e f \<longleftrightarrow>
     (\<forall>d C D. length C = w \<and> length D = w \<and> list_all (cpoly (Suc d)) C \<and> list_all (cpoly (Suc d)) D \<longrightarrow>
        (\<exists>q. cpoly (Suc (e * d)) q \<and> (\<forall>x. canon x \<longrightarrow> f (rows_at C x) (rows_at D x) = eval_poly q x)))"

lemma length_rows_at [simp]: "length (rows_at cols x) = length cols"
  by (simp add: rows_at_def)

lemma low_degreeD:
  assumes "low_degree w e f" and "length C = w" and "length D = w" and "list_all (cpoly (Suc d)) C" and "list_all (cpoly (Suc d)) D"
  shows "\<exists>q. cpoly (Suc (e * d)) q \<and> (\<forall>x. canon x \<longrightarrow> f (rows_at C x) (rows_at D x) = eval_poly q x)"
  using assms unfolding low_degree_def by blast

text \<open>It is enough to give the polynomial over the field.\<close>

lemma low_degreeI:
  assumes "\<And>d C D. length C = w \<Longrightarrow> length D = w \<Longrightarrow> list_all (cpoly (Suc d)) C \<Longrightarrow> list_all (cpoly (Suc d)) D \<Longrightarrow>
     \<exists>zs. length zs \<le> Suc (e * d) \<and>
       (\<forall>x. canon x \<longrightarrow> canon (f (rows_at C x) (rows_at D x)) \<and> emb (f (rows_at C x) (rows_at D x)) = value_at zs (emb x))"
  shows "low_degree w e f"
  unfolding low_degree_def
proof (intro allI impI)
  fix d C D assume a: "length C = w \<and> length D = w \<and> list_all (cpoly (Suc d)) C \<and> list_all (cpoly (Suc d)) D"
  then obtain zs where zs: "length zs \<le> Suc (e * d)"
    "\<And>x. canon x \<Longrightarrow> canon (f (rows_at C x) (rows_at D x)) \<and> emb (f (rows_at C x) (rows_at D x)) = value_at zs (emb x)"
    using assms [of C D d] by blast
  obtain q where q: "cpoly (length zs) q" "map emb q = zs" using cpoly_lift .
  have "f (rows_at C x) (rows_at D x) = eval_poly q x" if "canon x" for x
    using eval_eqI [OF q(1) that, of "f (rows_at C x) (rows_at D x)"] zs(2) [OF that] q(2) by simp
  then show "\<exists>q. cpoly (Suc (e * d)) q \<and> (\<forall>x. canon x \<longrightarrow> f (rows_at C x) (rows_at D x) = eval_poly q x)"
    using cpoly_mono [OF q(1) zs(1)] by blast
qed

lemma low_degreeE:
  assumes "low_degree w e f" and "length C = w" and "length D = w" and "list_all (cpoly (Suc d)) C" and "list_all (cpoly (Suc d)) D"
  shows "\<exists>zs. length zs \<le> Suc (e * d) \<and>
    (\<forall>x. canon x \<longrightarrow> canon (f (rows_at C x) (rows_at D x)) \<and> emb (f (rows_at C x) (rows_at D x)) = value_at zs (emb x))"
proof -
  obtain q where q: "cpoly (Suc (e * d)) q" "\<forall>x. canon x \<longrightarrow> f (rows_at C x) (rows_at D x) = eval_poly q x"
    using low_degreeD [OF assms] by blast
  then show ?thesis using eval_cpoly [OF q(1)] by (intro exI [of _ "map emb q"]) (simp add: cpoly_def)
qed

named_theorems degrees \<open>the degree of a constraint from the degrees of its parts\<close>

lemma low_degree_const [degrees]: "canon c \<Longrightarrow> low_degree w 0 (\<lambda>_ _. c)"
  by (rule low_degreeI) (auto intro!: exI [of _ "[emb c]"])

lemma low_degree_cell:
  assumes "c < w"
  shows low_degree_cur [degrees]: "low_degree w 1 (\<lambda>cur nxt. cur ! c)"
    and low_degree_next [degrees]: "low_degree w 1 (\<lambda>cur nxt. nxt ! c)"
  using assms by (auto simp: low_degree_def rows_at_def list_all_length)

lemma low_degree_mono:
  assumes f: "low_degree w e f" and e: "e \<le> e'"
  shows "low_degree w e' f"
proof (rule low_degreeI)
  fix d C D assume a: "length C = w" "length D = w" "list_all (cpoly (Suc d)) C" "list_all (cpoly (Suc d)) D"
  have "Suc (e * d) \<le> Suc (e' * d)" using e by simp
  then show "\<exists>zs. length zs \<le> Suc (e' * d) \<and>
      (\<forall>x. canon x \<longrightarrow> canon (f (rows_at C x) (rows_at D x)) \<and> emb (f (rows_at C x) (rows_at D x)) = value_at zs (emb x))"
    using low_degreeE [OF f a] by (meson order_trans)
qed

lemma low_degree_linear:
  assumes "low_degree w e f" and "low_degree w e g"
    and "\<And>a b. canon a \<Longrightarrow> canon b \<Longrightarrow> canon (h a b) \<and> emb (h a b) = emb a + s * emb b"
  shows "low_degree w e (\<lambda>cur nxt. h (f cur nxt) (g cur nxt))"
proof (rule low_degreeI)
  fix d C D assume a: "length C = w" "length D = w" "list_all (cpoly (Suc d)) C" "list_all (cpoly (Suc d)) D"
  obtain us where us: "length us \<le> Suc (e * d)"
    "\<And>x. canon x \<Longrightarrow> canon (f (rows_at C x) (rows_at D x)) \<and> emb (f (rows_at C x) (rows_at D x)) = value_at us (emb x)"
    using low_degreeE [OF assms(1) a] by blast
  obtain vs where vs: "length vs \<le> Suc (e * d)"
    "\<And>x. canon x \<Longrightarrow> canon (g (rows_at C x) (rows_at D x)) \<and> emb (g (rows_at C x) (rows_at D x)) = value_at vs (emb x)"
    using low_degreeE [OF assms(2) a] by blast
  show "\<exists>zs. length zs \<le> Suc (e * d) \<and> (\<forall>x. canon x \<longrightarrow>
       canon (h (f (rows_at C x) (rows_at D x)) (g (rows_at C x) (rows_at D x)))
       \<and> emb (h (f (rows_at C x) (rows_at D x)) (g (rows_at C x) (rows_at D x))) = value_at zs (emb x))"
    by (rule exI [of _ "plus_poly us (map ((*) s) vs)"]) (use us vs assms(3) in simp)
qed

lemma low_degree_add: "low_degree w e f \<Longrightarrow> low_degree w e g \<Longrightarrow> low_degree w e (\<lambda>cur nxt. felt_add (f cur nxt) (g cur nxt))"
  by (rule low_degree_linear [where s = 1]) (simp_all add: emb_simps felt_simps)

lemma low_degree_sub: "low_degree w e f \<Longrightarrow> low_degree w e g \<Longrightarrow> low_degree w e (\<lambda>cur nxt. felt_sub (f cur nxt) (g cur nxt))"
  by (rule low_degree_linear [where s = "- 1"]) (simp_all add: emb_simps felt_simps)

text \<open>A product of coefficient lists.\<close>

fun times_poly :: "fp list \<Rightarrow> fp list \<Rightarrow> fp list" where
  "times_poly [] bs = []"
| "times_poly [a] bs = map ((*) a) bs"
| "times_poly (a # as) bs = plus_poly (map ((*) a) bs) (0 # times_poly as bs)"

lemma value_times_poly: "value_at (times_poly as bs) x = value_at as x * value_at bs x"
  by (induction as bs rule: times_poly.induct) (simp_all add: algebra_simps)

lemma length_times_poly: "as \<noteq> [] \<Longrightarrow> bs \<noteq> [] \<Longrightarrow> length (times_poly as bs) = length as + length bs - 1"
  by (induction as bs rule: times_poly.induct) (auto simp: Suc_le_eq)

lemma length_times_poly_Nil: "length (times_poly as []) \<le> length as - 1"
proof (induction as)
  case (Cons a as)
  then show ?case by (cases as) auto
qed simp

lemma low_degree_mul:
  assumes "low_degree w e f" and "low_degree w e' g"
  shows "low_degree w (e + e') (\<lambda>cur nxt. felt_mul (f cur nxt) (g cur nxt))"
proof (rule low_degreeI)
  fix d C D assume a: "length C = w" "length D = w" "list_all (cpoly (Suc d)) C" "list_all (cpoly (Suc d)) D"
  obtain us where us: "length us \<le> Suc (e * d)"
    "\<And>x. canon x \<Longrightarrow> canon (f (rows_at C x) (rows_at D x)) \<and> emb (f (rows_at C x) (rows_at D x)) = value_at us (emb x)"
    using low_degreeE [OF assms(1) a] by blast
  obtain vs where vs: "length vs \<le> Suc (e' * d)"
    "\<And>x. canon x \<Longrightarrow> canon (g (rows_at C x) (rows_at D x)) \<and> emb (g (rows_at C x) (rows_at D x)) = value_at vs (emb x)"
    using low_degreeE [OF assms(2) a] by blast
  have "length (times_poly us vs) \<le> Suc ((e + e') * d)"
  proof (cases "us = [] \<or> vs = []")
    case True
    then show ?thesis using length_times_poly_Nil [of us] us(1) by (auto simp: algebra_simps)
  next
    case False
    then show ?thesis using us(1) vs(1) length_times_poly [of us vs] by (simp add: algebra_simps)
  qed
  then show "\<exists>zs. length zs \<le> Suc ((e + e') * d) \<and> (\<forall>x. canon x \<longrightarrow>
       canon (felt_mul (f (rows_at C x) (rows_at D x)) (g (rows_at C x) (rows_at D x)))
       \<and> emb (felt_mul (f (rows_at C x) (rows_at D x)) (g (rows_at C x) (rows_at D x))) = value_at zs (emb x))"
    by (intro exI [of _ "times_poly us vs"]) (use us vs in \<open>simp add: value_times_poly emb_simps felt_simps\<close>)
qed

lemma low_degree_power:
  assumes "low_degree w e f"
  shows "low_degree w (n * e) (\<lambda>cur nxt. ((\<lambda>y. felt_mul y (f cur nxt)) ^^ n) 1)"
proof (induction n)
  case 0
  then show ?case by (simp add: low_degree_const felt_simps)
next
  case (Suc n)
  have "Suc n * e = n * e + e" by simp
  then show ?case using low_degree_mul [OF Suc assms] by (simp only: funpow.simps comp_def)
qed

lemma felt_exp_iterated:
  assumes "canon y"
  shows "felt_exp y n = ((\<lambda>z. felt_mul z y) ^^ unat n) 1"
proof (rule emb_inject)
  have "emb (((\<lambda>z. felt_mul z y) ^^ k) 1) = emb y ^ k" for k by (induction k) (simp_all add: emb_simps mult.commute)
  then show "emb (felt_exp y n) = emb (((\<lambda>z. felt_mul z y) ^^ unat n) 1)" by (simp add: emb_simps)
  have "canon (((\<lambda>z. felt_mul z y) ^^ k) 1)" for k by (induction k) (simp_all add: felt_simps)
  then show "canon (((\<lambda>z. felt_mul z y) ^^ unat n) 1)" by simp
qed (simp add: felt_simps)

end
