(* ===== verification/AirQuotients.thy ===== *)
theory AirQuotients
  imports AirDegree
begin

text \<open>
  The algebra behind the composition of \<^verbatim>\<open>stark_mc.go\<close>: the contract of an \<^verbatim>\<open>AIR\<close> as a locale, the
  polynomials of a trace, the exact quotients of the constraints a trace satisfies, and the polynomial
  \<open>H\<close> they combine to.
\<close>

subsection \<open>Loops of the composition\<close>

lemma all_some_map: "(\<And>x. x \<in> set xs \<Longrightarrow> f x = Some (g x)) \<Longrightarrow> all_some (map f xs) = Some (map g xs)"
  by (induction xs) auto

fun combine :: "fp list \<Rightarrow> fp list list \<Rightarrow> fp list" where
  "combine (a # as) (q # qs) = plus_poly (map ((*) a) q) (combine as qs)"
| "combine as qs = []"

lemma length_combine: "list_all (\<lambda>q. length q \<le> k) qs \<Longrightarrow> length (combine as qs) \<le> k"
  by (induction as qs rule: combine.induct) auto

lemma add_weighted_value:
  assumes "length alphas = length vs" and "list_all2 (\<lambda>v q. emb v = value_at q y) vs qs" and "canon acc"
  shows "\<exists>r. add_weighted alphas vs acc = Some r \<and> canon r \<and> emb r = emb acc + value_at (combine (map emb alphas) qs) y"
  using assms
proof (induction alphas arbitrary: vs qs acc)
  case (Cons a alphas)
  then obtain v vs' q qs' where vs: "vs = v # vs'" "qs = q # qs'" by (cases vs; cases qs) auto
  then have "\<exists>r. add_weighted alphas vs' (felt_add acc (felt_mul a v)) = Some r \<and> canon r
      \<and> emb r = emb (felt_add acc (felt_mul a v)) + value_at (combine (map emb alphas) qs') y"
    using Cons.prems by (intro Cons.IH) (simp_all add: felt_simps)
  then show ?case using Cons.prems vs by (auto simp: emb_simps felt_simps algebra_simps)
qed simp

lemma geometric_emb: "emb (geometric start ratio j) = emb start * emb ratio ^ j"
  by (induction j) (simp_all add: geometric_def emb_simps mult.commute mult.left_commute)

lemma geometric_canon: "canon start \<Longrightarrow> canon (geometric start ratio j)"
  by (cases j) (simp_all add: geometric_def felt_simps)

text \<open>The rows without repetition: each boundary finds the power of its row.\<close>

definition slots_ok :: "felt \<Rightarrow> boundary list \<Rightarrow> (int \<Rightarrow> nat option) \<times> felt list \<times> nat list \<Rightarrow> bool" where
  "slots_ok g bs = (\<lambda>(rowSlot, rows, slots).
     (\<forall>row s. rowSlot row = Some s \<longrightarrow> s < length rows \<and> rows ! s = felt_exp g (word_of_int row))
     \<and> list_all2 (\<lambda>bc s. s < length rows \<and> rows ! s = felt_exp g (word_of_int (bc_Row bc))) bs slots
     \<and> set rows \<subseteq> (\<lambda>bc. felt_exp g (word_of_int (bc_Row bc))) ` set bs)"

lemma slots_ok_add_row:
  assumes "slots_ok g bs st"
  shows "slots_ok g (bs @ [bc]) (add_row g bc st)"
proof -
  obtain rowSlot rows slots where st: "st = (rowSlot, rows, slots)" by (cases st)
  have ext: "list_all2 (\<lambda>bc s. s < length (rows @ xs) \<and> (rows @ xs) ! s = felt_exp g (word_of_int (bc_Row bc))) bs slots" for xs
    using assms by (auto simp: slots_ok_def st nth_append elim!: list_all2_mono)
  have len: "length bs = length slots" using list_all2_lengthD [OF ext] .
  show ?thesis
  proof (cases "rowSlot (bc_Row bc)")
    case None
    then show ?thesis using assms ext [of "[felt_exp g (word_of_int (bc_Row bc))]"] len
      by (auto simp: slots_ok_def add_row_def st nth_append Let_def list_all2_append intro: less_SucI)
  next
    case (Some s)
    then show ?thesis using assms ext [of "[]"] len by (auto simp: slots_ok_def add_row_def st list_all2_append)
  qed
qed

lemma row_slots_ok:
  assumes "row_slots g bs = (rows, slots)"
  shows "list_all2 (\<lambda>bc s. s < length rows \<and> rows ! s = felt_exp g (word_of_int (bc_Row bc))) bs slots"
    and "set rows \<subseteq> (\<lambda>bc. felt_exp g (word_of_int (bc_Row bc))) ` set bs"
proof -
  have "slots_ok g bs (fold (add_row g) bs (Map.empty, [], []))"
  proof (induction bs rule: rev_induct)
    case Nil
    show ?case by (simp add: slots_ok_def)
  next
    case (snoc bc bs)
    then show ?case using slots_ok_add_row by simp
  qed
  then show "list_all2 (\<lambda>bc s. s < length rows \<and> rows ! s = felt_exp g (word_of_int (bc_Row bc))) bs slots"
    and "set rows \<subseteq> (\<lambda>bc. felt_exp g (word_of_int (bc_Row bc))) ` set bs"
    using assms by (auto simp: row_slots_def slots_ok_def)
qed

lemma concat_rows_nth:
  assumes "\<And>j. j < N \<Longrightarrow> length (f j) = s" and "j < N" and "k < s"
  shows "concat (map f [0 ..< N]) ! (j * s + k) = f j ! k" and "j * s + k < length (concat (map f [0 ..< N]))"
proof -
  have len: "length (concat (map f [0 ..< j])) = j * s" if "j \<le> N" for j
    using that assms(1) by (induction j) simp_all
  have "j * s + k < Suc j * s" using assms(3) by simp
  also have "\<dots> \<le> N * s" using assms(2) by (intro mult_le_mono1) simp
  finally show "j * s + k < length (concat (map f [0 ..< N]))" using len [of N] by simp
  have "[0 ..< N] = [0 ..< j] @ [j ..< N]" using assms(2) upt_add_eq_append [of 0 j "N - j"] by simp
  then have "[0 ..< N] = [0 ..< j] @ j # [Suc j ..< N]" by (simp only: upt_conv_Cons [OF assms(2)])
  then show "concat (map f [0 ..< N]) ! (j * s + k) = f j ! k"
    using len [of j] assms by (simp add: nth_append)
qed

subsection \<open>The polynomials of a trace\<close>

lemma interpolate_values:
  assumes g: "root_of_unity (of_nat l) = Some g" and l: "l \<le> 32" and a: "length a = 2 ^ l" "list_all canon a"
  shows "\<exists>cs. interpolate a = Some cs \<and> cpoly (2 ^ l) cs \<and> codeword g l cs = a"
proof -
  obtain d where d: "ntt_core a True = Some d" "map emb d = dft (emb (used_root True g)) (map emb a)"
    using ntt_core_dft [OF a l g] .
  obtain cs where cs: "intt a = Some cs" "ntt cs = Some a" using intt_then_ntt [OF a l] by blast
  have len: "length cs = 2 ^ l" and can: "list_all canon cs"
    using cs(1) d(1) arg_cong [OF d(2), of length] a(1) by (auto simp: intt_def list_all_iff felt_simps split: if_splits)
  obtain b where b: "ntt cs = Some b" "list_all canon b" "map emb b = dft (emb g) (map emb cs)"
    using ntt_dft [OF len can l g] .
  have "a = codeword g l cs" using dft_values [OF len can l b(2,3)] b(1) cs(2) by (simp add: codeword_def)
  moreover have "interpolate a = Some cs" using cs(1) is_pow2_power [of l] a(1) by (simp add: interpolate_def)
  ultimately show ?thesis using len can by (auto simp: cpoly_def)
qed

text \<open>What a trace has to satisfy.\<close>

definition air_satisfied :: "air \<Rightarrow> felt list list \<Rightarrow> bool" where
  "air_satisfied A trace \<longleftrightarrow>
     int (length trace) = air_NumSteps A
     \<and> (\<forall>row \<in> set trace. int (length row) = air_NumColumns A \<and> list_all canon row)
     \<and> (\<forall>i. Suc i < length trace \<longrightarrow> (\<forall>r \<in> set (air_EvalTransition A (trace ! i) (trace ! Suc i)). r = 0))
     \<and> (\<forall>bc \<in> set (air_Boundaries A). 0 \<le> bc_Col bc \<and> bc_Col bc < air_NumColumns A
          \<and> 0 \<le> bc_Row bc \<and> bc_Row bc < air_NumSteps A \<and> trace ! nat (bc_Row bc) ! nat (bc_Col bc) = bc_Value bc)"

text \<open>The columns as polynomials, and the quotients of the constraints.\<close>

definition trace_polys :: "felt \<Rightarrow> nat \<Rightarrow> felt list list \<Rightarrow> felt list list \<Rightarrow> bool" where
  "trace_polys g l cols trace \<longleftrightarrow> list_all (cpoly (2 ^ l)) cols \<and> (\<forall>i < 2 ^ l. rows_at cols (felt_exp g (of_nat i)) = trace ! i)"

definition transition_exact :: "air \<Rightarrow> felt \<Rightarrow> nat \<Rightarrow> felt list list \<Rightarrow> nat \<Rightarrow> fp list \<Rightarrow> bool" where
  "transition_exact A g l cols k q \<longleftrightarrow> (\<forall>x. canon x \<longrightarrow>
     (let c = air_EvalTransition A (rows_at cols x) (rows_at cols (felt_mul g x)) ! k
      in canon c \<and> emb c * (emb x - emb g ^ (2 ^ l - 1)) = (emb x ^ 2 ^ l - 1) * value_at q (emb x)))"

definition boundary_exact :: "felt \<Rightarrow> felt list list \<Rightarrow> boundary \<Rightarrow> fp list \<Rightarrow> bool" where
  "boundary_exact g cols bc q \<longleftrightarrow> (\<forall>x. canon x \<longrightarrow>
     emb (eval_poly (cols ! nat (bc_Col bc)) x) - emb (bc_Value bc) = (emb x - emb g ^ nat (bc_Row bc)) * value_at q (emb x))"

locale algebraic_air =
  fixes A :: air and w l m :: nat
  assumes columns: "air_NumColumns A = int w" and some_column: "1 \<le> w"
    and steps: "air_NumSteps A = 2 ^ l" and enough_steps: "2 \<le> l"
    and degree: "1 \<le> air_MaxDegree A" and domain: "air_MaxDegree A * 2 ^ l \<le> 2 ^ 29"
    and transitions: "length cur = w \<Longrightarrow> length nxt = w \<Longrightarrow> length (air_EvalTransition A cur nxt) = m"
    and bounded: "k < m \<Longrightarrow> low_degree w (nat (air_MaxDegree A)) (\<lambda>cur nxt. air_EvalTransition A cur nxt ! k)"
begin

lemma small_steps: "l \<le> 29"
proof (rule ccontr)
  assume "\<not> l \<le> 29"
  then have "(2 :: int) ^ 30 \<le> 2 ^ l" by (intro power_increasing) simp_all
  also have "\<dots> \<le> air_MaxDegree A * 2 ^ l" using degree mult_right_mono [of 1 "air_MaxDegree A" "2 ^ l"] by simp
  finally show False using domain by simp
qed

lemma satisfied_length: "air_satisfied A trace \<Longrightarrow> length trace = 2 ^ l"
proof -
  assume "air_satisfied A trace"
  then have "int (length trace) = int (2 ^ l)" using steps by (simp add: air_satisfied_def)
  then show ?thesis by (simp only: of_nat_eq_iff)
qed

lemma satisfied_boundary:
  assumes "air_satisfied A trace" and "bc \<in> set (air_Boundaries A)"
  shows "0 \<le> bc_Col bc" and "nat (bc_Col bc) < w" and "nat (bc_Row bc) < 2 ^ l" and "0 \<le> bc_Row bc"
    and "trace ! nat (bc_Row bc) ! nat (bc_Col bc) = bc_Value bc"
proof -
  have b: "0 \<le> bc_Col bc \<and> bc_Col bc < int w \<and> 0 \<le> bc_Row bc \<and> bc_Row bc < 2 ^ l
      \<and> trace ! nat (bc_Row bc) ! nat (bc_Col bc) = bc_Value bc"
    using assms unfolding air_satisfied_def columns steps by blast
  then have "bc_Row bc < int (2 ^ l)" by simp
  then show "nat (bc_Row bc) < 2 ^ l" using b by (simp only: nat_less_iff)
  show "0 \<le> bc_Col bc" and "nat (bc_Col bc) < w" and "0 \<le> bc_Row bc"
    and "trace ! nat (bc_Row bc) ! nat (bc_Col bc) = bc_Value bc" using b by (simp_all add: nat_less_iff)
qed

lemma satisfied_value:
  assumes sat: "air_satisfied A trace" and bc: "bc \<in> set (air_Boundaries A)"
  shows "canon (bc_Value bc)"
proof -
  note b = satisfied_boundary [OF sat bc]
  have row: "trace ! nat (bc_Row bc) \<in> set trace" using b(3) satisfied_length [OF sat] by simp
  then have "list_all canon (trace ! nat (bc_Row bc))" "int (length (trace ! nat (bc_Row bc))) = int w"
    using sat columns by (auto simp: air_satisfied_def)
  then show ?thesis using b(2,5) by (auto simp: list_all_length)
qed

lemma transition_quotient_exists:
  assumes g: "root_of_unity (of_nat l) = Some g" and sat: "air_satisfied A trace"
    and cols: "trace_polys g l cols trace" "length cols = w" and k: "k < m"
  shows "\<exists>q. length q \<le> nat (air_MaxDegree A) * (2 ^ l - 1) + 2 - 2 ^ l \<and> transition_exact A g l cols k q"
proof -
  define n :: nat where "n = 2 ^ l"
  define e where "e = nat (air_MaxDegree A)"
  define nxt where "nxt = map (\<lambda>cs. poly_compose_scale cs g) cols"
  have n: "0 < n" "n \<le> 2 ^ l" by (simp_all add: n_def)
  have l32: "l \<le> 32" using small_steps by simp
  have gc: "canon g" using root_canon [OF g] by blast
  have sz: "Suc (n - 1) = 2 ^ l" using n by (simp add: n_def)
  have c0: "list_all (cpoly (Suc (n - 1))) cols" using cols(1) unfolding sz trace_polys_def by blast
  have c1: "list_all (cpoly (Suc (n - 1))) nxt"
    using c0 poly_compose_scale(2) by (auto simp: nxt_def list_all_iff cpoly_def)
  have rows: "rows_at nxt x = rows_at cols (felt_mul g x)" if x: "canon x" for x
  proof -
    have "eval_poly (poly_compose_scale cs g) x = eval_poly cs (felt_mul g x)" if "cs \<in> set cols" for cs
    proof -
      have cs: "cpoly (Suc (n - 1)) cs" "cpoly (length cs) (poly_compose_scale cs g)"
        using c0 that poly_compose_scale(2) by (auto simp: list_all_iff)
      show ?thesis using eval_cpoly [OF cs(1), of "felt_mul g x"]
        by (intro eval_eqI [OF cs(2) x]) (simp_all add: felt_simps emb_simps poly_compose_scale(1))
    qed
    then show ?thesis by (simp add: rows_at_def nxt_def)
  qed
  have "low_degree w e (\<lambda>cur nxt. air_EvalTransition A cur nxt ! k)" using bounded [OF k] by (simp add: e_def)
  from low_degreeE [OF this cols(2) _ c0 c1] obtain zs where zs: "length zs \<le> Suc (e * (n - 1))"
      "\<And>x. canon x \<Longrightarrow> canon (air_EvalTransition A (rows_at cols x) (rows_at cols (felt_mul g x)) ! k)
        \<and> emb (air_EvalTransition A (rows_at cols x) (rows_at cols (felt_mul g x)) ! k) = value_at zs (emb x)"
    using rows cols(2) by (auto simp: nxt_def)
  define a where "a = emb g ^ (n - 1)"
  define cs where "cs = plus_poly (0 # zs) (map ((*) (- a)) zs)"
  have vcs: "value_at cs x = value_at zs x * (x - a)" for x by (simp add: cs_def algebra_simps)
  have zero: "value_at cs (emb g ^ i) = 0" if i: "i < 2 ^ l" for i
  proof (cases "i = n - 1")
    case True
    then show ?thesis by (simp add: vcs a_def)
  next
    case False
    then have Si: "Suc i < 2 ^ l" using i by (simp add: n_def)
    have step: "emb (felt_exp g (of_nat i)) = emb g ^ i" using i l32 by (simp add: emb_exp index_small)
    have "felt_mul g (felt_exp g (of_nat i)) = felt_exp g (of_nat (Suc i))"
      using index_small [OF Si l32] step by (intro emb_inject) (simp_all add: felt_simps emb_simps del: of_nat_Suc)
    then have "air_EvalTransition A (rows_at cols (felt_exp g (of_nat i))) (rows_at cols (felt_mul g (felt_exp g (of_nat i))))
        = air_EvalTransition A (trace ! i) (trace ! Suc i)"
      using cols(1) i Si by (simp only: trace_polys_def)
    moreover have "\<forall>r \<in> set (air_EvalTransition A (trace ! i) (trace ! Suc i)). r = 0"
      using sat Si satisfied_length [OF sat] by (simp add: air_satisfied_def)
    moreover have "length (air_EvalTransition A (rows_at cols (felt_exp g (of_nat i))) (rows_at cols (felt_mul g (felt_exp g (of_nat i))))) = m"
      using cols(2) by (intro transitions) simp_all
    ultimately have "air_EvalTransition A (rows_at cols (felt_exp g (of_nat i))) (rows_at cols (felt_mul g (felt_exp g (of_nat i)))) ! k = 0"
      using k by (metis nth_mem)
    then have "value_at zs (emb g ^ i) = 0" using zs(2) [OF canon_felt_exp, of g "of_nat i"] by (simp add: step emb_consts)
    then show ?thesis by (simp add: vcs)
  qed
  from vanishing_divides [OF g l32 this] obtain q where q: "length q \<le> length cs - 2 ^ l"
      "\<And>x. value_at cs x = (x ^ 2 ^ l - 1) * value_at q x" by blast
  have "length cs \<le> Suc (Suc (e * (n - 1)))" using zs(1) by (simp add: cs_def)
  then have "length q \<le> e * (n - 1) + 2 - 2 ^ l" using q(1) by simp
  moreover have "transition_exact A g l cols k q"
    using zs(2) q(2) by (simp add: transition_exact_def Let_def n_def [symmetric] vcs a_def mult.commute)
  ultimately show ?thesis by (auto simp: e_def n_def)
qed

lemma boundary_quotient_exists:
  assumes g: "root_of_unity (of_nat l) = Some g" and sat: "air_satisfied A trace"
    and cols: "trace_polys g l cols trace" "length cols = w" and bc: "bc \<in> set (air_Boundaries A)"
  shows "\<exists>q. length q \<le> 2 ^ l - 1 \<and> boundary_exact g cols bc q"
proof -
  have l32: "l \<le> 32" using small_steps by simp
  note r = satisfied_boundary(1,2,3) [OF sat bc] and val = satisfied_boundary(5) [OF sat bc]
  define cs where "cs = cols ! nat (bc_Col bc)"
  define y where "y = felt_exp g (of_nat (nat (bc_Row bc)))"
  have y: "canon y" "emb y = emb g ^ nat (bc_Row bc)"
    using index_small [OF r(3) l32] by (simp_all add: y_def felt_simps emb_simps)
  have cs: "cpoly (2 ^ l) cs" using cols r(2) by (simp add: cs_def trace_polys_def list_all_length)
  have "rows_at cols y = trace ! nat (bc_Row bc)" using cols(1) r(3) by (simp add: trace_polys_def y_def)
  then have "rows_at cols y ! nat (bc_Col bc) = bc_Value bc" by (simp only: val)
  then have "eval_poly cs y = bc_Value bc" using r(2) cols(2) by (simp add: rows_at_def cs_def)
  then have v: "emb (bc_Value bc) = pv cs (emb y)" using eval_cpoly [OF cs y(1)] by simp
  have "boundary_exact g cols bc (divide_root (emb y) (map emb cs))"
    unfolding boundary_exact_def
  proof (intro allI impI)
    fix x assume "canon x"
    then have "emb (eval_poly cs x) = pv cs (emb x)" using eval_cpoly [OF cs] by blast
    then show "emb (eval_poly (cols ! nat (bc_Col bc)) x) - emb (bc_Value bc)
        = (emb x - emb g ^ nat (bc_Row bc)) * value_at (divide_root (emb y) (map emb cs)) (emb x)"
      using divide_root_value [of "map emb cs" "emb x" "emb y"] by (simp add: v y(2) flip: cs_def)
  qed
  moreover have "length (divide_root (emb y) (map emb cs)) \<le> 2 ^ l - 1" using cs by (simp add: cpoly_def diff_le_mono)
  ultimately show ?thesis by blast
qed

text \<open>All quotients of a trace that satisfies the constraints.\<close>

definition exact :: "felt \<Rightarrow> felt list list \<Rightarrow> fp list list \<Rightarrow> fp list list \<Rightarrow> bool" where
  "exact g cols qs qbs \<longleftrightarrow> length qs = m \<and> (\<forall>k < m. transition_exact A g l cols k (qs ! k))
     \<and> list_all2 (boundary_exact g cols) (air_Boundaries A) qbs
     \<and> list_all (\<lambda>q. length q \<le> nat (air_MaxDegree A) * 2 ^ l) (qs @ qbs)"

lemma exact_exists:
  assumes g: "root_of_unity (of_nat l) = Some g" and sat: "air_satisfied A trace"
    and cols: "trace_polys g l cols trace" "length cols = w"
  shows "\<exists>qs qbs. exact g cols qs qbs"
proof -
  define D where "D = nat (air_MaxDegree A) * 2 ^ l"
  have e: "1 \<le> nat (air_MaxDegree A)" using degree by simp
  have n: "(1 :: nat) \<le> 2 ^ l" by simp
  have "nat (air_MaxDegree A) * (2 ^ l - 1) + 2 - 2 ^ l \<le> D"
  proof -
    have "nat (air_MaxDegree A) * (2 ^ l - 1) \<le> D" by (simp add: D_def)
    moreover have "(2 :: nat) \<le> 2 ^ l" using enough_steps self_le_power [of "2 :: nat" l] by simp
    ultimately show ?thesis by linarith
  qed
  then have "\<forall>k < m. \<exists>q. transition_exact A g l cols k q \<and> length q \<le> D"
    using transition_quotient_exists [OF g sat cols] order_trans by blast
  then obtain Q where Q: "\<And>k. k < m \<Longrightarrow> transition_exact A g l cols k (Q k) \<and> length (Q k) \<le> D" by metis
  have "1 * 2 ^ l \<le> D" unfolding D_def by (rule mult_le_mono1 [OF e])
  then have "2 ^ l - 1 \<le> D" by linarith
  then have "\<forall>bc \<in> set (air_Boundaries A). \<exists>q. boundary_exact g cols bc q \<and> length q \<le> D"
    using boundary_quotient_exists [OF g sat cols] order_trans by blast
  then obtain B where B: "\<And>bc. bc \<in> set (air_Boundaries A) \<Longrightarrow> boundary_exact g cols bc (B bc) \<and> length (B bc) \<le> D" by metis
  have "exact g cols (map Q [0 ..< m]) (map B (air_Boundaries A))"
    using Q B unfolding D_def by (auto simp: exact_def list_all2_conv_all_nth list_all_iff)
  then show ?thesis by blast
qed

lemma rows_canon: "list_all canon (rows_at cols x)" if "list_all (cpoly k) cols" "canon x"
  using that eval_cpoly by (auto simp: rows_at_def list_all_iff)

text \<open>The values of the quotients at a point off the trace domain, computed with inverses.\<close>

lemma transition_values:
  assumes ex: "exact g cols qs qbs" and cols: "length cols = w" and x: "canon x"
    and relax: "canon relax" "emb relax = emb x - emb g ^ (2 ^ l - 1)" and zd: "emb zdInv * (emb x ^ 2 ^ l - 1) = 1"
  shows "list_all2 (\<lambda>v q. emb v = value_at q (emb x))
    (map (transition_quotient relax zdInv) (air_EvalTransition A (rows_at cols x) (rows_at cols (felt_mul g x)))) qs"
proof -
  define cons where "cons = air_EvalTransition A (rows_at cols x) (rows_at cols (felt_mul g x))"
  have len: "length cons = m" "length qs = m" using cols ex transitions by (simp_all add: cons_def exact_def)
  have "emb (transition_quotient relax zdInv (cons ! k)) = value_at (qs ! k) (emb x)" if k: "k < m" for k
  proof -
    have "transition_exact A g l cols k (qs ! k)" using ex k by (simp add: exact_def)
    then have c: "emb (cons ! k) * (emb x - emb g ^ (2 ^ l - 1)) = (emb x ^ 2 ^ l - 1) * value_at (qs ! k) (emb x)"
      using x by (simp add: transition_exact_def Let_def cons_def)
    have "emb (transition_quotient relax zdInv (cons ! k)) = emb zdInv * (emb (cons ! k) * (emb x - emb g ^ (2 ^ l - 1)))"
      by (simp add: transition_quotient_def emb_simps relax(2) ac_simps)
    also have "\<dots> = (emb zdInv * (emb x ^ 2 ^ l - 1)) * value_at (qs ! k) (emb x)" by (simp only: c ac_simps)
    finally show ?thesis by (simp only: zd mult_1)
  qed
  then show ?thesis using len by (simp add: list_all2_conv_all_nth flip: cons_def)
qed

lemma boundary_value:
  assumes ex: "boundary_exact g cols bc q" and x: "canon x" and v: "canon v" "v = eval_poly (cols ! nat (bc_Col bc)) x"
    and bv: "canon (bc_Value bc)" and d: "emb dInv * (emb x - emb g ^ nat (bc_Row bc)) = 1"
  shows "emb (boundary_quotient v (bc_Value bc) dInv) = value_at q (emb x)"
proof -
  have "emb v - emb (bc_Value bc) = (emb x - emb g ^ nat (bc_Row bc)) * value_at q (emb x)"
    using ex x by (simp add: boundary_exact_def v(2))
  then have "emb (boundary_quotient v (bc_Value bc) dInv) = (emb dInv * (emb x - emb g ^ nat (bc_Row bc))) * value_at q (emb x)"
    using v(1) bv by (simp add: boundary_quotient_def emb_simps ac_simps)
  then show ?thesis by (simp only: d mult_1)
qed

end

end
