(* ===== verification/AirComp.thy ===== *)
theory AirComp
  imports AirQuotients CryptoProps
begin

text \<open>
  The two computations of the composition polynomial agree with it: the loop over the coset with its
  shared denominators and its batch inversion, and the check of the verifier at one point.
\<close>

lemma go_times_small: "0 \<le> x \<Longrightarrow> 0 \<le> y \<Longrightarrow> x * y < 2 ^ 63 \<Longrightarrow> go_times x y = x * y"
proof -
  assume a: "0 \<le> x" "0 \<le> y" "x * y < 2 ^ 63"
  then have "0 \<le> x * y" by simp
  moreover have "(- (2 ^ 63) :: int) \<le> 0" by simp
  ultimately have "- (2 ^ 63) \<le> x * y" by linarith
  then have "signed_take_bit 63 (x * y) = x * y" using a(3) by (intro signed_take_bit_int_eq_self) simp_all
  then show ?thesis by (simp only: go_times_def sint_sbintrunc') simp
qed

lemma log2_power: "k \<le> 32 \<Longrightarrow> log2_int (2 ^ k) = of_nat k"
  by (simp add: log2_int_def nat_power_eq)

lemma combined_exists:
  assumes "list_all (\<lambda>q. length q \<le> D) (qs @ qbs)"
  shows "\<exists>H. cpoly D H \<and> (\<forall>y. pv H y = value_at (combine as qs) y + value_at (combine bs qbs) y)"
proof -
  define zs where "zs = plus_poly (combine as qs) (combine bs qbs)"
  obtain H where H: "cpoly (length zs) H" "map emb H = zs" using cpoly_lift .
  have "length zs \<le> D" using assms length_combine [of D qs as] length_combine [of D qbs bs] by (simp add: zs_def)
  then show ?thesis using cpoly_mono [OF H(1)] H(2) by (intro exI [of _ H]) (simp add: zs_def)
qed

lemma root_steps:
  assumes "root_of_unity (of_nat L) = Some w" and "root_of_unity (of_nat l) = Some g" and "l \<le> L" and "L \<le> 32"
  shows "emb g = emb w ^ 2 ^ (L - l)"
  using assms
proof (induction "L - l" arbitrary: L w)
  case 0
  then have "L = l" by simp
  with 0 show ?case by simp
next
  case (Suc k)
  then obtain K where K: "L = Suc K" "l \<le> K" "k = K - l" by (cases L) auto
  have "root_of_unity (of_nat K) = Some (felt_mul w w)" using Suc.prems K by (intro root_square) simp_all
  then have "emb g = emb (felt_mul w w) ^ 2 ^ (K - l)" using Suc K by (intro Suc.hyps(1)) simp_all
  then show ?case using K by (simp add: emb_simps power2_eq_square [symmetric] power_mult [symmetric] Suc_diff_le)
qed

text \<open>The generator is of no power-of-two order up to \<open>2 ^ 32\<close>: its coset avoids every trace domain.\<close>

lemma generator_off_domain:
  assumes "L \<le> 32"
  shows "emb generator ^ 2 ^ L \<noteq> 1"
proof
  assume "emb generator ^ 2 ^ L = 1"
  then have "(of_int (7 ^ 2 ^ L) :: fp) = of_int 1" by (simp add: emb_def generator_def)
  then have "(7 :: int) ^ 2 ^ L mod p_int = 1 mod p_int" by (rule of_int_fp_inject)
  then have "(7 :: int) ^ 2 ^ L mod p_int = 1" by (simp add: p_int_def)
  then have "units \<le> 2 ^ L" by (intro seven_order) simp_all
  moreover have "(2 :: nat) ^ L \<le> 2 ^ 32" using assms by (intro power_increasing) simp_all
  ultimately show False by (simp add: units_def)
qed

lemma canon_generator: "canon generator"
  by (simp add: canon_def generator_def p_int_def)

lemma row_power:
  assumes "0 \<le> r" and "nat r < 2 ^ l" and "l \<le> 32"
  shows "emb (felt_exp g (word_of_int r)) = emb g ^ nat r"
proof -
  have "(word_of_int r :: u64) = of_nat (nat r)" using assms(1) by simp
  then show ?thesis using index_small [OF assms(2,3)] by (simp only: emb_exp)
qed

lemma unat_small: "k < 2 ^ 64 \<Longrightarrow> unat (of_nat k :: u64) = k"
  by (simp add: unat_of_nat)

context algebraic_air
begin

lemma domain_size:
  shows "\<exists>d. mc_big_n (air_MaxDegree A) (air_NumSteps A) = 2 ^ (d + 3) \<and> nat (air_MaxDegree A) * 2 ^ l \<le> 2 ^ d \<and> d \<le> 29 \<and> l \<le> d"
proof -
  define x where "x = nat (air_MaxDegree A) * 2 ^ l"
  have x: "int x = air_MaxDegree A * air_NumSteps A" using degree by (simp add: x_def steps)
  have x29: "x \<le> 2 ^ 29" using domain x steps by (simp flip: of_nat_le_iff [where 'a = int])
  have "1 * 2 ^ l \<le> x" unfolding x_def using degree by (intro mult_le_mono1) simp
  moreover have "(2 :: nat) ^ 2 \<le> 2 ^ l" using enough_steps by (intro power_increasing) simp_all
  ultimately have big: "2 ^ l \<le> x" "1 < x" by simp_all
  define d where "d = bits_len (x - 1)"
  have np: "next_pow2 x = 2 ^ d" using big(2) by (simp add: next_pow2_def d_def)
  have "x \<le> 2 ^ d" using next_pow2_ge [of x] by (simp add: np)
  moreover have "d \<le> 29" unfolding d_def using x29 big(2) by (intro bits_len_le) simp
  moreover have "l \<le> d"
  proof (rule ccontr)
    assume "\<not> l \<le> d"
    then have "(2 :: nat) ^ d < 2 ^ l" by (intro power_strict_increasing) simp_all
    with \<open>x \<le> 2 ^ d\<close> big(1) show False by simp
  qed
  moreover have "mc_big_n (air_MaxDegree A) (air_NumSteps A) = 2 ^ (d + 3)"
  proof -
    have "air_MaxDegree A * air_NumSteps A < 2 ^ 63" using x29 by (simp flip: x)
    then have "go_times (air_MaxDegree A) (air_NumSteps A) = int x" using degree steps x by (subst go_times_small) simp_all
    then have "mc_deg_bound (air_MaxDegree A) (air_NumSteps A) = 2 ^ d" by (simp add: mc_deg_bound_def np)
    moreover have "(2 :: int) ^ d \<le> 2 ^ 29" using \<open>d \<le> 29\<close> by (intro power_increasing) simp_all
    ultimately show ?thesis by (simp add: mc_big_n_def mcBlowup_def go_times_small power_add)
  qed
  ultimately show ?thesis unfolding x_def by blast
qed

text \<open>Off the trace domain no denominator of the composition is zero.\<close>

lemma off_rows:
  assumes g: "root_of_unity (of_nat l) = Some g" and x: "emb x ^ 2 ^ l \<noteq> 1"
  shows "emb x - emb g ^ i \<noteq> 0"
proof
  have l32: "l \<le> 32" using small_steps by simp
  assume "emb x - emb g ^ i = 0"
  then have "emb x ^ 2 ^ l = (emb g ^ 2 ^ l) ^ i" by (simp add: power_mult [symmetric] mult.commute)
  then show False using x root_power_order [OF g l32] by simp
qed

lemma inverse_ok: "canon d \<Longrightarrow> emb d \<noteq> 0 \<Longrightarrow> emb (felt_inv d) * emb d = 1"
  using emb_inv [of d] by (simp add: emb_eq_0_iff mult.commute)

subsection \<open>The check at one point\<close>

lemma bound_at_z:
  assumes g: "root_of_unity (of_nat l) = Some g" and off: "emb z ^ 2 ^ l \<noteq> 1" and z: "canon z"
    and cz: "colZ = rows_at cols z" and cols: "list_all (cpoly k) cols" "length cols = w"
    and ok: "\<And>bc. bc \<in> set bcs \<Longrightarrow> 0 \<le> bc_Col bc \<and> nat (bc_Col bc) < w \<and> 0 \<le> bc_Row bc \<and> nat (bc_Row bc) < 2 ^ l \<and> canon (bc_Value bc)"
    and qs: "list_all2 (boundary_exact g cols) bcs qbs" and len: "length alphas = length bcs" and acc: "canon acc"
  shows "\<exists>r. mc_bound_at_z z g colZ bcs alphas acc = Some (Some r) \<and> canon r
    \<and> emb r = emb acc + value_at (combine (map emb alphas) qbs) (emb z)"
  using ok qs len acc
proof (induction bcs arbitrary: alphas qbs acc)
  case (Cons bc bcs)
  then obtain a as q qbs' where e: "alphas = a # as" "qbs = q # qbs'" by (cases alphas; cases qbs) auto
  have b: "0 \<le> bc_Col bc" "nat (bc_Col bc) < w" "0 \<le> bc_Row bc" "nat (bc_Row bc) < 2 ^ l" "canon (bc_Value bc)"
    using Cons.prems(1) [of bc] by auto
  define denom where "denom = felt_sub z (felt_exp g (word_of_int (bc_Row bc)))"
  have d: "canon denom" "emb denom = emb z - emb g ^ nat (bc_Row bc)"
    using row_power [OF b(3,4)] small_steps z by (simp_all add: denom_def felt_simps emb_sub)
  then have d0: "emb denom \<noteq> 0" using off_rows [OF g off] by simp
  then have "denom \<noteq> 0" by (auto simp: emb_simps)
  define v where "v = eval_poly (cols ! nat (bc_Col bc)) z"
  have v: "canon v" using cols b(2) z eval_cpoly by (auto simp: v_def list_all_length)
  have idx: "at_index colZ (bc_Col bc) = Some v" using b cols(2) by (simp add: at_index_def cz v_def rows_at_def nat_less_iff)
  have val: "emb (boundary_quotient v (bc_Value bc) (felt_inv denom)) = value_at q (emb z)"
    using Cons.prems(2) inverse_ok [OF d(1) d0] e by (intro boundary_value [OF _ z v v_def b(5)]) (simp_all add: d(2))
  define acc' where "acc' = felt_add acc (felt_mul a (boundary_quotient v (bc_Value bc) (felt_inv denom)))"
  have acc': "canon acc'" "emb acc' = emb acc + emb a * value_at q (emb z)"
    using Cons.prems(4) by (simp_all add: acc'_def felt_simps emb_simps val)
  have "\<exists>r. mc_bound_at_z z g colZ bcs as acc' = Some (Some r) \<and> canon r
      \<and> emb r = emb acc' + value_at (combine (map emb as) qbs') (emb z)"
    using Cons.prems acc'(1) e by (intro Cons.IH) simp_all
  moreover have "mc_bound_at_z z g colZ (bc # bcs) alphas acc = mc_bound_at_z z g colZ bcs as acc'"
    using \<open>denom \<noteq> 0\<close> by (simp add: e denom_def [symmetric] idx acc'_def Let_def)
  ultimately show ?case by (auto simp: e acc'(2) algebra_simps)
qed simp

lemma check_at_z:
  assumes g: "root_of_unity (of_nat l) = Some g" and off: "emb z ^ 2 ^ l \<noteq> 1" and z: "canon z"
    and sat: "air_satisfied A trace" and cols: "trace_polys g l cols trace" "length cols = w"
    and ex: "exact g cols qs qbs" and len: "length as = m" "length bs = length (air_Boundaries A)"
    and H: "cpoly D H" "\<And>y. pv H y = value_at (combine (map emb as) qs) y + value_at (combine (map emb bs) qbs) y"
  shows "mc_check_constraints_at_z A z g (2 ^ l) as bs (rows_at cols z) (rows_at cols (felt_mul g z)) (eval_poly H z) = Some True"
proof -
  have l32: "l \<le> 32" using small_steps by simp
  have n64: "unat (of_nat (2 ^ l) :: u64) = 2 ^ l" "unat (of_nat (2 ^ l - 1) :: u64) = 2 ^ l - 1"
  proof -
    have "(2 :: nat) ^ l < 2 ^ 64" using l32 by (intro power_strict_increasing) simp_all
    then show "unat (of_nat (2 ^ l) :: u64) = 2 ^ l" "unat (of_nat (2 ^ l - 1) :: u64) = 2 ^ l - 1"
      by (intro unat_small; linarith)+
  qed
  have c: "list_all (cpoly (2 ^ l)) cols" using cols(1) by (simp add: trace_polys_def)
  define den where "den = felt_sub (felt_exp z (of_nat (2 ^ l))) 1"
  have den: "canon den" "emb den = emb z ^ 2 ^ l - 1" by (simp_all only: den_def felt_simps emb_sub emb_exp n64 emb_consts canon_felt_exp)
  have den0: "emb den \<noteq> 0" using off by (simp add: den(2))
  then have "den \<noteq> 0" by (auto simp: emb_simps)
  define relax where "relax = felt_sub z (felt_exp g (of_nat (2 ^ l - 1)))"
  have relax: "canon relax" "emb relax = emb z - emb g ^ (2 ^ l - 1)"
    using z by (simp_all only: relax_def felt_simps emb_sub emb_exp n64 canon_felt_exp)
  define cons where "cons = air_EvalTransition A (rows_at cols z) (rows_at cols (felt_mul g z))"
  have lenc: "length cons = m" using cols(2) transitions by (simp add: cons_def)
  have "list_all2 (\<lambda>v q. emb v = value_at q (emb z)) (map (transition_quotient relax (felt_inv den)) cons) qs"
    unfolding cons_def using inverse_ok [OF den(1) den0] by (intro transition_values [OF ex cols(2) z relax]) (simp add: den(2))
  from add_weighted_value [OF _ this canon_consts(1), of as] obtain r where
      r: "add_weighted as (map (transition_quotient relax (felt_inv den)) cons) 0 = Some r" "canon r"
      "emb r = value_at (combine (map emb as) qs) (emb z)"
    using len(1) lenc by (auto simp: emb_consts)
  have bok: "0 \<le> bc_Col bc \<and> nat (bc_Col bc) < w \<and> 0 \<le> bc_Row bc \<and> nat (bc_Row bc) < 2 ^ l \<and> canon (bc_Value bc)"
    if "bc \<in> set (air_Boundaries A)" for bc
    using satisfied_boundary [OF sat that] satisfied_value [OF sat that] by simp
  have "list_all2 (boundary_exact g cols) (air_Boundaries A) qbs" using ex by (simp add: exact_def)
  from bound_at_z [OF g off z refl c cols(2) bok this len(2) r(2)] obtain s where
    s: "mc_bound_at_z z g (rows_at cols z) (air_Boundaries A) bs r = Some (Some s)" "canon s"
      "emb s = emb r + value_at (combine (map emb bs) qbs) (emb z)" by blast
  have "s = eval_poly H z" using eval_cpoly [OF H(1) z] s r(3) by (intro emb_inject) (simp_all add: H(2))
  then show ?thesis
    unfolding mc_check_constraints_at_z_def Let_def den_def [symmetric] relax_def [symmetric] cons_def [symmetric]
    using r(1) s(1) len lenc \<open>den \<noteq> 0\<close> by simp
qed

subsection \<open>The loop over the coset\<close>

lemma coset_values:
  assumes "root_of_unity (of_nat L) = Some omega" and "L \<le> 32" and "cpoly k cs" and "k \<le> 2 ^ L" and "canon eta"
  shows "codeword omega L (poly_compose_scale cs eta) = map (\<lambda>j. eval_poly cs (geometric eta omega j)) [0 ..< 2 ^ L]"
    and "eval_on_coset cs (2 ^ L) eta = Some (map (\<lambda>j. eval_poly cs (geometric eta omega j)) [0 ..< 2 ^ L])"
proof -
  define sc where "sc = poly_compose_scale cs eta"
  have sc: "cpoly (2 ^ L) sc" unfolding sc_def
    by (rule cpoly_mono [OF poly_compose_scale(2)]) (use assms(3,4) in \<open>simp add: cpoly_def\<close>)
  have "codeword omega L sc ! j = eval_poly cs (geometric eta omega j)" if j: "j < 2 ^ L" for j
  proof -
    have x: "canon (geometric eta omega j)" by (rule geometric_canon [OF assms(5)])
    have "emb (codeword omega L sc ! j) = pv sc (emb omega ^ j)" "canon (codeword omega L sc ! j)"
      using codeword_nth [OF j assms(2) cpoly_canon [OF sc]] by simp_all
    then show ?thesis using eval_cpoly [OF assms(3) x]
      by (intro emb_inject) (simp_all add: sc_def poly_compose_scale(1) geometric_emb)
  qed
  then show 1: "codeword omega L (poly_compose_scale cs eta) = map (\<lambda>j. eval_poly cs (geometric eta omega j)) [0 ..< 2 ^ L]"
    by (intro nth_equalityI) (simp_all add: sc_def)
  show "eval_on_coset cs (2 ^ L) eta = Some (map (\<lambda>j. eval_poly cs (geometric eta omega j)) [0 ..< 2 ^ L])"
    using eval_on_lde_codeword [OF assms(1,2) sc] by (simp only: eval_on_coset_def sc_def 1)
qed

text \<open>Every denominator is inverted, and found where the loop looks for it.\<close>

lemma denominators_inverted:
  assumes g: "root_of_unity (of_nat l) = Some g" and w: "root_of_unity (of_nat L) = Some omega" and L: "l \<le> L" "L \<le> 32"
    and rows: "set rows \<subseteq> {felt_exp g e | e. True}" and j: "j < 2 ^ L"
  defines "x \<equiv> geometric generator omega j" and "dInv \<equiv> batch_inv (denominators generator omega (2 ^ l) (2 ^ L) rows)"
  shows "emb x ^ 2 ^ l \<noteq> 1"
    and "emb (dInv ! (j * (1 + length rows))) * (emb x ^ 2 ^ l - 1) = 1"
    and "s < length rows \<Longrightarrow> emb (dInv ! (j * (1 + length rows) + 1 + s)) * (emb x - emb (rows ! s)) = 1"
proof -
  define row where "row j = felt_sub (geometric (felt_exp generator (of_nat (2 ^ l))) (felt_exp omega (of_nat (2 ^ l))) j) 1
       # map (felt_sub (geometric generator omega j)) rows" for j
  define dens where "dens = concat (map row [0 ..< 2 ^ L])"
  have l32: "l \<le> 32" using L by simp
  have "(2 :: nat) ^ l < 2 ^ 64" using l32 by (intro power_strict_increasing) simp_all
  then have n64: "unat (of_nat (2 ^ l) :: u64) = 2 ^ l" by (rule unat_small)
  have xe: "emb (geometric generator omega i) = emb generator * emb omega ^ i" for i by (rule geometric_emb)
  have xc: "canon (geometric generator omega i)" for i by (rule geometric_canon [OF canon_generator])
  have off: "emb (geometric generator omega i) ^ 2 ^ l \<noteq> 1" for i
  proof
    assume "emb (geometric generator omega i) ^ 2 ^ l = 1"
    then have "(emb (geometric generator omega i) ^ 2 ^ l) ^ 2 ^ (L - l) = 1" by simp
    then have "emb (geometric generator omega i) ^ 2 ^ L = 1"
      using L(1) by (simp only: power_mult [symmetric] power_add [symmetric]) simp
    moreover have "(emb omega ^ i) ^ 2 ^ L = (emb omega ^ 2 ^ L) ^ i" unfolding power_mult [symmetric] mult.commute [of i] ..
    ultimately have "emb generator ^ 2 ^ L = 1" by (simp add: xe power_mult_distrib root_power_order [OF w L(2)])
    then show False using generator_off_domain [OF L(2)] by blast
  qed
  show "emb x ^ 2 ^ l \<noteq> 1" using off [of j] by (simp add: x_def)
  have zd: "canon (row i ! 0)" "emb (row i ! 0) = emb (geometric generator omega i) ^ 2 ^ l - 1" for i
  proof -
    let ?xn = "geometric (felt_exp generator (of_nat (2 ^ l))) (felt_exp omega (of_nat (2 ^ l))) i"
    have c: "canon ?xn" by (rule geometric_canon [OF canon_felt_exp])
    have "emb ?xn = emb generator ^ 2 ^ l * (emb omega ^ 2 ^ l) ^ i" by (simp only: geometric_emb emb_exp n64)
    also have "(emb omega ^ 2 ^ l) ^ i = (emb omega ^ i) ^ 2 ^ l" unfolding power_mult [symmetric] mult.commute [of i] ..
    finally have "emb ?xn = emb (geometric generator omega i) ^ 2 ^ l" by (simp only: xe power_mult_distrib)
    with c show "canon (row i ! 0)" "emb (row i ! 0) = emb (geometric generator omega i) ^ 2 ^ l - 1"
      by (simp_all add: row_def felt_simps emb_sub emb_consts)
  qed
  have rw: "canon (row i ! Suc s)" "emb (row i ! Suc s) = emb (geometric generator omega i) - emb (rows ! s)"
      "emb (row i ! Suc s) \<noteq> 0" if s: "s < length rows" for i s
  proof -
    obtain e where e: "rows ! s = felt_exp g e" using rows s nth_mem by blast
    then show 1: "canon (row i ! Suc s)" "emb (row i ! Suc s) = emb (geometric generator omega i) - emb (rows ! s)"
      using s xc by (simp_all add: row_def felt_simps emb_sub)
    show "emb (row i ! Suc s) \<noteq> 0" unfolding 1(2) e emb_exp by (rule off_rows [OF g off])
  qed
  have good: "canon d \<and> emb d \<noteq> 0" if "d \<in> set (row i)" for d i
  proof -
    obtain t where t: "t < length (row i)" "d = row i ! t" using \<open>d \<in> set (row i)\<close> by (auto simp: in_set_conv_nth)
    then show ?thesis using zd [of i] off [of i] rw [of "t - 1" i] by (cases t) (auto simp: row_def)
  qed
  have "list_all (\<lambda>a. canon a \<and> a \<noteq> 0) dens" using good by (fastforce simp: dens_def list_all_iff emb_consts)
  then have inv: "batch_inv dens = map felt_inv dens" by (rule batch_inversion_pointwise)
  have "denominators generator omega (2 ^ l) (2 ^ L) rows = dens" unfolding denominators_def dens_def row_def [abs_def] ..
  then have dI: "dInv = map felt_inv dens" by (simp only: dInv_def inv)
  have len: "length (row i) = 1 + length rows" for i by (simp add: row_def)
  have at: "emb (dInv ! (j * (1 + length rows) + t)) * emb (row j ! t) = 1" if t: "t < 1 + length rows" for t
  proof -
    have "dens ! (j * (1 + length rows) + t) = row j ! t" "j * (1 + length rows) + t < length dens"
      using concat_rows_nth [OF len j t] by (simp_all add: dens_def)
    then have "dInv ! (j * (1 + length rows) + t) = felt_inv (row j ! t)" by (simp add: dI)
    moreover have "row j ! t \<in> set (row j)" using t len by simp
    ultimately show ?thesis using good inverse_ok by simp
  qed
  show "emb (dInv ! (j * (1 + length rows))) * (emb x ^ 2 ^ l - 1) = 1" using at [of 0] by (simp add: zd x_def)
  show "emb (dInv ! (j * (1 + length rows) + 1 + s)) * (emb x - emb (rows ! s)) = 1" if "s < length rows"
    using at [of "Suc s"] that rw [OF that, of j] by (simp add: x_def)
qed

lemma next_row_point:
  assumes g: "root_of_unity (of_nat l) = Some g" and w: "root_of_unity (of_nat L) = Some omega" and L: "l \<le> L" "L \<le> 32"
  shows "geometric generator omega ((j + 2 ^ L div 2 ^ l) mod 2 ^ L) = felt_mul g (geometric generator omega j)"
proof (rule emb_inject)
  define k where "k = j + 2 ^ L div 2 ^ l"
  have "emb omega ^ k = emb omega ^ (2 ^ L * (k div 2 ^ L) + k mod 2 ^ L)" by simp
  also have "\<dots> = emb omega ^ (k mod 2 ^ L)" by (simp only: power_add power_mult root_power_order [OF w L(2)]) simp
  finally have "emb omega ^ (k mod 2 ^ L) = emb omega ^ k" ..
  moreover have "(2 :: nat) ^ L div 2 ^ l = 2 ^ (L - l)" using L(1) by (simp add: power_diff)
  then have "emb omega ^ k = emb omega ^ j * emb g" by (simp add: k_def power_add root_steps [OF w g L])
  ultimately show "emb (geometric generator omega ((j + 2 ^ L div 2 ^ l) mod 2 ^ L)) = emb (felt_mul g (geometric generator omega j))"
    by (simp add: geometric_emb emb_mul k_def ac_simps)
qed (simp_all add: geometric_canon canon_generator felt_simps)

lemma composition_lde:
  assumes g: "root_of_unity (of_nat l) = Some g" and om: "root_of_unity (of_nat L) = Some omega" and L: "l \<le> L" "L \<le> 32"
    and sat: "air_satisfied A trace" and cols: "trace_polys g l cols trace" "length cols = w"
    and ex: "exact g cols qs qbs" and len: "length as = m" "length bs = length (air_Boundaries A)"
    and H: "cpoly D H" "D \<le> 2 ^ L" "\<And>y. pv H y = value_at (combine (map emb as) qs) y + value_at (combine (map emb bs) qbs) y"
  shows "mc_composition_lde A cols g (2 ^ l) (2 ^ L) as bs generator = Some (codeword omega L (poly_compose_scale H generator))"
proof -
  define X where "X = geometric generator omega"
  have X: "canon (X j)" for j by (simp add: X_def geometric_canon canon_generator)
  define coset where "coset = map (\<lambda>cs. map (\<lambda>j. eval_poly cs (X j)) [0 ..< 2 ^ L]) cols"
  have c: "list_all (cpoly (2 ^ l)) cols" using cols(1) by (simp add: trace_polys_def)
  have lL: "(2 :: nat) ^ l \<le> 2 ^ L" using L(1) by (intro power_increasing) simp_all
  have coset: "all_some (map (\<lambda>cs. eval_on_coset cs (2 ^ L) generator) cols) = Some coset"
    unfolding coset_def X_def using c coset_values(2) [OF om L(2) _ lL canon_generator] by (intro all_some_map) (simp add: list_all_iff)
  have at: "map (\<lambda>col. col ! j) coset = rows_at cols (X j)" if "j < 2 ^ L" for j
    using that by (simp add: coset_def rows_at_def)
  obtain rows slots where rs: "row_slots g (air_Boundaries A) = (rows, slots)" by fastforce
  note slots = row_slots_ok [OF rs]
  have rows: "set rows \<subseteq> {felt_exp g e | e. True}" using slots(2) by auto
  define dInv where "dInv = batch_inv (denominators generator omega (2 ^ l) (2 ^ L) rows)"
  define gN1 where "gN1 = felt_exp g (of_nat (2 ^ l - 1))"
  have gN1: "canon gN1" "emb gN1 = emb g ^ (2 ^ l - 1)"
  proof -
    have "(2 :: nat) ^ l < 2 ^ 64" using L by (intro power_strict_increasing) simp_all
    then show "canon gN1" "emb gN1 = emb g ^ (2 ^ l - 1)"
      unfolding gN1_def emb_exp by (simp_all only: unat_small canon_felt_exp less_imp_diff_less)
  qed
  have "composition_at A coset (2 ^ L) (2 ^ L div 2 ^ l) (1 + length rows) dInv slots (felt_sub (X j) gN1) as bs j
      = Some (eval_poly H (X j))" if j: "j < 2 ^ L" for j
  proof -
    define x where "x = X j"
    have x: "canon x" by (simp add: x_def X)
    note di = denominators_inverted [OF g om L rows j, folded dInv_def, folded X_def, folded x_def]
    define jn where "jn = (j + 2 ^ L div 2 ^ l) mod 2 ^ L"
    have jn: "jn < 2 ^ L" "X jn = felt_mul g x"
      using next_row_point [OF g om L, of j] by (simp_all add: jn_def X_def x_def)
    define relax where "relax = felt_sub x gN1"
    have relax: "canon relax" "emb relax = emb x - emb g ^ (2 ^ l - 1)" using x gN1 by (simp_all add: relax_def felt_simps emb_sub)
    define cons where "cons = air_EvalTransition A (rows_at cols x) (rows_at cols (felt_mul g x))"
    have lenc: "length cons = m" using cols(2) transitions by (simp add: cons_def)
    have "list_all2 (\<lambda>v q. emb v = value_at q (emb x)) (map (transition_quotient relax (dInv ! (j * (1 + length rows)))) cons) qs"
      unfolding cons_def using di(2) by (rule transition_values [OF ex cols(2) x relax])
    from add_weighted_value [OF _ this canon_consts(1), of as] obtain r where
      r: "add_weighted as (map (transition_quotient relax (dInv ! (j * (1 + length rows)))) cons) 0 = Some r" "canon r"
        "emb r = value_at (combine (map emb as) qs) (emb x)"
      using len(1) lenc by (auto simp: emb_consts)
    define qb where "qb = (\<lambda>(bc :: boundary, slot). boundary_quotient (coset ! nat (bc_Col bc) ! j) (bc_Value bc) (dInv ! (j * (1 + length rows) + 1 + slot)))"
    have idx: "at_index coset (bc_Col bc) = Some (coset ! nat (bc_Col bc))" if "bc \<in> set (air_Boundaries A)" for bc
      using satisfied_boundary(1,2) [OF sat that] cols(2) by (simp add: at_index_def coset_def nat_less_iff)
    have qbs: "all_some (map (\<lambda>(bc, slot). map_option (\<lambda>col. boundary_quotient (col ! j) (bc_Value bc) (dInv ! (j * (1 + length rows) + 1 + slot)))
              (at_index coset (bc_Col bc))) (zip (air_Boundaries A) slots)) = Some (map qb (zip (air_Boundaries A) slots))"
      using idx by (intro all_some_map) (auto simp: qb_def dest: set_zip_leftD)
    have lens: "length slots = length (air_Boundaries A)" using list_all2_lengthD [OF slots(1)] by simp
    have "emb (qb (air_Boundaries A ! b, slots ! b)) = value_at (qbs ! b) (emb x)" if b: "b < length (air_Boundaries A)" for b
    proof -
      define bc where "bc = air_Boundaries A ! b"
      have bc: "bc \<in> set (air_Boundaries A)" using b by (simp add: bc_def)
      have sl: "slots ! b < length rows" "rows ! (slots ! b) = felt_exp g (word_of_int (bc_Row bc))"
        using list_all2_nthD [OF slots(1) b] by (simp_all add: bc_def)
      note sb = satisfied_boundary [OF sat bc]
      have "emb (rows ! (slots ! b)) = emb g ^ nat (bc_Row bc)" unfolding sl(2) using row_power [OF sb(4,3)] L by simp
      then have d: "emb (dInv ! (j * (1 + length rows) + 1 + slots ! b)) * (emb x - emb g ^ nat (bc_Row bc)) = 1"
        using di(3) [OF sl(1)] by simp
      have be: "boundary_exact g cols bc (qbs ! b)" using ex b list_all2_nthD by (fastforce simp: exact_def bc_def)
      have col: "coset ! nat (bc_Col bc) ! j = eval_poly (cols ! nat (bc_Col bc)) x"
        using sb(2) cols(2) j by (simp add: coset_def x_def)
      have "cpoly (2 ^ l) (cols ! nat (bc_Col bc))" using c sb(2) cols(2) by (simp add: list_all_length)
      then have "canon (coset ! nat (bc_Col bc) ! j)" using eval_cpoly [OF _ x] by (simp add: col)
      from boundary_value [OF be x this col satisfied_value [OF sat bc] d] show ?thesis by (simp add: qb_def bc_def)
    qed
    moreover have "length qbs = length (air_Boundaries A)" using ex by (auto simp: exact_def dest: list_all2_lengthD)
    ultimately have "list_all2 (\<lambda>v q. emb v = value_at q (emb x)) (map qb (zip (air_Boundaries A) slots)) qbs"
      using lens by (simp add: list_all2_conv_all_nth)
    from add_weighted_value [OF _ this r(2), of bs] obtain s where
      s: "add_weighted bs (map qb (zip (air_Boundaries A) slots)) r = Some s" "canon s"
        "emb s = emb r + value_at (combine (map emb bs) qbs) (emb x)"
      using len(2) lens by auto
    have "s = eval_poly H x" using eval_cpoly [OF H(1) x] s r(3) by (intro emb_inject) (simp_all add: H(3))
    then show ?thesis
      using r(1) qbs s(1) by (simp add: composition_at_def Let_def at [OF j] at [OF jn(1)] jn(2) flip: jn_def x_def relax_def cons_def)
  qed
  then have "all_some (map (\<lambda>j. composition_at A coset (2 ^ L) (2 ^ L div 2 ^ l) (1 + length rows) dInv slots (felt_sub (X j) gN1) as bs j) [0 ..< 2 ^ L])
      = Some (map (\<lambda>j. eval_poly H (X j)) [0 ..< 2 ^ L])" by (intro all_some_map) simp
  moreover have "codeword omega L (poly_compose_scale H generator) = map (\<lambda>j. eval_poly H (X j)) [0 ..< 2 ^ L]"
    unfolding X_def by (rule coset_values(1) [OF om L(2) H(1,2) canon_generator])
  moreover have "log2_int (int (2 ^ L)) = of_nat L" using log2_power [OF L(2)] by simp
  ultimately show ?thesis
    unfolding mc_composition_lde_def Let_def gN1_def [symmetric] X_def [symmetric]
    by (simp only: om bind.bind_lunit coset rs dInv_def split_conv X_def [symmetric] gN1_def [symmetric])
qed

end

end
