(* ===== verification/AirProps.thy ===== *)
theory AirProps
  imports AirComp
begin

text \<open>
  Completeness of the STARK of \<^verbatim>\<open>stark_mc.go\<close>: for a trace that satisfies an algebraic \<^verbatim>\<open>AIR\<close> the prover
  returns a proof, and the verifier accepts it unless the point drawn out of the domain lies in it.
\<close>

subsection \<open>The DEEP quotient\<close>

lemma deep_fold:
  fixes gammaZ gammaGZ :: "felt list"
  assumes T: "list_all (\<lambda>T. list_all canon T \<and> length (poly_trim T) \<le> k) cols" "1 \<le> k"
    and z: "canon z" "canon gz" and i: "i \<le> length cols"
    and colZ: "colZ = map (\<lambda>T. eval_poly T z) cols" and colGZ: "colGZ = map (\<lambda>T. eval_poly T gz) cols"
  defines "acc \<equiv> fold (\<lambda>c acc.
            let t0 = fst (poly_div_by_linear (poly_sub_const (cols ! c) (colZ ! c)) z);
                acc = poly_add_scaled acc t0 (gammaZ ! c);
                t1 = fst (poly_div_by_linear (poly_sub_const (cols ! c) (colGZ ! c)) gz)
            in poly_add_scaled acc t1 (gammaGZ ! c)) [0 ..< i] []"
  shows "cpoly k acc \<and> (\<forall>x u v. u * (x - emb z) = 1 \<longrightarrow> v * (x - emb gz) = 1 \<longrightarrow> pv acc x =
      (\<Sum>c<i. emb (gammaZ ! c) * ((pv (cols ! c) x - pv (cols ! c) (emb z)) * u)
            + emb (gammaGZ ! c) * ((pv (cols ! c) x - pv (cols ! c) (emb gz)) * v)))"
  unfolding acc_def using i
proof (induction i)
  case 0
  then show ?case by (simp add: cpoly_def)
next
  case (Suc i)
  define f where "f = (\<lambda>c acc.
            let t0 = fst (poly_div_by_linear (poly_sub_const (cols ! c) (colZ ! c)) z);
                acc = poly_add_scaled acc t0 (gammaZ ! c);
                t1 = fst (poly_div_by_linear (poly_sub_const (cols ! c) (colGZ ! c)) gz)
            in poly_add_scaled acc t1 (gammaGZ ! c))"
  define a where "a = fold f [0 ..< i] []"
  have a: "cpoly k a" "\<And>x u v. u * (x - emb z) = 1 \<Longrightarrow> v * (x - emb gz) = 1 \<Longrightarrow> pv a x =
      (\<Sum>c<i. emb (gammaZ ! c) * ((pv (cols ! c) x - pv (cols ! c) (emb z)) * u)
            + emb (gammaGZ ! c) * ((pv (cols ! c) x - pv (cols ! c) (emb gz)) * v))"
    using Suc unfolding a_def f_def by simp_all
  have Ti: "list_all canon (cols ! i)" "length (poly_trim (cols ! i)) \<le> k" using T(1) Suc.prems by (simp_all add: list_all_length)
  have e: "colZ ! i = eval_poly (cols ! i) z" "colGZ ! i = eval_poly (cols ! i) gz" using Suc.prems by (simp_all add: colZ colGZ)
  define t0 where "t0 = fst (poly_div_by_linear (poly_sub_const (cols ! i) (colZ ! i)) z)"
  define t1 where "t1 = fst (poly_div_by_linear (poly_sub_const (cols ! i) (colGZ ! i)) gz)"
  have t0: "(x - emb z) * pv t0 x = pv (cols ! i) x - pv (cols ! i) (emb z)" "cpoly k t0" for x
    unfolding t0_def e by (rule deep_quotient [OF Ti T(2) z(1)])+
  have t1: "(x - emb gz) * pv t1 x = pv (cols ! i) x - pv (cols ! i) (emb gz)" "cpoly k t1" for x
    unfolding t1_def e by (rule deep_quotient [OF Ti T(2) z(2)])+
  have s: "fold f [0 ..< Suc i] [] = poly_add_scaled (poly_add_scaled a t0 (gammaZ ! i)) t1 (gammaGZ ! i)"
    by (simp add: a_def f_def t0_def t1_def Let_def)
  note s1 = poly_add_scaled [OF a(1) t0(2)]
  note s2 = poly_add_scaled [OF s1(2) t1(2)]
  have "pv (fold f [0 ..< Suc i] []) x =
      (\<Sum>c<Suc i. emb (gammaZ ! c) * ((pv (cols ! c) x - pv (cols ! c) (emb z)) * u)
            + emb (gammaGZ ! c) * ((pv (cols ! c) x - pv (cols ! c) (emb gz)) * v))"
    if u: "u * (x - emb z) = 1" "v * (x - emb gz) = 1" for x u v
  proof -
    have "(pv (cols ! i) x - pv (cols ! i) (emb z)) * u = (u * (x - emb z)) * pv t0 x" by (simp only: t0(1) [symmetric] ac_simps)
    moreover have "(pv (cols ! i) x - pv (cols ! i) (emb gz)) * v = (v * (x - emb gz)) * pv t1 x" by (simp only: t1(1) [symmetric] ac_simps)
    ultimately show ?thesis unfolding s by (simp add: s1(1) s2(1) a(2) [OF u] u)
  qed
  then show ?case using s2(2) unfolding f_def [symmetric] s by blast
qed

lemma build_deep:
  fixes gammaZ gammaGZ :: "felt list" and gammaH :: felt
  assumes T: "list_all (\<lambda>T. list_all canon T \<and> length (poly_trim T) \<le> k) cols" "1 \<le> k"
    and Hc: "list_all canon Hc" "length (poly_trim Hc) \<le> k" and z: "canon z" "canon gz"
  defines "P \<equiv> mc_build_deep cols Hc z gz (map (\<lambda>T. eval_poly T z) cols) (map (\<lambda>T. eval_poly T gz) cols) (eval_poly Hc z) gammaZ gammaGZ gammaH"
  shows "cpoly k P" and "canon x \<Longrightarrow> emb x \<noteq> emb z \<Longrightarrow> emb x \<noteq> emb gz \<Longrightarrow>
    mc_deep_combine_at x (map (\<lambda>T. eval_poly T x) cols) (eval_poly Hc x) z gz (map (\<lambda>T. eval_poly T z) cols) (map (\<lambda>T. eval_poly T gz) cols)
      (eval_poly Hc z) gammaZ gammaGZ gammaH = eval_poly P x"
proof -
  define colZ where "colZ = map (\<lambda>T. eval_poly T z) cols"
  define colGZ where "colGZ = map (\<lambda>T. eval_poly T gz) cols"
  define acc where "acc = fold (\<lambda>c acc.
            let t0 = fst (poly_div_by_linear (poly_sub_const (cols ! c) (colZ ! c)) z);
                acc = poly_add_scaled acc t0 (gammaZ ! c);
                t1 = fst (poly_div_by_linear (poly_sub_const (cols ! c) (colGZ ! c)) gz)
            in poly_add_scaled acc t1 (gammaGZ ! c)) [0 ..< length cols] []"
  note acc = deep_fold [OF T z order_refl colZ_def colGZ_def, of gammaZ gammaGZ, folded acc_def]
  define h0 where "h0 = fst (poly_div_by_linear (poly_sub_const Hc (eval_poly Hc z)) z)"
  have h0: "(x - emb z) * pv h0 x = pv Hc x - pv Hc (emb z)" "cpoly k h0" for x
    unfolding h0_def by (rule deep_quotient [OF Hc T(2) z(1)])+
  have P: "P = poly_trim (poly_add_scaled acc h0 gammaH)"
    by (simp add: P_def mc_build_deep_def Let_def acc_def h0_def colZ_def colGZ_def)
  note s = poly_add_scaled [OF conjunct1 [OF acc] h0(2), of gammaH]
  show Pk: "cpoly k P" unfolding P by (rule cpoly_trim [OF s(2)])
  assume x: "canon x" "emb x \<noteq> emb z" "emb x \<noteq> emb gz"
  define d0 d1 where "d0 = felt_sub x z" and "d1 = felt_sub x gz"
  have d: "canon d0" "canon d1" "emb d0 = emb x - emb z" "emb d1 = emb x - emb gz"
    using x z by (simp_all add: d0_def d1_def felt_simps emb_sub)
  then have ne: "d0 \<noteq> 0" "d1 \<noteq> 0" using x by (auto simp: emb_consts)
  have inv: "emb (felt_inv d0) * (emb x - emb z) = 1" "emb (felt_inv d1) * (emb x - emb gz) = 1"
    using emb_inv [OF d(1) ne(1)] emb_inv [OF d(2) ne(2)] by (simp_all add: d mult.commute)
  have ev: "emb (eval_poly T y) = pv T (emb y) \<and> canon (eval_poly T y)" if "T \<in> set cols \<or> T = Hc" "canon y" for T y
    using that T(1) Hc eval_poly_emb by (auto simp: list_all_iff)
  define colX where "colX = map (\<lambda>T. eval_poly T x) cols"
  define body where "body = (\<lambda>c acc.
              let t0 = felt_mul (gammaZ ! c) (felt_mul (felt_sub (colX ! c) (colZ ! c)) (felt_inv d0));
                  t1 = felt_mul (gammaGZ ! c) (felt_mul (felt_sub (colX ! c) (colGZ ! c)) (felt_inv d1))
              in felt_add (felt_add acc t0) t1)"
  have fold: "canon (fold body [0 ..< i] 0) \<and> emb (fold body [0 ..< i] 0) =
      (\<Sum>c<i. emb (gammaZ ! c) * ((pv (cols ! c) (emb x) - pv (cols ! c) (emb z)) * emb (felt_inv d0))
            + emb (gammaGZ ! c) * ((pv (cols ! c) (emb x) - pv (cols ! c) (emb gz)) * emb (felt_inv d1)))" if "i \<le> length cols" for i
    using that
  proof (induction i)
    case (Suc i)
    then have "cols ! i \<in> set cols" by simp
    then have "canon (colX ! i)" "canon (colZ ! i)" "canon (colGZ ! i)" "emb (colX ! i) = pv (cols ! i) (emb x)"
      "emb (colZ ! i) = pv (cols ! i) (emb z)" "emb (colGZ ! i) = pv (cols ! i) (emb gz)"
      using Suc.prems ev x(1) z by (simp_all add: colX_def colZ_def colGZ_def)
    with Suc show ?case by (simp add: body_def Let_def felt_simps emb_add emb_sub emb_mul)
  qed (simp add: felt_simps emb_consts)
  define r where "r = felt_add (fold body [0 ..< length colX] 0) (felt_mul gammaH (felt_mul (felt_sub (eval_poly Hc x) (eval_poly Hc z)) (felt_inv d0)))"
  have len: "length colX = length cols" by (simp add: colX_def)
  have r: "canon r" "emb r = pv P (emb x)"
  proof -
    have "canon (felt_sub (eval_poly Hc x) (eval_poly Hc z))" "emb (felt_sub (eval_poly Hc x) (eval_poly Hc z)) = pv Hc (emb x) - pv Hc (emb z)"
      using ev [of Hc x] ev [of Hc z] x(1) z(1) by (simp_all add: felt_simps emb_sub)
    moreover have "(pv Hc (emb x) - pv Hc (emb z)) * emb (felt_inv d0) = emb (felt_inv d0) * (emb x - emb z) * pv h0 (emb x)"
      by (simp only: h0(1) [symmetric] ac_simps)
    moreover have "pv acc (emb x) = emb (fold body [0 ..< length cols] 0)"
      using fold [OF order_refl] conjunct2 [OF acc] inv by simp
    ultimately show "canon r" "emb r = pv P (emb x)"
      using fold [OF order_refl] by (simp_all add: r_def len P s(1) felt_simps emb_add emb_mul inv)
  qed
  have "mc_deep_combine_at x colX (eval_poly Hc x) z gz colZ colGZ (eval_poly Hc z) gammaZ gammaGZ gammaH = r"
    using ne by (simp add: mc_deep_combine_at_def Let_def r_def body_def flip: d0_def d1_def)
  moreover have "eval_poly P x = r" by (rule eval_eqI [OF Pk x(1) r])
  ultimately show "mc_deep_combine_at x (map (\<lambda>T. eval_poly T x) cols) (eval_poly Hc x) z gz (map (\<lambda>T. eval_poly T z) cols) (map (\<lambda>T. eval_poly T gz) cols)
      (eval_poly Hc z) gammaZ gammaGZ gammaH = eval_poly P x"
    by (simp add: colX_def colZ_def colGZ_def)
qed

subsection \<open>Draws and openings\<close>

text \<open>The draws of the two transcripts end: for SHAKE256 they do except with negligible probability.\<close>

definition air_draws_end :: "xof \<Rightarrow> nat \<Rightarrow> bool" where
  "air_draws_end xof bigN \<longleftrightarrow> (\<forall>label t. challenge xof label t \<noteq> None) \<and> draws_end xof mc_fri_params bigN
     \<and> (\<forall>t. query_positions xof ''mc/query'' mcNumQueries (int bigN) t \<noteq> None)"

text \<open>The point out of the domain, as the verifier draws it for a proof.\<close>

definition ood_point :: "xof \<Rightarrow> air \<Rightarrow> air_proof \<Rightarrow> felt list \<Rightarrow> felt option" where
  "ood_point xof air proof public = do {
     let zeroRow = replicate (nat (air_NumColumns air)) 0;
     (alphaTrans, alphaBound, t) \<leftarrow> mc_draw_alphas xof (length (air_EvalTransition air zeroRow zeroRow))
        (length (air_Boundaries air)) (absorb_statement air public (ap_ColRoots proof));
     (z, t) \<leftarrow> challenge xof ''mc/ood-z'' (absorb_data ''mc/comp-root'' (ap_CompRoot proof) t);
     Some z }"

lemma draw_each_returns:
  assumes "\<forall>label t. challenge xof label t \<noteq> None"
  shows "\<exists>xs t'. draw_each xof labels t = Some (xs, t') \<and> length xs = length labels"
proof (induction labels arbitrary: t)
  case (Cons label labels)
  obtain x t1 where "challenge xof label t = Some (x, t1)" using assms by fastforce
  with Cons [of t1] show ?case by auto
qed simp

lemma draw_pairs_returns:
  assumes "\<forall>label t. challenge xof label t \<noteq> None"
  shows "\<exists>xs ys t'. draw_pairs xof cs t = Some (xs, ys, t')"
proof (induction cs arbitrary: t)
  case (Cons c cs)
  obtain x t1 where 1: "challenge xof (mc_indexed_label ''mc/gamma-z'' c) t = Some (x, t1)" using assms by fastforce
  obtain y t2 where "challenge xof (mc_indexed_label ''mc/gamma-gz'' c) t1 = Some (y, t2)" using assms by fastforce
  with 1 Cons [of t2] show ?case by auto
qed simp

lemma alphas_return:
  assumes "\<forall>label t. challenge xof label t \<noteq> None"
  shows "\<exists>as bs t'. mc_draw_alphas xof i j t = Some (as, bs, t') \<and> length as = i \<and> length bs = j"
proof -
  obtain as t1 where 1: "draw_each xof (map (mc_indexed_label ''mc/alpha-trans'') [0 ..< i]) t = Some (as, t1)" "length as = i"
    using draw_each_returns [OF assms, of "map (mc_indexed_label ''mc/alpha-trans'') [0 ..< i]" t] by auto
  obtain bs t2 where "draw_each xof (map (mc_indexed_label ''mc/alpha-bound'') [0 ..< j]) t1 = Some (bs, t2)" "length bs = j"
    using draw_each_returns [OF assms, of "map (mc_indexed_label ''mc/alpha-bound'') [0 ..< j]" t1] by auto
  with 1 show ?thesis by (simp add: mc_draw_alphas_def)
qed

lemma gammas_return:
  assumes "\<forall>label t. challenge xof label t \<noteq> None"
  shows "\<exists>xs ys h t'. mc_draw_gammas xof w t = Some (xs, ys, h, t')"
proof -
  obtain xs ys t1 where 1: "draw_pairs xof [0 ..< w] t = Some (xs, ys, t1)" using draw_pairs_returns [OF assms] by blast
  obtain h t2 where "challenge xof ''mc/gamma-h'' t1 = Some (h, t2)" using assms by fastforce
  with 1 show ?thesis by (simp add: mc_draw_gammas_def)
qed

lemma commit_evals_returns: "evals \<noteq> [] \<Longrightarrow> \<exists>root tree. commit_evals E evals = Some (root, tree)"
  by (simp add: commit_evals_def sha_commit_def commit_def Let_def)

text \<open>The first layer of an FRI proof is the commitment to the evaluations.\<close>

lemma fri_prove_first:
  assumes pf: "fri_prove E xof evals p = Some pf"
  shows "fr_LogDomain pf = of_nat (trailing_zeros (length evals))
    \<and> (\<exists>tree. commit_evals E evals = Some (hd (fr_LayerRoots pf), tree)) \<and> fr_LayerRoots pf \<noteq> []"
proof -
  define t0 where "t0 = absorb_params p (of_nat (trailing_zeros (length evals))) (new_transcript ''stark/fri/v1'')"
  from pf obtain omega layers rest t where size: "\<not> int (length evals) \<le> fri_final_size p"
    and run: "commit_phase E xof (fri_final_size p) t0 evals omega = Some (layers, rest, t)"
    and e: "fr_LogDomain pf = of_nat (trailing_zeros (length evals))" "fr_LayerRoots pf = map fst layers"
    unfolding fri_prove_def Let_def t0_def by (auto split: if_splits option.splits prod.splits)
  from run size obtain root tree ls where "commit_evals E evals = Some (root, tree)" "layers = (root, \<lparr>fl_evals = evals, fl_tree = tree\<rparr>) # ls"
    by (subst (asm) commit_phase.simps) (auto split: option.splits prod.splits)
  then show ?thesis using e by simp
qed

lemma codeword_opens:
  assumes "commit_evals E (codeword omega L cs) = Some (root, tree)" and "pos < 2 ^ L" and "L \<le> 32"
  shows "\<exists>path. open_leaf tree (int pos) = Some path \<and> sha_verify_path E root (int pos) (leaf_of (codeword omega L cs ! pos)) path"
proof -
  have "(2 :: nat) ^ L \<le> 2 ^ 32" using assms(3) by (intro power_increasing) simp_all
  then show ?thesis using commit_evals_opens [OF assms(1), of pos] assms(2) by fastforce
qed

lemma opening_verifies:
  assumes cols: "\<And>cs. cs \<in> set cols \<Longrightarrow> commit_evals E (codeword omega L cs) = Some (cm cs)"
    and comp: "commit_evals E (codeword omega L Hc) = Some (compRoot, compTree)"
    and deep: "commit_evals E (codeword omega L P) = Some (deepRoot, deepTree)"
    and pos: "pos < 2 ^ L" and L: "L \<le> 32" and w: "length cols = w"
  shows "\<exists>op. open_at (map (snd \<circ> cm) cols) (map (codeword omega L) cols) compTree (codeword omega L Hc) deepTree (codeword omega L P) pos = Some op
    \<and> (comb (felt_exp omega (of_nat pos)) (map (\<lambda>cs. codeword omega L cs ! pos) cols) (codeword omega L Hc ! pos) = codeword omega L P ! pos \<longrightarrow>
         opening_ok E (map (fst \<circ> cm) cols) compRoot w deepRoot comb omega (2 ^ L) pos op)"
proof -
  have "\<forall>cs \<in> set cols. \<exists>path. open_leaf (snd (cm cs)) (int pos) = Some path
      \<and> sha_verify_path E (fst (cm cs)) (int pos) (leaf_of (codeword omega L cs ! pos)) path"
    using codeword_opens [OF _ pos L] cols by (metis prod.collapse)
  then obtain path where path: "\<And>cs. cs \<in> set cols \<Longrightarrow> open_leaf (snd (cm cs)) (int pos) = Some (path cs)
      \<and> sha_verify_path E (fst (cm cs)) (int pos) (leaf_of (codeword omega L cs ! pos)) (path cs)" by metis
  obtain cpath where cpath: "open_leaf compTree (int pos) = Some cpath" "sha_verify_path E compRoot (int pos) (leaf_of (codeword omega L Hc ! pos)) cpath"
    using codeword_opens [OF comp pos L] by blast
  obtain dpath where dpath: "open_leaf deepTree (int pos) = Some dpath" "sha_verify_path E deepRoot (int pos) (leaf_of (codeword omega L P ! pos)) dpath"
    using codeword_opens [OF deep pos L] by blast
  have "all_some (map (\<lambda>tree. open_leaf tree (int pos)) (map (snd \<circ> cm) cols)) = Some (map path cols)"
    unfolding map_map using path by (intro all_some_map) simp
  then have "open_at (map (snd \<circ> cm) cols) (map (codeword omega L) cols) compTree (codeword omega L Hc) deepTree (codeword omega L P) pos
    = Some \<lparr>ao_Pos = int pos, ao_ColVals = map (\<lambda>cs. codeword omega L cs ! pos) cols, ao_ColPaths = map path cols,
           ao_CompVal = codeword omega L Hc ! pos, ao_CompPath = cpath, ao_DeepVal = codeword omega L P ! pos, ao_DeepPath = dpath\<rparr>"
    (is "_ = Some ?op") using cpath(1) dpath(1) by (simp add: open_at_def comp_def)
  moreover have "comb (felt_exp omega (of_nat pos)) (map (\<lambda>cs. codeword omega L cs ! pos) cols) (codeword omega L Hc ! pos) = codeword omega L P ! pos \<Longrightarrow>
      opening_ok E (map (fst \<circ> cm) cols) compRoot w deepRoot comb omega (2 ^ L) pos ?op"
    using path cpath(2) dpath(2) pos
    by (auto simp: opening_ok_def w list_all_length)
  ultimately show ?thesis by blast
qed

text \<open>Scaling by the generator and back.\<close>

lemma compose_back:
  assumes "list_all canon H"
  shows "poly_compose_scale (poly_compose_scale H generator) (felt_inv generator) = H"
proof (rule nth_equalityI)
  fix i assume "i < length (poly_compose_scale (poly_compose_scale H generator) (felt_inv generator))"
  then have i: "i < length H" by simp
  have "generator \<noteq> 0" by (simp add: generator_def)
  then have "emb generator * emb (felt_inv generator) = 1" using emb_inv canon_generator by blast
  then have "(emb generator * emb (felt_inv generator)) ^ i = 1" by simp
  then have "emb (poly_compose_scale (poly_compose_scale H generator) (felt_inv generator) ! i) = emb (H ! i)"
    using i by (simp add: poly_compose_scale_def emb_simps power_mult_distrib mult.assoc)
  then show "poly_compose_scale (poly_compose_scale H generator) (felt_inv generator) ! i = H ! i"
    using i assms by (intro emb_inject) (simp_all add: poly_compose_scale_def felt_simps list_all_length)
qed simp

subsection \<open>The run of the prover and of the verifier\<close>

context algebraic_air
begin

lemma columns_interpolate:
  assumes g: "root_of_unity (of_nat l) = Some g" and sat: "air_satisfied A trace"
    and om: "root_of_unity (of_nat L) = Some omega" and L: "l \<le> L" "L \<le> 32"
  shows "\<exists>cols. mc_eval_columns_on_lde trace w (2 ^ L) = Some (cols, map (codeword omega L) cols)
    \<and> trace_polys g l cols trace \<and> length cols = w"
proof -
  have l32: "l \<le> 32" using L by simp
  have len: "length trace = 2 ^ l" by (rule satisfied_length [OF sat])
  have rows: "length row = w \<and> list_all canon row" if "row \<in> set trace" for row
    using sat that columns unfolding air_satisfied_def by simp
  have "\<exists>cs. interpolate (column trace c) = Some cs \<and> cpoly (2 ^ l) cs \<and> codeword g l cs = column trace c" if "c < w" for c
  proof (rule interpolate_values [OF g l32])
    show "length (column trace c) = 2 ^ l" by (simp add: column_def len)
    show "list_all canon (column trace c)" using rows that by (auto simp: column_def list_all_iff list_all_length)
  qed
  then obtain I where I: "\<And>c. c < w \<Longrightarrow> interpolate (column trace c) = Some (I c) \<and> cpoly (2 ^ l) (I c) \<and> codeword g l (I c) = column trace c"
    by metis
  define cols where "cols = map I [0 ..< w]"
  have 1: "all_some (map (\<lambda>c. interpolate (column trace c)) [0 ..< w]) = Some cols"
    unfolding cols_def using I by (intro all_some_map) simp
  have c: "list_all (cpoly (2 ^ l)) cols" using I by (simp add: cols_def list_all_iff)
  have lL: "(2 :: nat) ^ l \<le> 2 ^ L" using L(1) by (intro power_increasing) simp_all
  have "all_some (map (\<lambda>cs. eval_on_lde cs (2 ^ L)) cols) = Some (map (codeword omega L) cols)"
  proof (rule all_some_map)
    fix cs assume "cs \<in> set cols"
    then have "cpoly (2 ^ L) cs" using c cpoly_mono [OF _ lL] by (auto simp: list_all_iff)
    then show "eval_on_lde cs (2 ^ L) = Some (codeword omega L cs)" by (rule eval_on_lde_codeword [OF om L(2)])
  qed
  moreover have "rows_at cols (felt_exp g (of_nat i)) = trace ! i" if i: "i < 2 ^ l" for i
  proof (rule nth_equalityI)
    have ti: "trace ! i \<in> set trace" using i len by simp
    then show "length (rows_at cols (felt_exp g (of_nat i))) = length (trace ! i)" using rows by (simp add: cols_def)
    fix c assume "c < length (rows_at cols (felt_exp g (of_nat i)))"
    then have cw: "c < w" by (simp add: cols_def)
    then have "codeword g l (I c) ! i = column trace c ! i" using I by simp
    then show "rows_at cols (felt_exp g (of_nat i)) ! c = trace ! i ! c"
      using cw i len by (simp add: rows_at_def cols_def codeword_def column_def)
  qed
  ultimately show ?thesis using 1 c by (auto simp: mc_eval_columns_on_lde_def trace_polys_def cols_def)
qed

text \<open>The checks on the sizes, and the number of constraints both sides compute.\<close>

lemma guards:
  "is_pow2 (air_NumSteps A)" "\<not> air_NumSteps A < 4" "\<not> air_NumColumns A < 1" "\<not> air_MaxDegree A < 1"
  "nat (air_NumColumns A) = w" "nat (air_NumSteps A) = 2 ^ l" "log2_int (air_NumSteps A) = of_nat l"
  "length (air_EvalTransition A (replicate w 0) (replicate w 0)) = m"
proof -
  have "(2 :: int) ^ 2 \<le> 2 ^ l" using enough_steps by (intro power_increasing) simp_all
  then show "is_pow2 (air_NumSteps A)" "\<not> air_NumSteps A < 4" "\<not> air_NumColumns A < 1" "\<not> air_MaxDegree A < 1"
    using is_pow2_power [of l] steps columns some_column degree by simp_all
  show "nat (air_NumColumns A) = w" "nat (air_NumSteps A) = 2 ^ l" by (simp_all add: columns steps nat_power_eq)
  show "log2_int (air_NumSteps A) = of_nat l" using log2_power [of l] small_steps steps by simp
  show "length (air_EvalTransition A (replicate w 0) (replicate w 0)) = m" by (intro transitions) simp_all
qed

lemma trace_guards:
  assumes sat: "air_satisfied A trace"
  shows "int (length trace) = air_NumSteps A" and "\<not> (\<exists>row \<in> set trace. int (length row) \<noteq> air_NumColumns A)"
    and "length (air_EvalTransition A (trace ! 0) (trace ! 1)) = m"
proof -
  have row: "int (length row) = air_NumColumns A" if "row \<in> set trace" for row using sat that by (simp add: air_satisfied_def)
  then show "int (length trace) = air_NumSteps A" and "\<not> (\<exists>row \<in> set trace. int (length row) \<noteq> air_NumColumns A)"
    using sat by (auto simp: air_satisfied_def)
  have "(2 :: nat) \<le> 2 ^ l" using enough_steps self_le_power [of "2 :: nat" l] by simp
  then have "trace ! 0 \<in> set trace" "trace ! 1 \<in> set trace" using satisfied_length [OF sat] by simp_all
  from this [THEN row] show "length (air_EvalTransition A (trace ! 0) (trace ! 1)) = m"
    using columns by (intro transitions) simp_all
qed

text \<open>The composition, interpolated on the coset and scaled back, is a polynomial of low degree that passes the check.\<close>

lemma composition_committed:
  assumes g: "root_of_unity (of_nat l) = Some g" and om: "root_of_unity (of_nat L) = Some omega" and L: "l \<le> L" "L \<le> 32"
    and sat: "air_satisfied A trace" and cols: "trace_polys g l cols trace" "length cols = w"
    and d: "nat (air_MaxDegree A) * 2 ^ l \<le> 2 ^ d" "d \<le> L" and len: "length as = m" "length bs = length (air_Boundaries A)"
  shows "\<exists>compCoset compScaled Hc. mc_composition_lde A cols g (2 ^ l) (2 ^ L) as bs generator = Some compCoset
    \<and> interpolate compCoset = Some compScaled \<and> poly_compose_scale compScaled (felt_inv generator) = Hc
    \<and> eval_on_lde Hc (2 ^ L) = Some (codeword omega L Hc) \<and> list_all canon Hc \<and> length (poly_trim Hc) \<le> 2 ^ d
    \<and> (\<forall>z. canon z \<longrightarrow> emb z ^ 2 ^ l \<noteq> 1 \<longrightarrow>
        mc_check_constraints_at_z A z g (2 ^ l) as bs (rows_at cols z) (rows_at cols (felt_mul g z)) (eval_poly Hc z) = Some True)"
proof -
  obtain qs qbs where ex: "exact g cols qs qbs" using exact_exists [OF g sat cols] by blast
  have lists: "list_all (\<lambda>q. length q \<le> 2 ^ d) (qs @ qbs)"
    using ex d(1) unfolding exact_def list_all_iff by (blast intro: order_trans)
  obtain H where H: "cpoly (2 ^ d) H" "\<And>y. pv H y = value_at (combine (map emb as) qs) y + value_at (combine (map emb bs) qbs) y"
    using combined_exists [OF lists] by blast
  have dL: "(2 :: nat) ^ d \<le> 2 ^ L" using d(2) by (intro power_increasing) simp_all
  have Hcan: "list_all canon H" "length H \<le> 2 ^ L" using cpoly_mono [OF H(1) dL] by (simp_all add: cpoly_def)
  define Hc where "Hc = padded (2 ^ L) H"
  have Hc: "list_all canon Hc" "length Hc = 2 ^ L" using padded_facts [OF Hcan(2,1)] by (simp_all add: Hc_def)
  have comp: "mc_composition_lde A cols g (2 ^ l) (2 ^ L) as bs generator = Some (codeword omega L (poly_compose_scale H generator))"
    by (rule composition_lde [OF g om L sat cols ex len H(1) dL H(2)])
  have sc: "list_all canon (poly_compose_scale H generator)" "length (poly_compose_scale H generator) \<le> 2 ^ L"
    using poly_compose_scale(2) [of H generator] Hcan by (simp_all add: cpoly_def)
  have inter: "interpolate (codeword omega L (poly_compose_scale H generator)) = Some (padded (2 ^ L) (poly_compose_scale H generator))"
    by (rule interpolate_codeword [OF om L(2) sc])
  have backs: "poly_compose_scale (padded (2 ^ L) (poly_compose_scale H generator)) (felt_inv generator) = Hc"
    using compose_back [OF Hcan(1)] by (simp add: poly_compose_padded Hc_def)
  have lde: "eval_on_lde Hc (2 ^ L) = Some (codeword omega L Hc)"
    using Hc by (intro eval_on_lde_codeword [OF om L(2)]) (simp add: cpoly_def)
  have "length (poly_trim Hc) \<le> 2 ^ d" using length_trim_padded [of "2 ^ L" H] H(1) by (simp add: Hc_def cpoly_def)
  moreover have "mc_check_constraints_at_z A z g (2 ^ l) as bs (rows_at cols z) (rows_at cols (felt_mul g z)) (eval_poly Hc z) = Some True"
    if "canon z" "emb z ^ 2 ^ l \<noteq> 1" for z
    using check_at_z [OF g that(2,1) sat cols ex len H] eval_padded [OF Hcan that(1)] by (simp add: Hc_def)
  ultimately show ?thesis using comp inter backs lde Hc(1) by blast
qed

text \<open>A point outside the evaluation domain is on no row, and no query hits it.\<close>

lemma off_domain:
  assumes "felt_exp z (of_nat (2 ^ L)) \<noteq> 1" and L: "l \<le> L" "L \<le> 32"
  shows "emb z ^ 2 ^ L \<noteq> 1" and "emb z ^ 2 ^ l \<noteq> 1"
proof -
  have n64: "unat (of_nat (2 ^ L) :: u64) = 2 ^ L" using L(2) by (intro unat_small) (rule power_strict_increasing, simp_all)
  show offN: "emb z ^ 2 ^ L \<noteq> 1"
  proof
    assume "emb z ^ 2 ^ L = 1"
    then have "emb (felt_exp z (of_nat (2 ^ L))) = emb 1" by (simp only: emb_exp n64 emb_consts)
    then show False using assms(1) emb_inject by (blast intro: canon_felt_exp canon_consts)
  qed
  show "emb z ^ 2 ^ l \<noteq> 1"
  proof
    assume "emb z ^ 2 ^ l = 1"
    then have "(emb z ^ 2 ^ l) ^ 2 ^ (L - l) = 1" by simp
    then show False using offN L(1) by (simp add: power_mult [symmetric] power_add [symmetric])
  qed
qed

lemma query_off:
  assumes g: "root_of_unity (of_nat l) = Some g" and om: "root_of_unity (of_nat L) = Some omega" and L: "l \<le> L" "L \<le> 32"
    and off: "emb z ^ 2 ^ L \<noteq> 1" and pos: "pos < 2 ^ L"
  shows "emb (felt_exp omega (of_nat pos)) \<noteq> emb z" and "emb (felt_exp omega (of_nat pos)) \<noteq> emb (felt_mul g z)"
proof -
  have xe: "emb (felt_exp omega (of_nat pos)) = emb omega ^ pos" using index_small [OF pos L(2)] by (simp add: emb_exp)
  have "(emb omega ^ pos) ^ 2 ^ L = (emb omega ^ 2 ^ L) ^ pos" unfolding power_mult [symmetric] mult.commute [of pos] ..
  then have xN: "emb (felt_exp omega (of_nat pos)) ^ 2 ^ L = 1" unfolding xe root_power_order [OF om L(2)] by simp
  have "emb g ^ 2 ^ L = (emb g ^ 2 ^ l) ^ 2 ^ (L - l)" using L(1) by (simp add: power_mult [symmetric] power_add [symmetric])
  then have "emb g ^ 2 ^ L = 1" using root_power_order [OF g] L by simp
  then have "emb (felt_mul g z) ^ 2 ^ L = emb z ^ 2 ^ L" by (simp only: emb_mul power_mult_distrib mult_1)
  then show "emb (felt_exp omega (of_nat pos)) \<noteq> emb z" and "emb (felt_exp omega (of_nat pos)) \<noteq> emb (felt_mul g z)"
    using xN off by metis+
qed

lemma low_degree_test:
  assumes om: "root_of_unity (of_nat L) = Some omega" and L: "L = d + 3" "L \<le> 32" "1 \<le> d" and P: "cpoly (2 ^ d) P"
    and ends: "draws_end xof mc_fri_params (2 ^ L)"
  shows "\<exists>fri deepTree. eval_on_lde P (2 ^ L) = Some (codeword omega L P) \<and> fri_prove E xof (codeword omega L P) mc_fri_params = Some fri
    \<and> fri_verify E xof fri mc_fri_params = Some True \<and> commit_evals E (codeword omega L P) = Some (hd (fr_LayerRoots fri), deepTree)
    \<and> fr_LayerRoots fri \<noteq> [] \<and> fr_LogDomain fri = of_nat L"
proof -
  have "(2 :: nat) ^ d \<le> 2 ^ L" by (intro power_increasing) (simp_all add: L)
  from eval_on_lde_codeword [OF om L(2) cpoly_mono [OF P this]] have lde: "eval_on_lde P (2 ^ L) = Some (codeword omega L P)" .
  have "\<exists>pf. fri_prove E xof (codeword omega L P) mc_fri_params = Some pf \<and> fri_verify E xof pf mc_fri_params = Some True"
  proof (rule fri_accepts [where k = 3 and s = 0, OF _ _ _ _ _ L(2) om _ _ _ ends])
    show "codeword omega L P = map (\<lambda>i. eval_poly P (felt_exp omega (of_nat i))) [0 ..< 2 ^ L]" by (simp add: codeword_def)
    show "list_all canon P" "length P \<le> 2 ^ (L - 3)" using P by (simp_all add: cpoly_def L)
  qed (use L in \<open>simp_all add: mc_fri_params_def mcBlowup_def mcNumQueries_def\<close>)
  then obtain fri where fri: "fri_prove E xof (codeword omega L P) mc_fri_params = Some fri" "fri_verify E xof fri mc_fri_params = Some True" by blast
  then show ?thesis using lde fri_prove_first [OF fri(1)] by auto
qed

lemma columns_commit:
  "\<exists>cm. (\<forall>cs \<in> set cols. commit_evals E (codeword omega L cs) = Some (cm cs))
    \<and> all_some (map (commit_evals E) (map (codeword omega L) cols)) = Some (map cm cols)"
proof -
  have "\<forall>cs \<in> set cols. \<exists>rt. commit_evals E (codeword omega L cs) = Some rt"
    using commit_evals_returns [of "codeword omega L _" E] by (metis length_codeword length_0_conv power_not_zero zero_neq_numeral)
  then obtain cm where cm: "\<And>cs. cs \<in> set cols \<Longrightarrow> commit_evals E (codeword omega L cs) = Some (cm cs)" by metis
  then have "all_some (map (commit_evals E \<circ> codeword omega L) cols) = Some (map cm cols)" by (intro all_some_map) simp
  then show ?thesis using cm unfolding map_map by blast
qed

lemma complete:
  assumes sat: "air_satisfied A trace"
    and ends: "air_draws_end xof (nat (mc_big_n (air_MaxDegree A) (air_NumSteps A)))"
  shows "\<exists>pf z. prove_air E xof A trace public = Some pf \<and> ood_point xof A pf public = Some z
    \<and> (felt_exp z (of_nat (nat (mc_big_n (air_MaxDegree A) (air_NumSteps A)))) \<noteq> 1 \<longrightarrow> verify_air E xof A pf public = Some True)"
proof -
  obtain d where big: "mc_big_n (air_MaxDegree A) (air_NumSteps A) = 2 ^ (d + 3)" and d: "nat (air_MaxDegree A) * 2 ^ l \<le> 2 ^ d" "d \<le> 29" "l \<le> d"
    using domain_size by blast
  define L where "L = d + 3"
  have L: "l \<le> L" "L \<le> 32" "l \<le> 32" "d \<le> L" "1 \<le> d" using d enough_steps by (simp_all add: L_def)
  have bigN: "mc_big_n (air_MaxDegree A) (air_NumSteps A) = int (2 ^ L)" "nat (int (2 ^ L)) = 2 ^ L" using big by (simp_all add: L_def)
  have pow: "is_pow2 (int (2 ^ L))" "log2_int (int (2 ^ L)) = of_nat L" using is_pow2_power [of L] log2_power [OF L(2)] by simp_all
  have ch: "\<forall>label t. challenge xof label t \<noteq> None" and fe: "draws_end xof mc_fri_params (2 ^ L)"
    and qe: "\<forall>t. query_positions xof ''mc/query'' mcNumQueries (int (2 ^ L)) t \<noteq> None"
    using ends unfolding bigN air_draws_end_def by blast+
  obtain g where g: "root_of_unity (of_nat l) = Some g" using root_exists [OF L(3)] by blast
  obtain omega where om: "root_of_unity (of_nat L) = Some omega" using root_exists [OF L(2)] by blast
  obtain cols where ev: "mc_eval_columns_on_lde trace w (2 ^ L) = Some (cols, map (codeword omega L) cols)"
    and cols: "trace_polys g l cols trace" "length cols = w" using columns_interpolate [OF g sat om L(1,2)] by blast
  obtain cm where cm: "\<And>cs. cs \<in> set cols \<Longrightarrow> commit_evals E (codeword omega L cs) = Some (cm cs)"
    and commits: "all_some (map (commit_evals E) (map (codeword omega L) cols)) = Some (map cm cols)" using columns_commit by blast
  define roots where "roots = map (fst \<circ> cm) cols"
  define t0 where "t0 = absorb_statement A public roots"
  obtain as bs t1 where al: "mc_draw_alphas xof m (length (air_Boundaries A)) t0 = Some (as, bs, t1)"
    "length as = m" "length bs = length (air_Boundaries A)" using alphas_return [OF ch] by blast
  obtain compCoset compScaled Hc where comp: "mc_composition_lde A cols g (2 ^ l) (2 ^ L) as bs generator = Some compCoset"
      "interpolate compCoset = Some compScaled" "poly_compose_scale compScaled (felt_inv generator) = Hc"
      "eval_on_lde Hc (2 ^ L) = Some (codeword omega L Hc)"
    and Hc: "list_all canon Hc" "length (poly_trim Hc) \<le> 2 ^ d"
    and check: "\<And>z. canon z \<Longrightarrow> emb z ^ 2 ^ l \<noteq> 1 \<Longrightarrow>
        mc_check_constraints_at_z A z g (2 ^ l) as bs (rows_at cols z) (rows_at cols (felt_mul g z)) (eval_poly Hc z) = Some True"
    using composition_committed [OF g om L(1,2) sat cols d(1) L(4) al(2,3)] by blast
  obtain compRoot compTree where cr: "commit_evals E (codeword omega L Hc) = Some (compRoot, compTree)"
    using columns_commit [of "[Hc]"] by (metis list.set_intros(1) surj_pair)
  obtain z t2 where z: "challenge xof ''mc/ood-z'' (absorb_data ''mc/comp-root'' compRoot t1) = Some (z, t2)" using ch by fastforce
  define gz where "gz = felt_mul g z"
  have zc: "canon z" "canon gz" using challenge_canon [OF z] by (simp_all add: gz_def felt_simps)
  define colZ where "colZ = map (\<lambda>cs. eval_poly cs z) cols"
  define colGZ where "colGZ = map (\<lambda>cs. eval_poly cs gz) cols"
  define Hz where "Hz = eval_poly Hc z"
  obtain gaZ gaGZ gaH t3 where ga: "mc_draw_gammas xof w (absorb_ood colZ colGZ Hz t2) = Some (gaZ, gaGZ, gaH, t3)"
    using gammas_return [OF ch] by blast
  define P where "P = mc_build_deep cols Hc z gz colZ colGZ Hz gaZ gaGZ gaH"
  have "(2 :: nat) ^ l \<le> 2 ^ d" using d(3) by (intro power_increasing) simp_all
  then have "cpoly (2 ^ d) (poly_trim cs) \<and> list_all canon cs" if "cs \<in> set cols" for cs
    using cols(1) that cpoly_mono cpoly_trim unfolding trace_polys_def list_all_iff [of _ cols] by (meson cpoly_canon)
  then have T: "list_all (\<lambda>T. list_all canon T \<and> length (poly_trim T) \<le> 2 ^ d) cols" by (auto simp: list_all_iff cpoly_def)
  have "(1 :: nat) \<le> 2 ^ d" by simp
  note deep = build_deep [OF T this Hc zc, where gammaZ = gaZ and gammaGZ = gaGZ and gammaH = gaH, folded colZ_def colGZ_def Hz_def, folded P_def]
  obtain fri deepTree where fri: "eval_on_lde P (2 ^ L) = Some (codeword omega L P)" "fri_prove E xof (codeword omega L P) mc_fri_params = Some fri"
      "fri_verify E xof fri mc_fri_params = Some True" "commit_evals E (codeword omega L P) = Some (hd (fr_LayerRoots fri), deepTree)"
    and fl: "fr_LayerRoots fri \<noteq> []" "fr_LogDomain fri = of_nat L"
    using low_degree_test [OF om L_def L(2,5) deep(1) fe] by blast
  obtain ps t4 where ps: "query_positions xof ''mc/query'' mcNumQueries (int (2 ^ L)) (absorb_fri_digest fri t3) = Some (ps, t4)"
    using qe by fastforce
  have psN: "pos < 2 ^ L" if "pos \<in> set ps" for pos using query_positions_ok(2) [OF ps that] by (simp only: of_nat_less_iff)
  define comb where "comb = (\<lambda>x colVals Hx. mc_deep_combine_at x colVals Hx z gz colZ colGZ Hz gaZ gaGZ gaH)"
  have "\<exists>op. open_at (map (snd \<circ> cm) cols) (map (codeword omega L) cols) compTree (codeword omega L Hc) deepTree (codeword omega L P) pos = Some op
    \<and> (comb (felt_exp omega (of_nat pos)) (map (\<lambda>cs. codeword omega L cs ! pos) cols) (codeword omega L Hc ! pos) = codeword omega L P ! pos \<longrightarrow>
         opening_ok E roots compRoot w (hd (fr_LayerRoots fri)) comb omega (2 ^ L) pos op)" if "pos \<in> set ps" for pos
    unfolding roots_def by (rule opening_verifies [OF cm cr fri(4) psN [OF that] L(2) cols(2)])
  then obtain opf where opf: "\<And>pos. pos \<in> set ps \<Longrightarrow>
      open_at (map (snd \<circ> cm) cols) (map (codeword omega L) cols) compTree (codeword omega L Hc) deepTree (codeword omega L P) pos = Some (opf pos)"
    and opf_ok: "\<And>pos. pos \<in> set ps \<Longrightarrow>
      comb (felt_exp omega (of_nat pos)) (map (\<lambda>cs. codeword omega L cs ! pos) cols) (codeword omega L Hc ! pos) = codeword omega L P ! pos \<Longrightarrow>
         opening_ok E roots compRoot w (hd (fr_LayerRoots fri)) comb omega (2 ^ L) pos (opf pos)" by metis
  have ops: "all_some (map (open_at (map snd (map cm cols)) (map (codeword omega L) cols) compTree (codeword omega L Hc) deepTree (codeword omega L P)) ps)
      = Some (map opf ps)" unfolding map_map using opf by (intro all_some_map) simp
  define pf where "pf = \<lparr>ap_ColRoots = roots, ap_CompRoot = compRoot, ap_OodColZ = colZ,
              ap_OodColGZ = colGZ, ap_OodHz = Hz, ap_Fri = fri, ap_Openings = map opf ps\<rparr>"
  have roots: "map fst (map cm cols) = roots" by (simp add: roots_def)
  have "prove_air E xof A trace public = Some pf"
    unfolding prove_air_def Let_def bigN guards
    by (simp only: guards trace_guards [OF sat] simp_thms if_False g bind.bind_lunit ev split_conv commits roots t0_def [symmetric] al(1)
        comp cr z gz_def [symmetric] colZ_def [symmetric] colGZ_def [symmetric] Hz_def [symmetric] ga P_def [symmetric]
        fri prove_fri_mc_def build_deep_tree_def option.map snd_conv ps ops pf_def)
  moreover have "ood_point xof A pf public = Some z"
    unfolding ood_point_def Let_def guards
    by (simp only: pf_def air_proof.simps t0_def [symmetric] guards al(1) bind.bind_lunit split_conv z)
  moreover have "verify_air E xof A pf public = Some True" if zo: "felt_exp z (of_nat (2 ^ L)) \<noteq> 1"
  proof -
    note off = off_domain [OF zo L(1,2)]
    have at_z: "mc_check_constraints_at_z A z g (2 ^ l) as bs colZ colGZ Hz = Some True"
      using check [OF zc(1) off(2)] by (simp add: colZ_def colGZ_def Hz_def gz_def rows_at_def)
    have "comb (felt_exp omega (of_nat pos)) (map (\<lambda>cs. codeword omega L cs ! pos) cols) (codeword omega L Hc ! pos) = codeword omega L P ! pos"
      if pos: "pos \<in> set ps" for pos
    proof -
      have "codeword omega L cs ! pos = eval_poly cs (felt_exp omega (of_nat pos))" for cs using psN [OF pos] by (simp add: codeword_def)
      then show ?thesis
        using deep(2) [OF canon_felt_exp query_off [OF g om L(1,2) off(1) psN [OF pos], folded gz_def]] by (simp add: comb_def)
    qed
    then have opens: "list_all (\<lambda>(pos, op). opening_ok E roots compRoot w (hd (fr_LayerRoots fri)) comb omega (2 ^ L) pos op) (zip ps (map opf ps))"
      using opf_ok by (auto simp: list_all_iff zip_map2 set_zip)
    have lens: "int (length roots) = air_NumColumns A" "int (length colZ) = air_NumColumns A" "int (length colGZ) = air_NumColumns A"
        "int (length (map opf ps)) = mcNumQueries"
      using cols(2) query_positions_ok(1) [OF ps] columns by (simp_all add: roots_def colZ_def colGZ_def)
    show ?thesis
      unfolding verify_air_def Let_def guards
      by (simp only: guards lens pow fl fri(3) g bind.bind_lunit pf_def air_proof.simps bigN simp_thms if_False if_True
        t0_def [symmetric] al(1) split_conv z gz_def [symmetric] ga ps at_z om comb_def [symmetric] opens not_True_eq_False)
  qed
  ultimately show ?thesis unfolding bigN by blast
qed

end

end
