(* ===== verification/PoseidonAirProps.thy ===== *)
theory PoseidonAirProps
  imports PoseidonAir AirProps
begin

text \<open>
  The Poseidon \<^verbatim>\<open>AIR\<close> has the degree it declares, its constraints say exactly that the digest is that of
  the permutation, and its proofs are accepted.
\<close>

subsection \<open>The degree of the constraints\<close>

lemma low_degree_exp:
  assumes "low_degree w e f"
  shows "low_degree w (unat n * e) (\<lambda>cur nxt. felt_exp (f cur nxt) n)"
proof (rule low_degreeI)
  fix d C D assume a: "length C = w" "length D = w" "list_all (cpoly (Suc d)) C" "list_all (cpoly (Suc d)) D"
  have c: "canon (f (rows_at C x) (rows_at D x))" if "canon x" for x using low_degreeE [OF assms a] that by blast
  show "\<exists>zs. length zs \<le> Suc (unat n * e * d) \<and> (\<forall>x. canon x \<longrightarrow>
      canon (felt_exp (f (rows_at C x) (rows_at D x)) n) \<and> emb (felt_exp (f (rows_at C x) (rows_at D x)) n) = value_at zs (emb x))"
    using low_degreeE [OF low_degree_power [OF assms, of "unat n"] a] by (simp add: felt_exp_iterated [OF c])
qed

lemma low_degree_sum:
  "(\<And>j. j \<in> set js \<Longrightarrow> low_degree w e (h j)) \<Longrightarrow> low_degree w e (\<lambda>cur nxt. fold (\<lambda>j acc. felt_add acc (h j cur nxt)) js 0)"
proof (induction js rule: rev_induct)
  case Nil
  show ?case using low_degree_mono [OF low_degree_const [of 0 w]] by (simp add: felt_simps)
next
  case (snoc j js)
  then show ?case by (simp add: low_degree_add)
qed

definition pf_arc :: "felt list \<Rightarrow> nat \<Rightarrow> felt" where
  "pf_arc cur k = felt_add (cur ! k) (cur ! (12 + k))"

definition pf_sb :: "felt list \<Rightarrow> nat \<Rightarrow> felt" where
  "pf_sb cur j = (if j = 0 then felt_exp (pf_arc cur 0) poseidonAlpha
     else felt_add (felt_mul (cur ! 24) (felt_exp (pf_arc cur j) poseidonAlpha)) (felt_mul (felt_sub 1 (cur ! 24)) (pf_arc cur j)))"

definition pf_round :: "felt list list \<Rightarrow> felt list \<Rightarrow> nat \<Rightarrow> felt" where
  "pf_round mds cur k = fold (\<lambda>j acc. felt_add acc (felt_mul (mds ! k ! j) (pf_sb cur j))) [0 ..< 12] 0"

definition pf_residue :: "felt list list \<Rightarrow> nat \<Rightarrow> felt list \<Rightarrow> felt list \<Rightarrow> felt" where
  "pf_residue mds k cur nxt = felt_sub (nxt ! k)
     (felt_add (felt_mul (cur ! 25) (pf_round mds cur k)) (felt_mul (felt_sub 1 (cur ! 25)) (cur ! k)))"

lemma upt_12: "[0 ..< 12] = [0, 1, 2, 3, 4, 5, 6, 7, 8, 9, 10, 11 :: nat]" "[1 ..< 12] = [1, 2, 3, 4, 5, 6, 7, 8, 9, 10, 11 :: nat]"
  by (simp_all add: upt_rec)

lemma mds_row_cong: "(\<And>j. j < 12 \<Longrightarrow> sb ! j = f j) \<Longrightarrow> mds_row mds k sb = fold (\<lambda>j acc. felt_add acc (felt_mul (mds ! k ! j) (f j))) [0 ..< 12] 0"
  unfolding mds_row_def pf_consts by (rule fold_cong) simp_all

lemma nth_first_loop:
  "j < 12 \<Longrightarrow> (x # map f [1 ..< 12]) ! j = (if j = 0 then x else f j)"
  "j < 12 \<Longrightarrow> (x # map f [Suc 0 ..< 12]) ! j = (if j = 0 then x else f j)"
  by (cases j; simp)+

lemma mds_row_sb:
  "mds_row mds k (felt_exp (map (\<lambda>k. felt_add (cur ! k) (cur ! (12 + k))) [0 ..< 12] ! 0) poseidonAlpha #
       map (\<lambda>j. felt_add (felt_mul (cur ! 24) (felt_exp (map (\<lambda>k. felt_add (cur ! k) (cur ! (12 + k))) [0 ..< 12] ! j) poseidonAlpha))
            (felt_mul (felt_sub 1 (cur ! 24)) (map (\<lambda>k. felt_add (cur ! k) (cur ! (12 + k))) [0 ..< 12] ! j))) [1 ..< 12]) = pf_round mds cur k"
  unfolding pf_round_def by (rule mds_row_cong) (auto simp: nth_first_loop pf_sb_def pf_arc_def)

lemma pf_eval_residues: "pf_eval_transition mds cur nxt = map (\<lambda>k. pf_residue mds k cur nxt) [0 ..< 12]"
  using mds_row_sb by (simp add: pf_eval_transition_def pf_residue_def pf_consts Let_def)

text \<open>The columns of a round are the first of a row, also in the circuits that extend this one.\<close>

lemma low_degree_arc: "26 \<le> w \<Longrightarrow> j < 12 \<Longrightarrow> low_degree w 1 (\<lambda>cur nxt. pf_arc cur j)"
  unfolding pf_arc_def by (intro low_degree_add low_degree_cur) simp_all

lemma low_degree_arc7: "26 \<le> w \<Longrightarrow> j < 12 \<Longrightarrow> low_degree w 7 (\<lambda>cur nxt. felt_exp (pf_arc cur j) poseidonAlpha)"
  using low_degree_exp [OF low_degree_arc, of w j poseidonAlpha] by (simp add: poseidonAlpha_def)

lemma low_degree_one_minus: "low_degree w e f \<Longrightarrow> low_degree w e (\<lambda>cur nxt. felt_sub 1 (f cur nxt))"
  using low_degree_mono [OF low_degree_const [of 1 w], of e] by (intro low_degree_sub) (simp_all add: felt_simps)

lemma low_degree_sb:
  assumes w: "26 \<le> w" and j: "j < 12"
  shows "low_degree w 8 (\<lambda>cur nxt. pf_sb cur j)"
proof (cases "j = 0")
  case True
  then show ?thesis using low_degree_mono [OF low_degree_arc7 [OF w, of 0], of 8] by (simp add: pf_sb_def)
next
  case False
  have fsel: "low_degree w 1 (\<lambda>cur nxt. cur ! 24)" using low_degree_cur [of 24 w] w by simp
  have "low_degree w 8 (\<lambda>cur nxt. felt_mul (cur ! 24) (felt_exp (pf_arc cur j) poseidonAlpha))"
    using low_degree_mul [OF fsel low_degree_arc7 [OF w j]] by simp
  moreover have "low_degree w 8 (\<lambda>cur nxt. felt_mul (felt_sub 1 (cur ! 24)) (pf_arc cur j))"
    using low_degree_mono [OF low_degree_mul [OF low_degree_one_minus [OF fsel] low_degree_arc [OF w j]], of 8] by simp
  ultimately show ?thesis using False by (simp add: pf_sb_def low_degree_add)
qed

lemma low_degree_round:
  assumes mds: "\<forall>row \<in> set mds. list_all canon row" "length mds = 12" "\<forall>row \<in> set mds. length row = 12" and k: "k < 12" and w: "26 \<le> w"
  shows "low_degree w 9 (\<lambda>cur nxt. felt_mul (cur ! 25) (pf_round mds cur k))"
proof -
  have m: "canon (mds ! k ! j)" if "j < 12" for j using mds k that by (auto simp: list_all_length)
  have "low_degree w 8 (\<lambda>cur nxt. pf_round mds cur k)"
    unfolding pf_round_def
    by (rule low_degree_sum) (use low_degree_mul [OF low_degree_const low_degree_sb [OF w]] m in simp)
  from low_degree_mul [OF low_degree_cur [of 25 w] this] w show ?thesis by simp
qed

lemma low_degree_residue:
  assumes mds: "\<forall>row \<in> set mds. list_all canon row" "length mds = 12" "\<forall>row \<in> set mds. length row = 12" and k: "k < 12"
  shows "low_degree 26 9 (pf_residue mds k)"
proof -
  note 1 = low_degree_round [OF mds k order_refl]
  have "low_degree 26 1 (\<lambda>cur nxt. felt_sub 1 (cur ! 25))" by (intro low_degree_one_minus low_degree_cur) simp
  then have 2: "low_degree 26 9 (\<lambda>cur nxt. felt_mul (felt_sub 1 (cur ! 25)) (cur ! k))"
    using low_degree_mono [OF low_degree_mul [OF _ low_degree_cur [of k 26]], of _ _ 9] k by simp
  have 3: "low_degree 26 9 (\<lambda>cur nxt. nxt ! k)" using low_degree_mono [OF low_degree_next [of k 26], of 9] k by simp
  show ?thesis unfolding pf_residue_def [abs_def] by (intro low_degree_sub low_degree_add 1 2 3)
qed

lemma mds_canon:
  "\<forall>row \<in> set (mds_of_points pts). list_all canon row" "length (mds_of_points pts) = 12" "\<forall>row \<in> set (mds_of_points pts). length row = 12"
  by (auto simp: mds_of_points_def poseidonWidth_def list_all_iff canon_felt_inv)

text \<open>The contract of the proof system holds for this \<^verbatim>\<open>AIR\<close>, for all parameters.\<close>

interpretation poseidon_full: algebraic_air "poseidon_full_air pp input digest" 26 5 12 for pp input digest
proof
  show "low_degree 26 (nat (air_MaxDegree (poseidon_full_air pp input digest))) (\<lambda>cur nxt. air_EvalTransition (poseidon_full_air pp input digest) cur nxt ! k)"
    if "k < 12" for k
    using low_degree_residue [OF mds_canon that, of "pp_points pp"] that
    by (simp add: poseidon_full_air_def pf_eval_residues pfMaxDegree_def)
qed (simp_all add: poseidon_full_air_def pf_eval_residues pf_consts)

subsection \<open>The rounds of the trace\<close>

definition params_ok :: "poseidon_params \<Rightarrow> bool" where
  "params_ok pp \<longleftrightarrow> length (pp_rc pp) = 30 \<and> (\<forall>rc \<in> set (pp_rc pp). length rc = 12 \<and> list_all canon rc)"

definition state_ok :: "felt list \<Rightarrow> bool" where
  "state_ok s \<longleftrightarrow> length s = 12 \<and> list_all canon s"

definition round_of :: "poseidon_params \<Rightarrow> nat \<Rightarrow> felt list \<Rightarrow> felt list" where
  "round_of pp r s = (if pf_is_full_round r then full_round (mds_of_points (pp_points pp)) (pp_rc pp ! r) s
     else partial_round (mds_of_points (pp_points pp)) (pp_rc pp ! r) s)"

lemma apply_mds_rows:
  assumes "length st = 12"
  shows "apply_mds (mds_of_points pts) st = map (\<lambda>k. mds_row (mds_of_points pts) k st) [0 ..< 12]"
proof (rule nth_equalityI)
  fix k assume "k < length (apply_mds (mds_of_points pts) st)"
  then have k: "k < 12" by (simp add: apply_mds_def mds_canon(2))
  then have "mds_of_points pts ! k \<in> set (mds_of_points pts)" by (simp add: mds_canon(2))
  then have "length (mds_of_points pts ! k) = 12" using mds_canon(3) by blast
  then have "zip (mds_of_points pts ! k) st = map (\<lambda>j. (mds_of_points pts ! k ! j, st ! j)) [0 ..< 12]"
    using assms by (intro nth_equalityI) simp_all
  then show "apply_mds (mds_of_points pts) st ! k = map (\<lambda>k. mds_row (mds_of_points pts) k st) [0 ..< 12] ! k"
    using k by (simp add: apply_mds_def mds_canon(2) mds_row_def pf_consts fold_map comp_def)
qed (simp add: apply_mds_def mds_canon(2))

lemma canon_mds_row: "(\<forall>j < 12. canon (mds ! k ! j)) \<Longrightarrow> canon (mds_row mds k sb)"
proof -
  have "canon acc \<Longrightarrow> canon (fold (\<lambda>j acc. felt_add acc (felt_mul (mds ! k ! j) (sb ! j))) js acc)" for acc js
    by (induction js arbitrary: acc) (simp_all add: felt_simps)
  then show ?thesis by (simp add: mds_row_def felt_simps)
qed

lemma round_of_ok: "state_ok s \<Longrightarrow> state_ok (round_of pp r s)"
proof -
  have c: "state_ok (apply_mds (mds_of_points (pp_points pp)) st)" for st
  proof -
    have "canon acc \<Longrightarrow> canon (fold (\<lambda>(m, s) acc. felt_add acc (felt_mul m s)) ps acc)" for acc ps
      by (induction ps arbitrary: acc) (auto simp: felt_simps)
    then show ?thesis by (simp add: state_ok_def apply_mds_def mds_canon(2) list_all_iff felt_simps)
  qed
  then show ?thesis by (simp add: round_of_def full_round_def partial_round_def Let_def)
qed

lemma apply_round:
  assumes s: "state_ok s" and rc: "length rc = 12"
  shows "pf_apply_round (mds_of_points pts) s rc full =
    (if full then full_round (mds_of_points pts) rc s else partial_round (mds_of_points pts) rc s)"
proof -
  have a: "add_round_constants rc s = map (\<lambda>k. felt_add (s ! k) (rc ! k)) [0 ..< 12]"
    using s rc by (intro nth_equalityI) (simp_all add: add_round_constants_def state_ok_def)
  let ?sb = "felt_exp (map (\<lambda>k. felt_add (s ! k) (rc ! k)) [0 ..< 12] ! 0) poseidonAlpha # map (\<lambda>k. if full
      then felt_exp (map (\<lambda>k. felt_add (s ! k) (rc ! k)) [0 ..< 12] ! k) poseidonAlpha else map (\<lambda>k. felt_add (s ! k) (rc ! k)) [0 ..< 12] ! k) [1 ..< 12]"
  have sb: "?sb = (if full then map sbox (add_round_constants rc s) else (add_round_constants rc s)[0 := sbox (add_round_constants rc s ! 0)])"
    by (rule nth_equalityI) (auto simp: a sbox_def nth_first_loop nth_list_update simp del: list.map upt_Suc)
  have "length ?sb = 12" by simp
  from apply_mds_rows [OF this, of pts] show ?thesis
    unfolding pf_apply_round_def pf_consts Let_def sb by (auto simp: full_round_def partial_round_def Let_def)
qed

lemma permute_rounds:
  assumes "length (pp_rc pp) = 30"
  shows "permute pp st = fold (round_of pp) [0 ..< 30] st"
proof -
  define mds where "mds = mds_of_points (pp_points pp)"
  have slice: "take n (drop m (pp_rc pp)) = map ((!) (pp_rc pp)) [m ..< m + n]" if "m + n \<le> 30" for m n
    using assms that by (intro nth_equalityI) simp_all
  have full: "fold (full_round mds) (map ((!) (pp_rc pp)) [m ..< n]) = fold (round_of pp) [m ..< n]" if "n \<le> 4 \<or> 26 \<le> m" for m n
    unfolding fold_map by (rule ext, rule fold_cong) (use that in \<open>auto simp: round_of_def pf_is_full_round_def pf_consts mds_def\<close>)
  have partial: "fold (partial_round mds) (map ((!) (pp_rc pp)) [m ..< n]) = fold (round_of pp) [m ..< n]" if "4 \<le> m" "n \<le> 26" for m n
    unfolding fold_map by (rule ext, rule fold_cong) (use that in \<open>auto simp: round_of_def pf_is_full_round_def pf_consts mds_def\<close>)
  have sizes: "halfFull = 4" "poseidonPartialRounds = 22" by (simp_all add: halfFull_def pf_consts)
  have split: "[0 ..< a + b + c] = [0 ..< a] @ [a ..< a + b] @ [a + b ..< a + b + c]" for a b c :: nat
    using upt_add_eq_append [of 0 a "b + c"] upt_add_eq_append [of a "a + b" c] by (simp add: add.assoc)
  have "permute pp st = fold (full_round mds) (take 4 (drop (4 + 22) (pp_rc pp)))
     (fold (partial_round mds) (take 22 (drop 4 (pp_rc pp))) (fold (full_round mds) (take 4 (drop 0 (pp_rc pp))) st))"
    unfolding permute_def Let_def sizes mds_def by simp
  also have "\<dots> = fold (round_of pp) [4 + 22 ..< 4 + 22 + 4] (fold (round_of pp) [4 ..< 4 + 22] (fold (round_of pp) [0 ..< 0 + 4] st))"
    by (subst slice, simp, subst slice, simp, subst slice, simp, subst full, simp, subst partial, simp, simp, subst full, simp, rule refl)
  also have "\<dots> = fold (round_of pp) [0 ..< 4 + 22 + 4] st"
    unfolding split fold_append add_0 comp_def ..
  finally show ?thesis by (simp only: numeral_plus_numeral add_num_simps)
qed

text \<open>A row of the trace: a state, with the constants and selectors of its round.\<close>

definition row_ok :: "poseidon_params \<Rightarrow> nat \<Rightarrow> felt list \<Rightarrow> bool" where
  "row_ok pp i line \<longleftrightarrow> length line = 26 \<and> list_all canon line \<and>
     (let (rc, fsel, active) = pf_row_constants pp i
      in (\<forall>k < 12. line ! (12 + k) = rc ! k) \<and> line ! 24 = fsel \<and> line ! 25 = active)"

definition next_state :: "poseidon_params \<Rightarrow> nat \<Rightarrow> felt list \<Rightarrow> felt list" where
  "next_state pp i s = (if i < 30 then round_of pp i s else s)"

lemma row_state: "row_ok pp i line \<Longrightarrow> state_ok (take 12 line)"
  by (auto simp: row_ok_def state_ok_def list_all_iff dest: in_set_takeD)

lemma felt_units: "canon a \<Longrightarrow> felt_mul 1 a = a" "felt_mul 0 a = 0" "canon a \<Longrightarrow> felt_add a 0 = a" "canon a \<Longrightarrow> felt_add 0 a = a"
  "felt_sub 1 1 = 0" "felt_sub 1 0 = 1" "canon a \<Longrightarrow> canon b \<Longrightarrow> felt_sub a b = 0 \<longleftrightarrow> a = b"
proof -
  show "canon a \<Longrightarrow> felt_mul 1 a = a" by (rule emb_inject) (simp_all add: felt_simps emb_simps)
  show "felt_mul 0 a = 0" by (rule emb_inject) (simp_all add: felt_simps emb_simps)
  show "canon a \<Longrightarrow> felt_add a 0 = a" by (rule emb_inject) (simp_all add: felt_simps emb_simps)
  show "canon a \<Longrightarrow> felt_add 0 a = a" by (rule emb_inject) (simp_all add: felt_simps emb_simps)
  show "felt_sub 1 1 = 0" "felt_sub 1 0 = 1" by (rule emb_inject; simp add: felt_simps emb_simps)+
  show "felt_sub a b = 0 \<longleftrightarrow> a = b" if "canon a" "canon b"
  proof
    assume "felt_sub a b = 0"
    then have "emb a - emb b = 0" using that by (metis emb_sub emb_consts(1))
    then show "a = b" using that by (intro emb_inject) simp_all
  next
    assume "a = b"
    then show "felt_sub a b = 0" using that by (intro emb_inject) (simp_all add: felt_simps emb_simps)
  qed
qed

text \<open>The round the constraints compute from the cells of a row.\<close>

lemma pf_round_of:
  assumes pp: "params_ok pp" and i: "i < 30" and k: "k < 12" and len: "26 \<le> length cur" "list_all canon cur"
    and row: "\<forall>k < 12. cur ! (12 + k) = pp_rc pp ! i ! k" "cur ! 24 = (if pf_is_full_round i then 1 else 0)"
  shows "pf_round (mds_of_points (pp_points pp)) cur k = round_of pp i (take 12 cur) ! k" and "canon (pf_round (mds_of_points (pp_points pp)) cur k)"
proof -
  define mds where "mds = mds_of_points (pp_points pp)"
  define rc where "rc = pp_rc pp ! i"
  have mds: "\<forall>j < 12. canon (mds ! k ! j)"
    using k mds_canon [of "pp_points pp"] by (auto simp: mds_def list_all_length)
  have cn: "canon (cur ! k)" if "k < 26" for k using that len by (simp add: list_all_length)
  have rc: "length rc = 12" using i pp by (simp add: params_ok_def rc_def)
  have arc: "canon (pf_arc cur j)" if "j < 12" for j using that cn by (simp add: pf_arc_def felt_simps)
  have sb: "pf_sb cur j = (if j = 0 \<or> pf_is_full_round i then felt_exp (pf_arc cur j) poseidonAlpha else pf_arc cur j)" if "j < 12" for j
    using arc [OF that] by (simp add: pf_sb_def row(2) felt_units canon_felt_exp)
  have st: "state_ok (take 12 cur)" using len by (auto simp: state_ok_def list_all_iff dest: in_set_takeD)
  have "pf_apply_round mds (take 12 cur) rc (pf_is_full_round i) ! k = pf_round mds cur k"
    unfolding pf_apply_round_def pf_consts Let_def pf_round_def using k
    by (simp del: upt_Suc) (rule mds_row_cong, use row(1) in \<open>auto simp: nth_first_loop sb pf_arc_def rc_def simp del: upt_Suc\<close>)
  then show "pf_round (mds_of_points (pp_points pp)) cur k = round_of pp i (take 12 cur) ! k"
    by (simp only: round_of_def mds_def rc_def [symmetric] apply_round [OF st rc])
  show "canon (pf_round (mds_of_points (pp_points pp)) cur k)"
    using canon_mds_row [OF mds, of "map (pf_sb cur) [0 ..< 12]"] mds_row_cong [of "map (pf_sb cur) [0 ..< 12]" "pf_sb cur" mds k]
    by (simp add: pf_round_def mds_def del: upt_Suc)
qed

text \<open>The constraints between two rows say that the second state is the next one.\<close>

lemma transition_next:
  assumes pp: "params_ok pp" and cur: "row_ok pp i cur" and nxt: "length nxt = 26" "list_all canon nxt"
  shows "(\<forall>r \<in> set (pf_eval_transition (mds_of_points (pp_points pp)) cur nxt). r = 0) \<longleftrightarrow> take 12 nxt = next_state pp i (take 12 cur)"
proof -
  define mds where "mds = mds_of_points (pp_points pp)"
  have cn: "canon (cur ! k)" "canon (nxt ! k)" if "k < 26" for k
    using that cur nxt by (simp_all add: row_ok_def list_all_length)
  have "(pf_residue mds k cur nxt = 0) = (nxt ! k = next_state pp i (take 12 cur) ! k)" if k: "k < 12" for k
  proof (cases "i < 30")
    case True
    have row: "\<forall>k < 12. cur ! (12 + k) = pp_rc pp ! i ! k" "cur ! 24 = (if pf_is_full_round i then 1 else 0)" "cur ! 25 = 1"
      using cur True by (simp_all add: row_ok_def pf_row_constants_def pf_consts)
    have "26 \<le> length cur" "list_all canon cur" using cur by (simp_all add: row_ok_def)
    note r = pf_round_of [OF pp True k this row(1,2), folded mds_def]
    show ?thesis using r(2) cn [of k] k True by (simp add: pf_residue_def row(3) felt_units felt_simps next_state_def r(1) [symmetric])
  next
    case False
    then have "cur ! 25 = 0" using cur by (simp add: row_ok_def pf_row_constants_def pf_consts)
    then show ?thesis using False cn [of k] k by (simp add: pf_residue_def felt_units felt_simps next_state_def)
  qed
  moreover have "length (next_state pp i (take 12 cur)) = 12"
    using row_state [OF cur] round_of_ok [of "take 12 cur" pp i] by (simp add: next_state_def state_ok_def)
  ultimately show ?thesis
    using nxt(1) unfolding pf_eval_residues mds_def [symmetric] by (auto simp: list_eq_iff_nth_eq)
qed

subsection \<open>The trace the prover builds, and any trace that satisfies the constraints\<close>

definition state_at :: "poseidon_params \<Rightarrow> felt list \<Rightarrow> nat \<Rightarrow> felt list" where
  "state_at pp input i = fold (next_state pp) [0 ..< i] input"

lemma state_at_ok: "state_ok input \<Longrightarrow> state_ok (state_at pp input i)"
  by (induction i) (simp_all add: state_at_def next_state_def round_of_ok)

lemma state_at_output:
  assumes "length (pp_rc pp) = 30"
  shows "state_at pp input 30 = permute pp input" and "state_at pp input 31 = permute pp input"
proof -
  have "fold (next_state pp) [0 ..< 30] input = fold (round_of pp) [0 ..< 30] input"
    by (rule fold_cong) (auto simp: next_state_def)
  then show 1: "state_at pp input 30 = permute pp input" by (simp only: state_at_def permute_rounds [OF assms])
  have "[0 ..< 31] = [0 ..< 30] @ [30 :: nat]" using upt_Suc_append [of 0 30] by (simp del: upt_Suc upt_rec_numeral)
  then have "state_at pp input 31 = next_state pp 30 (state_at pp input 30)" unfolding state_at_def by (simp only: fold_append comp_def fold_simps)
  then show "state_at pp input 31 = permute pp input" using 1 by (simp add: next_state_def)
qed

lemma trace_rows:
  assumes pp: "params_ok pp" and input: "state_ok input" and i: "i \<le> 32"
  shows "fold (pf_row pp) [0 ..< i] ([], input) =
    (map (\<lambda>j. let (rc, fsel, active) = pf_row_constants pp j in pf_line (state_at pp input j) rc fsel active) [0 ..< i],
     state_at pp input (min i 31))"
  using i
proof (induction i)
  case (Suc i)
  have s: "state_ok (state_at pp input i)" by (rule state_at_ok [OF input])
  have "i < 30 \<Longrightarrow> length (pp_rc pp ! i) = 12" using pp by (simp add: params_ok_def)
  then have "i < 30 \<Longrightarrow> pf_apply_round (mds_of_points (pp_points pp)) (state_at pp input i) (pp_rc pp ! i) (pf_is_full_round i) = round_of pp i (state_at pp input i)"
    by (simp add: apply_round [OF s] round_of_def)
  then have "i < 31 \<Longrightarrow> snd (pf_row pp i (tr, state_at pp input i)) = state_at pp input (Suc i)" for tr
    by (cases "pf_is_full_round i") (simp_all add: pf_row_def pf_row_constants_def pf_consts state_at_def next_state_def)
  moreover have "snd (pf_row pp 31 (tr, s)) = s" for tr s by (simp add: pf_row_def case_prod_beta pf_consts)
  ultimately have st: "snd (pf_row pp i (tr, state_at pp input (min i 31))) = state_at pp input (min (Suc i) 31)" for tr
    using Suc.prems by (cases "i = 31") (simp_all add: min_def)
  have "fst (pf_row pp i (tr, s)) = tr @ [let (rc, fsel, active) = pf_row_constants pp i in pf_line s rc fsel active]" for tr s
    by (simp add: pf_row_def case_prod_beta)
  note row = this
  define xs where "xs = map (\<lambda>j. let (rc, fsel, active) = pf_row_constants pp j in pf_line (state_at pp input j) rc fsel active) [0 ..< i]"
  have IH: "fold (pf_row pp) [0 ..< i] ([], input) = (xs, state_at pp input (min i 31))" using Suc unfolding xs_def by simp
  have "[0 ..< Suc i] = [0 ..< i] @ [i]" by simp
  then have "fold (pf_row pp) [0 ..< Suc i] ([], input) = pf_row pp i (xs, state_at pp input (min i 31))"
    by (simp only: fold_append comp_def fold_simps IH)
  also have "\<dots> = (xs @ [let (rc, fsel, active) = pf_row_constants pp i in pf_line (state_at pp input (min i 31)) rc fsel active], state_at pp input (min (Suc i) 31))"
    by (rule prod_eqI) (simp_all only: row st fst_conv snd_conv)
  also have "min i 31 = i" using Suc.prems by simp
  finally show ?case by (simp only: xs_def \<open>[0 ..< Suc i] = [0 ..< i] @ [i]\<close> map_append list.map)
qed (simp add: state_at_def)

lemma line_row_ok:
  assumes pp: "params_ok pp" and s: "state_ok s" and c: "pf_row_constants pp i = (rc, fsel, active)"
  shows "row_ok pp i (pf_line s rc fsel active)" and "take 12 (pf_line s rc fsel active) = s"
proof -
  have rc: "length rc = 12" "list_all canon rc" "canon fsel" "canon active"
    using pp c by (auto simp: pf_row_constants_def pf_consts params_ok_def felt_simps list_all_iff split: if_splits)
  have m: "map (\<lambda>k. xs ! k) [0 ..< 12] = xs" if "length xs = 12" for xs :: "felt list"
    using that by (intro nth_equalityI) simp_all
  have l: "pf_line s rc fsel active = s @ rc @ [fsel, active]"
    using s rc(1) by (simp add: pf_line_def pf_consts m state_ok_def del: upt_rec_numeral)
  show "row_ok pp i (pf_line s rc fsel active)" using s rc by (simp add: l row_ok_def c state_ok_def nth_append)
  show "take 12 (pf_line s rc fsel active) = s" using s by (simp add: l state_ok_def)
qed

lemma boundaries_hold_iff:
  "(\<forall>bc \<in> set (pf_boundaries pp input digest). P bc) \<longleftrightarrow>
     (\<forall>k < 12. P (pf_boundary k 0 (input ! k)))
     \<and> (\<forall>row < 32. let (rc, fsel, active) = pf_row_constants pp row
          in (\<forall>k < 12. P (pf_boundary (12 + k) row (rc ! k))) \<and> P (pf_boundary 24 row fsel) \<and> P (pf_boundary 25 row active))
     \<and> (\<forall>k < 4. P (pf_boundary k 30 (digest ! k)))"
  by (simp add: pf_boundaries_def pf_consts ball_Un case_prod_beta Let_def del: upt_rec_numeral)
    (auto simp: case_prod_beta)

text \<open>What the constraints say, row by row.\<close>

lemma satisfied_iff:
  assumes pp: "params_ok pp" and input: "length input = 12" and digest: "length digest = 4"
  shows "air_satisfied (poseidon_full_air pp input digest) trace \<longleftrightarrow>
    length trace = 32 \<and> (\<forall>i < 32. row_ok pp i (trace ! i)) \<and> take 12 (trace ! 0) = input
    \<and> (\<forall>i < 31. take 12 (trace ! Suc i) = next_state pp i (take 12 (trace ! i))) \<and> take 4 (trace ! 30) = digest"
    (is "?sat \<longleftrightarrow> ?rows")
proof (cases "length trace = 32 \<and> (\<forall>row \<in> set trace. length row = 26 \<and> list_all canon row)")
  case False
  then show ?thesis by (auto simp: air_satisfied_def poseidon_full_air_def pf_consts row_ok_def in_set_conv_nth)
next
  case True
  define A where "A = poseidon_full_air pp input digest"
  have base: "length trace = 32" "length (trace ! i) = 26" "list_all canon (trace ! i)" if "i < 32" for i
    using True that by auto
  have dims: "air_NumSteps A = 32" "air_NumColumns A = 26" "air_EvalTransition A = pf_eval_transition (mds_of_points (pp_points pp))"
      "air_Boundaries A = pf_boundaries pp input digest"
    by (simp_all add: A_def poseidon_full_air_def pf_consts)
  have n12: "nat (12 + int k) = 12 + k" for k by simp
  have cells: "(\<forall>bc \<in> set (air_Boundaries A). 0 \<le> bc_Col bc \<and> bc_Col bc < air_NumColumns A
          \<and> 0 \<le> bc_Row bc \<and> bc_Row bc < air_NumSteps A \<and> trace ! nat (bc_Row bc) ! nat (bc_Col bc) = bc_Value bc) \<longleftrightarrow>
      (\<forall>k < 12. trace ! 0 ! k = input ! k)
      \<and> (\<forall>row < 32. row_ok pp row (trace ! row))
      \<and> (\<forall>k < 4. trace ! 30 ! k = digest ! k)"
    unfolding dims boundaries_hold_iff row_ok_def using base by (simp add: pf_boundary_def Let_def case_prod_beta n12)
  have first: "(\<forall>k < 12. trace ! 0 ! k = input ! k) \<longleftrightarrow> take 12 (trace ! 0) = input"
    using base(2) [of 0] input by (simp add: list_eq_iff_nth_eq)
  have last: "(\<forall>k < 4. trace ! 30 ! k = digest ! k) \<longleftrightarrow> take 4 (trace ! 30) = digest"
    using base(2) [of 30] digest by (simp add: list_eq_iff_nth_eq)
  have trans: "(\<forall>i. Suc i < length trace \<longrightarrow> (\<forall>r \<in> set (air_EvalTransition A (trace ! i) (trace ! Suc i)). r = 0))
      \<longleftrightarrow> (\<forall>i < 31. take 12 (trace ! Suc i) = next_state pp i (take 12 (trace ! i)))" if "\<forall>row < 32. row_ok pp row (trace ! row)"
  proof -
    have "(\<forall>r \<in> set (air_EvalTransition A (trace ! i) (trace ! Suc i)). r = 0) \<longleftrightarrow> take 12 (trace ! Suc i) = next_state pp i (take 12 (trace ! i))"
      if "i < 31" for i
      using that \<open>\<forall>row < 32. row_ok pp row (trace ! row)\<close> base [of "Suc i"] unfolding dims by (intro transition_next [OF pp]) simp_all
    then show ?thesis using True by auto
  qed
  have "?sat \<longleftrightarrow> (\<forall>i. Suc i < length trace \<longrightarrow> (\<forall>r \<in> set (air_EvalTransition A (trace ! i) (trace ! Suc i)). r = 0))
      \<and> (\<forall>k < 12. trace ! 0 ! k = input ! k) \<and> (\<forall>row < 32. row_ok pp row (trace ! row)) \<and> (\<forall>k < 4. trace ! 30 ! k = digest ! k)"
    unfolding air_satisfied_def A_def [symmetric] cells using True dims(1,2) by auto
  then show ?thesis unfolding first last using trans True by blast
qed

text \<open>The states of a trace that satisfies the constraints are those of the permutation.\<close>

lemma satisfied_states:
  assumes "take 12 (trace ! 0) = input" and "\<forall>i < 31. take 12 (trace ! Suc i) = next_state pp i (take 12 (trace ! i))" and "i \<le> 31"
  shows "take 12 (trace ! i) = state_at pp input i"
  using assms(3) by (induction i) (simp_all add: assms(1,2) state_at_def)

lemma built_trace_satisfies:
  assumes pp: "params_ok pp" and input: "state_ok input"
  shows "build_poseidon_full_trace pp input = (trace, output) \<Longrightarrow> output = permute pp input
    \<and> air_satisfied (poseidon_full_air pp input (take 4 output)) trace"
proof -
  assume b: "build_poseidon_full_trace pp input = (trace, output)"
  have len: "length (pp_rc pp) = 30" using pp by (simp add: params_ok_def)
  from b have tr: "trace = map (\<lambda>j. let (rc, fsel, active) = pf_row_constants pp j in pf_line (state_at pp input j) rc fsel active) [0 ..< 32]"
    and out: "output = permute pp input"
    using trace_rows [OF pp input, of 32] state_at_output(2) [OF len]
    by (simp_all add: build_poseidon_full_trace_def pfSteps_def del: upt_rec_numeral)
  have row: "row_ok pp i (trace ! i) \<and> take 12 (trace ! i) = state_at pp input i" if "i < 32" for i
    using that line_row_ok [OF pp state_at_ok [OF input, of pp i]]
    by (cases "pf_row_constants pp i") (simp add: tr del: upt_rec_numeral)
  have ok: "state_ok output" using state_at_ok [OF input, of pp 30] state_at_output(1) [OF len] out by simp
  have "take 4 (take 12 (trace ! 30)) = take 4 output" using row [of 30] state_at_output(1) [OF len] out by simp
  then have "take 4 (trace ! 30) = take 4 output" by (simp add: min_def)
  moreover have "take 12 (trace ! 0) = input" using row [of 0] by (simp add: state_at_def)
  moreover have "length trace = 32" by (simp add: tr del: upt_rec_numeral)
  ultimately have "air_satisfied (poseidon_full_air pp input (take 4 output)) trace"
    using row input ok by (subst satisfied_iff [OF pp]) (simp_all add: state_ok_def state_at_def)
  with out show ?thesis by blast
qed

subsection \<open>The constraints are the permutation\<close>

text \<open>
  C35. The constraints of the Poseidon arithmetisation say neither more nor less than the permutation: a trace
  that satisfies them exists for an input and a digest exactly if the digest is the first four elements of
  the permutation of the input.
\<close>

theorem poseidon_air_exact:
  assumes "params_ok pp" and "state_ok input" and "length digest = 4"
  shows "(\<exists>trace. air_satisfied (poseidon_full_air pp input digest) trace) \<longleftrightarrow> digest = take 4 (permute pp input)"
proof
  have len: "length (pp_rc pp) = 30" using assms(1) by (simp add: params_ok_def)
  have il: "length input = 12" using assms(2) by (simp add: state_ok_def)
  assume "\<exists>trace. air_satisfied (poseidon_full_air pp input digest) trace"
  then obtain trace where t: "take 12 (trace ! 0) = input" "\<forall>i < 31. take 12 (trace ! Suc i) = next_state pp i (take 12 (trace ! i))"
      "take 4 (trace ! 30) = digest"
    unfolding satisfied_iff [OF assms(1) il assms(3)] by blast
  have "take 12 (trace ! 30) = permute pp input"
    using satisfied_states [OF t(1,2), of 30] state_at_output(1) [OF len] by simp
  then have "take 4 (take 12 (trace ! 30)) = take 4 (permute pp input)" by simp
  then show "digest = take 4 (permute pp input)" using t(3) by (simp add: min_def)
next
  assume d: "digest = take 4 (permute pp input)"
  obtain trace out where "build_poseidon_full_trace pp input = (trace, out)" by fastforce
  from built_trace_satisfies [OF assms(1,2) this] show "\<exists>trace. air_satisfied (poseidon_full_air pp input digest) trace"
    unfolding d by blast
qed

definition zero_params :: poseidon_params where
  "zero_params = \<lparr>pp_points = replicate 24 0, pp_rc = replicate 30 (replicate 12 0)\<rparr>"

lemma zero_params_ok: "params_ok zero_params" "state_ok (replicate 12 0)"
  by (simp_all add: params_ok_def zero_params_def state_ok_def list_all_iff felt_simps)

lemma zero_permute: "permute zero_params (replicate 12 0) = replicate 12 0"
proof -
  have inv: "felt_inv (felt_sub 0 0) = 0" by code_simp
  have s0: "sbox 0 = 0" by code_simp
  have a0: "felt_add 0 0 = 0" "felt_mul 0 0 = 0" by code_simp+
  have mds: "mds_of_points (pp_points zero_params) = replicate 12 (replicate 12 0)"
    by (rule nth_equalityI; simp add: zero_params_def mds_of_points_def poseidonWidth_def; rule nth_equalityI; simp add: inv)
  have "fold (\<lambda>(m, s) acc. felt_add acc (felt_mul m s)) (replicate n (0, 0)) 0 = 0" for n by (induction n) (simp_all add: a0)
  then have am: "apply_mds (replicate 12 (replicate 12 0)) (replicate 12 0) = replicate 12 0"
    by (simp add: apply_mds_def)
  have ac: "add_round_constants (replicate 12 0) (replicate 12 0) = replicate 12 0" by (simp add: add_round_constants_def a0)
  have "round_of zero_params r (replicate 12 0) = replicate 12 0" if "r < 30" for r
  proof -
    have "pp_rc zero_params ! r = replicate 12 0" using that by (simp add: zero_params_def)
    moreover have "(replicate 12 (0 :: felt))[0 := 0] = replicate 12 0" by (simp add: list_update_same_conv)
    moreover have "replicate 12 (0 :: felt) ! 0 = 0" by (simp)
    ultimately show ?thesis
      by (simp add: round_of_def full_round_def partial_round_def Let_def mds ac am s0)
  qed
  then have "n \<le> 30 \<Longrightarrow> fold (round_of zero_params) [0 ..< n] (replicate 12 0) = replicate 12 0" for n
    by (induction n) (simp_all del: upt_rec_numeral)
  then show ?thesis using permute_rounds [of zero_params] by (simp add: zero_params_def del: upt_rec_numeral)
qed

theorem poseidon_air_exact_witness:
  "(\<exists>trace. air_satisfied (poseidon_full_air zero_params (replicate 12 0) [0, 0, 0, 0]) trace)
   \<and> \<not> (\<exists>trace. air_satisfied (poseidon_full_air zero_params (replicate 12 0) [0, 0, 0, 1]) trace)"
proof -
  have "take 4 (replicate 12 (0 :: felt)) = [0, 0, 0, 0]" by (simp add: numeral_nat)
  then show ?thesis
    using poseidon_air_exact [OF zero_params_ok, of "[0, 0, 0, 0]"] poseidon_air_exact [OF zero_params_ok, of "[0, 0, 0, 1]"]
    by (simp only: zero_permute) simp
qed

subsection \<open>A proof of a hash is accepted\<close>

text \<open>
  C36. For every input state the prover returns the digest of the Poseidon permutation with a proof, and the
  verifier accepts the proof for that input and digest, unless the point drawn out of the domain happens to
  lie in it: the trace satisfies the constraints, their quotients are polynomials of the declared degree,
  the two transcripts agree, the DEEP quotient passes the low-degree test and every opening verifies.
\<close>

theorem poseidon_hash_proved:
  assumes "params_ok pp" and "state_ok input" and "air_draws_end xof 4096"
  shows "\<exists>pf z. prove_hash_full E xof pp input = Some (take 4 (permute pp input), pf)
    \<and> ood_point xof (poseidon_full_air pp input (take 4 (permute pp input))) pf (input @ take 4 (permute pp input)) = Some z
    \<and> (felt_exp z 4096 \<noteq> 1 \<longrightarrow> verify_hash_full E xof pp input (take 4 (permute pp input)) pf = Some True)"
proof -
  obtain trace out where b: "build_poseidon_full_trace pp input = (trace, out)" by fastforce
  have s: "out = permute pp input" "air_satisfied (poseidon_full_air pp input (take 4 out)) trace"
    using built_trace_satisfies [OF assms(1,2) b] by blast+
  define A where "A = poseidon_full_air pp input (take 4 out)"
  have "go_times 9 32 = 288" "next_pow2 288 = 512" "go_times 8 512 = 4096"
    by (simp_all add: go_times_small next_pow2_def bits_len.simps)
  then have N: "nat (mc_big_n (air_MaxDegree A) (air_NumSteps A)) = 4096"
    by (simp add: A_def poseidon_full_air_def pf_consts mc_big_n_def mc_deg_bound_def mcBlowup_def)
  have "of_nat 4096 = (4096 :: u64)" by simp
  from poseidon_full.complete [OF s(2), folded A_def, unfolded N this, OF assms(3), of E "input @ take 4 out"]
  obtain pf z where "prove_air E xof A trace (input @ take 4 out) = Some pf" "ood_point xof A pf (input @ take 4 out) = Some z"
    "felt_exp z 4096 \<noteq> 1 \<longrightarrow> verify_air E xof A pf (input @ take 4 out) = Some True" by blast
  then show ?thesis
    by (simp add: prove_hash_full_def verify_hash_full_def b pf_public_inputs_def poseidonDigestLen_def A_def s(1))
qed

text \<open>The counting stand-in for SHAKE256 draws 0 as a challenge, and 0, 1, 2 and so on as indices.\<close>

lemma counting_zero: "challenge counting_xof label t = Some (x, t') \<Longrightarrow> x = 0"
proof -
  assume c: "challenge counting_xof label t = Some (x, t')"
  obtain buf t1 where b: "squeeze_for_felt counting_xof label 0 t = (buf, t1)" by (cases "squeeze_for_felt counting_xof label 0 t")
  then have buf: "take 8 buf = be64 0" "length buf = 128"
    by (auto simp: squeeze_for_felt_def squeeze_def read_clone_def Let_def counting_first length_counting)
  then have "blocks8 buf ! 0 = 0" "0 < length (blocks8 buf)" by (simp_all add: blocks8_def)
  then obtain xs where "blocks8 buf = 0 # xs" by (cases "blocks8 buf") auto
  then have "find (\<lambda>x. x < felt_P) (blocks8 buf) = Some 0" by (simp add: felt_P_def)
  then show "x = 0" using c by (subst (asm) challenge_def, subst (asm) challenge_loop.simps) (simp add: b from_uint64_def felt_P_def)
qed

lemma counting_block: "8 * Suc i \<le> n \<Longrightarrow> take 8 (drop (8 * i) (counting_xof m n)) = be64 (of_nat i)"
proof -
  assume "8 * Suc i \<le> n"
  then have i: "i < n div 8" by simp
  have len: "length (concat (map (\<lambda>i. be64 (of_nat i)) [0 ..< j])) = 8 * j" for j
    by (simp add: length_concat comp_def sum_list_triv)
  have "[0 ..< n div 8] = [0 ..< i] @ [i ..< n div 8]" using upt_add_eq_append [of 0 i "n div 8 - i"] i by simp
  then have "counting_xof m n = concat (map (\<lambda>i. be64 (of_nat i)) [0 ..< i]) @ be64 (of_nat i) @ concat (map (\<lambda>i. be64 (of_nat i)) [Suc i ..< n div 8])"
    using i by (simp add: counting_xof_def upt_conv_Cons)
  then show ?thesis by (simp add: len)
qed

lemma counting_indices:
  assumes mask: "\<And>i. i < 32 \<Longrightarrow> unat ((of_nat i :: u64) AND index_mask mx) = i" and mx: "32 \<le> mx" and i: "i \<le> 32"
  shows "index_loop counting_xof label 32 mx (\<lambda>out x. x \<notin> set out) t c (counting_xof m 512) (8 * i) [0 ..< i] = Some [0 ..< 32]"
  using i
proof (induction rule: inc_induct)
  case base
  show ?case by (subst index_loop.simps) simp
next
  case (step i)
  have "take 8 (drop (8 * i) (counting_xof m 512)) = be64 (of_nat i)" using step by (intro counting_block) simp
  then have x: "unat (of_be (take 8 (drop (8 * i) (counting_xof m 512))) AND index_mask mx) = i" using mask step by simp
  have "[0 ..< Suc i] = [0 ..< i] @ [i]" by simp
  then show ?case
    using step mx by (subst index_loop.simps) (simp add: length_counting x Let_def add.commute [of _ 8] del: upt_rec_numeral)
qed

lemma counting_positions_32:
  assumes mask: "\<And>i. i < 32 \<Longrightarrow> unat ((of_nat i :: u64) AND index_mask (nat mx)) = i" and mx: "32 \<le> mx"
  shows "query_positions counting_xof label 32 mx t \<noteq> None"
proof -
  obtain t' where b: "squeeze counting_xof domIdxChl label 512 t = (counting_xof (tr_sponge t @ request domIdxChl label 512) 512, t')"
    by (simp add: squeeze_def read_clone_def Let_def)
  have "index_loop counting_xof label 32 (nat mx) (\<lambda>out x. x \<notin> set out) t' 0 (counting_xof (tr_sponge t @ request domIdxChl label 512) 512) 0 [] = Some [0 ..< 32]"
    using counting_indices [OF mask, of 0] mx by simp
  then show ?thesis
    using mx by (simp add: query_positions_def challenge_indices_distinct_def draw_indices_def indices_lot_size_def b)
qed

lemma counting_air_draws: "air_draws_end counting_xof 4096"
proof -
  have m1: "index_mask 2048 = 2047" and m2: "index_mask 4096 = 4095" by (simp_all add: index_mask_def bits_needed.simps)
  have all: "\<forall>i \<in> set [0 ..< 32]. unat ((of_nat i :: u64) AND 2047) = i \<and> unat ((of_nat i :: u64) AND 4095) = i" by code_simp
  have "unat ((of_nat i :: u64) AND index_mask (nat 2048)) = i" "unat ((of_nat i :: u64) AND index_mask (nat 4096)) = i" if "i < 32" for i
  proof -
    have "i \<in> set [0 ..< 32]" using that by (simp only: set_upt) simp
    then show "unat ((of_nat i :: u64) AND index_mask (nat 2048)) = i" "unat ((of_nat i :: u64) AND index_mask (nat 4096)) = i"
      using all m1 m2 by (simp_all del: set_upt upt_rec_numeral)
  qed
  then have "query_positions counting_xof l 32 2048 t \<noteq> None" "query_positions counting_xof l 32 4096 t \<noteq> None" for l t
    using counting_positions_32 [of 2048] counting_positions_32 [of 4096] by simp_all
  then show ?thesis
    using counting_challenge counting_grind
    by (simp add: air_draws_end_def draws_end_def mc_fri_params_def mcNumQueries_def)
qed

theorem poseidon_hash_proved_witness:
  "\<exists>pf. prove_hash_full sample_hash counting_xof zero_params (replicate 12 0) = Some (take 4 (permute zero_params (replicate 12 0)), pf)
     \<and> verify_hash_full sample_hash counting_xof zero_params (replicate 12 0) (take 4 (permute zero_params (replicate 12 0))) pf = Some True"
proof -
  obtain pf z where p: "prove_hash_full sample_hash counting_xof zero_params (replicate 12 0) = Some (take 4 (permute zero_params (replicate 12 0)), pf)"
    and z: "ood_point counting_xof (poseidon_full_air zero_params (replicate 12 0) (take 4 (permute zero_params (replicate 12 0)))) pf
        (replicate 12 0 @ take 4 (permute zero_params (replicate 12 0))) = Some z"
    and v: "felt_exp z 4096 \<noteq> 1 \<longrightarrow> verify_hash_full sample_hash counting_xof zero_params (replicate 12 0) (take 4 (permute zero_params (replicate 12 0))) pf = Some True"
    using poseidon_hash_proved [OF zero_params_ok counting_air_draws, of sample_hash] by blast
  have "z = 0" using z by (auto simp: ood_point_def Let_def bind_eq_Some_conv dest: counting_zero)
  moreover have "felt_exp 0 4096 \<noteq> 1" by code_simp
  ultimately show ?thesis using p v by blast
qed

end
