(* ===== verification/Spec2Isabelle.thy ===== *)
theory Spec2Isabelle
  imports WireProps CryptoProps ChainProps Host EngineProps StoreProps PoseidonAirProps
begin

text \<open>
  \<^bold>\<open>chaingo: a proof-of-stake chain with deterministic finality, shielded transfers and WASM contracts.\<close>

  \<^bold>\<open>The program.\<close> A node (\<^verbatim>\<open>internal/node\<close>) takes transactions into a mempool (\<^verbatim>\<open>internal/mempool\<close>). Every
  interval the consensus engine (\<^verbatim>\<open>internal/consensus\<close>) elects a proposer among the validators of the
  ledger (\<^verbatim>\<open>internal/state\<close>); the proposer executes the transactions it takes from the mempool, builds a
  block (\<^verbatim>\<open>internal/types\<close>) and sends it and its prevote and precommit to the others. They validate the
  block against the ledger, execute it strictly, compare the state root and vote in turn. A block whose
  parent has precommits of more than two thirds of the frozen validator set carries them as its commit and
  finalizes the parent. A block of a later round with a quorum of prevotes can replace the tip or a buried
  block above the finalized height. The ledger calls the WASM host (\<^verbatim>\<open>internal/wasmvm\<close>) for contracts and
  the STARK verifier (\<^verbatim>\<open>internal/stark\<close>) for shielded spends; its root can also be taken over a sparse
  Merkle tree (\<^verbatim>\<open>internal/smt\<close>).

  \<^bold>\<open>Theories.\<close> Each states its definitions in the order of the Go file it models.
  \<^item> \<open>ChainPrelude\<close>: words, byte strings, results as sums, finite maps with sorted iteration.
  \<^item> \<open>Codec\<close> (\<^verbatim>\<open>codec/codec.go\<close>), \<open>ChainTypes\<close> (\<^verbatim>\<open>types/*.go\<close>, \<^verbatim>\<open>crypto/crypto.go\<close>), \<open>TxCodec\<close>
    (\<^verbatim>\<open>types/tx_codec.go\<close>), \<open>BlockCodec\<close> (\<^verbatim>\<open>types/block_codec.go\<close>): data, stateless checks, wire format.
  \<^item> \<open>Meter\<close> (\<^verbatim>\<open>wasmvm/meter.go\<close>, \<^verbatim>\<open>consensus.go\<close>), \<open>Host\<close> (\<^verbatim>\<open>wasmvm/host.go\<close>, \<^verbatim>\<open>vm.go\<close>): the gas meter that
    rewrites a module and the sandbox of a call.
  \<^item> \<open>Field\<close>, \<open>FieldInv\<close> (\<^verbatim>\<open>stark/field.go\<close>), \<open>Merkle\<close> (\<^verbatim>\<open>stark/merkle.go\<close>), \<open>Poseidon\<close> (\<^verbatim>\<open>stark/poseidon.go\<close>,
    \<^verbatim>\<open>merkle_poseidon.go\<close>, \<^verbatim>\<open>spendn_codec.go\<close>), \<open>Smt\<close> (\<^verbatim>\<open>smt/smt.go\<close>): arithmetic and commitments.
  \<^item> \<open>Ntt\<close> (\<^verbatim>\<open>stark/ntt.go\<close>), \<open>Transcript\<close> (\<^verbatim>\<open>stark/transcript.go\<close>), \<open>Fri\<close> (\<^verbatim>\<open>stark/fri.go\<close>): the low-degree test of
    the STARK. \<open>Dft\<close> is the transform over any commutative ring, \<open>NttField\<close> embeds the 64-bit elements into the
    integers modulo the prime and shows that the loops compute it, \<open>FriProps\<close> follows the rounds of the test.
  \<^item> \<open>PolyOps\<close> (\<^verbatim>\<open>stark/stark_air.go\<close>), \<open>Air\<close> (\<^verbatim>\<open>stark/stark_mc.go\<close>), \<open>PoseidonAir\<close> (\<^verbatim>\<open>stark/poseidon_air_full.go\<close>):
    the STARK over a trace of several columns, its constraint system a record \<open>air\<close>, and the constraint system of
    the Poseidon permutation. \<open>AirField\<close> reads columns as polynomials, \<open>AirDegree\<close> bounds the degree of
    constraints, \<open>AirQuotients\<close> holds the locale \<open>algebraic_air\<close> (what the Go interface \<^verbatim>\<open>AIR\<close> asks of its
    implementations) and the exact quotients, \<open>AirComp\<close> follows the composition and \<open>AirProps\<close> the proof to its
    acceptance; \<open>PoseidonAirProps\<close> interprets the locale. A proof is rejected when the point drawn out of the
    domain lies in it, so acceptance is stated with \<open>felt_exp z 4096 \<noteq> 1\<close>. The prover's goroutines write disjoint
    slots of slices that nobody reads before they end; the model fills them in order.
  \<^item> \<open>ChainState\<close>, \<open>StateOps\<close>, \<open>StateTx\<close> (\<^verbatim>\<open>state/state.go\<close>): the ledger as a record, its internal
    operations, one handler per transaction type, \<open>apply_tx\<close> and \<open>execute\<close>; \<open>Genesis\<close> (\<^verbatim>\<open>genesis/genesis.go\<close>).
  \<^item> \<open>Conserve\<close>, \<open>Frames\<close>, \<open>Replay\<close>, \<open>Chain\<close>, \<open>Stakes\<close>, \<open>Vaults\<close>, \<open>Pool\<close>, \<open>Position\<close>: lemmas about the ledger.
    \<open>Chain\<close> holds the locales \<open>execution_invariant\<close> and \<open>block_invariant\<close>: what every handler keeps, every
    executed block and every reachable state keeps. \<open>Stakes\<close> (delegations), \<open>Vaults\<close> (multisig and DAO),
    \<open>Pool\<close> (shielded notes) and \<open>Position\<close> (height and finality) interpret them.
  \<^item> \<open>Mempool\<close> (\<^verbatim>\<open>mempool/mempool.go\<close>), \<open>Votes\<close> (\<^verbatim>\<open>consensus/finality.go\<close>), \<open>Engine\<close> (\<^verbatim>\<open>consensus/engine.go\<close>).
    The engine is a record with the fields of the Go struct; every handler returns the new record, and
    \<open>handled\<close> distinguishes a return from a panic and from an execution that does not end.
  \<^item> \<open>EngineRuns\<close>, \<open>Quorum\<close>, \<open>Forge\<close>, \<open>EngineSound\<close>: steps and runs of an engine, quorum arithmetic on 64-bit
    words, the block a proposer builds, and the locale \<open>engine_invariant\<close>, which reduces an invariant of all
    steps to the primitive changes of vote pool, evidence and mempool; it is interpreted for the mempool, for
    the identity of the node and for verified votes and evidence.
  \<^item> \<open>Store\<close> (\<^verbatim>\<open>store/store.go\<close>): the buckets of the block store over a record of the operations of bbolt;
    \<open>StoreProps\<close> states the laws of an ordered key-value store it relies on and instantiates them with finite maps.
  \<^item> \<open>WireProps\<close>, \<open>CryptoProps\<close>, \<open>LedgerProps\<close>, \<open>ChainProps\<close>, \<open>VoteProps\<close>, \<open>EngineProps\<close>, \<open>StoreProps\<close>,
    \<open>NttField\<close>, \<open>FriProps\<close>, \<open>PoseidonAirProps\<close>: the properties, each under its number, with a concrete instance where it has hypotheses.

  \<^bold>\<open>Conventions.\<close> Go's \<^verbatim>\<open>uint64\<close>, \<^verbatim>\<open>int64\<close> and \<^verbatim>\<open>uint32\<close> are words, with their wrap-around; \<^verbatim>\<open>int\<close> indexes of
  the gas meter are 64-bit words too, elsewhere lengths are natural numbers. Strings are character lists,
  bytes are words of 8 bits, maps are finite maps; where Go's iteration order reaches the result it is a
  parameter (\<open>x_range\<close>, \<open>x_visit\<close>, the order argument of \<open>pool_take\<close>), and where the code sorts, so does the
  model. Errors are values of sum types, one constructor per error of the source. Time is an argument.
  The mutexes are not modelled: each handler holds its lock throughout and is one step.

  \<^bold>\<open>Parameters.\<close> The record \<open>ext\<close> and its extensions hold what is not in the repository: SHA-3 and ed25519,
  the JSON encoders, the STARK verifier as seen by the ledger, the Poseidon constants, the outcome of a WASM
  call, the JSON form of the state and the order in which Go ranges over a map. Named hypotheses state what
  is relied on, e.g. \<open>sign_ok\<close> (a key verifies what it signs).

  \<^bold>\<open>Termination and fuel.\<close> The loop of the gas meter may revisit a position; \<open>body_loop_src\<close> is a
  \<open>partial_function (option)\<close>, so not returning is the value \<open>None\<close>, and the execution of a block can be
  \<open>ExecHung\<close>. So are the draws of the transcript, which reject values until SHAKE256 gives a good one, and the
  cursor walk of the store. All other loops are structural recursions or have a termination proof; no fuel is used.

  \<^bold>\<open>Not modelled.\<close> The constraint systems of set membership and of spends, and the two demonstrations with a prover of
  their own (Fibonacci, power map); the soundness of the STARK, which is probabilistic; the peer-to-peer
  layer (\<^verbatim>\<open>internal/p2p\<close>), the HTTP server (\<^verbatim>\<open>internal/api\<close>), the command line and the wallets, which
  are input and output around the modelled parts; the JSON encoders of the standard library.
\<close>

end
